(* ===== verification/Prelude.thy ===== *)
theory Prelude
  imports Complex_Main "HOL-Library.Sublist"
begin

text \<open>
  Shared vocabulary of the development. Go values are modelled as follows.
  \<^item> A Go \<open>string\<close> or \<open>[]byte\<close> is a \<^typ>\<open>string\<close>, a list of \<^typ>\<open>char\<close>; a \<^typ>\<open>char\<close> is
    one byte, as in Go, never a code point.
  \<^item> A \<open>time.Time\<close> is an \<^typ>\<open>int\<close>: nanoseconds since the zero \<open>time.Time\<close>, so that
    \<open>t.IsZero()\<close> is \<open>t = 0\<close>; a \<open>time.Duration\<close> is an \<^typ>\<open>int\<close> of nanoseconds. Every
    reading of \<open>time.Now()\<close> is an argument of the operation that makes it.
  \<^item> A Go \<open>int\<close>/\<open>int64\<close> is an \<^typ>\<open>int\<close>; where a result can leave the 64-bit range
    (\<open>wrap64\<close> below) the wrap-around is written out.
  \<^item> A Go map is a \<open>'k \<rightharpoonup> 'v\<close>; a nil map and an empty one are the same map.
  \<^item> An operation that mutates its receiver returns the new receiver; a Go \<open>error\<close> result is
    a value of a sum type, \<^const>\<open>Inl\<close> the error.
\<close>

named_theorems ready_simps \<open>unfolding of the readiness tests of a credential\<close>
named_theorems sched_defs \<open>definitions of the scheduler's operations\<close>
named_theorems redis_defs \<open>definitions of the Redis runtime store's operations\<close>
named_theorems sse_defs \<open>definitions of the SSE writer's operations\<close>

type_synonym gotime = int
type_synonym duration = int
type_synonym bytes = "char list"
type_synonym float64 = rat

section \<open>Durations\<close>

definition nanosecond :: duration where "nanosecond = 1"
definition millisecond :: duration where "millisecond = 1000000"
definition second :: duration where "second = 1000000000"
definition minute :: duration where "minute = 60 * 1000000000"
definition hour :: duration where "hour = 3600 * 1000000000"

lemmas duration_defs = nanosecond_def millisecond_def second_def minute_def hour_def

section \<open>Two's-complement arithmetic\<close>

text \<open>The value a Go \<open>int64\<close> holds after an arithmetic operation with exact result \<open>x\<close>.\<close>

definition wrap64 :: "int \<Rightarrow> int" where
  "wrap64 x = (x + 2 ^ 63) mod 2 ^ 64 - 2 ^ 63"

lemma wrap64_id: "- (2 ^ 63) \<le> x \<Longrightarrow> x < 2 ^ 63 \<Longrightarrow> wrap64 x = x"
  by (simp add: wrap64_def)

lemma wrap64_range: "- (2 ^ 63) \<le> wrap64 x" "wrap64 x < 2 ^ 63"
  using pos_mod_sign [of "2 ^ 64 :: int" "x + 2 ^ 63"]
    pos_mod_bound [of "2 ^ 64 :: int" "x + 2 ^ 63"]
  by (auto simp: wrap64_def)

section \<open>Lists\<close>

lemma take_drop_prefix_eq: "take n xs = ys \<Longrightarrow> xs = ys @ drop n xs"
  by (metis append_take_drop_id)

lemma prefix_within: "prefix p (xs @ ys) \<Longrightarrow> length p \<le> length xs \<Longrightarrow> prefix p xs"
  by (metis append_Nil2 length_append less_add_same_cancel1 not_less prefix_append prefix_length_le append_eq_append_conv_if prefix_def take_all_iff)

lemma prefix_beyond:
  assumes "prefix p (xs @ ys)" "length xs \<le> length p"
  shows "p = xs @ drop (length xs) p" "prefix (drop (length xs) p) ys"
proof -
  obtain zs where zs: "xs @ ys = p @ zs" using assms(1) by (auto simp: prefix_def)
  then have "xs = take (length xs) p" using assms(2)
    by (metis append_eq_append_conv_if append_eq_conv_conj not_less take_all_iff take_append)
  then show p: "p = xs @ drop (length xs) p" by (metis append_take_drop_id)
  from zs have "xs @ ys = xs @ drop (length xs) p @ zs" using p by (metis append.assoc)
  then show "prefix (drop (length xs) p) ys" by (auto simp: prefix_def)
qed

lemma suffix_same_length: "suffix xs zs \<Longrightarrow> suffix ys zs \<Longrightarrow> length xs \<le> length ys \<Longrightarrow> suffix xs ys"
  by (rule suffix_length_suffix)

lemma suffix_eq_drop: "suffix xs ys \<longleftrightarrow> length xs \<le> length ys \<and> xs = drop (length ys - length xs) ys"
  by (metis suffix_def suffix_length_le append_eq_conv_conj length_append diff_add_inverse2
      append_take_drop_id suffix_drop)

lemma suffix_snocD: "suffix (xs @ [x]) (ys @ [y]) \<longleftrightarrow> x = y \<and> suffix xs ys"
  by auto

lemma filter_distinct_card: "distinct xs \<Longrightarrow> card {x \<in> set xs. P x} = length (filter P xs)"
  by (metis distinct_card distinct_filter set_filter)

lemma map_of_zip_order: "distinct xs \<Longrightarrow> dom (map_of (map (\<lambda>x. (x, f x)) xs)) = set xs"
  by (induction xs) auto

lemma map_of_filter_values:
  "distinct (map fst xs) \<Longrightarrow> map_of (filter (\<lambda>(k, e). P e) xs) s =
     (case map_of xs s of None \<Rightarrow> None | Some e \<Rightarrow> if P e then Some e else None)"
proof (induction xs)
  case (Cons x xs)
  then show ?case
    by (cases x) (auto split: option.splits dest: map_of_SomeD intro: rev_image_eqI)
qed simp

end
