(* ===== verification/Go_Strings.thy ===== *)
theory Go_Strings
  imports Prelude
begin

text \<open>
  The parts of Go's \<open>strings\<close> and \<open>unicode/utf8\<close> packages the modelled code calls, on byte
  strings: substring search, prefix and suffix tests, UTF-8 decoding with Go's rule that an
  invalid byte is one rune of width 1, rune counting and splitting after a number of runes.
  The second half develops valid UTF-8: concatenation, splitting at rune boundaries and the
  fact that a boundary is exactly a position whose byte is no continuation byte.
\<close>

section \<open>Substring search\<close>

text \<open>\<open>strings.Index\<close>: the least offset at which \<open>p\<close> occurs in \<open>s\<close>.\<close>

fun str_index :: "'a list \<Rightarrow> 'a list \<Rightarrow> nat option" where
  "str_index [] p = (if p = [] then Some 0 else None)"
| "str_index (c # s) p =
     (if take (length p) (c # s) = p then Some 0 else map_option Suc (str_index s p))"

definition has_prefix :: "'a list \<Rightarrow> 'a list \<Rightarrow> bool" where
  "has_prefix s p \<longleftrightarrow> take (length p) s = p"

definition has_suffix :: "'a list \<Rightarrow> 'a list \<Rightarrow> bool" where
  "has_suffix s p \<longleftrightarrow> length p \<le> length s \<and> drop (length s - length p) s = p"

definition str_contains :: "'a list \<Rightarrow> 'a list \<Rightarrow> bool" where
  "str_contains s p \<longleftrightarrow> str_index s p \<noteq> None"

definition str_occurs :: "'a list \<Rightarrow> 'a list \<Rightarrow> bool" where
  "str_occurs p s \<longleftrightarrow> (\<exists>u v. s = u @ p @ v)"

section \<open>UTF-8 decoding\<close>

definition rune_error :: nat where "rune_error = 0xFFFD"

definition byte_in :: "nat \<Rightarrow> nat \<Rightarrow> char \<Rightarrow> bool" where
  "byte_in lo hi c \<longleftrightarrow> lo \<le> of_char c \<and> of_char c \<le> hi"

abbreviation is_cont :: "char \<Rightarrow> bool" where
  "is_cont \<equiv> byte_in 0x80 0xBF"

text \<open>
  The table \<open>first\<close> of \<open>unicode/utf8\<close>: for a leading byte, the width of the sequence and
  the range its second byte must lie in; \<open>None\<close> for a byte that starts no sequence.
\<close>

definition lead_info :: "char \<Rightarrow> (nat \<times> nat \<times> nat) option" where
  "lead_info c =
     (let b = of_char c :: nat in
      if b < 0x80 then Some (1, 0, 0)
      else if b < 0xC2 then None
      else if b < 0xE0 then Some (2, 0x80, 0xBF)
      else if b = 0xE0 then Some (3, 0xA0, 0xBF)
      else if b = 0xED then Some (3, 0x80, 0x9F)
      else if b < 0xF0 then Some (3, 0x80, 0xBF)
      else if b = 0xF0 then Some (4, 0x90, 0xBF)
      else if b < 0xF4 then Some (4, 0x80, 0xBF)
      else if b = 0xF4 then Some (4, 0x80, 0x8F)
      else None)"

text \<open>\<open>utf8.DecodeRuneInString\<close>: the rune and its width in bytes.\<close>

definition decode_rune :: "bytes \<Rightarrow> nat \<times> nat" where
  "decode_rune s =
     (case s of
        [] \<Rightarrow> (rune_error, 0)
      | c # cs \<Rightarrow>
          (case lead_info c of
             None \<Rightarrow> (rune_error, 1)
           | Some (sz, lo, hi) \<Rightarrow>
               if sz = 1 then (of_char c, 1)
               else if length s < sz then (rune_error, 1)
               else if \<not> byte_in lo hi (s ! 1) then (rune_error, 1)
               else if sz = 2 then
                 ((of_char c mod 0x20) * 0x40 + of_char (s ! 1) mod 0x40, 2)
               else if \<not> is_cont (s ! 2) then (rune_error, 1)
               else if sz = 3 then
                 ((of_char c mod 0x10) * 0x1000 + (of_char (s ! 1) mod 0x40) * 0x40
                    + of_char (s ! 2) mod 0x40, 3)
               else if \<not> is_cont (s ! 3) then (rune_error, 1)
               else
                 ((of_char c mod 0x08) * 0x40000 + (of_char (s ! 1) mod 0x40) * 0x1000
                    + (of_char (s ! 2) mod 0x40) * 0x40 + of_char (s ! 3) mod 0x40, 4)))"

definition rune_size :: "bytes \<Rightarrow> nat" where
  "rune_size s = snd (decode_rune s)"

text \<open>The head of \<open>s\<close> is a well-formed sequence (Go: not \<open>(RuneError, 1)\<close>).\<close>

definition valid_head :: "bytes \<Rightarrow> bool" where
  "valid_head s \<longleftrightarrow>
     (case s of
        [] \<Rightarrow> False
      | c # cs \<Rightarrow>
          (case lead_info c of
             None \<Rightarrow> False
           | Some (sz, lo, hi) \<Rightarrow>
               sz = 1 \<or>
               sz \<le> length s \<and> byte_in lo hi (s ! 1) \<and> (2 < sz \<longrightarrow> is_cont (s ! 2)) \<and>
               (3 < sz \<longrightarrow> is_cont (s ! 3))))"

lemma lead_info_size: "lead_info c = Some (sz, lo, hi) \<Longrightarrow> 1 \<le> sz \<and> sz \<le> 4"
  by (auto simp: lead_info_def Let_def split: if_splits)

lemma lead_info_cont: "lead_info c = Some (sz, lo, hi) \<Longrightarrow> sz \<noteq> 1 \<Longrightarrow> 0x80 \<le> lo \<and> hi \<le> 0xBF"
  by (auto simp: lead_info_def Let_def split: if_splits)

lemma lead_info_not_cont: "lead_info c = Some (sz, lo, hi) \<Longrightarrow> \<not> is_cont c"
  by (auto simp: lead_info_def byte_in_def Let_def split: if_splits)

lemma rune_size_Nil [simp]: "rune_size [] = 0"
  by (simp add: rune_size_def decode_rune_def)

lemma rune_size_Cons:
  "rune_size (c # cs) =
     (if valid_head (c # cs)
      then (case lead_info c of Some (sz, lo, hi) \<Rightarrow> sz | None \<Rightarrow> 1) else 1)"
  using lead_info_size [of c]
  by (auto simp: rune_size_def decode_rune_def valid_head_def Suc_le_eq split: option.splits)

lemma rune_size_pos: "s \<noteq> [] \<Longrightarrow> 0 < rune_size s"
  by (cases s) (auto simp: rune_size_Cons dest: lead_info_size split: option.splits)

lemma rune_size_le: "rune_size s \<le> length s"
  by (cases s) (auto simp: rune_size_Cons valid_head_def Suc_le_eq split: option.splits)

section \<open>Counting and splitting by runes\<close>

text \<open>\<open>utf8.RuneCountInString\<close>.\<close>

function rune_count :: "bytes \<Rightarrow> nat" where
  "rune_count s = (if s = [] then 0 else Suc (rune_count (drop (rune_size s) s)))"
  by pat_completeness auto
termination
  by (relation "measure length") (auto simp: rune_size_pos)

declare rune_count.simps [simp del]

text \<open>The byte offset after the first \<open>n\<close> runes, and the bytes before it.\<close>

fun rune_offset :: "nat \<Rightarrow> bytes \<Rightarrow> nat" where
  "rune_offset 0 s = 0"
| "rune_offset (Suc n) s =
     (if s = [] then 0 else rune_size s + rune_offset n (drop (rune_size s) s))"

definition rune_take :: "nat \<Rightarrow> bytes \<Rightarrow> bytes" where
  "rune_take n s = take (rune_offset n s) s"

definition rune_drop :: "nat \<Rightarrow> bytes \<Rightarrow> bytes" where
  "rune_drop n s = drop (rune_offset n s) s"

text \<open>The runes of a string, in order (a \<open>range\<close> loop over it).\<close>

function runes :: "bytes \<Rightarrow> nat list" where
  "runes s = (if s = [] then [] else fst (decode_rune s) # runes (drop (rune_size s) s))"
  by pat_completeness auto
termination
  by (relation "measure length") (auto simp: rune_size_pos)

declare runes.simps [simp del]

text \<open>\<open>unicode.IsSpace\<close>, and the test \<open>strings.TrimSpace(s) == ""\<close>.\<close>

definition is_space_rune :: "nat \<Rightarrow> bool" where
  "is_space_rune r \<longleftrightarrow>
     r \<in> {0x09, 0x0A, 0x0B, 0x0C, 0x0D, 0x20, 0x85, 0xA0, 0x1680, 0x2028, 0x2029, 0x202F, 0x205F, 0x3000}
     \<or> (0x2000 \<le> r \<and> r \<le> 0x200A)"

definition all_space :: "bytes \<Rightarrow> bool" where
  "all_space s \<longleftrightarrow> list_all is_space_rune (runes s)"

lemma all_space_Nil [simp]: "all_space []"
  by (simp add: all_space_def runes.simps)

text \<open>\<open>utf8.DecodeLastRuneInString\<close> and \<open>strings.TrimSpace\<close>.\<close>

definition decode_last_rune :: "bytes \<Rightarrow> nat \<times> nat" where
  "decode_last_rune s =
     (if s = [] then (rune_error, 0)
      else
        (let e = length s in
         if of_char (last s) < (0x80 :: nat) then (of_char (last s), 1)
         else
           (let lim = e - 4;
                start = (case find (\<lambda>i. \<not> is_cont (s ! i)) (rev [lim..<e - 1]) of Some i \<Rightarrow> i | None \<Rightarrow> lim - 1);
                (r, sz) = decode_rune (drop start s)
            in if start + sz \<noteq> e then (rune_error, 1) else (r, sz))))"

function trim_left :: "bytes \<Rightarrow> bytes" where
  "trim_left s =
     (if s = [] then [] else if is_space_rune (fst (decode_rune s)) then trim_left (drop (rune_size s) s) else s)"
  by pat_completeness auto
termination
  by (relation "measure length") (auto simp: rune_size_pos)

declare trim_left.simps [simp del]

function trim_right :: "bytes \<Rightarrow> bytes" where
  "trim_right s =
     (if s = [] then []
      else if is_space_rune (fst (decode_last_rune s)) \<and> 0 < snd (decode_last_rune s)
      then trim_right (take (length s - snd (decode_last_rune s)) s) else s)"
  by pat_completeness auto
termination
  by (relation "measure length") auto

declare trim_right.simps [simp del]

definition TrimSpace :: "bytes \<Rightarrow> bytes" where
  "TrimSpace s = trim_right (trim_left s)"

text \<open>The ASCII case, with which white space is recognised by comparing characters.\<close>

lemma runes_ascii: "\<not> digit7 c \<Longrightarrow> runes (c # s) = of_char c # runes s"
proof -
  assume "\<not> digit7 c"
  then have "of_char c < (0x80 :: nat)" by (cases c) (simp add: of_char_Char)
  then have "decode_rune (c # s) = (of_char c, 1)" by (simp add: decode_rune_def lead_info_def)
  then show ?thesis by (simp add: runes.simps [of "c # s"] rune_size_def)
qed

definition ascii_spaces :: string where
  "ascii_spaces = [CHR 0x09, CHR 0x0A, CHR 0x0B, CHR 0x0C, CHR 0x0D, CHR 0x20]"

lemma ascii_space_iff: "\<not> digit7 c \<Longrightarrow> is_space_rune (of_char c) \<longleftrightarrow> c \<in> set ascii_spaces"
proof -
  assume "\<not> digit7 c"
  then have lt: "of_char c < (0x80 :: nat)" by (cases c) (simp add: of_char_Char)
  have eq: "c = d \<longleftrightarrow> (of_char c :: nat) = of_char d" for d by (rule of_char_eq_iff [symmetric])
  have "c \<in> set ascii_spaces \<longleftrightarrow> of_char c \<in> {0x09, 0x0A, 0x0B, 0x0C, 0x0D, 0x20 :: nat}"
    by (simp add: ascii_spaces_def eq del: of_char_eq_iff)
  with lt show ?thesis by (auto simp: is_space_rune_def)
qed

lemma trim_left_ascii:
  "\<not> digit7 c \<Longrightarrow> trim_left (c # s) = (if c \<in> set ascii_spaces then trim_left s else c # s)"
proof -
  assume c: "\<not> digit7 c"
  then have "of_char c < (0x80 :: nat)" by (cases c) (simp add: of_char_Char)
  then have "decode_rune (c # s) = (of_char c, 1)" by (simp add: decode_rune_def lead_info_def)
  with ascii_space_iff [OF c] show ?thesis by (simp add: trim_left.simps [of "c # s"] rune_size_def)
qed

lemma trim_right_ascii:
  "s \<noteq> [] \<Longrightarrow> \<not> digit7 (last s) \<Longrightarrow>
   trim_right s = (if last s \<in> set ascii_spaces then trim_right (butlast s) else s)"
proof -
  assume s: "s \<noteq> []" "\<not> digit7 (last s)"
  then have "of_char (last s) < (0x80 :: nat)" by (cases "last s") (simp add: of_char_Char)
  then have "decode_last_rune s = (of_char (last s), 1)" using s by (simp add: decode_last_rune_def)
  with ascii_space_iff [OF s(2)] s(1) show ?thesis by (simp add: trim_right.simps [of s] butlast_conv_take)
qed

lemma all_space_code [code]:
  "all_space s =
     (case s of
        [] \<Rightarrow> True
      | c # cs \<Rightarrow> if digit7 c then list_all is_space_rune (runes s) else c \<in> set ascii_spaces \<and> all_space cs)"
  by (cases s) (auto simp: all_space_def runes.simps [of "[]"] runes_ascii ascii_space_iff)

function valid_utf8 :: "bytes \<Rightarrow> bool" where
  "valid_utf8 s =
     (if s = [] then True
      else if valid_head s then valid_utf8 (drop (rune_size s) s) else False)"
  by pat_completeness auto
termination
  by (relation "measure length") (auto simp: rune_size_pos)

declare valid_utf8.simps [simp del]

section \<open>Facts about substring search\<close>

lemma str_index_SomeD: "str_index s p = Some i \<Longrightarrow> s = take i s @ p @ drop (i + length p) s"
proof (induction s p arbitrary: i rule: str_index.induct)
  case (1 p)
  then show ?case by (auto split: if_splits)
next
  case (2 c s p)
  show ?case
  proof (cases "take (length p) (c # s) = p")
    case True
    with 2 show ?thesis by (metis append_take_drop_id str_index.simps(2) option.inject take0 append_Nil add_0)
  next
    case False
    with 2 show ?thesis by auto
  qed
qed

lemma str_index_bound: "str_index s p = Some i \<Longrightarrow> i + length p \<le> length s"
proof (induction s p arbitrary: i rule: str_index.induct)
  case (1 p)
  then show ?case by (auto split: if_splits)
next
  case (2 c s p)
  show ?case
  proof (cases "take (length p) (c # s) = p")
    case True
    then have "length p \<le> length (c # s)" by (metis length_take min.cobounded1)
    with True 2 show ?thesis by auto
  next
    case False
    with 2 show ?thesis by auto
  qed
qed

lemma str_index_at: "str_index s p = Some i \<Longrightarrow> take (length p) (drop i s) = p"
  using str_index_SomeD [of s p i] str_index_bound [of s p i]
  by (metis add_leD1 append_eq_conv_conj length_take min.absorb2)

lemma str_index_least: "str_index s p = Some i \<Longrightarrow> j < i \<Longrightarrow> take (length p) (drop j s) \<noteq> p"
proof (induction s p arbitrary: i j rule: str_index.induct)
  case (1 p)
  then show ?case by (auto split: if_splits)
next
  case (2 c s p)
  then show ?case by (cases j) (auto split: if_splits)
qed

lemma str_index_first: "str_index s p = Some i \<Longrightarrow> s = u @ p @ v \<Longrightarrow> i \<le> length u"
  using str_index_least [of s p i "length u"] by (cases "length u < i") auto

lemma str_index_None: "str_index s p = None \<longleftrightarrow> \<not> str_occurs p s"
proof (induction s p rule: str_index.induct)
  case (1 p)
  show ?case by (auto simp: str_occurs_def)
next
  case (2 c s p)
  have step: "str_occurs p (c # s) \<longleftrightarrow> take (length p) (c # s) = p \<or> str_occurs p s"
    unfolding str_occurs_def
    by (metis (no_types, opaque_lifting) Cons_eq_append_conv append_Cons append_eq_conv_conj append_take_drop_id append_Nil)
  show ?case using "2.IH" by (auto simp: step)
qed

lemma str_occurs_empty [simp]: "str_occurs [] s"
  by (auto simp: str_occurs_def)

lemma str_occurs_appendL: "str_occurs p s \<Longrightarrow> str_occurs p (s @ t)"
  unfolding str_occurs_def by (metis append.assoc)

lemma str_occurs_appendR: "str_occurs p s \<Longrightarrow> str_occurs p (t @ s)"
  unfolding str_occurs_def by (metis append.assoc)

section \<open>Facts about UTF-8\<close>

lemma valid_head_lead: "valid_head s \<Longrightarrow> \<not> is_cont (s ! 0)"
  by (auto simp: valid_head_def dest: lead_info_not_cont split: list.splits option.splits)

lemma valid_head_append: "valid_head s \<Longrightarrow> valid_head (s @ t) \<and> rune_size (s @ t) = rune_size s"
proof (cases s)
  case Nil
  then show "valid_head s \<Longrightarrow> ?thesis" by (simp add: valid_head_def)
next
  case (Cons c cs)
  assume "valid_head s"
  with Cons have "valid_head (s @ t)"
    using lead_info_size [of c]
    by (fastforce simp: valid_head_def nth_append nth_Cons' split: option.splits)
  with Cons \<open>valid_head s\<close> show ?thesis by (simp add: rune_size_Cons)
qed

lemma valid_head_nonempty: "valid_head s \<Longrightarrow> s \<noteq> []"
  by (auto simp: valid_head_def)

lemma valid_head_conts:
  assumes "valid_head s" "0 < i" "i < rune_size s"
  shows "is_cont (s ! i)"
proof -
  obtain c cs sz lo hi where s: "s = c # cs" and l: "lead_info c = Some (sz, lo, hi)"
    using assms(1) by (auto simp: valid_head_def split: list.splits option.splits)
  have "rune_size s = sz" using assms(1) l s by (simp add: rune_size_Cons)
  with assms have sz: "i < sz" "sz \<noteq> 1" by auto
  then have "i = 1 \<or> i = 2 \<or> i = 3" using lead_info_size [OF l] assms(2) by auto
  moreover have "byte_in lo hi (s ! 1)" "2 < sz \<Longrightarrow> is_cont (s ! 2)" "3 < sz \<Longrightarrow> is_cont (s ! 3)"
    using assms(1) l s sz by (auto simp: valid_head_def)
  moreover have "0x80 \<le> lo" "hi \<le> 0xBF" using lead_info_cont [OF l sz(2)] by auto
  ultimately show ?thesis using sz by (auto simp: byte_in_def)
qed

lemma rune_size_take: "rune_size s \<le> m \<Longrightarrow> rune_size (take m s) = rune_size s"
proof (cases "valid_head s")
  case False
  assume "rune_size s \<le> m"
  have nv: "\<not> valid_head (take m s)"
    using False valid_head_append [of "take m s" "drop m s"] by auto
  show ?thesis
  proof (cases s)
    case (Cons c cs)
    with \<open>rune_size s \<le> m\<close> have "0 < m" using rune_size_pos [of s] by auto
    then obtain k where k: "m = Suc k" by (cases m) auto
    show ?thesis using False nv Cons k by (simp add: rune_size_Cons)
  qed simp
next
  case True
  assume le: "rune_size s \<le> m"
  obtain c cs sz lo hi where s: "s = c # cs" and l: "lead_info c = Some (sz, lo, hi)"
    using True by (auto simp: valid_head_def split: list.splits option.splits)
  have sz: "rune_size s = sz" using True l s by (simp add: rune_size_Cons)
  from lead_info_size [OF l] le sz obtain k where k: "m = Suc k" by (cases m) auto
  have "valid_head (take m s)"
    using True le sz l s k lead_info_size [OF l]
    by (auto simp: valid_head_def)
  then show ?thesis using k s l sz by (simp add: rune_size_Cons)
qed

lemma valid_utf8_Nil [simp]: "valid_utf8 []"
  by (simp add: valid_utf8.simps)

lemma valid_utf8_head: "s \<noteq> [] \<Longrightarrow> valid_utf8 s \<longleftrightarrow> valid_head s \<and> valid_utf8 (drop (rune_size s) s)"
  by (simp add: valid_utf8.simps [of s])

lemma rune_count_Nil [simp]: "rune_count [] = 0"
  by (simp add: rune_count.simps)

lemma rune_count_step: "s \<noteq> [] \<Longrightarrow> rune_count s = Suc (rune_count (drop (rune_size s) s))"
  by (simp add: rune_count.simps [of s])

lemma rune_count_pos: "s \<noteq> [] \<Longrightarrow> 0 < rune_count s"
  by (simp add: rune_count_step)

lemma valid_utf8_append: "valid_utf8 a \<Longrightarrow> valid_utf8 (a @ b) \<longleftrightarrow> valid_utf8 b"
proof (induction a rule: valid_utf8.induct)
  case (1 a)
  show ?case
  proof (cases "a = []")
    case False
    with "1.prems" have v: "valid_head a" "valid_utf8 (drop (rune_size a) a)"
      by (auto simp: valid_utf8_head)
    with False 1 show ?thesis
      by (simp add: valid_utf8_head [of "a @ b"] valid_head_append rune_size_le)
  qed simp
qed

lemma rune_count_append: "valid_utf8 a \<Longrightarrow> rune_count (a @ b) = rune_count a + rune_count b"
proof (induction a rule: valid_utf8.induct)
  case (1 a)
  show ?case
  proof (cases "a = []")
    case False
    with "1.prems" have v: "valid_head a" "valid_utf8 (drop (rune_size a) a)"
      by (auto simp: valid_utf8_head)
    with False 1 show ?thesis
      by (simp add: rune_count_step [of "a @ b"] rune_count_step [of a] valid_head_append rune_size_le)
  qed simp
qed

lemma valid_take_head: "valid_head s \<Longrightarrow> valid_utf8 (take (rune_size s) s)"
proof -
  assume v: "valid_head s"
  let ?t = "take (rune_size s) s"
  have rs: "rune_size ?t = rune_size s" by (rule rune_size_take) simp
  have ne: "?t \<noteq> []" using v valid_head_nonempty rune_size_pos [of s] by auto
  have "valid_head ?t"
  proof (rule ccontr)
    assume "\<not> valid_head ?t"
    with ne have "rune_size ?t = 1" by (cases ?t) (auto simp: rune_size_Cons)
    with rs v obtain c cs where "s = c # cs" "rune_size s = 1" "lead_info c \<noteq> None"
      using valid_head_nonempty [of s]
      by (cases s) (auto simp: valid_head_def split: option.splits)
    with v \<open>\<not> valid_head ?t\<close> show False
      by (auto simp: valid_head_def rune_size_Cons split: option.splits)
  qed
  then show ?thesis using ne rs by (simp add: valid_utf8_head)
qed

text \<open>A position of a valid string is a rune boundary unless it holds a continuation byte.\<close>

lemma valid_split:
  "valid_utf8 s \<Longrightarrow> i < length s \<Longrightarrow> \<not> is_cont (s ! i) \<Longrightarrow> valid_utf8 (take i s) \<and> valid_utf8 (drop i s)"
proof (induction s arbitrary: i rule: valid_utf8.induct)
  case (1 s)
  then have "s \<noteq> []" by auto
  with "1.prems" have v: "valid_head s" "valid_utf8 (drop (rune_size s) s)"
    by (auto simp: valid_utf8_head)
  show ?case
  proof (cases "i < rune_size s")
    case True
    with v(1) "1.prems"(3) valid_head_conts [of s i] have "i = 0" by (cases i) auto
    with "1.prems"(1) show ?thesis by simp
  next
    case False
    let ?r = "rune_size s"
    have idx: "i - ?r < length (drop ?r s)" "drop ?r s ! (i - ?r) = s ! i"
      using False "1.prems"(2) by auto
    with "1.IH" \<open>s \<noteq> []\<close> v "1.prems"(3)
    have IH: "valid_utf8 (take (i - ?r) (drop ?r s))" "valid_utf8 (drop (i - ?r) (drop ?r s))"
      by auto
    have "take i s = take ?r s @ take (i - ?r) (drop ?r s)"
      using False by (metis le_add_diff_inverse not_less take_add)
    with IH valid_take_head [OF v(1)] False show ?thesis by (simp add: valid_utf8_append)
  qed
qed

lemma rune_offset_le: "rune_offset n s \<le> length s"
proof (induction n s rule: rune_offset.induct)
  case (2 n s)
  then show ?case using rune_size_le [of s] by auto
qed simp

lemma rune_take_drop [simp]: "rune_take n s @ rune_drop n s = s"
  by (simp add: rune_take_def rune_drop_def)

lemma rune_count_drop: "rune_count (rune_drop n s) = rune_count s - n"
proof (induction n s rule: rune_offset.induct)
  case (2 n s)
  then show ?case
    by (cases "s = []") (auto simp: rune_drop_def rune_count_step [of s] add.commute)
qed (simp add: rune_drop_def)

lemma rune_count_take: "rune_count (rune_take n s) = min n (rune_count s)"
proof (induction n s rule: rune_offset.induct)
  case (2 n s)
  show ?case
  proof (cases "s = []")
    case False
    let ?r = "rune_size s" and ?o = "rune_offset n (drop (rune_size s) s)"
    let ?t = "take (?r + ?o) s"
    have ne: "?t \<noteq> []" using False rune_size_pos [of s] by auto
    have "rune_size ?t = ?r" by (rule rune_size_take) simp
    then have "rune_count ?t = Suc (rune_count (take ?o (drop ?r s)))"
      using ne by (simp add: rune_count_step [OF ne] take_drop add.commute)
    with False 2 show ?thesis
      by (simp add: rune_take_def rune_count_step [of s])
  qed (simp add: rune_take_def)
qed (simp add: rune_take_def)

lemma valid_rune_take_drop: "valid_utf8 s \<Longrightarrow> valid_utf8 (rune_take n s) \<and> valid_utf8 (rune_drop n s)"
proof (induction n s rule: rune_offset.induct)
  case (2 n s)
  show ?case
  proof (cases "s = []")
    case False
    with 2 have v: "valid_head s" "valid_utf8 (drop (rune_size s) s)" by (auto simp: valid_utf8_head)
    let ?r = "rune_size s"
    have "rune_take (Suc n) s = take ?r s @ rune_take n (drop ?r s)"
      using False by (simp add: rune_take_def take_add)
    moreover have "rune_drop (Suc n) s = rune_drop n (drop ?r s)"
      using False by (simp add: rune_drop_def add.commute)
    ultimately show ?thesis
      using 2 False v valid_take_head [OF v(1)] by (simp add: valid_utf8_append)
  qed (simp add: rune_take_def rune_drop_def)
qed (simp add: rune_take_def rune_drop_def)

end
