(* ===== verification/Chunk_Delta.thy ===== *)
theory Chunk_Delta
  imports Go_Strings "HOL-Library.Monad_Syntax"
begin

text \<open>
  \<open>internal/respconv/chunk_delta.go\<close>: the delta between a cumulative chunk and the text
  before it, with the Knuth-Morris-Pratt overlap it falls back on. The inner loop of the KMP
  search has no evident measure and reads two arrays, so it is a partial function into
  \<open>option\<close>: \<open>None\<close> stands for a loop that does not end or an index out of range (a Go
  panic). The lemmas show that neither happens and that the result is the longest proper
  prefix of the chunk that ends the previous text.
\<close>

section \<open>Definitions\<close>

text \<open>\<open>for k > 0 && b[k] != c { k = fail[k-1] }\<close>\<close>

partial_function (option) kmp_back :: "bytes \<Rightarrow> nat list \<Rightarrow> char \<Rightarrow> nat \<Rightarrow> nat option" where
  "kmp_back b fl c k =
     (if k = 0 then Some 0
      else if length b \<le> k then None
      else if b ! k = c then Some k
      else if length fl \<le> k - 1 then None
      else kmp_back b fl c (fl ! (k - 1)))"

text \<open>The loop above followed by \<open>if b[k] == c { k++ }\<close>.\<close>

definition kmp_step :: "bytes \<Rightarrow> nat list \<Rightarrow> char \<Rightarrow> nat \<Rightarrow> nat option" where
  "kmp_step b fl c k =
     (case kmp_back b fl c k of
        None \<Rightarrow> None
      | Some r \<Rightarrow> if length b \<le> r then None else Some (if b ! r = c then Suc r else r))"

text \<open>The loop that fills the failure function; \<open>fl\<close> is the preallocated array.\<close>

function kmp_fail :: "bytes \<Rightarrow> nat \<Rightarrow> nat \<Rightarrow> nat list \<Rightarrow> nat list option" where
  "kmp_fail b i k fl =
     (if i < length b
      then (case kmp_step b fl (b ! i) k of
              None \<Rightarrow> None
            | Some k' \<Rightarrow> kmp_fail b (Suc i) k' (fl[i := k']))
      else Some fl)"
  by pat_completeness auto
termination
  by (relation "measure (\<lambda>(b, i, k, fl). length b - i)") auto

declare kmp_fail.simps [simp del]

text \<open>The loop that runs the previous text through the automaton.\<close>

fun kmp_match :: "bytes \<Rightarrow> nat list \<Rightarrow> bytes \<Rightarrow> nat \<Rightarrow> nat option" where
  "kmp_match b fl [] k = Some k"
| "kmp_match b fl (c # cs) k =
     (case kmp_step b fl c k of
        None \<Rightarrow> None
      | Some k' \<Rightarrow>
          if k' = length b
          then (if length fl \<le> k' - 1 then None else kmp_match b fl cs (fl ! (k' - 1)))
          else kmp_match b fl cs k')"

definition kmp_overlap :: "bytes \<Rightarrow> bytes \<Rightarrow> nat option" where
  "kmp_overlap a b =
     (if length a = 0 \<or> length b = 0 then Some 0
      else (case kmp_fail b 1 0 (replicate (length b) 0) of
              None \<Rightarrow> None
            | Some fl \<Rightarrow> kmp_match b fl a 0))"

text \<open>
  \<open>ComputeDelta\<close>. The overlap is always defined (\<open>kmp_overlap_correct\<close>), so \<^const>\<open>the\<close>
  is applied to a \<^const>\<open>Some\<close>.
\<close>

definition compute_delta :: "bytes \<Rightarrow> bytes \<Rightarrow> bytes" where
  "compute_delta chunk previous =
     (if previous = [] then chunk
      else if chunk = previous then []
      else if length chunk > length previous \<and> take (length previous) chunk = previous
      then drop (length previous) chunk
      else if length previous > length chunk \<and> take (length chunk) previous = chunk then []
      else (let overlap = the (kmp_overlap previous chunk) in
            if overlap > 0 then drop overlap chunk else chunk))"

text \<open>
  The deltas of a run of cumulative chunks: each chunk is compared with the one before it,
  as \<open>ProcessEvent\<close> does with \<open>lastContent\<close>.
\<close>

fun deltas :: "bytes \<Rightarrow> bytes list \<Rightarrow> bytes list" where
  "deltas previous [] = []"
| "deltas previous (c # cs) = compute_delta c previous # deltas c cs"

text \<open>
  Reference definition: the longest \<open>k < length b\<close> such that the first \<open>k\<close> bytes of \<open>b\<close> end \<open>a\<close>.
\<close>

definition overlap_spec :: "bytes \<Rightarrow> bytes \<Rightarrow> nat" where
  "overlap_spec a b =
     (if b = [] then 0
      else Max {k \<in> {..<length b}. k \<le> length a \<and> drop (length a - k) a = take k b})"

section \<open>Correctness of the KMP loops\<close>

definition border_max :: "bytes \<Rightarrow> bytes \<Rightarrow> nat \<Rightarrow> bool" where
  "border_max b w k \<longleftrightarrow>
     suffix (take k b) w \<and> (\<forall>j. k < j \<longrightarrow> j < length b \<longrightarrow> \<not> suffix (take j b) w)"

definition fail_ok :: "bytes \<Rightarrow> nat list \<Rightarrow> nat \<Rightarrow> bool" where
  "fail_ok b fl n \<longleftrightarrow>
     n \<le> length b \<and> length fl = length b \<and>
     (\<forall>j<n. fl ! j \<le> j \<and> suffix (take (fl ! j) b) (take (Suc j) b) \<and>
            (\<forall>m. fl ! j < m \<longrightarrow> m \<le> j \<longrightarrow> \<not> suffix (take m b) (take (Suc j) b)))"

lemma fail_okD:
  assumes "fail_ok b fl n" "j < n"
  shows "length fl = length b" "fl ! j \<le> j" "suffix (take (fl ! j) b) (take (Suc j) b)"
    "fl ! j < m \<Longrightarrow> m \<le> j \<Longrightarrow> \<not> suffix (take m b) (take (Suc j) b)"
  using assms by (auto simp: fail_ok_def)

lemma take_suffix_of_longer:
  assumes "suffix (take j b) w" "suffix (take k b) w" "j \<le> k" "k \<le> length b"
  shows "suffix (take j b) (take k b)"
  using assms by (intro suffix_length_suffix [OF assms(1,2)]) simp

lemma kmp_back_correct:
  assumes ok: "fail_ok b fl n"
  shows "k \<le> n \<Longrightarrow> k < length b \<Longrightarrow> suffix (take k b) w \<Longrightarrow>
    \<exists>r. kmp_back b fl c k = Some r \<and> r \<le> k \<and> suffix (take r b) w \<and> (r = 0 \<or> b ! r = c) \<and>
        (\<forall>j. r < j \<longrightarrow> j \<le> k \<longrightarrow> suffix (take j b) w \<longrightarrow> b ! j \<noteq> c)"
proof (induction k rule: less_induct)
  case (less k)
  show ?case
  proof (cases "k = 0 \<or> b ! k = c")
    case True
    with less.prems show ?thesis by (auto simp: kmp_back.simps [of b fl c k])
  next
    case False
    let ?k' = "fl ! (k - 1)"
    have "k - 1 < n" "Suc (k - 1) = k" using less.prems(1) False by auto
    note f = fail_okD [OF ok this(1), unfolded this(2)]
    have "suffix (take ?k' b) w" using f(3) less.prems(3) by (rule suffix_order.order_trans)
    moreover have "?k' < k" using f(2) False by linarith
    ultimately obtain r where
      r: "kmp_back b fl c ?k' = Some r" "r \<le> ?k'" "suffix (take r b) w" "r = 0 \<or> b ! r = c"
        "\<And>j. r < j \<Longrightarrow> j \<le> ?k' \<Longrightarrow> suffix (take j b) w \<Longrightarrow> b ! j \<noteq> c"
      using less.IH [of ?k'] less.prems by auto
    have "b ! j \<noteq> c" if "r < j" "j \<le> k" "suffix (take j b) w" for j
    proof (cases "j \<le> ?k'")
      case False
      with that f(4) [of j] take_suffix_of_longer [OF that(3) less.prems(3)] less.prems(2)
      have "j = k" by linarith
      with \<open>\<not> (k = 0 \<or> b ! k = c)\<close> show ?thesis by simp
    qed (use that r(5) in simp)
    moreover have "kmp_back b fl c k = Some r"
      using False less.prems f(1) r(1) by (subst kmp_back.simps) auto
    ultimately show ?thesis using r f(2) by auto
  qed
qed

lemma kmp_step_correct:
  assumes ok: "fail_ok b fl n" and k: "k \<le> n" "k < length b" and g: "border_max b w k"
  shows "\<exists>k'. kmp_step b fl c k = Some k' \<and> k' \<le> Suc k \<and> suffix (take k' b) (w @ [c]) \<and>
           (\<forall>j. k' < j \<longrightarrow> j \<le> length b \<longrightarrow> \<not> suffix (take j b) (w @ [c]))"
proof -
  from kmp_back_correct [OF ok k, of w c] g obtain r where
    r: "kmp_back b fl c k = Some r" "r \<le> k" "suffix (take r b) w" "r = 0 \<or> b ! r = c"
      "\<And>j. r < j \<Longrightarrow> j \<le> k \<Longrightarrow> suffix (take j b) w \<Longrightarrow> b ! j \<noteq> c"
    by (auto simp: border_max_def)
  have beyond: "\<not> suffix (take j b) (w @ [c])"
    if j: "j \<le> length b" "j = Suc i" and i: "r < i \<or> b ! i \<noteq> c" for i j
  proof
    assume s: "suffix (take j b) (w @ [c])"
    with j have e: "b ! i = c" "suffix (take i b) w"
      by (auto simp: take_Suc_conv_app_nth suffix_snocD)
    with g j have "i \<le> k" by (metis border_max_def Suc_le_lessD not_le_imp_less)
    with e i r(5) [of i] show False by auto
  qed
  have len: "r < length b" using r(2) k(2) by simp
  show ?thesis
  proof (cases "b ! r = c")
    case True
    then have "suffix (take (Suc r) b) (w @ [c])"
      using r(3) len by (simp add: take_Suc_conv_app_nth suffix_snocD)
    moreover have "\<not> suffix (take j b) (w @ [c])" if "Suc r < j" "j \<le> length b" for j
    proof -
      have "j = Suc (j - 1)" "r < j - 1" using that by auto
      with beyond [OF that(2), of "j - 1"] show ?thesis by blast
    qed
    ultimately show ?thesis using True r len by (auto simp: kmp_step_def)
  next
    case False
    with r(4) have "r = 0" by simp
    moreover have "\<not> suffix (take j b) (w @ [c])" if "0 < j" "j \<le> length b" for j
    proof -
      have "j = Suc (j - 1)" "r < j - 1 \<or> b ! (j - 1) \<noteq> c"
        using that False \<open>r = 0\<close> by (cases "j = 1"; auto)+
      with beyond [OF that(2), of "j - 1"] show ?thesis by blast
    qed
    ultimately show ?thesis using False r len by (auto simp: kmp_step_def)
  qed
qed

lemma kmp_fail_correct:
  "fail_ok b fl i \<Longrightarrow> 0 < i \<Longrightarrow> k < i \<Longrightarrow> border_max b (take (i - 1) (tl b)) k \<Longrightarrow>
   \<exists>fl'. kmp_fail b i k fl = Some fl' \<and> fail_ok b fl' (length b)"
proof (induction b i k fl rule: kmp_fail.induct)
  case (1 b i k fl)
  show ?case
  proof (cases "i < length b")
    case False
    with "1.prems"(1) have "i = length b" by (simp add: fail_ok_def)
    with "1.prems"(1) show ?thesis by (subst kmp_fail.simps) simp
  next
    case True
    let ?w = "take (i - 1) (tl b)"
    have w: "?w @ [b ! i] = take i (tl b)"
      using True "1.prems"(2) by (cases i) (auto simp: take_Suc_conv_app_nth nth_tl)
    from kmp_step_correct [OF "1.prems"(1) _ _ "1.prems"(4), of "b ! i"] True "1.prems"(3)
    obtain k' where k': "kmp_step b fl (b ! i) k = Some k'" "k' \<le> Suc k"
      "suffix (take k' b) (take i (tl b))"
      "\<And>j. k' < j \<Longrightarrow> j \<le> length b \<Longrightarrow> \<not> suffix (take j b) (take i (tl b))"
      unfolding w by auto
    have ki: "k' \<le> i" using k'(2) "1.prems"(3) by simp
    have whole: "take (Suc i) b = hd b # take i (tl b)" using True by (cases b) auto
    have li: "length (take i (tl b)) = i" using True by auto
    have "fail_ok b (fl[i := k']) (Suc i)"
      unfolding fail_ok_def
    proof (intro conjI allI impI)
      fix j assume j: "j < Suc i"
      have old: "j < i \<Longrightarrow> fl[i := k'] ! j = fl ! j" by simp
      have new: "fl[i := k'] ! i = k'" using "1.prems"(1) True by (simp add: fail_ok_def)
      show "fl[i := k'] ! j \<le> j"
        using j old new ki "1.prems"(1) by (cases "j = i") (auto simp: fail_ok_def)
      show "suffix (take (fl[i := k'] ! j) b) (take (Suc j) b)"
        using j old new k'(3) whole "1.prems"(1)
        by (cases "j = i") (auto simp: fail_ok_def suffix_ConsI)
      fix m assume m: "fl[i := k'] ! j < m" "m \<le> j"
      show "\<not> suffix (take m b) (take (Suc j) b)"
      proof (cases "j = i")
        case False
        with j m old "1.prems"(1) show ?thesis by (auto simp: fail_ok_def)
      next
        case eq: True
        with m new True k'(4) [of m] have "\<not> suffix (take m b) (take i (tl b))" by simp
        moreover have "length (take m b) \<le> i" using m eq by simp
        ultimately show ?thesis
          unfolding eq whole suffix_Cons using li by (auto dest: arg_cong [where f = length])
      qed
    qed (use "1.prems"(1) True in \<open>auto simp: fail_ok_def\<close>)
    moreover have "border_max b (take i (tl b)) k'" using k' by (auto simp: border_max_def)
    ultimately show ?thesis
      using "1.IH" [OF True k'(1)] k' ki True by (subst kmp_fail.simps) simp
  qed
qed

lemma kmp_match_correct:
  "fail_ok b fl (length b) \<Longrightarrow> k < length b \<Longrightarrow> border_max b w k \<Longrightarrow>
   \<exists>r. kmp_match b fl a k = Some r \<and> r < length b \<and> border_max b (w @ a) r"
proof (induction a arbitrary: k w)
  case Nil
  then show ?case by simp
next
  case (Cons c a)
  from kmp_step_correct [OF Cons.prems(1) _ Cons.prems(2,3), of c] Cons.prems(2)
  obtain k' where k': "kmp_step b fl c k = Some k'" "k' \<le> Suc k"
    "suffix (take k' b) (w @ [c])"
    "\<And>j. k' < j \<Longrightarrow> j \<le> length b \<Longrightarrow> \<not> suffix (take j b) (w @ [c])"
    by auto
  show ?case
  proof (cases "k' = length b")
    case False
    with k' Cons.prems(2) Cons.IH [OF Cons.prems(1), of k' "w @ [c]"] show ?thesis
      by (auto simp: border_max_def)
  next
    case True
    let ?m = "length b - 1"
    have "?m < length b" "Suc ?m = length b" using Cons.prems(2) by auto
    note f = fail_okD [OF Cons.prems(1) this(1), unfolded this(2) take_all [OF order_refl]]
    have b: "suffix b (w @ [c])" using k'(3) True by simp
    have "border_max b (w @ [c]) (fl ! ?m)"
      unfolding border_max_def
    proof (intro conjI allI impI)
      show "suffix (take (fl ! ?m) b) (w @ [c])" using f(3) b by (rule suffix_order.order_trans)
      fix j assume j: "fl ! ?m < j" "j < length b"
      show "\<not> suffix (take j b) (w @ [c])"
        using f(4) [of j] j suffix_length_suffix [OF _ b, of "take j b"] by auto
    qed
    with Cons.IH [OF Cons.prems(1), of "fl ! ?m" "w @ [c]"] f k'(1) True Cons.prems(2)
    show ?thesis by auto
  qed
qed

lemma border_max_unique: "border_max b w k \<Longrightarrow> border_max b w k' \<Longrightarrow> k < length b \<Longrightarrow> k' < length b \<Longrightarrow> k = k'"
  unfolding border_max_def by (metis linorder_neqE_nat)

lemma overlap_spec_border:
  assumes "b \<noteq> []" shows "border_max b a (overlap_spec a b) \<and> overlap_spec a b < length b"
proof -
  let ?S = "{k \<in> {..<length b}. k \<le> length a \<and> drop (length a - k) a = take k b}"
  have S: "k \<in> ?S \<longleftrightarrow> k < length b \<and> suffix (take k b) a" for k
    by (auto simp: suffix_eq_drop)
  have fin: "finite ?S" by simp
  moreover have "0 \<in> ?S" using assms by auto
  ultimately have m: "Max ?S \<in> ?S" by (intro Max_in) blast+
  have "j \<notin> ?S" if "Max ?S < j" for j using that Max_ge [OF fin, of j] by linarith
  with m assms show ?thesis
    unfolding S by (auto simp: overlap_spec_def border_max_def)
qed

lemma kmp_overlap_border:
  assumes "a \<noteq> []" "b \<noteq> []"
  shows "\<exists>r. kmp_overlap a b = Some r \<and> r < length b \<and> border_max b a r"
proof -
  have base: "fail_ok b (replicate (length b) 0) 1" "border_max b (take (1 - 1) (tl b)) 0"
    using assms(2) by (auto simp: fail_ok_def border_max_def Suc_le_eq)
  from kmp_fail_correct [OF base(1) _ _ base(2)] obtain fl where
    fl: "kmp_fail b 1 0 (replicate (length b) 0) = Some fl" "fail_ok b fl (length b)" by auto
  have "border_max b [] 0" by (auto simp: border_max_def)
  with kmp_match_correct [OF fl(2), of 0 "[]" a] assms fl(1) show ?thesis
    by (auto simp: kmp_overlap_def)
qed

section \<open>Properties of the delta\<close>

text \<open>
  C31. The KMP routine always returns (its loops end and no index is out of range), and what
  it returns is the longest proper prefix of the chunk that is a suffix of the previous text:
  the linear-time routine equals the reference definition \<open>overlap_spec\<close> on all inputs.
\<close>

theorem kmp_overlap_correct: "kmp_overlap a b = Some (overlap_spec a b)"
proof (cases "a = [] \<or> b = []")
  case True
  have "overlap_spec [] b = 0" if "b \<noteq> []"
    using overlap_spec_border [OF that, of "[]"] that
    by (auto simp: border_max_def)
  then show ?thesis using True
    by (cases "b = []") (auto simp: kmp_overlap_def overlap_spec_def [of _ "[]"])
next
  case False
  then obtain r where "kmp_overlap a b = Some r" "r < length b" "border_max b a r"
    using kmp_overlap_border by blast
  with False overlap_spec_border [of b a] border_max_unique show ?thesis by blast
qed

lemma compute_delta_extends: "prefix p c \<Longrightarrow> p @ compute_delta c p = c"
  by (auto simp: compute_delta_def prefix_def Let_def)

text \<open>
  On a well-behaved cumulative stream (every chunk extends the one before it) the
  concatenation of the deltas is the last chunk: nothing is lost and nothing repeated.
\<close>

theorem deltas_reassemble:
  assumes "sorted_wrt prefix (p # cs)"
  shows "p @ concat (deltas p cs) = last (p # cs)"
  using assms
proof (induction cs arbitrary: p)
  case (Cons c cs)
  then have "p @ compute_delta c p = c" "c @ concat (deltas c cs) = last (c # cs)"
    by (auto intro: compute_delta_extends)
  then show ?case by (simp flip: append_assoc)
qed simp

theorem deltas_reassemble_witness:
  "sorted_wrt prefix (''he'' # [''hello'', ''hello'', ''hello you'']) \<and>
   ''he'' @ concat (deltas ''he'' [''hello'', ''hello'', ''hello you'']) = ''hello you''"
  using deltas_reassemble [of "''he''" "[''hello'', ''hello'', ''hello you'']"] by simp

end
