(* ===== verification/Backoff.thy ===== *)
theory Backoff
  imports Prelude
begin

text \<open>
  \<open>internal/pool/cooldown.go\<close> and the renewal intervals of
  \<open>internal/pool/conductor_default.go\<close>: how long a rate-limited account is left alone and how
  often a reservation lease is renewed. All values are nanoseconds.
\<close>

definition DefaultBaseBackoff :: duration where "DefaultBaseBackoff = 30 * second"
definition DefaultMaxBackoff :: duration where "DefaultMaxBackoff = 30 * minute"

definition NextBackoff :: "int \<Rightarrow> duration \<Rightarrow> duration" where
  "NextBackoff level retryAfter =
     (if retryAfter > 0 then
        (if retryAfter < DefaultBaseBackoff then DefaultBaseBackoff
         else if retryAfter > DefaultMaxBackoff then DefaultMaxBackoff
         else retryAfter)
      else
        (let level = (if level < 0 then 0 else level);
             level = (if level > 6 then 6 else level);
             d = wrap64 (DefaultBaseBackoff * 2 ^ nat level)
         in if d > DefaultMaxBackoff then DefaultMaxBackoff else d))"

definition reservationRenewInterval :: "duration \<Rightarrow> duration" where
  "reservationRenewInterval ttl =
     (if ttl \<le> 0 then minute
      else
        (let interval = ttl div 3;
             interval = (if interval < 100 * millisecond then 100 * millisecond else interval)
         in if interval > minute then minute else interval))"

definition reservationRenewRetryInterval :: "duration \<Rightarrow> duration" where
  "reservationRenewRetryInterval base =
     (if base \<le> 0 then second
      else
        (let retry = base div 4 in
         if retry < second then second
         else if retry > 15 * second then 15 * second
         else retry))"

lemmas backoff_defs = DefaultBaseBackoff_def DefaultMaxBackoff_def NextBackoff_def duration_defs

lemma NextBackoff_pos [simp]: "0 < NextBackoff level retryAfter"
proof -
  have "nat (if level > 6 then 6 else if level < 0 then 0 else level) \<in> {0, 1, 2, 3, 4, 5, 6}"
    by auto
  then show ?thesis by (auto simp: backoff_defs Let_def wrap64_def split: if_splits)
qed

lemma NextBackoff_closed_form:
  "NextBackoff (int n) retryAfter =
     (if 0 < retryAfter then min (max retryAfter (30 * second)) (30 * minute)
      else min (30 * second * 2 ^ n) (30 * minute))"
proof -
  have big: "(60::int) \<le> 2 ^ n" if "6 \<le> n"
    using power_increasing [OF that, of "2::int"] by simp
  have small: "n < 6 \<Longrightarrow> n \<in> {0, 1, 2, 3, 4, 5}" by auto
  have "NextBackoff (int n) 0 = min (30 * second * 2 ^ n) (30 * minute)"
  proof (cases "n < 6")
    case True
    from small [OF this] show ?thesis by (auto simp: backoff_defs Let_def wrap64_def)
  next
    case False
    with big show ?thesis by (cases "n = 6") (auto simp: backoff_defs Let_def wrap64_def)
  qed
  moreover have "retryAfter \<le> 0 \<Longrightarrow> NextBackoff m retryAfter = NextBackoff m 0" for m
    by (simp add: NextBackoff_def)
  ultimately show ?thesis by (auto simp: backoff_defs min_def max_def)
qed

text \<open>
  The cooldown schedule: without a \<open>Retry-After\<close> the n-th consecutive rate limit waits
  \<open>min (30 s * 2^n) (30 min)\<close> for every exponent \<open>n\<close>, with no overflow of the shift however
  large the exponent grows; with one, the wait is the hint clamped to that same interval.
  Hence every wait lies between 30 seconds and 30 minutes.
\<close>

theorem NextBackoff_schedule:
  "NextBackoff (int n) retryAfter =
     (if 0 < retryAfter then min (max retryAfter (30 * second)) (30 * minute)
      else min (30 * second * 2 ^ n) (30 * minute)) \<and>
   30 * second \<le> NextBackoff level retryAfter \<and> NextBackoff level retryAfter \<le> 30 * minute"
proof -
  have "nat (if level > 6 then 6 else if level < 0 then 0 else level) \<in> {0, 1, 2, 3, 4, 5, 6}" by auto
  then have "30 * second \<le> NextBackoff level retryAfter \<and> NextBackoff level retryAfter \<le> 30 * minute"
    by (auto simp: backoff_defs Let_def wrap64_def split: if_splits)
  with NextBackoff_closed_form show ?thesis by blast
qed

text \<open>
  A lease is renewed well before it lapses: for every lease of at least 300 ms the renewal
  interval is at most a third of the lease, and a failed renewal is retried no earlier than a
  second and no later than 15 seconds afterwards; both are positive for every input, so the
  renewal timer never spins.
\<close>

theorem renew_interval_bounds:
  assumes "300 * millisecond \<le> ttl"
  shows "3 * reservationRenewInterval ttl \<le> ttl \<and> reservationRenewInterval ttl \<le> minute \<and>
    100 * millisecond \<le> reservationRenewInterval any \<and>
    second \<le> reservationRenewRetryInterval base \<and> reservationRenewRetryInterval base \<le> 15 * second"
  using assms
  by (auto simp: reservationRenewInterval_def reservationRenewRetryInterval_def Let_def duration_defs)

theorem renew_interval_bounds_witness:
  "300 * millisecond \<le> 10 * minute \<and> 3 * reservationRenewInterval (10 * minute) \<le> 10 * minute \<and>
   reservationRenewInterval (10 * minute) = minute"
proof -
  have "300 * millisecond \<le> 10 * minute" by (simp add: duration_defs)
  from renew_interval_bounds [OF this] this show ?thesis
    by (simp add: reservationRenewInterval_def duration_defs)
qed

end
