(* ===== verification/Credential.thy ===== *)
theory Credential
  imports Backoff "HOL-Library.Multiset"
begin

text \<open>
  \<open>internal/pool/types.go\<close>: one account of the pool. The embedded \<open>auth.Credentials\<close> is the
  parent record, as Go's embedding makes its fields fields of \<open>Credential\<close>. The mutex \<open>Mu\<close> is
  left out: every method holds it from its first to its last access, so a method is one atomic
  step on the record.
\<close>

section \<open>Data\<close>

record auth_credentials =
  AccessToken :: string
  RefreshToken :: string
  ExpiresAt :: int
  Region :: string
  SSORegion :: string
  ClientID :: string
  ClientSecret :: string
  ProfileARN :: string
  AuthType :: string

record quota_state =
  Exceeded :: bool
  NextRecoverAt :: gotime
  BackoffLevel :: int

record model_state =
  MQuota :: quota_state
  MSuccess :: int
  MFailed :: int

record quota_snapshot =
  FetchedAt :: gotime
  PlanName :: string
  PlanTier :: string
  CreditsTotal :: float64
  CreditsUsed :: float64
  BonusTotal :: float64
  BonusUsed :: float64
  BonusExpireDays :: int
  NextResetAt :: gotime
  Banned :: bool
  BanReason :: string

record credential = auth_credentials +
  ID :: string
  Label :: string
  Provider :: string
  Priority :: int
  Disabled :: bool
  DisableCooling :: bool
  MaxInFlight :: int
  ProxyURL :: string
  runtimeID :: nat
  Quota :: quota_state
  ModelStates :: "string \<rightharpoonup> model_state"
  Success :: int
  Failed :: int
  InFlight :: int
  InFlightByModel :: "string \<rightharpoonup> int"
  LastUsedAt :: gotime
  DisabledReason :: string
  DisabledAt :: gotime
  Metadata :: "string \<rightharpoonup> string"
  LastQuota :: "quota_snapshot option"
  LastQuotaAt :: gotime
  LastQuotaError :: string
  LastQuotaErrorAt :: gotime

record view =
  VID :: string
  VLabel :: string
  VProvider :: string
  VPriority :: int
  VDisabled :: bool
  VDisableCooling :: bool
  VMaxInFlight :: int
  VDisabledReason :: string
  VDisabledAt :: gotime
  VRegion :: string
  VProfileARN :: string
  VAuthType :: string
  VProxyURL :: string
  VQuota :: quota_state
  VModelStates :: "string \<rightharpoonup> model_state"
  VSuccess :: int
  VFailed :: int
  VInFlight :: int
  VInFlightByModel :: "string \<rightharpoonup> int"
  VLastUsedAt :: gotime
  VLastQuota :: "quota_snapshot option"
  VLastQuotaAt :: gotime
  VLastQuotaError :: string
  VLastQuotaErrorAt :: gotime

text \<open>Go's zero values.\<close>

definition zero_quota :: quota_state where
  "zero_quota = \<lparr>Exceeded = False, NextRecoverAt = 0, BackoffLevel = 0\<rparr>"

definition zero_model_state :: model_state where
  "zero_model_state = \<lparr>MQuota = zero_quota, MSuccess = 0, MFailed = 0\<rparr>"

definition zero_credential :: credential where
  "zero_credential =
     \<lparr>AccessToken = '''', RefreshToken = '''', ExpiresAt = 0, Region = '''', SSORegion = '''',
      ClientID = '''', ClientSecret = '''', ProfileARN = '''', AuthType = '''',
      ID = '''', Label = '''', Provider = '''', Priority = 0, Disabled = False,
      DisableCooling = False, MaxInFlight = 0, ProxyURL = '''', runtimeID = 0,
      Quota = zero_quota, ModelStates = Map.empty, Success = 0, Failed = 0, InFlight = 0,
      InFlightByModel = Map.empty, LastUsedAt = 0, DisabledReason = '''', DisabledAt = 0,
      Metadata = Map.empty, LastQuota = None, LastQuotaAt = 0, LastQuotaError = '''',
      LastQuotaErrorAt = 0\<rparr>"

text \<open>Reading a Go map of integers: a missing key reads as 0.\<close>

definition mget :: "('k \<rightharpoonup> int) \<Rightarrow> 'k \<Rightarrow> int" where
  "mget m k = (case m k of None \<Rightarrow> 0 | Some v \<Rightarrow> v)"

text \<open>The errors of the pool package.\<close>

datatype pool_error =
    ErrNoReady
  | ErrNoCredential
  | ErrCredentialNotFound
  | ErrDuplicateID
  | ErrNilOrEmptyID
  | ErrContext
  | ErrRuntime string

text \<open>
  A pointer \<open>*Credential\<close> is an address; the credentials an execution has allocated are a
  heap from addresses to their current contents.
\<close>

type_synonym addr = nat
type_synonym cred_heap = "addr \<Rightarrow> credential"

section \<open>Operations\<close>

definition cooling :: "gotime \<Rightarrow> quota_state \<Rightarrow> bool" where
  "cooling now q \<longleftrightarrow> Exceeded q \<and> now < NextRecoverAt q"

definition model_cooling :: "gotime \<Rightarrow> string \<Rightarrow> credential \<Rightarrow> bool" where
  "model_cooling now model c \<longleftrightarrow>
     model \<noteq> '''' \<and> (case ModelStates c model of None \<Rightarrow> False | Some ms \<Rightarrow> cooling now (MQuota ms))"

definition at_capacity :: "credential \<Rightarrow> bool" where
  "at_capacity c \<longleftrightarrow> MaxInFlight c > 0 \<and> InFlight c \<ge> MaxInFlight c"

text \<open>
  \<open>IsReadyFor\<close> reads the clock for the account's cooldown (\<open>now1\<close>) and again for the
  model's (\<open>now2\<close>).
\<close>

definition IsReadyFor :: "gotime \<Rightarrow> gotime \<Rightarrow> string \<Rightarrow> credential \<Rightarrow> bool" where
  "IsReadyFor now1 now2 model c =
     (if Disabled c then False
      else if cooling now1 (Quota c) then False
      else if at_capacity c then False
      else if model_cooling now2 model c then False
      else True)"

definition IsReady :: "gotime \<Rightarrow> credential \<Rightarrow> bool" where
  "IsReady now c = IsReadyFor now now '''' c"

definition IsInCooldown :: "gotime \<Rightarrow> credential \<Rightarrow> bool" where
  "IsInCooldown now c = cooling now (Quota c)"

definition Snapshot :: "credential \<Rightarrow> view" where
  "Snapshot c =
     \<lparr>VID = ID c, VLabel = Label c, VProvider = Provider c, VPriority = Priority c,
      VDisabled = Disabled c, VDisableCooling = DisableCooling c, VMaxInFlight = MaxInFlight c,
      VDisabledReason = DisabledReason c, VDisabledAt = DisabledAt c, VRegion = Region c,
      VProfileARN = ProfileARN c, VAuthType = AuthType c, VProxyURL = ProxyURL c,
      VQuota = Quota c, VModelStates = ModelStates c, VSuccess = Success c, VFailed = Failed c,
      VInFlight = InFlight c, VInFlightByModel = InFlightByModel c, VLastUsedAt = LastUsedAt c,
      VLastQuota = LastQuota c, VLastQuotaAt = LastQuotaAt c,
      VLastQuotaError = LastQuotaError c, VLastQuotaErrorAt = LastQuotaErrorAt c\<rparr>"

text \<open>\<open>c.InFlight++\<close> and, for a named model, \<open>c.InFlightByModel[model]++\<close>.\<close>

definition count_reservation :: "string \<Rightarrow> credential \<Rightarrow> credential" where
  "count_reservation model c =
     (let c = c\<lparr>InFlight := InFlight c + 1\<rparr> in
      if model \<noteq> ''''
      then c\<lparr>InFlightByModel := (InFlightByModel c)(model \<mapsto> mget (InFlightByModel c) model + 1)\<rparr>
      else c)"

definition Reserve :: "gotime \<Rightarrow> string \<Rightarrow> credential \<Rightarrow> credential \<times> bool" where
  "Reserve now model c =
     (if Disabled c then (c, False)
      else if cooling now (Quota c) then (c, False)
      else if at_capacity c then (c, False)
      else if model_cooling now model c then (c, False)
      else (count_reservation model c, True))"

definition ReleaseReservation :: "gotime \<Rightarrow> string \<Rightarrow> credential \<Rightarrow> credential" where
  "ReleaseReservation now model c =
     (let c = (if InFlight c > 0 then c\<lparr>InFlight := InFlight c - 1\<rparr> else c);
          c = (if model \<noteq> ''''
               then (if mget (InFlightByModel c) model > 1
                     then c\<lparr>InFlightByModel :=
                              (InFlightByModel c)(model \<mapsto> mget (InFlightByModel c) model - 1)\<rparr>
                     else c\<lparr>InFlightByModel := (InFlightByModel c)(model := None)\<rparr>)
               else c)
      in c\<lparr>LastUsedAt := now\<rparr>)"

lemmas ready_defs [ready_simps] =
  IsReadyFor_def IsReady_def IsInCooldown_def cooling_def model_cooling_def at_capacity_def

section \<open>Reservations\<close>

lemma Reserve_accepts_iff_ready: "snd (Reserve now model c) = IsReadyFor now now model c"
  by (simp add: Reserve_def IsReadyFor_def)

lemma Reserve_cases:
  "(Reserve now model c = (count_reservation model c, True) \<and> IsReadyFor now now model c) \<or>
   (Reserve now model c = (c, False) \<and> \<not> IsReadyFor now now model c)"
  by (auto simp: Reserve_def IsReadyFor_def)

lemma count_reservation_frame [simp]:
  "InFlight (count_reservation m c) = InFlight c + 1"
  "ID (count_reservation m c) = ID c"
  "Priority (count_reservation m c) = Priority c"
  "MaxInFlight (count_reservation m c) = MaxInFlight c"
  "Disabled (count_reservation m c) = Disabled c"
  "Quota (count_reservation m c) = Quota c"
  "ModelStates (count_reservation m c) = ModelStates c"
  "runtimeID (count_reservation m c) = runtimeID c"
  "Region (count_reservation m c) = Region c"
  "Success (count_reservation m c) = Success c"
  by (simp_all add: count_reservation_def Let_def)

lemma ReleaseReservation_frame [simp]:
  "InFlight (ReleaseReservation t m c) = (if InFlight c > 0 then InFlight c - 1 else InFlight c)"
  "ID (ReleaseReservation t m c) = ID c"
  "Priority (ReleaseReservation t m c) = Priority c"
  "MaxInFlight (ReleaseReservation t m c) = MaxInFlight c"
  "Disabled (ReleaseReservation t m c) = Disabled c"
  "Quota (ReleaseReservation t m c) = Quota c"
  "ModelStates (ReleaseReservation t m c) = ModelStates c"
  "runtimeID (ReleaseReservation t m c) = runtimeID c"
  "Region (ReleaseReservation t m c) = Region c"
  "Success (ReleaseReservation t m c) = Success c"
  by (simp_all add: ReleaseReservation_def Let_def)

lemma ReleaseReservation_by_model:
  "InFlightByModel (ReleaseReservation t m c) k =
     (if m \<noteq> '''' \<and> k = m
      then (if mget (InFlightByModel c) m > 1 then Some (mget (InFlightByModel c) m - 1) else None)
      else InFlightByModel c k)"
  by (simp add: ReleaseReservation_def Let_def)

text \<open>
  Specification: the requests a credential has admitted and not yet released, as a multiset of
  their models. A release is made by a request that holds a reservation.
\<close>

definition tracks :: "credential \<Rightarrow> string multiset \<Rightarrow> bool" where
  "tracks c R \<longleftrightarrow>
     InFlight c = int (size R) \<and>
     (\<forall>m. InFlightByModel c m =
            (if m \<noteq> '''' \<and> m \<in># R then Some (int (count R m)) else None))"

definition within_cap :: "credential \<Rightarrow> bool" where
  "within_cap c \<longleftrightarrow> 0 \<le> InFlight c \<and> (0 < MaxInFlight c \<longrightarrow> InFlight c \<le> MaxInFlight c)"

inductive res_step :: "credential \<times> string multiset \<Rightarrow> credential \<times> string multiset \<Rightarrow> bool" where
  accept: "Reserve now m c = (c', True) \<Longrightarrow> res_step (c, R) (c', add_mset m R)"
| reject: "Reserve now m c = (c', False) \<Longrightarrow> res_step (c, R) (c', R)"
| release: "m \<in># R \<Longrightarrow> res_step (c, R) (ReleaseReservation now m c, R - {#m#})"

inductive_cases res_stepE: "res_step (c, R) (c', R')"

lemma tracks_accept: "tracks c R \<Longrightarrow> tracks (count_reservation m c) (add_mset m R)"
  by (auto simp: tracks_def count_reservation_def mget_def Let_def not_in_iff)

lemma tracks_release:
  assumes "tracks c R" "m \<in># R"
  shows "tracks (ReleaseReservation t m c) (R - {#m#})"
proof -
  obtain S where R: "R = add_mset m S" using assms(2) by (metis mset_add)
  have by_model: "InFlightByModel c k =
      (if k \<noteq> '''' \<and> k \<in># R then Some (int (count R k)) else None)" for k
    using assms(1) by (simp add: tracks_def)
  have "InFlightByModel (ReleaseReservation t m c) k =
      (if k \<noteq> '''' \<and> k \<in># S then Some (int (count S k)) else None)" for k
    unfolding ReleaseReservation_by_model mget_def by_model R
    by (cases "k = m") (simp_all add: not_in_iff)
  moreover have "InFlight c = int (size S) + 1" using assms(1) by (simp add: tracks_def R)
  ultimately show ?thesis by (simp add: tracks_def R)
qed

lemma within_cap_Reserve: "within_cap c \<Longrightarrow> within_cap (fst (Reserve now m c))"
  by (auto simp: within_cap_def Reserve_def at_capacity_def)

lemma within_cap_Release: "within_cap c \<Longrightarrow> within_cap (ReleaseReservation now m c)"
  by (auto simp: within_cap_def)

lemma res_step_inv:
  assumes "res_step s s'" "tracks (fst s) (snd s)" "within_cap (fst s)"
  shows "tracks (fst s') (snd s') \<and> within_cap (fst s') \<and> MaxInFlight (fst s') = MaxInFlight (fst s)"
  using assms
proof (cases rule: res_step.cases)
  case (accept now m c c' R)
  then have "c' = count_reservation m c" using Reserve_cases [of now m c] by auto
  with accept assms within_cap_Reserve [of c now m] show ?thesis by (auto simp: tracks_accept)
next
  case (reject now m c c' R)
  then have "c' = c" using Reserve_cases [of now m c] by auto
  with reject assms show ?thesis by simp
next
  case (release m R c now)
  with assms show ?thesis by (simp add: tracks_release within_cap_Release)
qed

text \<open>
  C7. Per-account concurrency: whatever interleaving of reservations, refusals and releases an
  account goes through from a fresh state, its counters are exactly the outstanding requests
  (in total and per model), and with a configured cap the number of outstanding requests never
  exceeds \<open>MaxInFlight\<close>.
\<close>

theorem inflight_refines_outstanding:
  assumes "res_step\<^sup>*\<^sup>* (c, {#}) (c', R)"
    and "InFlight c = 0" "InFlightByModel c = Map.empty"
  shows "tracks c' R \<and> (0 < MaxInFlight c \<longrightarrow> int (size R) \<le> MaxInFlight c)"
proof -
  have "tracks (fst s) (snd s) \<and> within_cap (fst s) \<and> MaxInFlight (fst s) = MaxInFlight c"
    if "res_step\<^sup>*\<^sup>* (c, {#}) s" for s
    using that
  proof (induction rule: rtranclp_induct)
    case base
    then show ?case using assms by (simp add: tracks_def within_cap_def)
  next
    case (step s s')
    with res_step_inv [of s s'] show ?case by simp
  qed
  from this [OF assms(1)] show ?thesis by (auto simp: tracks_def within_cap_def)
qed

theorem inflight_refines_outstanding_witness:
  "\<exists>c' R. res_step\<^sup>*\<^sup>* (zero_credential\<lparr>MaxInFlight := 1\<rparr>, {#}) (c', R) \<and> size R = 1 \<and> tracks c' R \<and>
     int (size R) \<le> MaxInFlight (zero_credential\<lparr>MaxInFlight := 1\<rparr>)"
proof -
  let ?c = "zero_credential\<lparr>MaxInFlight := 1\<rparr>"
  have r: "res_step\<^sup>*\<^sup>* (?c, {#}) (count_reservation ''m'' ?c, {#''m''#})"
    by (rule r_into_rtranclp, rule res_step.accept [of 5])
      (simp add: Reserve_def zero_credential_def zero_quota_def cooling_def at_capacity_def model_cooling_def)
  have h: "InFlight ?c = 0" "InFlightByModel ?c = Map.empty"
    by (simp_all add: zero_credential_def)
  from inflight_refines_outstanding [OF r h] r show ?thesis
    by (intro exI [of _ "count_reservation ''m'' ?c"] exI [of _ "{#''m''#}"]) simp
qed

lemma Reserve_Release_roundtrip:
  assumes "Reserve now m c = (c', True)" "0 \<le> InFlight c"
    and "\<And>k v. InFlightByModel c k = Some v \<Longrightarrow> 0 < v"
  shows "ReleaseReservation t m c' = c\<lparr>LastUsedAt := t\<rparr>"
proof -
  have "c' = count_reservation m c" using assms(1) Reserve_cases [of now m c] by auto
  with assms(2,3) show ?thesis
    by (cases "InFlightByModel c m")
      (auto simp: ReleaseReservation_def count_reservation_def mget_def Let_def fun_upd_idem)
qed

end
