(* ===== verification/Runtime_Store.thy ===== *)
theory Runtime_Store
  imports Credential
begin

text \<open>
  The \<open>RuntimeStateStore\<close> interface of \<open>internal/pool/runtime_state.go\<close>: the scheduling state
  shared between processes, as the scheduler and the conductor see it. A Go interface value is
  a record of its methods over an abstract state \<open>'s\<close>; each method takes the time of the call.
  The same file's reservation tracker, which pairs a credential pointer with the leases taken
  for it, is here too.
\<close>

section \<open>The interface\<close>

record runtime_reservation =
  RID :: string
  RCredID :: string
  RModel :: string

definition zero_reservation :: runtime_reservation where
  "zero_reservation = \<lparr>RID = '''', RCredID = '''', RModel = ''''\<rparr>"

type_synonym 's runtime_call = "'s \<Rightarrow> 's \<times> string option"

record 's runtime_ops =
  GetAffinity :: "gotime \<Rightarrow> string \<Rightarrow> duration \<Rightarrow> 's \<Rightarrow> 's \<times> (string + string \<times> bool)"
  SetAffinity :: "gotime \<Rightarrow> string \<Rightarrow> string \<Rightarrow> duration \<Rightarrow> 's runtime_call"
  SyncInFlight :: "gotime \<Rightarrow> addr list \<Rightarrow> string \<Rightarrow> cred_heap \<Rightarrow> 's \<Rightarrow> 's \<times> cred_heap \<times> string option"
  TryReserve :: "gotime \<Rightarrow> credential option \<Rightarrow> string \<Rightarrow> duration \<Rightarrow> 's
      \<Rightarrow> 's \<times> (string + runtime_reservation \<times> bool)"
  Extend :: "gotime \<Rightarrow> runtime_reservation \<Rightarrow> duration \<Rightarrow> 's \<Rightarrow> 's \<times> (string + bool)"
  Release :: "gotime \<Rightarrow> runtime_reservation \<Rightarrow> 's runtime_call"
  SetCooldown :: "gotime \<Rightarrow> string \<Rightarrow> string \<Rightarrow> duration \<Rightarrow> 's runtime_call"
  ClearCooldown :: "gotime \<Rightarrow> string \<Rightarrow> string \<Rightarrow> 's runtime_call"

section \<open>The reservation tracker\<close>

text \<open>
  \<open>items map[*Credential][]trackedReservation\<close>. The stored cancel function stops the renewal
  goroutine of its lease; the model keeps the lease, whose renewal is cancelled exactly when it
  is popped.
\<close>

type_synonym tracker = "addr \<Rightarrow> runtime_reservation list"

definition newReservationTracker :: tracker where
  "newReservationTracker = (\<lambda>_. [])"

definition tracker_push :: "addr \<Rightarrow> runtime_reservation \<Rightarrow> tracker \<Rightarrow> tracker" where
  "tracker_push c res t = t(c := t c @ [res])"

text \<open>The backwards loop of \<open>pop\<close>: the last entry with the given model, removed from the list.\<close>

fun pop_last :: "string \<Rightarrow> runtime_reservation list \<Rightarrow> nat
    \<Rightarrow> (runtime_reservation \<times> runtime_reservation list) option" where
  "pop_last model xs 0 = None"
| "pop_last model xs (Suc i) =
     (if RModel (xs ! i) = model then Some (xs ! i, take i xs @ drop (Suc i) xs)
      else pop_last model xs i)"

definition tracker_pop :: "addr \<Rightarrow> string \<Rightarrow> tracker
    \<Rightarrow> tracker \<times> (runtime_reservation \<times> bool)" where
  "tracker_pop c model t =
     (case pop_last model (t c) (length (t c)) of
        None \<Rightarrow> (t, zero_reservation, False)
      | Some (res, rest) \<Rightarrow> (t(c := rest), res, True))"

lemma pop_last_split:
  "i \<le> length xs \<Longrightarrow> pop_last model xs i = Some (res, rest) \<Longrightarrow>
   \<exists>us vs. xs = us @ res # vs \<and> rest = us @ vs \<and> RModel res = model"
proof (induction i)
  case (Suc i)
  show ?case
  proof (cases "RModel (xs ! i) = model")
    case True
    with Suc.prems show ?thesis
      by (intro exI [of _ "take i xs"] exI [of _ "drop (Suc i) xs"]) (auto simp: id_take_nth_drop)
  next
    case False
    with Suc show ?thesis by simp
  qed
qed simp

lemma pop_last_None:
  "i \<le> length xs \<Longrightarrow> pop_last model xs i = None \<longleftrightarrow> (\<forall>x \<in> set (take i xs). RModel x \<noteq> model)"
  by (induction i) (auto simp: take_Suc_conv_app_nth)

lemma tracker_push_pop: "tracker_pop c (RModel res) (tracker_push c res t) = (t, res, True)"
  by (auto simp: tracker_pop_def tracker_push_def nth_append fun_upd_idem)

end
