(* ===== verification/Scheduler.thy ===== *)
theory Scheduler
  imports Runtime_Store
begin

text \<open>
  \<open>DefaultScheduler\<close> of \<open>internal/pool/scheduler_default.go\<close>. The state is the heap of
  credentials, the registered pointers by identifier, their order, the counter of runtime
  identities, whether a credential store is attached and the saves started on it. Each method
  holds the scheduler's or the credential's mutex around its accesses and is one step. The runtime
  state store, when one is attached, is an argument with its own state, which the operations pass
  through; its errors are discarded by the code.
\<close>

section \<open>State\<close>

record scheduler =
  heap :: cred_heap
  creds :: "string \<rightharpoonup> addr"
  order :: "string list"
  nextRuntimeID :: nat
  store_attached :: bool
  saves :: "addr list"

definition NewDefaultScheduler :: "cred_heap \<Rightarrow> scheduler" where
  "NewDefaultScheduler h =
     \<lparr>heap = h, creds = Map.empty, order = [], nextRuntimeID = 0, store_attached = False, saves = []\<rparr>"

definition SetCredentialStore :: "bool \<Rightarrow> scheduler \<Rightarrow> scheduler" where
  "SetCredentialStore present s = s\<lparr>store_attached := present\<rparr>"

definition upd_cred :: "addr \<Rightarrow> (credential \<Rightarrow> credential) \<Rightarrow> scheduler \<Rightarrow> scheduler" where
  "upd_cred c f s = s\<lparr>heap := (heap s)(c := f (heap s c))\<rparr>"

section \<open>Registration\<close>

definition copyRuntimeState :: "credential \<Rightarrow> credential \<Rightarrow> credential" where
  "copyRuntimeState src dst =
     dst\<lparr>Quota := Quota src, Success := Success src, Failed := Failed src,
         InFlight := InFlight src, LastUsedAt := LastUsedAt src, Disabled := Disabled src,
         DisabledReason := DisabledReason src, DisabledAt := DisabledAt src,
         LastQuota := LastQuota src, LastQuotaAt := LastQuotaAt src,
         LastQuotaError := LastQuotaError src, LastQuotaErrorAt := LastQuotaErrorAt src,
         ModelStates := ModelStates src, InFlightByModel := InFlightByModel src\<rparr>"

text \<open>The body of \<open>Register\<close>'s loop for one credential with a non-empty identifier.\<close>

definition register_one :: "(string \<rightharpoonup> addr) \<Rightarrow> addr \<Rightarrow> cred_heap \<times> nat \<Rightarrow> cred_heap \<times> nat" where
  "register_one cur c hk =
     (let (h, k) = hk in
      case cur (ID (h c)) of
        Some old \<Rightarrow>
          (let h = h(c := (h c)\<lparr>runtimeID := runtimeID (h old)\<rparr>);
               h = (if old \<noteq> c then h(c := copyRuntimeState (h old) (h c)) else h)
           in (h, k))
      | None \<Rightarrow> (h(c := (h c)\<lparr>runtimeID := k + 1\<rparr>), k + 1))"

fun register_loop :: "(string \<rightharpoonup> addr) \<Rightarrow> addr option list
    \<Rightarrow> cred_heap \<times> nat \<Rightarrow> (string \<rightharpoonup> addr) \<Rightarrow> string list
    \<Rightarrow> (cred_heap \<times> nat) \<times> (string \<rightharpoonup> addr) \<times> string list" where
  "register_loop cur [] hk nxt ord = (hk, nxt, ord)"
| "register_loop cur (None # cs) hk nxt ord = register_loop cur cs hk nxt ord"
| "register_loop cur (Some c # cs) hk nxt ord =
     (if ID (fst hk c) = '''' then register_loop cur cs hk nxt ord
      else
        (let hk = register_one cur c hk; id = ID (fst hk c)
         in register_loop cur cs hk (nxt(id \<mapsto> c)) (ord @ [id])))"

definition Register :: "addr option list \<Rightarrow> scheduler \<Rightarrow> scheduler" where
  "Register cs s =
     (let ((h, k), nxt, ord) = register_loop (creds s) cs (heap s, nextRuntimeID s) Map.empty []
      in s\<lparr>heap := h, nextRuntimeID := k, creds := nxt, order := ord\<rparr>)"

definition Add :: "addr option \<Rightarrow> scheduler \<Rightarrow> scheduler \<times> pool_error option" where
  "Add cred s =
     (case cred of
        None \<Rightarrow> (s, Some ErrNilOrEmptyID)
      | Some c \<Rightarrow>
          if ID (heap s c) = '''' then (s, Some ErrNilOrEmptyID)
          else if creds s (ID (heap s c)) \<noteq> None then (s, Some ErrDuplicateID)
          else
            (let id = ID (heap s c);
                 s = upd_cred c (\<lambda>x. x\<lparr>runtimeID := nextRuntimeID s + 1\<rparr>) s;
                 s = s\<lparr>nextRuntimeID := nextRuntimeID s + 1\<rparr>;
                 s = s\<lparr>creds := (creds s)(id \<mapsto> c)\<rparr>
             in (s\<lparr>order := order s @ [id]\<rparr>, None)))"

definition Remove :: "string \<Rightarrow> scheduler \<Rightarrow> scheduler \<times> pool_error option" where
  "Remove credID s =
     (if creds s credID = None then (s, Some ErrCredentialNotFound)
      else (s\<lparr>creds := (creds s)(credID := None), order := remove1 credID (order s)\<rparr>, None))"

section \<open>Queries\<close>

definition Lookup :: "string \<Rightarrow> scheduler \<Rightarrow> addr option" where
  "Lookup credID s = creds s credID"

definition All :: "scheduler \<Rightarrow> addr list" where
  "All s = List.map_filter (creds s) (order s)"

text \<open>\<open>now a\<close> is the time at which credential \<open>a\<close> is tested.\<close>

definition Ready :: "(addr \<Rightarrow> gotime) \<Rightarrow> scheduler \<Rightarrow> addr list" where
  "Ready now s =
     (let all = List.map_filter (creds s) (order s);
          ready = filter (\<lambda>c. IsReadyFor (now c) (now c) '''' (heap s c)) all
      in sort_key (\<lambda>c. - Priority (heap s c)) ready)"

section \<open>Outcomes\<close>

definition sched_ReleaseReservation :: "gotime \<Rightarrow> addr option \<Rightarrow> string \<Rightarrow> scheduler \<Rightarrow> scheduler \<times> bool" where
  "sched_ReleaseReservation now cred model s =
     (case cred of
        None \<Rightarrow> (s, False)
      | Some cr \<Rightarrow>
          (case creds s (ID (heap s cr)) of
             None \<Rightarrow> (s, False)
           | Some c \<Rightarrow>
               if runtimeID (heap s c) = runtimeID (heap s cr)
               then (upd_cred c (ReleaseReservation now model) s, True)
               else (s, False)))"

definition clear_quota :: "quota_state \<Rightarrow> quota_state" where
  "clear_quota q = q\<lparr>Exceeded := False, BackoffLevel := 0, NextRecoverAt := 0\<rparr>"

text \<open>\<open>ensureModelStateLocked\<close> followed by an update of the state it returns.\<close>

definition upd_model :: "string \<Rightarrow> (model_state \<Rightarrow> model_state) \<Rightarrow> credential \<Rightarrow> credential" where
  "upd_model model f c =
     (let ms = (case ModelStates c model of Some ms \<Rightarrow> ms | None \<Rightarrow> zero_model_state)
      in c\<lparr>ModelStates := (ModelStates c)(model \<mapsto> f ms)\<rparr>)"

definition persistCredentialAsync :: "addr \<Rightarrow> scheduler \<Rightarrow> scheduler" where
  "persistCredentialAsync c s = (if store_attached s then s\<lparr>saves := saves s @ [c]\<rparr> else s)"

definition MarkSuccess :: "'s runtime_ops option \<Rightarrow> gotime \<Rightarrow> string \<Rightarrow> string
    \<Rightarrow> scheduler \<times> 's \<Rightarrow> scheduler \<times> 's" where
  "MarkSuccess rt now credID model st =
     (let (s, \<sigma>) = st in
      case Lookup credID s of
        None \<Rightarrow> (s, \<sigma>)
      | Some c \<Rightarrow>
          (let s = upd_cred c (\<lambda>x.
                 let x = x\<lparr>Quota := clear_quota (Quota x), Success := Success x + 1, LastUsedAt := now\<rparr>
                 in if model \<noteq> ''''
                    then upd_model model (\<lambda>ms. ms\<lparr>MQuota := clear_quota (MQuota ms), MSuccess := MSuccess ms + 1\<rparr>) x
                    else x) s
           in (s, case rt of None \<Rightarrow> \<sigma> | Some r \<Rightarrow> fst (ClearCooldown r now credID model \<sigma>))))"

text \<open>The cooldown \<open>MarkRateLimit\<close> puts on an account or model state.\<close>

definition cool_down :: "gotime \<Rightarrow> duration \<Rightarrow> quota_state \<Rightarrow> quota_state" where
  "cool_down now retryAfter q =
     q\<lparr>Exceeded := True, NextRecoverAt := now + NextBackoff (BackoffLevel q) retryAfter,
       BackoffLevel := BackoffLevel q + 1\<rparr>"

definition model_backoff :: "string \<Rightarrow> duration \<Rightarrow> credential \<Rightarrow> duration" where
  "model_backoff model retryAfter c =
     (if model \<noteq> ''''
      then NextBackoff (BackoffLevel (MQuota (case ModelStates c model of Some ms \<Rightarrow> ms | None \<Rightarrow> zero_model_state))) retryAfter
      else 0)"

definition rate_limited :: "gotime \<Rightarrow> gotime \<Rightarrow> string \<Rightarrow> duration \<Rightarrow> credential \<Rightarrow> credential" where
  "rate_limited now1 now2 model retryAfter x =
     (let x = x\<lparr>Failed := Failed x + 1\<rparr> in
      if DisableCooling x
      then (if model \<noteq> '''' then upd_model model (\<lambda>ms. ms\<lparr>MFailed := MFailed ms + 1\<rparr>) x else x)
      else
        (let x = x\<lparr>Quota := cool_down now1 retryAfter (Quota x)\<rparr>
         in if model \<noteq> ''''
            then upd_model model (\<lambda>ms. ms\<lparr>MQuota := cool_down now2 retryAfter (MQuota ms), MFailed := MFailed ms + 1\<rparr>) x
            else x))"

definition MarkRateLimit :: "'s runtime_ops option \<Rightarrow> gotime \<Rightarrow> gotime \<Rightarrow> string \<Rightarrow> string \<Rightarrow> duration
    \<Rightarrow> scheduler \<times> 's \<Rightarrow> scheduler \<times> 's" where
  "MarkRateLimit rt now1 now2 credID model retryAfter st =
     (let (s, \<sigma>) = st in
      case Lookup credID s of
        None \<Rightarrow> (s, \<sigma>)
      | Some c \<Rightarrow>
          (let x = heap s c;
               d = NextBackoff (BackoffLevel (Quota x)) retryAfter;
               modelCooldown = model_backoff model retryAfter x;
               s = upd_cred c (rate_limited now1 now2 model retryAfter) s
           in if DisableCooling x then (s, \<sigma>)
              else
                (s, case rt of
                      None \<Rightarrow> \<sigma>
                    | Some r \<Rightarrow>
                        (let \<sigma> = fst (SetCooldown r now2 credID '''' d \<sigma>)
                         in if model \<noteq> '''' \<and> modelCooldown > 0
                            then fst (SetCooldown r now2 credID model modelCooldown \<sigma>) else \<sigma>))))"

definition MarkAuthError :: "'s runtime_ops option \<Rightarrow> gotime \<Rightarrow> string \<Rightarrow> string
    \<Rightarrow> scheduler \<times> 's \<Rightarrow> scheduler \<times> 's" where
  "MarkAuthError rt now credID reason st =
     (let (s, \<sigma>) = st in
      case Lookup credID s of
        None \<Rightarrow> (s, \<sigma>)
      | Some c \<Rightarrow>
          (let s = upd_cred c (\<lambda>x. x\<lparr>Disabled := True, DisabledReason := reason, DisabledAt := now\<rparr>) s;
               \<sigma> = (case rt of None \<Rightarrow> \<sigma> | Some r \<Rightarrow> fst (SetCooldown r now credID '''' (24 * hour) \<sigma>))
           in (persistCredentialAsync c s, \<sigma>)))"

definition RefreshQuota :: "'s runtime_ops option \<Rightarrow> gotime \<Rightarrow> gotime \<Rightarrow> string \<Rightarrow> quota_snapshot option
    \<Rightarrow> scheduler \<times> 's \<Rightarrow> scheduler \<times> 's" where
  "RefreshQuota rt now1 now2 credID snap st =
     (let (s, \<sigma>) = st in
      case Lookup credID s of
        None \<Rightarrow> (s, \<sigma>)
      | Some c \<Rightarrow>
          (let s = upd_cred c (\<lambda>x. x\<lparr>LastQuota := snap, LastQuotaAt := now1, LastQuotaError := '''',
                                    LastQuotaErrorAt := 0\<rparr>) s;
               (s, \<sigma>) =
                 (case snap of
                    None \<Rightarrow> (s, \<sigma>)
                  | Some q \<Rightarrow>
                      if Banned q
                      then MarkAuthError rt now2 credID (if BanReason q = '''' then ''banned'' else BanReason q) (s, \<sigma>)
                      else (s, \<sigma>))
           in (persistCredentialAsync c s, \<sigma>)))"

definition RecordQuotaError :: "gotime \<Rightarrow> string \<Rightarrow> string \<Rightarrow> scheduler \<Rightarrow> scheduler" where
  "RecordQuotaError now credID errMsg s =
     (case Lookup credID s of
        None \<Rightarrow> s
      | Some c \<Rightarrow>
          persistCredentialAsync c (upd_cred c (\<lambda>x. x\<lparr>LastQuotaError := errMsg, LastQuotaErrorAt := now\<rparr>) s))"

definition SetEnabled :: "'s runtime_ops option \<Rightarrow> gotime \<Rightarrow> string \<Rightarrow> bool
    \<Rightarrow> scheduler \<times> 's \<Rightarrow> (scheduler \<times> 's) \<times> pool_error option" where
  "SetEnabled rt now credID enabled st =
     (let (s, \<sigma>) = st in
      case Lookup credID s of
        None \<Rightarrow> ((s, \<sigma>), Some ErrCredentialNotFound)
      | Some c \<Rightarrow>
          if enabled
          then
            (let s = upd_cred c (\<lambda>x. x\<lparr>Disabled := False, DisabledReason := '''', DisabledAt := 0,
                                      Quota := clear_quota (Quota x)\<rparr>) s;
                 \<sigma> = (case rt of None \<Rightarrow> \<sigma> | Some r \<Rightarrow> fst (ClearCooldown r now credID '''' \<sigma>))
             in ((persistCredentialAsync c s, \<sigma>), None))
          else
            (let s = upd_cred c (\<lambda>x. x\<lparr>Disabled := True,
                                      DisabledAt := (if DisabledAt x = 0 then now else DisabledAt x)\<rparr>) s
             in ((persistCredentialAsync c s, \<sigma>), None)))"

lemmas sched_op_defs [sched_defs] =
  Add_def Remove_def Lookup_def sched_ReleaseReservation_def MarkSuccess_def MarkRateLimit_def
  MarkAuthError_def RefreshQuota_def RecordQuotaError_def SetEnabled_def persistCredentialAsync_def
  upd_cred_def

section \<open>Invariant\<close>

definition rid :: "scheduler \<Rightarrow> addr \<Rightarrow> nat" where
  "rid s c = runtimeID (heap s c)"

definition sched_ok :: "scheduler \<Rightarrow> bool" where
  "sched_ok s \<longleftrightarrow>
     distinct (order s) \<and> dom (creds s) = set (order s) \<and>
     (\<forall>i c. creds s i = Some c \<longrightarrow> i \<noteq> '''' \<and> ID (heap s c) = i \<and> 1 \<le> rid s c \<and> rid s c \<le> nextRuntimeID s) \<and>
     (\<forall>i c j d. creds s i = Some c \<longrightarrow> creds s j = Some d \<longrightarrow> rid s c = rid s d \<longrightarrow> i = j)"

text \<open>The identities in use, and how they may change: an identity is new only if it was never used.\<close>

definition rids :: "scheduler \<Rightarrow> nat set" where
  "rids s = rid s ` ran (creds s)"

definition ids_evolve :: "scheduler \<Rightarrow> scheduler \<Rightarrow> bool" where
  "ids_evolve s s' \<longleftrightarrow> nextRuntimeID s \<le> nextRuntimeID s' \<and>
     (\<forall>r \<in> rids s'. r \<in> rids s \<or> nextRuntimeID s < r)"

lemma ids_evolve_trans: "ids_evolve s s' \<Longrightarrow> ids_evolve s' s'' \<Longrightarrow> ids_evolve s s''"
  by (auto simp: ids_evolve_def)

text \<open>Operations that change neither the registration nor any identity.\<close>

definition same_ids :: "scheduler \<Rightarrow> scheduler \<Rightarrow> bool" where
  "same_ids s s' \<longleftrightarrow> creds s' = creds s \<and> order s' = order s \<and> nextRuntimeID s' = nextRuntimeID s \<and>
     (\<forall>a. ID (heap s' a) = ID (heap s a) \<and> runtimeID (heap s' a) = runtimeID (heap s a))"

lemma same_ids_ok: "same_ids s s' \<Longrightarrow> sched_ok s \<Longrightarrow> sched_ok s' \<and> ids_evolve s s'"
  by (auto simp: same_ids_def sched_ok_def ids_evolve_def rids_def rid_def)

lemma same_ids_refl [simp]: "same_ids s s"
  by (simp add: same_ids_def)

lemma same_ids_trans: "same_ids s s' \<Longrightarrow> same_ids s' s'' \<Longrightarrow> same_ids s s''"
  by (auto simp: same_ids_def)

lemma same_ids_persist [simp]: "same_ids s (persistCredentialAsync c s') \<longleftrightarrow> same_ids s s'"
  by (simp add: same_ids_def persistCredentialAsync_def)

lemma same_ids_upd [simp]:
  "(\<And>x. ID (f x) = ID x \<and> runtimeID (f x) = runtimeID x) \<Longrightarrow> same_ids s (upd_cred c f s)"
  by (simp add: same_ids_def upd_cred_def)

lemma upd_model_frame [simp]:
  "ID (upd_model m f c) = ID c" "runtimeID (upd_model m f c) = runtimeID c"
  "Quota (upd_model m f c) = Quota c" "Disabled (upd_model m f c) = Disabled c"
  "MaxInFlight (upd_model m f c) = MaxInFlight c" "InFlight (upd_model m f c) = InFlight c"
  "DisableCooling (upd_model m f c) = DisableCooling c"
  by (simp_all add: upd_model_def Let_def)

lemma rate_limited_frame [simp]:
  "ID (rate_limited t1 t2 m ra c) = ID c" "runtimeID (rate_limited t1 t2 m ra c) = runtimeID c"
  "DisableCooling (rate_limited t1 t2 m ra c) = DisableCooling c"
  "Quota (rate_limited t1 t2 m ra c) = (if DisableCooling c then Quota c else cool_down t1 ra (Quota c))"
  by (simp_all add: rate_limited_def Let_def)

lemma outcome_same_ids:
  "same_ids s (fst (MarkSuccess rt t i m (s, \<sigma>)))"
  "same_ids s (fst (MarkRateLimit rt t t' i m ra (s, \<sigma>)))"
  "same_ids s (fst (MarkAuthError rt t i re (s, \<sigma>)))"
  "same_ids s (RecordQuotaError t i e s)"
  "same_ids s (fst (fst (SetEnabled rt t i b (s, \<sigma>))))"
  "same_ids s (fst (sched_ReleaseReservation t cr m s))"
  by (auto simp: MarkSuccess_def MarkRateLimit_def MarkAuthError_def RecordQuotaError_def SetEnabled_def
      sched_ReleaseReservation_def Let_def split: option.split)

lemma RefreshQuota_same_ids: "same_ids s (fst (RefreshQuota rt t t' i q (s, \<sigma>)))"
proof (cases "Lookup i s")
  case (Some c)
  let ?s = "upd_cred c (\<lambda>x. x\<lparr>LastQuota := q, LastQuotaAt := t, LastQuotaError := '''', LastQuotaErrorAt := 0\<rparr>) s"
  have "same_ids s ?s" by simp
  then have auth: "same_ids s (fst (MarkAuthError rt t' i re (?s, \<sigma>)))" for re
    by (rule same_ids_trans) (rule outcome_same_ids(3))
  with Some show ?thesis
    by (cases q) (simp_all add: RefreshQuota_def Let_def case_prod_unfold)
qed (simp add: RefreshQuota_def)

section \<open>Registering\<close>

text \<open>
  What \<open>Register\<close> has done to the heap \<open>h0\<close> (identity counter \<open>k0\<close>) after some credentials, as a
  specification of the contents each registered credential ends up with.
\<close>

definition adopt :: "addr \<Rightarrow> addr \<Rightarrow> cred_heap \<Rightarrow> credential" where
  "adopt old c h0 = (if old = c then h0 c else copyRuntimeState (h0 old) ((h0 c)\<lparr>runtimeID := runtimeID (h0 old)\<rparr>))"

definition entry_ok :: "(string \<rightharpoonup> addr) \<Rightarrow> cred_heap \<Rightarrow> nat \<Rightarrow> nat \<Rightarrow> string \<Rightarrow> addr \<Rightarrow> credential \<Rightarrow> bool" where
  "entry_ok cur h0 k0 k i c x \<longleftrightarrow>
     (case cur i of
        Some old \<Rightarrow> x = adopt old c h0
      | None \<Rightarrow> \<exists>n. k0 < n \<and> n \<le> k \<and> x = (h0 c)\<lparr>runtimeID := n\<rparr>)"

definition reg_inv :: "(string \<rightharpoonup> addr) \<Rightarrow> cred_heap \<Rightarrow> nat \<Rightarrow> cred_heap \<Rightarrow> nat \<Rightarrow> (string \<rightharpoonup> addr) \<Rightarrow> string list \<Rightarrow> bool" where
  "reg_inv cur h0 k0 h k nxt ord \<longleftrightarrow>
     (\<forall>a. ID (h a) = ID (h0 a)) \<and> k0 \<le> k \<and> distinct ord \<and> dom nxt = set ord \<and>
     (\<forall>a. a \<notin> ran nxt \<longrightarrow> h a = h0 a) \<and>
     (\<forall>i c. nxt i = Some c \<longrightarrow> i \<noteq> '''' \<and> ID (h0 c) = i \<and> entry_ok cur h0 k0 k i c (h c)) \<and>
     (\<forall>i c j d. nxt i = Some c \<longrightarrow> nxt j = Some d \<longrightarrow> cur i = None \<longrightarrow> cur j = None \<longrightarrow>
        runtimeID (h c) = runtimeID (h d) \<longrightarrow> i = j)"

lemma entry_ok_mono: "entry_ok cur h0 k0 k i c x \<Longrightarrow> k \<le> k' \<Longrightarrow> entry_ok cur h0 k0 k' i c x"
  by (auto simp: entry_ok_def split: option.splits intro: le_trans)

lemma copyRuntimeState_frame [simp]:
  "ID (copyRuntimeState a b) = ID b" "runtimeID (copyRuntimeState a b) = runtimeID b"
  "Quota (copyRuntimeState a b) = Quota a" "InFlight (copyRuntimeState a b) = InFlight a"
  "Disabled (copyRuntimeState a b) = Disabled a" "ModelStates (copyRuntimeState a b) = ModelStates a"
  "MaxInFlight (copyRuntimeState a b) = MaxInFlight b" "Priority (copyRuntimeState a b) = Priority b"
  by (simp_all add: copyRuntimeState_def)

lemma reg_inv_entry:
  assumes "reg_inv cur h0 k0 h k nxt ord" "nxt i = Some c"
  shows "i \<noteq> ''''" "ID (h0 c) = i" "entry_ok cur h0 k0 k i c (h c)"
  using assms by (simp_all add: reg_inv_def)

lemma reg_inv_old:
  assumes "reg_inv cur h0 k0 h k nxt ord" "cur i = Some old" "ID (h0 old) = i"
  shows "h old = h0 old"
proof (cases "old \<in> ran nxt")
  case True
  then obtain j where j: "nxt j = Some old" by (auto simp: ran_def)
  from reg_inv_entry(2,3) [OF assms(1) j] assms(2,3) show ?thesis by (auto simp: entry_ok_def adopt_def)
qed (use assms(1) in \<open>simp add: reg_inv_def\<close>)

lemma reg_inv_step:
  assumes R: "reg_inv cur h0 k0 h k nxt ord"
    and cur: "\<And>i old. cur i = Some old \<Longrightarrow> ID (h0 old) = i"
    and c: "ID (h c) \<noteq> ''''" "ID (h c) \<notin> set ord" and one: "register_one cur c (h, k) = (h', k')"
  shows "reg_inv cur h0 k0 h' k' (nxt(ID (h c) \<mapsto> c)) (ord @ [ID (h c)])"
proof -
  have id: "ID (h a) = ID (h0 a)" for a using R by (simp add: reg_inv_def)
  have fresh: "c \<notin> ran nxt"
  proof
    assume "c \<in> ran nxt"
    then obtain i where "nxt i = Some c" by (auto simp: ran_def)
    with R c(2) id show False by (auto simp: reg_inv_def dom_def)
  qed
  then have hc: "h c = h0 c" using R by (simp add: reg_inv_def)
  have no: "nxt (ID (h0 c)) = None" using R c(2) id by (auto simp: reg_inv_def dom_def)
  have ran: "ran (nxt(ID (h0 c) \<mapsto> c)) = insert c (ran nxt)" using no by (simp add: ran_map_upd)
  have ne: "d \<noteq> c" if "nxt j = Some d" for j d using that fresh by (auto simp: ran_def)
  have upd: "reg_inv cur h0 k0 (h(c := x)) k' (nxt(ID (h0 c) \<mapsto> c)) (ord @ [ID (h0 c)])"
    if x: "ID x = ID (h0 c)" "k \<le> k'" "entry_ok cur h0 k0 k' (ID (h0 c)) c x"
      "\<And>j d. cur (ID (h0 c)) = None \<Longrightarrow> nxt j = Some d \<Longrightarrow> cur j = None \<Longrightarrow> runtimeID x \<noteq> runtimeID (h d)" for x k'
    unfolding reg_inv_def ran
  proof (intro conjI allI impI)
    fix i d assume i: "(nxt(ID (h0 c) \<mapsto> c)) i = Some d"
    show "entry_ok cur h0 k0 k' i d ((h(c := x)) d)"
    proof (cases "i = ID (h0 c)")
      case False
      with i have "nxt i = Some d" by simp
      with ne reg_inv_entry(3) [OF R this] x(2) show ?thesis by (simp add: entry_ok_mono)
    qed (use i x(3) in simp)
  next
    fix i d j e
    assume a: "(nxt(ID (h0 c) \<mapsto> c)) i = Some d" "(nxt(ID (h0 c) \<mapsto> c)) j = Some e"
      "cur i = None" "cur j = None" "runtimeID ((h(c := x)) d) = runtimeID ((h(c := x)) e)"
    have R7: "nxt i = Some d \<Longrightarrow> nxt j = Some e \<Longrightarrow> runtimeID (h d) = runtimeID (h e) \<Longrightarrow> i = j"
      using R a(3,4) unfolding reg_inv_def by blast
    show "i = j"
    proof (cases "i = ID (h0 c)")
      case True
      then show ?thesis using a ne [of j e] x(4) [of j e] by (cases "j = ID (h0 c)") auto
    next
      case False
      then show ?thesis using a ne [of i d] ne [of j e] x(4) [of i d] R7
        by (cases "j = ID (h0 c)") auto
    qed
  qed (use R no c x(1,2) id in \<open>auto simp: reg_inv_def split: if_splits\<close>)
  show ?thesis
  proof (cases "cur (ID (h0 c))")
    case None
    with one hc have h': "h' = h(c := (h0 c)\<lparr>runtimeID := k + 1\<rparr>)" "k' = k + 1"
      by (auto simp: register_one_def)
    have old: "nxt j = Some d \<Longrightarrow> cur j = None \<Longrightarrow> runtimeID (h d) \<le> k" for j d
      using reg_inv_entry(3) [OF R, of j d] by (auto simp: entry_ok_def)
    have lt: "k0 < k + 1" using R by (simp add: reg_inv_def)
    show ?thesis unfolding h' id
      by (rule upd) (use None lt old in \<open>force simp: entry_ok_def\<close>)+
  next
    case (Some old)
    have "h old = h0 old" by (rule reg_inv_old [OF R Some cur [OF Some]])
    with one Some hc have h': "h' = h(c := adopt old c h0)" "k' = k"
      by (auto simp: register_one_def adopt_def Let_def)
    show ?thesis unfolding h' id
      by (rule upd) (use Some in \<open>auto simp: entry_ok_def adopt_def\<close>)
  qed
qed

text \<open>The credentials \<open>Register\<close> takes: the non-nil ones with an identifier.\<close>

definition named :: "cred_heap \<Rightarrow> addr option list \<Rightarrow> addr list" where
  "named h cs = filter (\<lambda>c. ID (h c) \<noteq> '''') (List.map_filter id cs)"

lemma named_simps [simp]:
  "named h [] = []" "named h (None # cs) = named h cs"
  "named h (Some c # cs) = (if ID (h c) = '''' then named h cs else c # named h cs)"
  by (simp_all add: named_def map_filter_simps)

lemma register_loop_inv:
  assumes "reg_inv cur h0 k0 h k nxt ord"
    and "\<And>i old. cur i = Some old \<Longrightarrow> ID (h0 old) = i"
    and "distinct (ord @ map (\<lambda>c. ID (h0 c)) (named h0 cs))"
    and "register_loop cur cs (h, k) nxt ord = ((h', k'), nxt', ord')"
  shows "reg_inv cur h0 k0 h' k' nxt' ord' \<and> ord' = ord @ map (\<lambda>c. ID (h0 c)) (named h0 cs) \<and>
    (\<forall>i \<in> set ord. nxt' i = nxt i) \<and> (\<forall>c \<in> set (named h0 cs). nxt' (ID (h0 c)) = Some c)"
  using assms
proof (induction cs arbitrary: h k nxt ord)
  case (Cons oc cs)
  have id: "ID (h a) = ID (h0 a)" for a using Cons.prems(1) by (simp add: reg_inv_def)
  show ?case
  proof (cases oc)
    case (Some c)
    show ?thesis
    proof (cases "ID (h0 c) = ''''")
      case True
      then have "ID (h c) = ''''" by (simp add: id)
      then have "register_loop cur cs (h, k) nxt ord = ((h', k'), nxt', ord')" using Cons.prems(4) Some by simp
      from Cons.IH [OF Cons.prems(1,2) _ this] Cons.prems(3) Some True show ?thesis by auto
    next
      case False
      obtain h1 k1 where one: "register_one cur c (h, k) = (h1, k1)" by (cases "register_one cur c (h, k)")
      have R1: "reg_inv cur h0 k0 h1 k1 (nxt(ID (h0 c) \<mapsto> c)) (ord @ [ID (h0 c)])"
      proof -
        have "ID (h c) \<noteq> ''''" "ID (h c) \<notin> set ord" using Cons.prems(3) False Some by (auto simp: id)
        from reg_inv_step [OF Cons.prems(1,2) this one] show ?thesis unfolding id .
      qed
      then have "ID (h1 c) = ID (h0 c)" unfolding reg_inv_def by blast
      then have loop: "register_loop cur cs (h1, k1) (nxt(ID (h0 c) \<mapsto> c)) (ord @ [ID (h0 c)]) = ((h', k'), nxt', ord')"
        using Cons.prems(4) Some False one id by (simp add: Let_def)
      have "distinct ((ord @ [ID (h0 c)]) @ map (\<lambda>c. ID (h0 c)) (named h0 cs))"
        using Cons.prems(3) Some False by simp
      from Cons.IH [OF R1 Cons.prems(2) this loop] Cons.prems(3) Some False show ?thesis by auto
    qed
  next
    case None
    then have "register_loop cur cs (h, k) nxt ord = ((h', k'), nxt', ord')" using Cons.prems(4) by simp
    from Cons.IH [OF Cons.prems(1,2) _ this] Cons.prems(3) None show ?thesis by auto
  qed
qed simp

section \<open>The invariant is kept\<close>

lemma reg_inv_start: "reg_inv cur h0 k0 h0 k0 Map.empty []"
  by (simp add: reg_inv_def)

lemma Register_spec:
  assumes ok: "sched_ok s" and dist: "distinct (map (\<lambda>c. ID (heap s c)) (named (heap s) cs))"
  shows "reg_inv (creds s) (heap s) (nextRuntimeID s) (heap (Register cs s)) (nextRuntimeID (Register cs s))
      (creds (Register cs s)) (order (Register cs s)) \<and>
    order (Register cs s) = map (\<lambda>c. ID (heap s c)) (named (heap s) cs) \<and>
    (\<forall>c \<in> set (named (heap s) cs). creds (Register cs s) (ID (heap s c)) = Some c)"
proof -
  obtain h' k' nxt' ord' where l: "register_loop (creds s) cs (heap s, nextRuntimeID s) Map.empty [] = ((h', k'), nxt', ord')"
    by (metis prod.exhaust)
  have "\<And>i old. creds s i = Some old \<Longrightarrow> ID (heap s old) = i" using ok by (simp add: sched_ok_def)
  from register_loop_inv [OF reg_inv_start this _ l] dist show ?thesis by (auto simp: Register_def l)
qed

lemma Register_ok:
  assumes ok: "sched_ok s" and dist: "distinct (map (\<lambda>c. ID (heap s c)) (named (heap s) cs))"
  shows "sched_ok (Register cs s) \<and> ids_evolve s (Register cs s)"
proof -
  let ?s = "Register cs s"
  have R: "reg_inv (creds s) (heap s) (nextRuntimeID s) (heap ?s) (nextRuntimeID ?s) (creds ?s) (order ?s)"
    using Register_spec [OF assms] by blast
  have cur: "creds s i = Some old \<Longrightarrow> ID (heap s old) = i \<and> 1 \<le> rid s old \<and> rid s old \<le> nextRuntimeID s" for i old
    using ok by (simp add: sched_ok_def)
  have entry: "i \<noteq> '''' \<and> ID (heap ?s c) = i \<and>
      (case creds s i of Some old \<Rightarrow> rid ?s c = rid s old
       | None \<Rightarrow> nextRuntimeID s < rid ?s c \<and> rid ?s c \<le> nextRuntimeID ?s)" if "creds ?s i = Some c" for i c
    using reg_inv_entry [OF R that] R
    by (auto simp: entry_ok_def adopt_def rid_def reg_inv_def split: option.splits)
  have le: "nextRuntimeID s \<le> nextRuntimeID ?s" using R by (simp add: reg_inv_def)
  have bounds: "1 \<le> rid ?s c \<and> rid ?s c \<le> nextRuntimeID ?s" if "creds ?s i = Some c" for i c
    using entry [OF that] cur [of i] le by (cases "creds s i") fastforce+
  have inj: "i = j" if "creds ?s i = Some c" "creds ?s j = Some d" "rid ?s c = rid ?s d" for i c j d
  proof (cases "creds s i = None \<and> creds s j = None")
    case True
    have "\<forall>i c j d. creds ?s i = Some c \<longrightarrow> creds ?s j = Some d \<longrightarrow> creds s i = None \<longrightarrow> creds s j = None \<longrightarrow>
        runtimeID (heap ?s c) = runtimeID (heap ?s d) \<longrightarrow> i = j" using R unfolding reg_inv_def by blast
    with that True show ?thesis by (auto simp: rid_def)
  next
    case False
    have "creds s i = Some x \<Longrightarrow> creds s j = Some y \<Longrightarrow> rid s x = rid s y \<Longrightarrow> i = j" for x y
      using ok unfolding sched_ok_def by blast
    with False entry [OF that(1)] entry [OF that(2)] that(3) cur [of i] cur [of j] show ?thesis
      by (fastforce split: option.splits)
  qed
  have "r \<in> rids s \<or> nextRuntimeID s < r" if r: "r \<in> rids ?s" for r
  proof -
    from r obtain i c where "creds ?s i = Some c" "r = rid ?s c" by (auto simp: rids_def ran_def)
    with entry [of i c] show ?thesis by (cases "creds s i") (auto simp: rids_def ran_def image_iff)
  qed
  with entry bounds inj le R show ?thesis by (auto simp: sched_ok_def ids_evolve_def reg_inv_def)
qed

lemma Add_ok: "sched_ok s \<Longrightarrow> sched_ok (fst (Add cr s)) \<and> ids_evolve s (fst (Add cr s))"
proof (cases cr)
  case (Some c)
  assume ok: "sched_ok s"
  show ?thesis
  proof (cases "ID (heap s c) = '''' \<or> creds s (ID (heap s c)) \<noteq> None")
    case False
    let ?i = "ID (heap s c)" and ?s = "fst (Add cr s)"
    have s: "creds ?s = (creds s)(?i \<mapsto> c)" "order ?s = order s @ [?i]" "nextRuntimeID ?s = nextRuntimeID s + 1"
      "heap ?s = (heap s)(c := (heap s c)\<lparr>runtimeID := nextRuntimeID s + 1\<rparr>)"
      using Some False by (auto simp: Add_def upd_cred_def Let_def)
    have cur: "j \<noteq> '''' \<and> ID (heap s d) = j \<and> 1 \<le> rid s d \<and> rid s d \<le> nextRuntimeID s \<and> d \<noteq> c"
      if "creds s j = Some d" for j d
      using ok that False unfolding sched_ok_def by fastforce
    have rid: "rid ?s c = nextRuntimeID s + 1" "creds s j = Some d \<Longrightarrow> rid ?s d = rid s d" for j d
      using cur [of j d] by (auto simp: rid_def s)
    have inj: "creds s j = Some x \<Longrightarrow> creds s k = Some y \<Longrightarrow> rid s x = rid s y \<Longrightarrow> j = k" for j k x y
      using ok unfolding sched_ok_def by blast
    have "distinct (order ?s) \<and> dom (creds ?s) = set (order ?s)"
      using ok False by (auto simp: sched_ok_def s)
    moreover have "j \<noteq> '''' \<and> ID (heap ?s d) = j \<and> 1 \<le> rid ?s d \<and> rid ?s d \<le> nextRuntimeID ?s"
      if "creds ?s j = Some d" for j d
      using that cur [of j d] rid(1) rid(2) [of j d] False by (cases "j = ?i") (auto simp: s)
    moreover have "j = k" if "creds ?s j = Some x" "creds ?s k = Some y" "rid ?s x = rid ?s y" for j k x y
    proof -
      have old: "creds s l = Some z \<and> rid ?s z = rid s z \<and> rid s z \<le> nextRuntimeID s"
        if "creds ?s l = Some z" "l \<noteq> ?i" for l z
      proof -
        have "creds s l = Some z" using that by (simp add: s)
        with cur rid(2) show ?thesis by blast
      qed
      have new: "rid ?s z = nextRuntimeID s + 1" if "creds ?s ?i = Some z" for z
        using that rid(1) by (simp add: s(1))
      consider "j = ?i" "k = ?i" | "j = ?i" "k \<noteq> ?i" | "j \<noteq> ?i" "k = ?i" | "j \<noteq> ?i" "k \<noteq> ?i" by blast
      then show ?thesis
      proof cases
        case 2
        with new [of x] old [of k y] that show ?thesis by simp
      next
        case 3
        with new [of y] old [of j x] that show ?thesis by simp
      next
        case 4
        with old [of j x] old [of k y] that inj [of j x k y] show ?thesis by simp
      qed simp
    qed
    moreover have "r \<in> rids s \<or> nextRuntimeID s < r" if r: "r \<in> rids ?s" for r
    proof -
      from r obtain j d where "creds ?s j = Some d" "r = rid ?s d" by (auto simp: rids_def ran_def)
      then show ?thesis using rid(1) rid(2) [of j d] by (cases "j = ?i") (auto simp: s rids_def ran_def image_iff)
    qed
    ultimately show ?thesis by (auto simp: sched_ok_def ids_evolve_def s(3))
  qed (use ok Some in \<open>auto simp: Add_def ids_evolve_def\<close>)
qed (simp add: Add_def ids_evolve_def)

lemma Remove_ok: "sched_ok s \<Longrightarrow> sched_ok (fst (Remove i s)) \<and> ids_evolve s (fst (Remove i s))"
  by (auto simp: Remove_def sched_ok_def ids_evolve_def rids_def rid_def ran_def)

section \<open>Runs\<close>

text \<open>
  The operations handlers, the admin API and the quota poller apply to the scheduler, in any
  order. \<open>cred_op\<close> stands for the methods of the credential itself (reserving, releasing, token
  refresh), which keep its identity; \<open>alloc\<close> for building a credential before it is registered.
\<close>

inductive sched_step :: "'s runtime_ops option \<Rightarrow> scheduler \<times> 's \<Rightarrow> scheduler \<times> 's \<Rightarrow> bool"
  for rt where
  register: "distinct (map (\<lambda>c. ID (heap s c)) (named (heap s) cs)) \<Longrightarrow> sched_step rt (s, \<sigma>) (Register cs s, \<sigma>)"
| add: "sched_step rt (s, \<sigma>) (fst (Add cr s), \<sigma>)"
| remove: "sched_step rt (s, \<sigma>) (fst (Remove i s), \<sigma>)"
| attach_store: "sched_step rt (s, \<sigma>) (SetCredentialStore b s, \<sigma>)"
| release: "sched_step rt (s, \<sigma>) (fst (sched_ReleaseReservation t cr m s), \<sigma>)"
| mark_success: "sched_step rt st (MarkSuccess rt t i m st)"
| mark_rate_limit: "sched_step rt st (MarkRateLimit rt t t' i m ra st)"
| mark_auth_error: "sched_step rt st (MarkAuthError rt t i re st)"
| refresh_quota: "sched_step rt st (RefreshQuota rt t t' i q st)"
| quota_error: "sched_step rt (s, \<sigma>) (RecordQuotaError t i e s, \<sigma>)"
| set_enabled: "sched_step rt st (fst (SetEnabled rt t i b st))"
| cred_op: "(\<And>x. ID (f x) = ID x \<and> runtimeID (f x) = runtimeID x) \<Longrightarrow> sched_step rt (s, \<sigma>) (upd_cred c f s, \<sigma>')"
| alloc: "c \<notin> ran (creds s) \<Longrightarrow> sched_step rt (s, \<sigma>) (s\<lparr>heap := (heap s)(c := x)\<rparr>, \<sigma>)"

lemma alloc_ok:
  assumes "sched_ok s" "c \<notin> ran (creds s)"
  shows "sched_ok (s\<lparr>heap := (heap s)(c := x)\<rparr>) \<and> ids_evolve s (s\<lparr>heap := (heap s)(c := x)\<rparr>)"
proof -
  let ?s = "s\<lparr>heap := (heap s)(c := x)\<rparr>"
  have same: "heap ?s d = heap s d" if "creds s i = Some d" for i d
    using that assms(2) by (auto simp: ran_def)
  then have "rid ?s d = rid s d" if "creds s i = Some d" for i d using that by (simp add: rid_def)
  with same assms(1) show ?thesis
    by (auto simp: sched_ok_def ids_evolve_def rids_def ran_def image_iff)
qed

lemma sched_step_ok:
  assumes "sched_step rt st st'" "sched_ok (fst st)"
  shows "sched_ok (fst st') \<and> ids_evolve (fst st) (fst st')"
  using assms
proof cases
  case (mark_success t i m)
  show ?thesis unfolding mark_success by (rule same_ids_ok [OF _ assms(2)]) (metis outcome_same_ids(1) prod.collapse)
next
  case (mark_rate_limit t t' i m ra)
  show ?thesis unfolding mark_rate_limit by (rule same_ids_ok [OF _ assms(2)]) (metis outcome_same_ids(2) prod.collapse)
next
  case (mark_auth_error t i re)
  show ?thesis unfolding mark_auth_error by (rule same_ids_ok [OF _ assms(2)]) (metis outcome_same_ids(3) prod.collapse)
next
  case (refresh_quota t t' i q)
  show ?thesis unfolding refresh_quota by (rule same_ids_ok [OF _ assms(2)]) (metis RefreshQuota_same_ids prod.collapse)
next
  case (set_enabled t i b)
  show ?thesis unfolding set_enabled by (rule same_ids_ok [OF _ assms(2)]) (metis outcome_same_ids(5) prod.collapse)
next
  case (cred_op f s \<sigma> c \<sigma>')
  then show ?thesis using same_ids_ok [of s "upd_cred c f s"] assms(2) by simp
next
  case (attach_store s \<sigma> b)
  then have "same_ids s (SetCredentialStore b s)" by (simp add: same_ids_def SetCredentialStore_def)
  then show ?thesis using attach_store same_ids_ok assms(2) by simp
qed (use assms(2) Register_ok Add_ok Remove_ok alloc_ok same_ids_ok [OF outcome_same_ids(4)]
      same_ids_ok [OF outcome_same_ids(6)] in auto)

lemma sched_run_ok:
  assumes "(sched_step rt)\<^sup>*\<^sup>* st st'" "sched_ok (fst st)"
  shows "sched_ok (fst st') \<and> ids_evolve (fst st) (fst st')"
  using assms
proof (induction rule: rtranclp_induct)
  case base
  then show ?case by (simp add: ids_evolve_def)
next
  case (step y z)
  then show ?case using sched_step_ok [of rt y z] ids_evolve_trans by blast
qed

lemma New_ok: "sched_ok (NewDefaultScheduler h)"
  by (simp add: sched_ok_def NewDefaultScheduler_def)

lemma All_registered: "sched_ok s \<Longrightarrow> set (All s) = ran (creds s) \<and> distinct (map (\<lambda>c. ID (heap s c)) (All s))"
proof -
  assume ok: "sched_ok s"
  have some: "\<exists>c. creds s i = Some c" if "i \<in> set (order s)" for i using that ok by (auto simp: sched_ok_def)
  have "map (\<lambda>c. ID (heap s c)) (All s) = order s"
  proof -
    have "map (\<lambda>c. ID (heap s c)) (List.map_filter (creds s) is) = is" if "set is \<subseteq> set (order s)" for "is"
      using that
    proof (induction "is")
      case (Cons i "is")
      then obtain c where "creds s i = Some c" using some by auto
      with Cons ok show ?case by (auto simp: map_filter_simps sched_ok_def)
    qed (simp add: map_filter_simps)
    then show ?thesis by (simp add: All_def)
  qed
  moreover have "set (All s) = ran (creds s)"
  proof -
    have "set (List.map_filter f xs) = {y. \<exists>x \<in> set xs. f x = Some y}" for f :: "string \<Rightarrow> addr option" and xs
      by (induction xs) (auto simp: map_filter_simps split: option.splits)
    moreover have "\<And>i c. creds s i = Some c \<Longrightarrow> i \<in> set (order s)" using ok by (auto simp: sched_ok_def)
    ultimately show ?thesis by (auto simp: All_def ran_def)
  qed
  ultimately show ?thesis using ok by (simp add: sched_ok_def)
qed



text \<open>
  C22. A request of a removed account cannot disturb its successor: once an account's runtime
  identity is no longer registered, then whatever happens afterwards (including adding a new
  account with the same identifier), releasing through the old pointer changes no registered
  credential and reports that it found none.
\<close>

theorem stale_release_is_noop:
  assumes "(sched_step rt)\<^sup>*\<^sup>* (NewDefaultScheduler h, \<sigma>0) (s, \<sigma>)"
    and "(sched_step rt)\<^sup>*\<^sup>* (s, \<sigma>) (s', \<sigma>')"
    and "\<forall>c \<in> set (All s). runtimeID (heap s c) \<noteq> r" "r \<le> nextRuntimeID s"
    and "runtimeID (heap s' old) = r"
  shows "sched_ReleaseReservation now (Some old) model s' = (s', False)"
proof -
  have ok: "sched_ok s" using sched_run_ok [OF assms(1)] New_ok by simp
  then have ok': "sched_ok s'" and ev: "ids_evolve s s'" using sched_run_ok [OF assms(2)] by auto
  have "r \<notin> rids s" using assms(3) All_registered [OF ok] by (auto simp: rids_def rid_def)
  then have "r \<notin> rids s'" using ev assms(4) by (auto simp: ids_evolve_def)
  then have "runtimeID (heap s' c) \<noteq> r" if "creds s' i = Some c" for i c
    using that by (auto simp: rids_def rid_def ran_def)
  with assms(5) show ?thesis by (auto simp: sched_ReleaseReservation_def split: option.split)
qed

theorem stale_release_is_noop_witness:
  "let h = (\<lambda>a :: nat. zero_credential\<lparr>ID := ''a'', InFlight := 1\<rparr>);
       s1 = fst (Remove ''a'' (fst (Add (Some 0) (NewDefaultScheduler h))));
       s2 = fst (Add (Some 1) s1)
   in Lookup ''a'' s2 = Some 1 \<and> sched_ReleaseReservation 7 (Some 0) ''m'' s2 = (s2, False)"
proof -
  define h :: cred_heap where "h = (\<lambda>a. zero_credential\<lparr>ID := ''a'', InFlight := 1\<rparr>)"
  define s1 where "s1 = fst (Remove ''a'' (fst (Add (Some 0) (NewDefaultScheduler h))))"
  define s2 where "s2 = fst (Add (Some 1) s1)"
  let ?step = "sched_step (None :: unit runtime_ops option)"
  have r1: "?step\<^sup>*\<^sup>* (NewDefaultScheduler h, ()) (s1, ())"
    unfolding s1_def
    by (rule rtranclp.rtrancl_into_rtrancl, rule r_into_rtranclp, rule sched_step.add, rule sched_step.remove)
  have r2: "?step\<^sup>*\<^sup>* (s1, ()) (s2, ())"
    unfolding s2_def by (rule r_into_rtranclp, rule sched_step.add)
  have s1: "All s1 = []" "nextRuntimeID s1 = 1" "Lookup ''a'' s2 = Some 1" "runtimeID (heap s2 0) = 1"
    by (simp_all add: s1_def s2_def h_def Add_def Remove_def upd_cred_def NewDefaultScheduler_def All_def
        Lookup_def map_filter_simps Let_def)
  have "sched_ReleaseReservation 7 (Some 0) ''m'' s2 = (s2, False)"
    by (rule stale_release_is_noop [OF r1 r2, of 1]) (simp_all add: s1)
  with s1 show ?thesis by (simp add: h_def s1_def s2_def)
qed

end
