(* ===== verification/Selector.thy ===== *)
theory Selector
  imports Credential
begin

text \<open>
  \<open>internal/pool/selector.go\<close>, \<open>internal/pool/selector_strategies.go\<close> and
  \<open>internal/pool/region_hint.go\<close>: the five scheduling strategies and the region preference
  that narrows the candidates before a strategy sees them. A \<open>[]*Credential\<close> is a list of
  addresses read through a heap. The locale \<open>score_order\<close> states what the three load-based
  strategies need of their comparison; \<open>pick_contract\<close> is what the conductor relies on of any
  strategy.
\<close>

section \<open>Strategies\<close>

datatype selector =
    RoundRobinSelector int
  | FillFirstSelector
  | LeastUsedSelector
  | LeastInFlightSelector
  | WeightedLeastInFlightSelector

definition NewSelector :: "string \<Rightarrow> selector" where
  "NewSelector strategy =
     (if strategy = ''fill-first'' then FillFirstSelector
      else if strategy = ''least-used'' then LeastUsedSelector
      else if strategy = ''least-inflight'' then LeastInFlightSelector
      else if strategy = ''weighted-least-inflight'' then WeightedLeastInFlightSelector
      else RoundRobinSelector 0)"

record loadScore =
  inFlight :: int
  capacity :: int
  success :: int

definition snapshotSuccess :: "credential \<Rightarrow> int" where
  "snapshotSuccess c = Success c"

definition snapshotLoad :: "credential \<Rightarrow> int \<times> int" where
  "snapshotLoad c = (InFlight c, Success c)"

definition snapshotLoadScore :: "credential \<Rightarrow> loadScore" where
  "snapshotLoadScore c =
     (let cap = MaxInFlight c; cap = (if cap \<le> 0 then 2 ^ 30 else cap)
      in \<lparr>inFlight = InFlight c, capacity = cap, success = Success c\<rparr>)"

text \<open>\<open>loadScore.less\<close>; both products are \<open>int64\<close> multiplications.\<close>

definition score_less :: "loadScore \<Rightarrow> loadScore \<Rightarrow> bool" where
  "score_less s other =
     (let left = wrap64 (inFlight s * capacity other);
          right = wrap64 (inFlight other * capacity s)
      in if left \<noteq> right then left < right
         else if inFlight s \<noteq> inFlight other then inFlight s < inFlight other
         else success s < success other)"

definition load_less :: "int \<times> int \<Rightarrow> int \<times> int \<Rightarrow> bool" where
  "load_less a b \<longleftrightarrow> fst a < fst b \<or> (fst a = fst b \<and> snd a < snd b)"

text \<open>
  The loop the three load-based strategies share: from \<open>ready[1]\<close> on, until the priority
  changes, keep the candidate whose score is strictly smaller than the best one so far.
\<close>

fun scan_group :: "('c \<Rightarrow> int) \<Rightarrow> ('c \<Rightarrow> 'k) \<Rightarrow> ('k \<Rightarrow> 'k \<Rightarrow> bool) \<Rightarrow> int \<Rightarrow> 'c \<Rightarrow> 'k \<Rightarrow> 'c list \<Rightarrow> 'c" where
  "scan_group prio score lt topPrio best bestScore [] = best"
| "scan_group prio score lt topPrio best bestScore (c # cs) =
     (if prio c \<noteq> topPrio then best
      else if lt (score c) bestScore then scan_group prio score lt topPrio c (score c) cs
      else scan_group prio score lt topPrio best bestScore cs)"

definition best_of_group :: "cred_heap \<Rightarrow> (credential \<Rightarrow> 'k) \<Rightarrow> ('k \<Rightarrow> 'k \<Rightarrow> bool) \<Rightarrow> addr list
    \<Rightarrow> pool_error + addr" where
  "best_of_group h score lt ready =
     (case ready of
        [] \<Rightarrow> Inl ErrNoReady
      | b # cs \<Rightarrow> Inr (scan_group (\<lambda>a. Priority (h a)) (\<lambda>a. score (h a)) lt
                       (Priority (h b)) b (score (h b)) cs))"

fun Pick :: "cred_heap \<Rightarrow> addr list \<Rightarrow> string \<Rightarrow> selector \<Rightarrow> selector \<times> (pool_error + addr)" where
  "Pick h ready model (RoundRobinSelector cursor) =
     (if ready = [] then (RoundRobinSelector cursor, Inl ErrNoReady)
      else
        (let cursor = (if cursor < 0 \<or> cursor \<ge> int (length ready) then 0 else cursor);
             c = ready ! nat cursor
         in (RoundRobinSelector ((cursor + 1) mod int (length ready)), Inr c)))"
| "Pick h ready model FillFirstSelector =
     (FillFirstSelector, if ready = [] then Inl ErrNoReady else Inr (ready ! 0))"
| "Pick h ready model LeastUsedSelector =
     (LeastUsedSelector, best_of_group h snapshotSuccess (<) ready)"
| "Pick h ready model LeastInFlightSelector =
     (LeastInFlightSelector, best_of_group h snapshotLoad load_less ready)"
| "Pick h ready model WeightedLeastInFlightSelector =
     (WeightedLeastInFlightSelector, best_of_group h snapshotLoadScore score_less ready)"

section \<open>What a strategy promises the conductor\<close>

locale pick_contract =
  fixes pick :: "'h \<Rightarrow> addr list \<Rightarrow> string \<Rightarrow> 'sel \<Rightarrow> 'sel \<times> (pool_error + addr)"
  assumes pick_empty: "snd (pick h [] model s) = Inl ErrNoReady"
    and pick_member: "ready \<noteq> [] \<Longrightarrow> \<exists>c \<in> set ready. snd (pick h ready model s) = Inr c"
begin

lemma pick_cases:
  obtains "ready = []" "snd (pick h ready model s) = Inl ErrNoReady"
  | c where "ready \<noteq> []" "c \<in> set ready" "snd (pick h ready model s) = Inr c"
  using pick_empty [of h model s] pick_member [of ready h model s] by metis

lemma pick_error_iff: "snd (pick h ready model s) = Inl e \<longleftrightarrow> ready = [] \<and> e = ErrNoReady"
  by (rule pick_cases [of ready h model s]) auto

lemma pick_in: "snd (pick h ready model s) = Inr c \<Longrightarrow> c \<in> set ready"
  by (rule pick_cases [of ready h model s]) auto

lemma pick_filtered: "snd (pick h (filter P xs) model s) = Inr c \<Longrightarrow> c \<in> set xs \<and> P c"
  using pick_in [of h "filter P xs" model s c] by simp

lemma pick_succeeds_iff: "(\<exists>c. snd (pick h ready model s) = Inr c) \<longleftrightarrow> ready \<noteq> []"
  by (rule pick_cases [of ready h model s]) auto

end

lemma scan_group_mem: "scan_group prio score lt tp best bs cs \<in> insert best (set cs)"
  by (induction cs arbitrary: best bs) auto

lemma best_of_group_mem: "ready \<noteq> [] \<Longrightarrow> \<exists>c \<in> set ready. best_of_group h score lt ready = Inr c"
  using scan_group_mem by (cases ready) (fastforce simp: best_of_group_def)+

interpretation sel: pick_contract Pick
proof
  fix h model and s :: selector
  show "snd (Pick h [] model s) = Inl ErrNoReady"
    by (cases s) (simp_all add: best_of_group_def)
next
  fix ready :: "addr list" and h model and s :: selector
  assume "ready \<noteq> []"
  then show "\<exists>c \<in> set ready. snd (Pick h ready model s) = Inr c"
    by (cases s) (auto simp: best_of_group_mem Let_def)
qed

section \<open>Load-based strategies pick a least loaded account\<close>

text \<open>
  A strict comparison that orders the scores of interest up to ties; \<open>ok\<close> is the set of scores
  on which it does (the products of \<^const>\<open>score_less\<close> must not overflow).
\<close>

locale score_order =
  fixes lt :: "'k \<Rightarrow> 'k \<Rightarrow> bool" and ok :: "'k \<Rightarrow> bool"
  assumes less_irrefl: "ok a \<Longrightarrow> \<not> lt a a"
    and less_neg_trans: "ok a \<Longrightarrow> ok b \<Longrightarrow> ok c \<Longrightarrow> \<not> lt a b \<Longrightarrow> \<not> lt b c \<Longrightarrow> \<not> lt a c"
    and less_asym: "ok a \<Longrightarrow> ok b \<Longrightarrow> lt a b \<Longrightarrow> \<not> lt b a"
begin

lemma scan_group_least:
  assumes "\<forall>c \<in> insert best (set cs). ok (score c)"
    and "\<forall>c \<in> set cs. prio c \<le> tp" "sorted_wrt (\<lambda>a b. prio b \<le> prio a) cs" "prio best = tp"
  defines "r \<equiv> scan_group prio score lt tp best (score best) cs"
  shows "prio r = tp \<and>
    (\<forall>c \<in> insert best (set cs). prio c = tp \<longrightarrow> \<not> lt (score c) (score r))"
  using assms(1-4) unfolding r_def
proof (induction cs arbitrary: best)
  case Nil
  then show ?case by (simp add: less_irrefl)
next
  case (Cons c cs)
  show ?case
  proof (cases "prio c = tp")
    case False
    then have "\<forall>d \<in> set (c # cs). prio d < tp" using Cons.prems by fastforce
    with False Cons.prems show ?thesis by (auto simp: less_irrefl)
  next
    case tp: True
    let ?b = "if lt (score c) (score best) then c else best"
    let ?r = "scan_group prio score lt tp ?b (score ?b) cs"
    have IH: "prio ?r = tp \<and> (\<forall>d \<in> insert ?b (set cs). prio d = tp \<longrightarrow> \<not> lt (score d) (score ?r))"
      by (rule Cons.IH) (use Cons.prems tp in auto)
    have okr: "ok (score ?r)" using scan_group_mem [of prio score lt tp ?b "score ?b" cs] Cons.prems(1)
      by (auto split: if_splits)
    have "\<not> lt (score d) (score ?b)" if "d \<in> {c, best}" for d
      using that Cons.prems(1) less_asym less_irrefl by auto
    then have "\<not> lt (score d) (score ?r)" if "d \<in> {c, best}" for d
      using that IH Cons.prems(1,4) tp okr less_neg_trans [of "score d" "score ?b" "score ?r"]
      by (auto split: if_splits)
    with IH tp show ?thesis by auto
  qed
qed

lemma best_of_group_least:
  assumes "best_of_group h score lt ready = Inr c"
    and "\<forall>a \<in> set ready. ok (score (h a))"
    and "sorted_wrt (\<lambda>a b. Priority (h b) \<le> Priority (h a)) ready"
    and "d \<in> set ready"
  shows "Priority (h d) \<le> Priority (h c) \<and>
    (Priority (h d) = Priority (h c) \<longrightarrow> \<not> lt (score (h d)) (score (h c)))"
proof -
  from assms(1) obtain b cs where ready: "ready = b # cs"
    and c: "c = scan_group (\<lambda>a. Priority (h a)) (\<lambda>a. score (h a)) lt (Priority (h b)) b (score (h b)) cs"
    by (auto simp: best_of_group_def split: list.splits)
  have "Priority (h c) = Priority (h b) \<and>
    (\<forall>d \<in> insert b (set cs). Priority (h d) = Priority (h b) \<longrightarrow> \<not> lt (score (h d)) (score (h c)))"
    unfolding c using assms(2,3) ready
    by (intro scan_group_least [where score = "\<lambda>a. score (h a)" and prio = "\<lambda>a. Priority (h a)"]) auto
  moreover have "Priority (h d) \<le> Priority (h b)" using assms(3,4) ready by auto
  ultimately show ?thesis using assms(4) ready by auto
qed

end

text \<open>
  Scores whose cross products stay inside \<open>int64\<close>: fewer than \<open>2^31\<close> requests in flight and a
  cap below \<open>2^32\<close>.
\<close>

definition score_ok :: "loadScore \<Rightarrow> bool" where
  "score_ok s \<longleftrightarrow> 0 \<le> inFlight s \<and> inFlight s < 2 ^ 31 \<and> 0 < capacity s \<and> capacity s < 2 ^ 32"

definition load_ratio :: "loadScore \<Rightarrow> rat" where
  "load_ratio s = Fract (inFlight s) (capacity s)"

lemma score_less_ratio:
  assumes "score_ok a" "score_ok b"
  shows "score_less a b \<longleftrightarrow>
    load_ratio a < load_ratio b \<or>
    (load_ratio a = load_ratio b \<and>
      (inFlight a < inFlight b \<or> inFlight a = inFlight b \<and> success a < success b))"
proof -
  have w: "wrap64 (inFlight s * capacity t) = inFlight s * capacity t" if "score_ok s" "score_ok t" for s t
  proof (rule wrap64_id)
    have "0 \<le> inFlight s * capacity t" using that by (simp add: score_ok_def)
    then show "- (2 ^ 63) \<le> inFlight s * capacity t" by simp
    have "inFlight s * capacity t < 2 ^ 31 * 2 ^ 32"
      using that by (intro mult_strict_mono) (auto simp: score_ok_def)
    then show "inFlight s * capacity t < 2 ^ 63" by simp
  qed
  have "load_ratio a < load_ratio b \<longleftrightarrow> inFlight a * capacity b < inFlight b * capacity a"
    and "load_ratio a = load_ratio b \<longleftrightarrow> inFlight a * capacity b = inFlight b * capacity a"
    using assms by (auto simp: load_ratio_def score_ok_def eq_rat mult.commute
        less_rat mult_less_cancel_right zero_less_mult_iff)
  then show ?thesis
    using assms by (auto simp: score_less_def Let_def w)
qed

interpretation used: score_order "(<) :: int \<Rightarrow> int \<Rightarrow> bool" "\<lambda>_. True"
  by unfold_locales auto

interpretation load: score_order load_less "\<lambda>_. True"
  by unfold_locales (auto simp: load_less_def)

interpretation weighted: score_order score_less score_ok
  by unfold_locales (auto simp: score_less_ratio)

text \<open>The comparison each load-based strategy minimises, on credentials.\<close>

fun prefers :: "selector \<Rightarrow> credential \<Rightarrow> credential \<Rightarrow> bool" where
  "prefers (RoundRobinSelector k) a b = False"
| "prefers FillFirstSelector a b = False"
| "prefers LeastUsedSelector a b = (Success a < Success b)"
| "prefers LeastInFlightSelector a b =
     (InFlight a < InFlight b \<or> InFlight a = InFlight b \<and> Success a < Success b)"
| "prefers WeightedLeastInFlightSelector a b =
     (let ra = load_ratio (snapshotLoadScore a); rb = load_ratio (snapshotLoadScore b)
      in ra < rb \<or> ra = rb \<and>
         (InFlight a < InFlight b \<or> InFlight a = InFlight b \<and> Success a < Success b))"

definition load_in_range :: "credential \<Rightarrow> bool" where
  "load_in_range c \<longleftrightarrow> 0 \<le> InFlight c \<and> InFlight c < 2 ^ 31 \<and> MaxInFlight c < 2 ^ 32"

lemma snapshotLoadScore_fields [simp]:
  "inFlight (snapshotLoadScore c) = InFlight c" "success (snapshotLoadScore c) = Success c"
  by (simp_all add: snapshotLoadScore_def Let_def)

lemma score_ok_snapshot: "load_in_range c \<Longrightarrow> score_ok (snapshotLoadScore c)"
  by (auto simp: load_in_range_def score_ok_def snapshotLoadScore_def Let_def)

text \<open>
  C37. Load-based selection. On a ready list sorted by priority (what \<open>Scheduler.Ready\<close> hands
  out), every strategy but round-robin returns an account of the highest priority present, and
  no account of that priority is preferable to it: none has fewer successes (least-used), fewer
  requests in flight (least-inflight), or a smaller exact in-flight/capacity quotient
  (weighted; the 64-bit cross-multiplication is exact below the stated bounds). Ties break by
  in-flight count, then successes.
\<close>

theorem Pick_least_loaded:
  assumes "snd (Pick h ready model s) = Inr c" "\<forall>k. s \<noteq> RoundRobinSelector k"
    and "sorted_wrt (\<lambda>a b. Priority (h b) \<le> Priority (h a)) ready"
    and "\<forall>a \<in> set ready. load_in_range (h a)"
    and "d \<in> set ready"
  shows "c \<in> set ready \<and> Priority (h d) \<le> Priority (h c) \<and>
    (Priority (h d) = Priority (h c) \<longrightarrow> \<not> prefers s (h d) (h c))"
proof -
  have c: "c \<in> set ready" using assms(1) by (rule sel.pick_in)
  have ok: "\<forall>a \<in> set ready. score_ok (snapshotLoadScore (h a))"
    using assms(4) by (simp add: score_ok_snapshot)
  show ?thesis
  proof (cases s)
    case (RoundRobinSelector k)
    with assms(2) show ?thesis by simp
  next
    case FillFirstSelector
    with assms(1,3,5) c show ?thesis by (cases ready) auto
  next
    case LeastUsedSelector
    then have "best_of_group h snapshotSuccess (<) ready = Inr c" using assms(1) by simp
    from used.best_of_group_least [OF this _ assms(3,5)] LeastUsedSelector c show ?thesis
      by (simp add: snapshotSuccess_def)
  next
    case LeastInFlightSelector
    then have "best_of_group h snapshotLoad load_less ready = Inr c" using assms(1) by simp
    from load.best_of_group_least [OF this _ assms(3,5)] LeastInFlightSelector c show ?thesis
      by (simp add: snapshotLoad_def load_less_def)
  next
    case WeightedLeastInFlightSelector
    then have "best_of_group h snapshotLoadScore score_less ready = Inr c" using assms(1) by simp
    from weighted.best_of_group_least [OF this ok assms(3,5)] WeightedLeastInFlightSelector c ok assms(5)
    show ?thesis
      by (auto simp: score_less_ratio Let_def)
  qed
qed

theorem Pick_least_loaded_witness:
  "let h = (\<lambda>a. zero_credential\<lparr>MaxInFlight := 4, InFlight := (if a = 0 then 2 else 1)\<rparr>) in
   snd (Pick h [0, 1] ''m'' (NewSelector ''weighted-least-inflight'')) = Inr 1 \<and>
   \<not> prefers WeightedLeastInFlightSelector (h 0) (h 1)"
proof -
  let ?h = "\<lambda>a :: nat. zero_credential\<lparr>MaxInFlight := 4, InFlight := (if a = 0 then 2 else 1)\<rparr>"
  have n: "NewSelector ''weighted-least-inflight'' = WeightedLeastInFlightSelector"
    by (simp add: NewSelector_def)
  have p: "snd (Pick ?h [0, 1] ''m'' WeightedLeastInFlightSelector) = Inr 1"
    by (simp add: best_of_group_def snapshotLoadScore_def score_less_def wrap64_def zero_credential_def)
  have "1 \<in> set [0, Suc 0] \<and> Priority (?h 0) \<le> Priority (?h 1) \<and>
      (Priority (?h 0) = Priority (?h 1) \<longrightarrow> \<not> prefers WeightedLeastInFlightSelector (?h 0) (?h 1))"
    using Pick_least_loaded [OF p, of 0] by (simp add: load_in_range_def zero_credential_def)
  then have "\<not> prefers WeightedLeastInFlightSelector (?h 0) (?h 1)" by (simp add: zero_credential_def)
  with p show ?thesis by (simp add: n Let_def)
qed

section \<open>Round robin\<close>

text \<open>The credentials a sequence of \<open>n\<close> picks from the same ready set returns.\<close>

fun picks :: "cred_heap \<Rightarrow> addr list \<Rightarrow> string \<Rightarrow> nat \<Rightarrow> selector \<Rightarrow> (pool_error + addr) list" where
  "picks h ready model 0 s = []"
| "picks h ready model (Suc n) s =
     (let (s', r) = Pick h ready model s in r # picks h ready model n s')"

lemma round_robin_picks:
  assumes "ready \<noteq> []" "k < length ready"
  shows "picks h ready model n (RoundRobinSelector (int k)) =
    map (\<lambda>j. Inr (ready ! ((k + j) mod length ready))) [0..<n]"
  using assms
proof (induction n arbitrary: k)
  case (Suc n)
  let ?k = "Suc k mod length ready"
  have "(int k + 1) mod int (length ready) = int ?k"
    by (metis of_nat_Suc zmod_int add.commute)
  moreover have "?k < length ready" using Suc.prems by simp
  moreover have "map (\<lambda>j. Inr (ready ! ((?k + j) mod length ready))) [0..<n] =
      map (\<lambda>j. Inr (ready ! ((k + j) mod length ready))) [1..<Suc n]"
    by (rule nth_equalityI) (simp_all add: mod_simps del: upt_Suc)
  ultimately show ?case
    using Suc.prems Suc.IH [of ?k] by (simp add: upt_conv_Cons del: upt_Suc)
qed simp

lemma map_cycle:
  assumes "k < length xs"
  shows "map (\<lambda>j. f (xs ! ((k + j) mod length xs))) [0..<length xs] = map f (rotate k xs)"
proof (rule nth_equalityI)
  fix i assume "i < length (map (\<lambda>j. f (xs ! ((k + j) mod length xs))) [0..<length xs])"
  then have "i < length xs" by simp
  then show "map (\<lambda>j. f (xs ! ((k + j) mod length xs))) [0..<length xs] ! i = map f (rotate k xs) ! i"
    by (simp add: nth_rotate)
qed simp

lemma mset_rotation: "mset (rotate k xs) = mset xs"
  by (metis append_take_drop_id mset_append rotate_drop_take union_commute)

lemma mset_cycle:
  assumes "k < length xs"
  shows "mset (map (\<lambda>j. f (xs ! ((k + j) mod length xs))) [0..<r * length xs]) =
    repeat_mset r (mset (map f xs))"
proof (induction r)
  case (Suc r)
  let ?g = "\<lambda>j. f (xs ! ((k + j) mod length xs))"
  have "[0..<Suc r * length xs] = [0..<r * length xs] @ map (\<lambda>j. j + r * length xs) [0..<length xs]"
    by (simp add: map_add_upt upt_add_eq_append [symmetric] add.commute)
      (metis upt_add_eq_append le0 add.commute add_0)
  then have "map ?g [0..<Suc r * length xs] = map ?g [0..<r * length xs] @ map ?g [0..<length xs]"
    by (simp add: comp_def add.assoc [symmetric])
  with Suc assms show ?case by (simp add: map_cycle mset_rotation)
qed simp

text \<open>
  C38. Round-robin fairness: while the ready set does not change, any \<open>r * n\<close> consecutive picks
  from \<open>n\<close> ready accounts select each of them exactly \<open>r\<close> times, whatever the cursor was left at
  by earlier picks over other ready sets.
\<close>

theorem round_robin_fair:
  "mset (picks h ready model (r * length ready) (RoundRobinSelector cursor)) =
   repeat_mset r (image_mset Inr (mset ready))"
proof (cases "ready = []")
  case False
  define k where "k = nat (if cursor < 0 \<or> cursor \<ge> int (length ready) then 0 else cursor)"
  have k: "k < length ready" using False by (auto simp: k_def)
  have same: "picks h ready model n (RoundRobinSelector cursor) =
      picks h ready model n (RoundRobinSelector (int k))" for n
    using k by (cases n) (auto simp: k_def Let_def)
  show ?thesis
    unfolding same round_robin_picks [OF False k]
    using mset_cycle [OF k, of Inr r] by (simp add: mset_map)
qed simp

section \<open>Region preference\<close>

fun indexByte :: "string \<Rightarrow> char \<Rightarrow> nat \<Rightarrow> int" where
  "indexByte [] b i = -1"
| "indexByte (x # xs) b i = (if x = b then int i else indexByte xs b (Suc i))"

definition regionContinent :: "string \<Rightarrow> string" where
  "regionContinent region =
     (let i = indexByte region (CHR ''-'') 0 in if i > 0 then take (nat i) region else '''')"

definition FilterByRegion :: "cred_heap \<Rightarrow> addr list \<Rightarrow> string \<Rightarrow> addr list" where
  "FilterByRegion h creds region =
     (if region = '''' \<or> creds = [] then creds
      else
        (let exact = filter (\<lambda>c. Region (h c) = region) creds in
         if exact \<noteq> [] then exact
         else
           (let prefix = regionContinent region in
            if prefix = '''' then creds
            else
              (let broad = filter (\<lambda>c. regionContinent (Region (h c)) = prefix) creds in
               if broad \<noteq> [] then broad else creds))))"

lemma FilterByRegion_subseq: "subseq (FilterByRegion h creds region) creds"
  by (auto simp: FilterByRegion_def Let_def)

lemma FilterByRegion_none: "FilterByRegion h creds '''' = creds"
  by (simp add: FilterByRegion_def)

lemma FilterByRegion_subset: "set (FilterByRegion h creds region) \<subseteq> set creds"
  by (auto simp: FilterByRegion_def Let_def)

lemma FilterByRegion_nonempty: "FilterByRegion h creds region = [] \<longleftrightarrow> creds = []"
  by (auto simp: FilterByRegion_def Let_def)

lemma indexByte_spec:
  "indexByte xs b i = (if b \<in> set xs then int (i + length (takeWhile (\<lambda>x. x \<noteq> b) xs)) else -1)"
  by (induction xs arbitrary: i) auto

text \<open>The hinted region and the account's agree up to the first \<open>-\<close>, which both have.\<close>

definition same_continent :: "string \<Rightarrow> string \<Rightarrow> bool" where
  "same_continent r s \<longleftrightarrow> (\<exists>p. p \<noteq> '''' \<and> CHR ''-'' \<notin> set p \<and>
     prefix (p @ ''-'') r \<and> prefix (p @ ''-'') s)"

lemma regionContinent_spec:
  "regionContinent region =
     (if CHR ''-'' \<in> set region then takeWhile (\<lambda>x. x \<noteq> CHR ''-'') region else '''')"
  by (auto simp: regionContinent_def indexByte_spec Let_def takeWhile_eq_take [symmetric])

lemma regionContinent_prefix:
  "p \<noteq> '''' \<Longrightarrow> regionContinent r = p \<longleftrightarrow> CHR ''-'' \<notin> set p \<and> prefix (p @ ''-'') r"
proof -
  assume p: "p \<noteq> ''''"
  let ?P = "\<lambda>x. x \<noteq> CHR ''-''"
  have "prefix (takeWhile ?P r @ ''-'') r" if "CHR ''-'' \<in> set r"
    using that by (induction r) auto
  moreover have "takeWhile ?P r = p" if "CHR ''-'' \<notin> set p" "prefix (p @ ''-'') r"
  proof -
    from that(2) obtain t where "r = p @ CHR ''-'' # t" by (auto simp: prefix_def)
    with that(1) show ?thesis by (auto simp: takeWhile_append)
  qed
  moreover have "prefix (p @ ''-'') r \<Longrightarrow> CHR ''-'' \<in> set r" by (auto simp: prefix_def)
  ultimately show ?thesis
    using p set_takeWhileD [of "CHR ''-''" ?P r] by (auto simp: regionContinent_spec)
qed

lemma same_continent_iff:
  "same_continent r s \<longleftrightarrow> regionContinent r \<noteq> '''' \<and> regionContinent s = regionContinent r"
  using regionContinent_prefix by (metis same_continent_def)

text \<open>
  The region hint only narrows, never starves: the result keeps the order of the candidates,
  is empty only if there was no candidate, consists exactly of the accounts in the hinted region
  when there is one, otherwise of those that share its continent (equal up to the first \<open>-\<close>)
  when there is one, and otherwise of all candidates.
\<close>

theorem FilterByRegion_prefers:
  "subseq (FilterByRegion h creds region) creds \<and>
   (FilterByRegion h creds region = [] \<longleftrightarrow> creds = []) \<and>
   set (FilterByRegion h creds region) =
     (let exact = {c \<in> set creds. Region (h c) = region};
          broad = {c \<in> set creds. same_continent region (Region (h c))}
      in if region = '''' then set creds
         else if exact \<noteq> {} then exact else if broad \<noteq> {} then broad else set creds)"
  using FilterByRegion_subseq FilterByRegion_nonempty
  by (auto simp: FilterByRegion_def Let_def same_continent_iff filter_empty_conv)

end
