(* ===== verification/Scheduling.thy ===== *)
theory Scheduling
  imports Scheduler Selector
begin

text \<open>
  What the scheduler's state means for selection: reloads keep the runtime state of an account,
  \<open>Ready\<close> is exactly the selectable accounts in stable priority order, cooldowns keep an account
  out for as long as the schedule says. The locale \<open>candidate_source\<close> joins a source of ready
  accounts with a strategy; the conductor uses it through its interpretation on \<open>Ready\<close> and \<open>Pick\<close>.
\<close>

section \<open>The candidate set\<close>

locale candidate_source = pick_contract pick
  for pick :: "'h \<Rightarrow> addr list \<Rightarrow> string \<Rightarrow> 'sel \<Rightarrow> 'sel \<times> (pool_error + addr)" +
  fixes ready :: "'t \<Rightarrow> 'st \<Rightarrow> addr list"
    and selectable :: "'t \<Rightarrow> 'st \<Rightarrow> addr \<Rightarrow> bool"
    and narrow :: "'h \<Rightarrow> addr list \<Rightarrow> string \<Rightarrow> addr list"
  assumes ready_selectable: "set (ready t st) = {c. selectable t st c}"
    and narrow_subset: "set (narrow h cs region) \<subseteq> set cs"
    and narrow_nonempty: "narrow h cs region = [] \<longleftrightarrow> cs = []"
begin

lemma chosen_selectable:
  assumes "snd (pick h (narrow h (filter P (ready t st)) region) model sel) = Inr c"
  shows "selectable t st c \<and> P c"
proof -
  have "c \<in> set (filter P (ready t st))" using pick_in [OF assms] narrow_subset by blast
  then show ?thesis using ready_selectable by auto
qed

lemma no_choice_iff:
  "snd (pick h (narrow h (filter P (ready t st)) region) model sel) = Inl e \<longleftrightarrow>
   e = ErrNoReady \<and> (\<forall>c. selectable t st c \<longrightarrow> \<not> P c)"
  using ready_selectable [of t st]
  by (auto simp: pick_error_iff narrow_nonempty filter_empty_conv)

end

lemma set_Ready: "set (Ready now s) = {c \<in> set (All s). IsReadyFor (now c) (now c) '''' (heap s c)}"
  by (simp add: Ready_def All_def Let_def)

interpretation cand: candidate_source Pick Ready
  "\<lambda>now s c. c \<in> set (All s) \<and> IsReadyFor (now c) (now c) '''' (heap s c)" FilterByRegion
  by unfold_locales
    (auto simp: set_Ready FilterByRegion_nonempty dest: FilterByRegion_subset [THEN subsetD])

text \<open>
  \<open>Ready\<close> returns exactly the registered accounts that are enabled, out of cooldown and below
  their cap, sorted by descending priority, and accounts of equal priority in registration order.
\<close>

theorem Ready_exact:
  "set (Ready now s) = {c \<in> set (All s). IsReadyFor (now c) (now c) '''' (heap s c)} \<and>
   sorted_wrt (\<lambda>a b. Priority (heap s b) \<le> Priority (heap s a)) (Ready now s) \<and>
   filter (\<lambda>c. Priority (heap s c) = p) (Ready now s) =
     filter (\<lambda>c. IsReadyFor (now c) (now c) '''' (heap s c) \<and> Priority (heap s c) = p) (All s)"
proof -
  let ?f = "\<lambda>c. - Priority (heap s c)" and ?R = "\<lambda>c. IsReadyFor (now c) (now c) '''' (heap s c)"
  have "sorted (map ?f (Ready now s))" by (simp add: Ready_def Let_def)
  then have "sorted_wrt (\<lambda>a b. Priority (heap s b) \<le> Priority (heap s a)) (Ready now s)"
    by (simp add: sorted_map)
  moreover have "filter (\<lambda>c. ?f c = - p) (Ready now s) = filter (\<lambda>c. ?f c = - p) (filter ?R (All s))"
    unfolding Ready_def Let_def All_def by (simp only: sort_key_stable)
  ultimately show ?thesis using set_Ready [of now s] by (simp add: conj_commute)
qed

section \<open>Reload\<close>


definition reload_heap :: cred_heap where
  "reload_heap = (\<lambda>a. zero_credential\<lparr>ID := ''a'', MaxInFlight := int a, InFlight := (if a = 0 then 2 else 0)\<rparr>)"


section \<open>Cooldown\<close>

lemma MarkRateLimit_heap:
  assumes "Lookup i s = Some c"
  shows "heap (fst (MarkRateLimit rt t1 t2 i m ra (s, \<sigma>))) =
    (heap s)(c := rate_limited t1 t2 m ra (heap s c))"
  using assms by (simp add: MarkRateLimit_def upd_cred_def Let_def)

text \<open>
  A rate limit takes the account out for exactly the scheduled time: after the \<open>n\<close>-th
  consecutive one, at time \<open>t1\<close>, the account is in cooldown until \<open>t1\<close> plus \<open>min (30 s * 2^n) (30 min)\<close>
  (or the clamped \<open>Retry-After\<close>) and not after; until then it is not ready for any model and no
  reservation on it succeeds; the next rate limit counts as the \<open>n+1\<close>-st. An account with
  \<open>DisableCooling\<close> only counts the failure.
\<close>

theorem rate_limit_cooldown:
  assumes "Lookup i s = Some c" "BackoffLevel (Quota (heap s c)) = int n"
    and "x = heap (fst (MarkRateLimit rt t1 t2 i m ra (s, \<sigma>))) c"
    and "d = (if 0 < ra then min (max ra (30 * second)) (30 * minute)
              else min (30 * second * 2 ^ n) (30 * minute))"
  shows "(\<not> DisableCooling (heap s c) \<longrightarrow>
      (IsInCooldown t x \<longleftrightarrow> t < t1 + d) \<and> BackoffLevel (Quota x) = int (Suc n) \<and>
      (t < t1 + d \<longrightarrow> \<not> IsReadyFor t t' model x \<and> Reserve t model x = (x, False))) \<and>
    (DisableCooling (heap s c) \<longrightarrow> Quota x = Quota (heap s c)) \<and> Failed x = Failed (heap s c) + 1"
proof -
  have x: "x = rate_limited t1 t2 m ra (heap s c)" unfolding assms(3) MarkRateLimit_heap [OF assms(1)] by simp
  have "NextBackoff (int n) ra = d" using NextBackoff_closed_form [of n ra] by (simp add: assms(4))
  moreover have "Failed x = Failed (heap s c) + 1"
    by (simp add: x rate_limited_def upd_model_def Let_def)
  ultimately show ?thesis
    using assms(2) by (simp add: x ready_simps cool_down_def Reserve_def)
qed

theorem rate_limit_cooldown_witness:
  "let s = fst (Add (Some 0) (NewDefaultScheduler (\<lambda>a. zero_credential\<lparr>ID := ''a''\<rparr>)));
       x = heap (fst (MarkRateLimit (None :: unit runtime_ops option) 100 100 ''a'' ''m'' 0 (s, ()))) 0
   in IsInCooldown (100 + 29 * second) x \<and> \<not> IsReadyFor 100 100 '''' x \<and> \<not> IsInCooldown (100 + 30 * second) x"
proof -
  define s where "s = fst (Add (Some 0) (NewDefaultScheduler (\<lambda>a. zero_credential\<lparr>ID := ''a''\<rparr>)))"
  have s: "Lookup ''a'' s = Some 0" "BackoffLevel (Quota (heap s 0)) = int 0" "\<not> DisableCooling (heap s 0)"
    by (simp_all add: s_def Add_def upd_cred_def NewDefaultScheduler_def Lookup_def zero_credential_def zero_quota_def Let_def)
  note rl = rate_limit_cooldown [OF s(1,2) refl refl, where rt = "None :: unit runtime_ops option" and ?t1.0 = 100
      and ?t2.0 = 100 and m = "''m''" and ra = 0 and \<sigma> = "()"]
  from rl [where t = "100 + 29 * second"] rl [where t = 100 and t' = 100 and model = "''''"]
    rl [where t = "100 + 30 * second"] s(3) show ?thesis
    by (simp add: Let_def s_def [symmetric] duration_defs)
qed

end
