(* ===== verification/Affinity.thy ===== *)
theory Affinity
  imports Credential "HOL-Library.AList"
begin

text \<open>
  The in-memory session affinity of \<open>internal/pool/conductor.go\<close>: which account a session is
  bound to, with a time to live that every lookup renews. The Go map of entries is an association
  list with distinct keys (\<open>affinity_ok\<close>), so that \<open>Size\<close> and the count \<open>Sweep\<close> returns compute.
  The locale \<open>sticky_store\<close> is the contract of such a store, with stickiness proved once from it.
\<close>

section \<open>The store\<close>

record affinityEntry =
  CredID :: string
  ExpireAt :: gotime

record affinity =
  ttl :: duration
  entries :: "(string \<times> affinityEntry) list"

definition NewAffinity :: "duration \<Rightarrow> affinity" where
  "NewAffinity t = \<lparr>ttl = (if t \<le> 0 then 30 * minute else t), entries = []\<rparr>"

text \<open>
  \<open>Affinity.Get\<close> reads the clock for the expiry test (\<open>now1\<close>) and again for the renewal
  (\<open>now2\<close>).
\<close>

definition aff_Get :: "gotime \<Rightarrow> gotime \<Rightarrow> string \<Rightarrow> affinity \<Rightarrow> affinity \<times> (string \<times> bool)" where
  "aff_Get now1 now2 sessionID a =
     (if sessionID = '''' then (a, '''', False)
      else
        (case map_of (entries a) sessionID of
           None \<Rightarrow> (a, '''', False)
         | Some e \<Rightarrow>
             if now1 > ExpireAt e
             then (a\<lparr>entries := AList.delete sessionID (entries a)\<rparr>, '''', False)
             else
               (let e = e\<lparr>ExpireAt := now2 + ttl a\<rparr>
                in (a\<lparr>entries := AList.update sessionID e (entries a)\<rparr>, CredID e, True))))"

definition aff_Set :: "gotime \<Rightarrow> string \<Rightarrow> string \<Rightarrow> affinity \<Rightarrow> affinity" where
  "aff_Set now sessionID credID a =
     (if sessionID = '''' \<or> credID = '''' then a
      else a\<lparr>entries := AList.update sessionID
               \<lparr>CredID = credID, ExpireAt = now + ttl a\<rparr> (entries a)\<rparr>)"

definition Forget :: "string \<Rightarrow> affinity \<Rightarrow> affinity" where
  "Forget sessionID a = a\<lparr>entries := AList.delete sessionID (entries a)\<rparr>"

definition Sweep :: "gotime \<Rightarrow> affinity \<Rightarrow> affinity \<times> nat" where
  "Sweep now a =
     (let gone = filter (\<lambda>(k, e). now > ExpireAt e) (entries a);
          kept = filter (\<lambda>(k, e). \<not> now > ExpireAt e) (entries a)
      in (a\<lparr>entries := kept\<rparr>, length gone))"

definition Size :: "affinity \<Rightarrow> nat" where
  "Size a = length (entries a)"

text \<open>
  \<open>RunJanitor\<close>: the interval of its ticker, and the store after the ticks received (at the given
  times) before its context is done; a nil store has no janitor.
\<close>

definition janitor_interval :: "duration \<Rightarrow> duration" where
  "janitor_interval interval = (if interval \<le> 0 then minute else interval)"

definition RunJanitor :: "gotime list \<Rightarrow> affinity option \<Rightarrow> affinity option" where
  "RunJanitor ticks a = map_option (\<lambda>a. foldl (\<lambda>a t. fst (Sweep t a)) a ticks) a"

definition affinity_ok :: "affinity \<Rightarrow> bool" where
  "affinity_ok a \<longleftrightarrow> distinct (map fst (entries a)) \<and> 0 < ttl a \<and>
     (\<forall>(s, e) \<in> set (entries a). s \<noteq> '''' \<and> CredID e \<noteq> '''')"

text \<open>The binding a session has at time \<open>t\<close>.\<close>

definition bound :: "affinity \<Rightarrow> gotime \<Rightarrow> string \<Rightarrow> string option" where
  "bound a t s = (case map_of (entries a) s of
     None \<Rightarrow> None | Some e \<Rightarrow> if t \<le> ExpireAt e then Some (CredID e) else None)"

lemmas affinity_defs = aff_Get_def aff_Set_def Forget_def Sweep_def NewAffinity_def bound_def

section \<open>Invariant\<close>

lemma affinity_ok_New: "affinity_ok (NewAffinity t)"
  by (simp add: affinity_ok_def NewAffinity_def duration_defs)

lemma affinity_ok_delete:
  "affinity_ok a \<Longrightarrow> affinity_ok (a\<lparr>entries := AList.delete s (entries a)\<rparr>)"
  using AList.distinct_delete [of "entries a" s]
  by (auto simp: affinity_ok_def AList.delete_eq)

lemma affinity_ok_update:
  "affinity_ok a \<Longrightarrow> s \<noteq> '''' \<Longrightarrow> CredID e \<noteq> '''' \<Longrightarrow>
   affinity_ok (a\<lparr>entries := AList.update s e (entries a)\<rparr>)"
proof -
  assume a: "affinity_ok a" and s: "s \<noteq> ''''" "CredID e \<noteq> ''''"
  have "set (AList.update s e xs) \<subseteq> insert (s, e) (set xs)" for xs
    by (induction xs) auto
  with a s show ?thesis
    using AList.distinct_update [of "entries a" s e] by (fastforce simp: affinity_ok_def)
qed

lemma affinity_ok_mem: "affinity_ok a \<Longrightarrow> map_of (entries a) s = Some e \<Longrightarrow> s \<noteq> '''' \<and> CredID e \<noteq> ''''"
  by (auto simp: affinity_ok_def dest!: map_of_SomeD)

lemma affinity_ok_Get: "affinity_ok a \<Longrightarrow> affinity_ok (fst (aff_Get t1 t2 s a))"
  by (auto simp: aff_Get_def Let_def affinity_ok_delete affinity_ok_update affinity_ok_mem split: option.splits)

lemma affinity_ok_Set: "affinity_ok a \<Longrightarrow> affinity_ok (aff_Set t s c a)"
  by (simp add: aff_Set_def affinity_ok_update)

lemma affinity_ok_Sweep: "affinity_ok a \<Longrightarrow> affinity_ok (fst (Sweep t a))"
  by (auto simp: affinity_ok_def Sweep_def Let_def distinct_map_filter)

lemmas affinity_ok_ops =
  affinity_ok_New affinity_ok_Get affinity_ok_Set affinity_ok_Sweep affinity_ok_delete

section \<open>The contract of a sticky store\<close>

text \<open>
  What a session does to the store: a lookup (two clock readings), a binding, a sweep. Below,
  \<open>kept_alive p s lo d es\<close> says that the events \<open>es\<close> are in time order from \<open>lo\<close> on, never rebind
  \<open>s\<close>, and look \<open>s\<close> up each time no later than \<open>p\<close> after the previous lookup (first by \<open>d\<close>).
\<close>

datatype aff_event = Touch gotime gotime string | Bind gotime string string | SweepAt gotime

fun kept_alive :: "duration \<Rightarrow> string \<Rightarrow> gotime \<Rightarrow> gotime \<Rightarrow> aff_event list \<Rightarrow> bool" where
  "kept_alive p s lo d [] = True"
| "kept_alive p s lo d (Touch t1 t2 s' # es) =
     (lo \<le> t1 \<and> t1 \<le> t2 \<and> (if s' = s then t1 \<le> d \<and> kept_alive p s t2 (t2 + p) es
                         else kept_alive p s t2 d es))"
| "kept_alive p s lo d (Bind t s' c # es) = (lo \<le> t \<and> s' \<noteq> s \<and> kept_alive p s t d es)"
| "kept_alive p s lo d (SweepAt t # es) = (lo \<le> t \<and> kept_alive p s t d es)"

text \<open>The results of the lookups of \<open>s\<close> along a sequence of events.\<close>

fun lookups :: "(gotime \<Rightarrow> gotime \<Rightarrow> string \<Rightarrow> 's \<Rightarrow> 's \<times> (string \<times> bool)) \<Rightarrow>
    (gotime \<Rightarrow> string \<Rightarrow> string \<Rightarrow> 's \<Rightarrow> 's) \<Rightarrow> (gotime \<Rightarrow> 's \<Rightarrow> 's) \<Rightarrow>
    string \<Rightarrow> aff_event list \<Rightarrow> 's \<Rightarrow> (string \<times> bool) list" where
  "lookups get put sweep s [] \<sigma> = []"
| "lookups get put sweep s (Touch t1 t2 s' # es) \<sigma> =
     (let (\<sigma>', r) = get t1 t2 s' \<sigma>
      in (if s' = s then [r] else []) @ lookups get put sweep s es \<sigma>')"
| "lookups get put sweep s (Bind t s' c # es) \<sigma> = lookups get put sweep s es (put t s' c \<sigma>)"
| "lookups get put sweep s (SweepAt t # es) \<sigma> = lookups get put sweep s es (sweep t \<sigma>)"

locale sticky_store =
  fixes inv :: "'s \<Rightarrow> bool"
    and period :: "'s \<Rightarrow> duration"
    and binding :: "'s \<Rightarrow> gotime \<Rightarrow> string \<Rightarrow> string option"
    and get :: "gotime \<Rightarrow> gotime \<Rightarrow> string \<Rightarrow> 's \<Rightarrow> 's \<times> (string \<times> bool)"
    and put :: "gotime \<Rightarrow> string \<Rightarrow> string \<Rightarrow> 's \<Rightarrow> 's"
    and sweep :: "gotime \<Rightarrow> 's \<Rightarrow> 's"
  assumes get_inv: "inv \<sigma> \<Longrightarrow> inv (fst (get t1 t2 s \<sigma>)) \<and> period (fst (get t1 t2 s \<sigma>)) = period \<sigma>"
    and put_inv: "inv \<sigma> \<Longrightarrow> inv (put t s c \<sigma>) \<and> period (put t s c \<sigma>) = period \<sigma>"
    and sweep_inv: "inv \<sigma> \<Longrightarrow> inv (sweep t \<sigma>) \<and> period (sweep t \<sigma>) = period \<sigma>"
    and get_result: "inv \<sigma> \<Longrightarrow> snd (get t1 t2 s \<sigma>) =
      (case binding \<sigma> t1 s of None \<Rightarrow> ('''', False) | Some c \<Rightarrow> (c, True))"
    and get_renews: "inv \<sigma> \<Longrightarrow> binding \<sigma> t1 s = Some c \<Longrightarrow> t \<le> t2 + period \<sigma> \<Longrightarrow>
      binding (fst (get t1 t2 s \<sigma>)) t s = Some c"
    and get_other: "inv \<sigma> \<Longrightarrow> s' \<noteq> s \<Longrightarrow> binding (fst (get t1 t2 s \<sigma>)) t s' = binding \<sigma> t s'"
    and put_binds: "inv \<sigma> \<Longrightarrow> s \<noteq> '''' \<Longrightarrow> c \<noteq> '''' \<Longrightarrow> t' \<le> t + period \<sigma> \<Longrightarrow>
      binding (put t s c \<sigma>) t' s = Some c"
    and put_other: "inv \<sigma> \<Longrightarrow> s' \<noteq> s \<Longrightarrow> binding (put t s c \<sigma>) t' s' = binding \<sigma> t' s'"
    and sweep_keeps: "inv \<sigma> \<Longrightarrow> t \<le> t' \<Longrightarrow> binding (sweep t \<sigma>) t' s = binding \<sigma> t' s"
begin

lemma bound_session_stays:
  assumes "inv \<sigma>" "kept_alive (period \<sigma>) s lo d es"
    and "\<And>t. lo \<le> t \<Longrightarrow> t \<le> d \<Longrightarrow> binding \<sigma> t s = Some c"
  shows "set (lookups get put sweep s es \<sigma>) \<subseteq> {(c, True)}"
  using assms
proof (induction es arbitrary: \<sigma> lo d)
  case (Cons e es)
  note inv = Cons.prems(1) and alive = Cons.prems(2) and now = Cons.prems(3)
  show ?case
  proof (cases e)
    case (Touch t1 t2 s')
    obtain \<sigma>' r where g: "get t1 t2 s' \<sigma> = (\<sigma>', r)" by (cases "get t1 t2 s' \<sigma>")
    from get_inv [OF inv, of t1 t2 s'] g have inv': "inv \<sigma>'" "period \<sigma>' = period \<sigma>" by auto
    show ?thesis
    proof (cases "s' = s")
      case True
      with alive Touch have b: "binding \<sigma> t1 s = Some c" by (intro now) auto
      have "set (lookups get put sweep s es \<sigma>') \<subseteq> {(c, True)}"
        by (rule Cons.IH [OF inv'(1), of t2 "t2 + period \<sigma>"])
          (use alive Touch True inv' get_renews [OF inv b, of _ t2] g in auto)
      moreover have "r = (c, True)" using get_result [OF inv, of t1 t2 s] b g True by simp
      ultimately show ?thesis using Touch True g by simp
    next
      case False
      have "set (lookups get put sweep s es \<sigma>') \<subseteq> {(c, True)}"
        by (rule Cons.IH [OF inv'(1), of t2 d])
          (use alive Touch False inv' get_other [OF inv, of s s' t1 t2] g now in auto)
      then show ?thesis using Touch False g by simp
    qed
  next
    case (Bind t s' c')
    with alive have "s \<noteq> s'" by auto
    with put_inv [OF inv, of t s' c'] put_other [OF inv this, of t c'] alive Bind now
    show ?thesis by (simp add: Cons.IH [of "put t s' c' \<sigma>" t d])
  next
    case (SweepAt t)
    with sweep_inv [OF inv, of t] sweep_keeps [OF inv, of t] alive now
    show ?thesis by (simp add: Cons.IH [of "sweep t \<sigma>" t d])
  qed
qed simp

lemma fresh_binding_stays:
  assumes "inv \<sigma>" "s \<noteq> ''''" "c \<noteq> ''''" "kept_alive (period \<sigma>) s t (t + period \<sigma>) es"
  shows "set (lookups get put sweep s es (put t s c \<sigma>)) \<subseteq> {(c, True)}"
  by (rule bound_session_stays [of _ _ t "t + period \<sigma>"]) (use assms put_inv put_binds in auto)

end

interpretation mem: sticky_store affinity_ok ttl bound aff_Get aff_Set "\<lambda>t a. fst (Sweep t a)"
proof
  fix a t s t'
  assume a: "affinity_ok a" and t: "t \<le> (t' :: gotime)"
  have "map_of (filter (\<lambda>(k, e). \<not> t > ExpireAt e) (entries a)) s =
      (case map_of (entries a) s of None \<Rightarrow> None | Some e \<Rightarrow> if t > ExpireAt e then None else Some e)"
    using a map_of_filter_values [of "entries a" "\<lambda>e. \<not> t > ExpireAt e" s]
    by (simp add: affinity_ok_def split: option.splits)
  with t show "bound (fst (Sweep t a)) t' s = bound a t' s"
    by (auto simp: bound_def Sweep_def Let_def split: option.splits)
next
  fix a t
  assume a: "affinity_ok a"
  then show "affinity_ok (fst (Sweep t a)) \<and> ttl (fst (Sweep t a)) = ttl a"
    by (simp add: affinity_ok_Sweep) (simp add: Sweep_def Let_def)
qed (auto simp: affinity_ok_ops aff_Get_def aff_Set_def Sweep_def bound_def Let_def
      AList.update_conv' AList.delete_conv' affinity_ok_mem affinity_ok_update split: option.splits if_splits)

section \<open>Properties\<close>

text \<open>
  C39. Sticky sessions: once a session is bound to an account, every later lookup returns that
  account as long as the session comes back before its time to live has run out since its last
  lookup, whatever other sessions look up or bind and however often the janitor sweeps.
\<close>

theorem session_sticky:
  assumes "affinity_ok a" "s \<noteq> ''''" "c \<noteq> ''''"
    and "kept_alive (ttl a) s t (t + ttl a) es"
  shows "set (lookups aff_Get aff_Set (\<lambda>t a. fst (Sweep t a)) s es (aff_Set t s c a)) \<subseteq> {(c, True)}"
  using assms by (rule mem.fresh_binding_stays)

theorem session_sticky_witness:
  "lookups aff_Get aff_Set (\<lambda>t a. fst (Sweep t a)) ''s''
     [Touch 9 9 ''s'', Bind 10 ''u'' ''d'', SweepAt 15, Touch 18 18 ''s'']
     (aff_Set 1 ''s'' ''c'' (NewAffinity 10)) = [(''c'', True), (''c'', True)]"
proof -
  let ?es = "[Touch 9 9 ''s'', Bind 10 ''u'' ''d'', SweepAt 15, Touch 18 18 ''s'']"
  let ?r = "lookups aff_Get aff_Set (\<lambda>t a. fst (Sweep t a)) ''s'' ?es (aff_Set 1 ''s'' ''c'' (NewAffinity 10))"
  have "set ?r \<subseteq> {(''c'', True)}"
    by (rule session_sticky) (simp_all add: affinity_ok_New, simp add: NewAffinity_def)
  moreover have "length ?r = 2"
    by (simp add: Let_def split: prod.splits)
  moreover have "xs = replicate 2 x" if "set xs \<subseteq> {x}" "length xs = 2" for xs and x :: "string \<times> bool"
    using that by (intro replicate_eqI) auto
  ultimately have "?r = replicate 2 (''c'', True)" by blast
  then show ?thesis by (simp only: numeral_2_eq_2 replicate.simps)
qed

text \<open>
  Expiry and housekeeping: a session idle for longer than its time to live is unbound at its
  next lookup, and the sweep removes exactly the expired bindings, returns how many there were,
  and changes the binding of no session from then on.
\<close>

theorem session_expires:
  assumes "affinity_ok a" "s \<noteq> ''''" "c \<noteq> ''''" "t + ttl a < t1"
  shows "snd (aff_Get t1 t2 s (aff_Set t s c a)) = ('''', False) \<and>
    Size (fst (Sweep now a)) + snd (Sweep now a) = Size a \<and>
    (\<forall>(k, e) \<in> set (entries (fst (Sweep now a))). now \<le> ExpireAt e) \<and>
    (now \<le> later \<longrightarrow> bound (fst (Sweep now a)) later k = bound a later k)"
proof -
  have "bound (aff_Set t s c a) t1 s = None"
    using assms(2-4) by (simp add: bound_def aff_Set_def AList.update_conv')
  with mem.get_result [OF affinity_ok_Set [OF assms(1)], of t1 t2 s t s c]
  have "snd (aff_Get t1 t2 s (aff_Set t s c a)) = ('''', False)" by simp
  moreover have "Size (fst (Sweep now a)) + snd (Sweep now a) = Size a"
    using sum_length_filter_compl [of "\<lambda>(k, e). now > ExpireAt e" "entries a"]
    by (simp add: Size_def Sweep_def Let_def case_prod_unfold not_less)
  ultimately show ?thesis
    using mem.sweep_keeps [OF assms(1), of now later k] by (auto simp: Sweep_def Let_def)
qed

theorem session_expires_witness:
  "snd (aff_Get 12 12 ''s'' (aff_Set 1 ''s'' ''c'' (NewAffinity 10))) = ('''', False) \<and>
   snd (Sweep 12 (aff_Set 1 ''s'' ''c'' (NewAffinity 10))) = 1"
proof -
  have "snd (aff_Get 12 12 ''s'' (aff_Set 1 ''s'' ''c'' (NewAffinity 10))) = ('''', False)"
    using session_expires [OF affinity_ok_New, of "''s''" "''c''" 1 10 12 12]
    by (simp add: NewAffinity_def)
  then show ?thesis by (simp add: aff_Set_def NewAffinity_def Sweep_def Let_def)
qed

end
