(* ===== verification/Conductor.thy ===== *)
theory Conductor
  imports Scheduling Affinity
begin

text \<open>
  \<open>DefaultConductor\<close> of \<open>internal/pool/conductor_default.go\<close>: sticky acquisition of an account,
  the retry loop around selection and reservation, and release. Its state holds the scheduler, the
  selector, the in-memory affinity (\<^const>\<open>None\<close> when disabled), the state of the runtime store and the
  tracker of leases; the runtime store's methods and the token refresher are arguments.

  The loop of \<open>pickAndReserve\<close> takes a list with, for each iteration, the readings of the clock,
  whether the request's context is done at its end, and what other goroutines and processes do to
  the shared state before the iteration and between picking and reserving. \<^const>\<open>None\<close> means that the
  loop is still running after these iterations.
\<close>

section \<open>State\<close>

record 's conductor =
  sched :: scheduler
  selector_of :: selector
  affinity_of :: "affinity option"
  rt_state :: 's
  leaseTTL :: duration
  reservations :: tracker

record refresher =
  ShouldRefresh :: "gotime \<Rightarrow> credential \<Rightarrow> bool"
  Refresh :: "gotime \<Rightarrow> credential \<Rightarrow> credential \<times> string option"

definition NewConductor :: "scheduler \<Rightarrow> selector \<Rightarrow> affinity option \<Rightarrow> 's \<Rightarrow> 's conductor" where
  "NewConductor s sel aff \<sigma> =
     \<lparr>sched = s, selector_of = sel, affinity_of = aff, rt_state = \<sigma>, leaseTTL = 10 * minute,
      reservations = newReservationTracker\<rparr>"

text \<open>\<open>SetRuntimeState\<close>, apart from storing the interface value.\<close>

definition SetRuntimeState :: "duration \<Rightarrow> 's conductor \<Rightarrow> 's conductor" where
  "SetRuntimeState lease d = (if lease > 0 then d\<lparr>leaseTTL := lease\<rparr> else d)"

definition affinityTTL :: "affinity option \<Rightarrow> duration" where
  "affinityTTL a = (case a of None \<Rightarrow> 30 * minute | Some a \<Rightarrow> if ttl a \<le> 0 then 30 * minute else ttl a)"

definition on_cred :: "addr \<Rightarrow> (credential \<Rightarrow> credential) \<Rightarrow> 's conductor \<Rightarrow> 's conductor" where
  "on_cred c f d = d\<lparr>sched := upd_cred c f (sched d)\<rparr>"

abbreviation cred_at :: "'s conductor \<Rightarrow> addr \<Rightarrow> credential" where
  "cred_at d c \<equiv> heap (sched d) c"

section \<open>Reserving\<close>

definition localReserve :: "gotime \<Rightarrow> addr \<Rightarrow> string \<Rightarrow> 's conductor \<Rightarrow> 's conductor \<times> bool" where
  "localReserve now c model d =
     (let (x, ok) = Reserve now model (cred_at d c) in (on_cred c (\<lambda>_. x) d, ok))"

definition localReserveRuntimeAccepted :: "string \<Rightarrow> credential \<Rightarrow> credential \<times> bool" where
  "localReserveRuntimeAccepted model c =
     (if Disabled c then (c, False) else (count_reservation model c, True))"

definition tryReserve :: "'s runtime_ops option \<Rightarrow> gotime \<Rightarrow> addr \<Rightarrow> string \<Rightarrow> 's conductor
    \<Rightarrow> 's conductor \<times> (string + runtime_reservation \<times> bool)" where
  "tryReserve rt now c model d =
     (case rt of
        None \<Rightarrow> (d, Inr (zero_reservation, False))
      | Some r \<Rightarrow>
          (let (\<sigma>, x) = TryReserve r now (Some (cred_at d c)) model (leaseTTL d) (rt_state d);
               d = d\<lparr>rt_state := \<sigma>\<rparr>
           in case x of
                Inl e \<Rightarrow> (d, Inl e)
              | Inr (res, ok) \<Rightarrow>
                  if \<not> ok then (d, Inr (res, False))
                  else
                    (let (cr, accepted) = localReserveRuntimeAccepted model (cred_at d c)
                     in if \<not> accepted
                        then (d\<lparr>rt_state := fst (Release r now res (rt_state d))\<rparr>, Inr (zero_reservation, False))
                        else (on_cred c (\<lambda>_. cr) d, Inr (res, True)))))"

text \<open>The lease is recorded; its renewal goroutine is \<open>renewReservation\<close> below.\<close>

definition trackReservation :: "'s runtime_ops option \<Rightarrow> addr \<Rightarrow> runtime_reservation \<Rightarrow> 's conductor \<Rightarrow> 's conductor" where
  "trackReservation rt c res d =
     (if rt = None then d else d\<lparr>reservations := tracker_push c res (reservations d)\<rparr>)"

text \<open>
  One firing of the timer of \<open>renewReservation\<close>: the delay until the next one, \<^const>\<open>None\<close> when the
  goroutine ends because the lease is gone.
\<close>

definition renewReservation :: "'s runtime_ops \<Rightarrow> gotime \<Rightarrow> duration \<Rightarrow> runtime_reservation \<Rightarrow> 's
    \<Rightarrow> 's \<times> duration option" where
  "renewReservation r now lease res \<sigma> =
     (let interval = reservationRenewInterval lease;
          (\<sigma>, x) = Extend r now res lease \<sigma>
      in case x of
           Inl e \<Rightarrow> (\<sigma>, Some (reservationRenewRetryInterval interval))
         | Inr ok \<Rightarrow> (\<sigma>, if \<not> ok then None else Some interval))"

definition filterReadyForModel :: "(addr \<Rightarrow> gotime) \<Rightarrow> (addr \<Rightarrow> gotime) \<Rightarrow> cred_heap \<Rightarrow> addr list \<Rightarrow> string \<Rightarrow> addr list" where
  "filterReadyForModel t1 t2 h cs model = filter (\<lambda>c. IsReadyFor (t1 c) (t2 c) model (h c)) cs"

definition maybeRefresh :: "refresher option \<Rightarrow> gotime \<Rightarrow> addr \<Rightarrow> 's conductor \<Rightarrow> 's conductor" where
  "maybeRefresh rf now c d =
     (case rf of
        None \<Rightarrow> d
      | Some r \<Rightarrow> if \<not> ShouldRefresh r now (cred_at d c) then d
                  else on_cred c (\<lambda>x. fst (Refresh r now x)) d)"

section \<open>The retry loop\<close>

record 's iteration =
  it_before :: "'s conductor \<Rightarrow> 's conductor"
  it_ready :: "addr \<Rightarrow> gotime"
  it_model1 :: "addr \<Rightarrow> gotime"
  it_model2 :: "addr \<Rightarrow> gotime"
  it_between :: "'s conductor \<Rightarrow> 's conductor"
  it_now :: gotime
  it_done :: bool

definition sync_inflight :: "'s runtime_ops option \<Rightarrow> gotime \<Rightarrow> string \<Rightarrow> 's conductor \<Rightarrow> 's conductor" where
  "sync_inflight rt now model d =
     (case rt of
        None \<Rightarrow> d
      | Some r \<Rightarrow>
          (let (\<sigma>, h, err) = SyncInFlight r now (All (sched d)) model (heap (sched d)) (rt_state d)
           in d\<lparr>rt_state := \<sigma>, sched := (sched d)\<lparr>heap := h\<rparr>\<rparr>))"

text \<open>The candidates an iteration offers to the selector.\<close>

definition candidates :: "'s iteration \<Rightarrow> string \<Rightarrow> string \<Rightarrow> 's conductor \<Rightarrow> addr list" where
  "candidates it hint model d =
     (let ready = Ready (it_ready it) (sched d);
          ready = filterReadyForModel (it_model1 it) (it_model2 it) (heap (sched d)) ready model
      in if hint \<noteq> '''' then FilterByRegion (heap (sched d)) ready hint else ready)"

text \<open>The reservation attempt of an iteration: an error, or whether it succeeded.\<close>

definition attempt :: "'s runtime_ops option \<Rightarrow> gotime \<Rightarrow> addr \<Rightarrow> string \<Rightarrow> 's conductor
    \<Rightarrow> 's conductor \<times> (pool_error + bool)" where
  "attempt rt now c model d =
     (if rt \<noteq> None
      then (case tryReserve rt now c model d of
              (d, Inl e) \<Rightarrow> (d, Inl (ErrRuntime e))
            | (d, Inr (res, ok)) \<Rightarrow> (if ok then trackReservation rt c res d else d, Inr ok))
      else (let (d, ok) = localReserve now c model d in (d, Inr ok)))"

fun pickAndReserve :: "'s runtime_ops option \<Rightarrow> string \<Rightarrow> string \<Rightarrow> 's iteration list \<Rightarrow> 's conductor
    \<Rightarrow> 's conductor \<times> (pool_error + addr) option" where
  "pickAndReserve rt hint model [] d = (d, None)"
| "pickAndReserve rt hint model (it # its) d =
     (let d = sync_inflight rt (it_now it) model (it_before it d);
          (sel, pick) = Pick (heap (sched d)) (candidates it hint model d) model (selector_of d);
          d = d\<lparr>selector_of := sel\<rparr>
      in case pick of
           Inl e \<Rightarrow> (d, Some (Inl e))
         | Inr c \<Rightarrow>
             (case attempt rt (it_now it) c model (it_between it d) of
                (d, Inl e) \<Rightarrow> (d, Some (Inl e))
              | (d, Inr True) \<Rightarrow> (d, Some (Inr c))
              | (d, Inr False) \<Rightarrow>
                  if it_done it then (d, Some (Inl ErrContext))
                  else pickAndReserve rt hint model its d))"

section \<open>Acquire and release\<close>

record acquire_times =
  aq_get1 :: gotime
  aq_get2 :: gotime
  aq_reserve :: gotime
  aq_set :: gotime

text \<open>
  The two affinity lookups at the start of \<open>Acquire\<close>. The result says whether the session had a
  binding, and the account if the bound one could be reserved.
\<close>

definition shared_binding :: "'s runtime_ops option \<Rightarrow> acquire_times \<Rightarrow> string \<Rightarrow> string \<Rightarrow> 's conductor
    \<Rightarrow> 's conductor \<times> bool \<times> (pool_error + addr) option" where
  "shared_binding rt tm model sessionID d =
     (case rt of
        None \<Rightarrow> (d, False, None)
      | Some r \<Rightarrow>
          if sessionID = '''' then (d, False, None)
          else
            (let (\<sigma>, x) = GetAffinity r (aq_get1 tm) sessionID (affinityTTL (affinity_of d)) (rt_state d);
                 d = d\<lparr>rt_state := \<sigma>\<rparr>
             in case x of
                  Inl e \<Rightarrow> (d, False, None)
                | Inr (cid, ok) \<Rightarrow>
                    if \<not> ok then (d, False, None)
                    else
                      (case Lookup cid (sched d) of
                         None \<Rightarrow> (d, True, None)
                       | Some c \<Rightarrow>
                           (case attempt rt (aq_reserve tm) c model d of
                              (d, Inl e) \<Rightarrow> (d, True, Some (Inl e))
                            | (d, Inr True) \<Rightarrow> (d, True, Some (Inr c))
                            | (d, Inr False) \<Rightarrow> (d, True, None)))))"

definition local_binding :: "'s runtime_ops option \<Rightarrow> acquire_times \<Rightarrow> string \<Rightarrow> string \<Rightarrow> 's conductor
    \<Rightarrow> 's conductor \<times> bool \<times> (pool_error + addr) option" where
  "local_binding rt tm model sessionID d =
     (case affinity_of d of
        None \<Rightarrow> (d, False, None)
      | Some a \<Rightarrow>
          if sessionID = '''' then (d, False, None)
          else
            (let (a, cid, ok) = aff_Get (aq_get1 tm) (aq_get2 tm) sessionID a;
                 d = d\<lparr>affinity_of := Some a\<rparr>
             in if \<not> ok then (d, False, None)
                else
                  (case Lookup cid (sched d) of
                     None \<Rightarrow> (d, True, None)
                   | Some c \<Rightarrow>
                       (case attempt rt (aq_reserve tm) c model d of
                          (d, Inl e) \<Rightarrow> (d, True, Some (Inl e))
                        | (d, Inr True) \<Rightarrow> (d, True, Some (Inr c))
                        | (d, Inr False) \<Rightarrow> (d, True, None)))))"

definition bind_session :: "'s runtime_ops option \<Rightarrow> acquire_times \<Rightarrow> string \<Rightarrow> addr \<Rightarrow> 's conductor \<Rightarrow> 's conductor" where
  "bind_session rt tm sessionID c d =
     (if sessionID = '''' then d
      else
        (let cid = ID (cred_at d c);
             d = (case affinity_of d of None \<Rightarrow> d
                  | Some a \<Rightarrow> d\<lparr>affinity_of := Some (aff_Set (aq_set tm) sessionID cid a)\<rparr>)
         in case rt of None \<Rightarrow> d
            | Some r \<Rightarrow> d\<lparr>rt_state := fst (SetAffinity r (aq_set tm) sessionID cid (affinityTTL (affinity_of d)) (rt_state d))\<rparr>))"

definition Acquire :: "'s runtime_ops option \<Rightarrow> refresher option \<Rightarrow> string \<Rightarrow> acquire_times \<Rightarrow> 's iteration list
    \<Rightarrow> string \<Rightarrow> string \<Rightarrow> 's conductor \<Rightarrow> 's conductor \<times> (pool_error + addr) option" where
  "Acquire rt rf hint tm its model sessionID d =
     (case shared_binding rt tm model sessionID d of
        (d, _, Some (Inl e)) \<Rightarrow> (d, Some (Inl e))
      | (d, _, Some (Inr c)) \<Rightarrow> (maybeRefresh rf (aq_reserve tm) c d, Some (Inr c))
      | (d, had1, None) \<Rightarrow>
          (case local_binding rt tm model sessionID d of
             (d, _, Some (Inl e)) \<Rightarrow> (d, Some (Inl e))
           | (d, _, Some (Inr c)) \<Rightarrow> (maybeRefresh rf (aq_reserve tm) c d, Some (Inr c))
           | (d, had2, None) \<Rightarrow>
               (case pickAndReserve rt hint model its d of
                  (d, Some (Inr c)) \<Rightarrow>
                    (let d = (if had1 \<or> had2 then d else bind_session rt tm sessionID c d)
                     in (maybeRefresh rf (aq_set tm) c d, Some (Inr c)))
                | (d, r) \<Rightarrow> (d, r))))"

definition conductor_Release :: "'s runtime_ops option \<Rightarrow> gotime \<Rightarrow> addr option \<Rightarrow> string list \<Rightarrow> 's conductor \<Rightarrow> 's conductor" where
  "conductor_Release rt now cred model d =
     (case cred of
        None \<Rightarrow> d
      | Some c \<Rightarrow>
          (let m = (case model of [] \<Rightarrow> '''' | x # _ \<Rightarrow> x);
               d = (case rt of
                      None \<Rightarrow> d
                    | Some r \<Rightarrow>
                        (let (trk, res, ok) = tracker_pop c m (reservations d);
                             d = d\<lparr>reservations := trk\<rparr>
                         in if ok then d\<lparr>rt_state := fst (Release r now res (rt_state d))\<rparr> else d));
               (s, released) = sched_ReleaseReservation now (Some c) m (sched d);
               d = d\<lparr>sched := s\<rparr>
           in if released then d else on_cred c (ReleaseReservation now m) d))"

section \<open>Local operation: every undisturbed iteration settles the request\<close>

lemma candidates_narrow:
  "candidates it hint model d = FilterByRegion (heap (sched d))
     (filter (\<lambda>c. IsReadyFor (it_model1 it c) (it_model2 it c) model (cred_at d c)) (Ready (it_ready it) (sched d))) hint"
  using FilterByRegion_none by (simp add: candidates_def filterReadyForModel_def Let_def)

text \<open>An account an iteration may choose: registered, ready, and ready for the model.\<close>

definition choosable :: "'s iteration \<Rightarrow> string \<Rightarrow> 's conductor \<Rightarrow> addr \<Rightarrow> bool" where
  "choosable it model d c \<longleftrightarrow> c \<in> set (All (sched d)) \<and>
     IsReadyFor (it_ready it c) (it_ready it c) '''' (cred_at d c) \<and>
     IsReadyFor (it_model1 it c) (it_model2 it c) model (cred_at d c)"

lemma pick_choosable:
  "snd (Pick (heap (sched d)) (candidates it hint model d) model sel) = Inr c \<Longrightarrow> choosable it model d c"
  using cand.chosen_selectable unfolding candidates_narrow choosable_def by fastforce

lemma pick_none:
  "snd (Pick (heap (sched d)) (candidates it hint model d) model sel) = Inl e \<longleftrightarrow>
   e = ErrNoReady \<and> (\<forall>c. \<not> choosable it model d c)"
  using cand.no_choice_iff unfolding candidates_narrow choosable_def by fastforce

text \<open>
  No other goroutine touches the pool during the iteration, and the reservation is made no
  earlier than the tests.
\<close>

definition undisturbed :: "'s iteration \<Rightarrow> bool" where
  "undisturbed it \<longleftrightarrow> it_before it = id \<and> it_between it = id \<and>
     (\<forall>c. it_model1 it c \<le> it_now it \<and> it_model2 it c \<le> it_now it)"

lemma ready_then_reserved:
  assumes "IsReadyFor t1 t2 model c" "t1 \<le> now" "t2 \<le> now"
  shows "Reserve now model c = (count_reservation model c, True)"
  using assms by (auto simp: Reserve_def IsReadyFor_def cooling_def model_cooling_def split: option.splits if_splits)

lemma local_iteration:
  assumes "undisturbed it"
  shows "(\<exists>c sel. choosable it model d c \<and>
      pickAndReserve None hint model (it # its) d =
        (d\<lparr>selector_of := sel, sched := upd_cred c (\<lambda>_. count_reservation model (cred_at d c)) (sched d)\<rparr>, Some (Inr c))) \<or>
    ((\<forall>c. \<not> choosable it model d c) \<and> snd (pickAndReserve None hint model (it # its) d) = Some (Inl ErrNoReady))"
proof -
  obtain sel r where p: "Pick (heap (sched d)) (candidates it hint model d) model (selector_of d) = (sel, r)"
    by (cases "Pick (heap (sched d)) (candidates it hint model d) model (selector_of d)")
  show ?thesis
  proof (cases r)
    case (Inl e)
    with pick_none [of d it hint model "selector_of d" e] p assms show ?thesis
      by (simp add: sync_inflight_def undisturbed_def)
  next
    case (Inr c)
    then have c: "choosable it model d c" using pick_choosable [of d it hint model "selector_of d" c] p by simp
    then have "Reserve (it_now it) model (cred_at d c) = (count_reservation model (cred_at d c), True)"
      using assms by (intro ready_then_reserved) (auto simp: choosable_def undisturbed_def)
    then show ?thesis
      using c p Inr assms
      by (intro disjI1 exI [of _ c] exI [of _ sel])
        (simp add: sync_inflight_def undisturbed_def attempt_def localReserve_def on_cred_def)
  qed
qed

text \<open>
  C24. Selecting without Redis: in an iteration no other goroutine interferes with, the request
  gets an account that is registered, enabled, out of account and model cooldown and below its
  cap, with exactly one more request counted on it and nothing else of the pool changed; it fails
  with \<open>ErrNoReady\<close> exactly when there is no such account.
\<close>

theorem local_pick_correct:
  assumes "undisturbed it"
  shows "((\<exists>c. snd (pickAndReserve None hint model (it # its) d) = Some (Inr c)) \<longleftrightarrow> (\<exists>c. choosable it model d c)) \<and>
    (snd (pickAndReserve None hint model (it # its) d) = Some (Inl e) \<longleftrightarrow>
      e = ErrNoReady \<and> (\<forall>c. \<not> choosable it model d c)) \<and>
    (snd (pickAndReserve None hint model (it # its) d) = Some (Inr c) \<longrightarrow>
      choosable it model d c \<and>
      sched (fst (pickAndReserve None hint model (it # its) d)) =
        upd_cred c (\<lambda>_. count_reservation model (cred_at d c)) (sched d))"
  using local_iteration [OF assms, of model d hint its] by (auto simp del: pickAndReserve.simps)

text \<open>
  C25. The retry loop does not starve: without Redis, whatever the other goroutines do in the
  iterations they interfere with, the loop has returned by the first iteration they leave alone.
\<close>

theorem local_pick_returns:
  "\<exists>it \<in> set its. undisturbed it \<Longrightarrow> \<exists>r. snd (pickAndReserve None hint model its d) = Some r"
proof (induction its arbitrary: d)
  case (Cons it its)
  show ?case
  proof (cases "undisturbed it")
    case True
    from local_iteration [OF this, of model d hint its] show ?thesis by (auto simp del: pickAndReserve.simps)
  next
    case False
    then have "\<exists>r. snd (pickAndReserve None hint model its d') = Some r" for d' using Cons by auto
    then show ?thesis
      by (auto simp: Let_def attempt_def localReserve_def split: prod.splits sum.splits bool.splits)
  qed
qed simp

text \<open>A pool with one account of capacity 1, and iterations no one interferes with.\<close>

definition still :: "gotime \<Rightarrow> 's iteration" where
  "still t = \<lparr>it_before = id, it_ready = (\<lambda>_. t), it_model1 = (\<lambda>_. t), it_model2 = (\<lambda>_. t),
              it_between = id, it_now = t, it_done = False\<rparr>"

definition demo_account :: credential where
  "demo_account = zero_credential\<lparr>ID := ''a'', MaxInFlight := 1\<rparr>"

definition demo :: "unit conductor" where
  "demo = NewConductor (fst (Add (Some 0) (NewDefaultScheduler (\<lambda>_. demo_account)))) FillFirstSelector
            (Some (NewAffinity 0)) ()"

lemma still_undisturbed [simp]: "undisturbed (still t)"
  by (simp add: undisturbed_def still_def)

lemma demo_simps [simp]:
  "All (sched demo) = [0]" "Lookup ''a'' (sched demo) = Some 0"
  "cred_at demo 0 = demo_account\<lparr>runtimeID := 1\<rparr>" "affinity_of demo = Some (NewAffinity 0)"
  by (simp_all add: demo_def NewConductor_def Add_def NewDefaultScheduler_def upd_cred_def demo_account_def
      All_def Lookup_def map_filter_simps Let_def)

lemma demo_ready [simp]: "IsReadyFor t t' m (demo_account\<lparr>runtimeID := n\<rparr>)"
  by (simp add: demo_account_def zero_credential_def zero_quota_def ready_simps)

theorem local_pick_correct_witness:
  "snd (pickAndReserve None '''' ''m'' [still 5] demo) = Some (Inr 0) \<and>
   InFlight (heap (sched (fst (pickAndReserve None '''' ''m'' [still 5] demo))) 0) = 1"
proof -
  have c: "choosable (still 5) ''m'' demo 0" by (simp add: choosable_def)
  have "0 = c" if "choosable (still 5) ''m'' demo c" for c using that by (simp add: choosable_def)
  with c local_pick_correct [OF still_undisturbed, of "''''" "''m''" 5 "[]" demo]
  have r: "snd (pickAndReserve None '''' ''m'' [still 5] demo) = Some (Inr 0)"
    by (metis (full_types))
  then show ?thesis
    using local_pick_correct [OF still_undisturbed, of "''''" "''m''" 5 "[]" demo ErrNoReady 0]
    by (simp add: upd_cred_def demo_account_def zero_credential_def del: pickAndReserve.simps)
qed

theorem local_pick_returns_witness:
  "\<exists>r. snd (pickAndReserve None '''' ''m''
     [(still 4)\<lparr>it_between := on_cred 0 (\<lambda>x. x\<lparr>InFlight := 1\<rparr>)\<rparr>, still 5] demo) = Some r"
  by (rule local_pick_returns) simp

section \<open>Sticky sessions\<close>

text \<open>The session is bound to the account \<open>i\<close> until \<open>T\<close> at least.\<close>

definition binds :: "'s conductor \<Rightarrow> gotime \<Rightarrow> string \<Rightarrow> string \<Rightarrow> bool" where
  "binds d T session i \<longleftrightarrow> (\<exists>a. affinity_of d = Some a \<and> affinity_ok a \<and> (\<forall>t \<le> T. bound a t session = Some i))"

lemma affinity_frame [simp]:
  "affinity_of (on_cred c f d) = affinity_of d"
  "affinity_of (maybeRefresh rf t c d) = affinity_of d"
  "affinity_of (fst (localReserve t c m d)) = affinity_of d"
  "affinity_of (fst (attempt None t c m d)) = affinity_of d"
  by (simp_all add: on_cred_def maybeRefresh_def localReserve_def attempt_def split: option.split prod.split)

lemma pickAndReserve_affinity:
  assumes "\<And>it d. it \<in> set its \<Longrightarrow> P (affinity_of d) \<Longrightarrow>
      P (affinity_of (it_before it d)) \<and> P (affinity_of (it_between it d))"
    and "P (affinity_of d)"
  shows "P (affinity_of (fst (pickAndReserve None hint model its d)))"
  using assms
proof (induction its arbitrary: d)
  case (Cons it its)
  have before: "P (affinity_of (it_before it d))" using Cons.prems by simp
  obtain sel r where p: "Pick (heap (sched (it_before it d))) (candidates it hint model (it_before it d)) model
      (selector_of (it_before it d)) = (sel, r)" by (metis prod.exhaust)
  let ?d = "(it_before it d)\<lparr>selector_of := sel\<rparr>"
  have d: "P (affinity_of ?d)" using before by simp
  show ?case
  proof (cases r)
    case (Inl e)
    then show ?thesis using p d by (simp add: sync_inflight_def)
  next
    case (Inr c)
    obtain d2 x where a: "attempt None (it_now it) c model (it_between it ?d) = (d2, x)"
      by (metis prod.exhaust)
    have "affinity_of d2 = affinity_of (it_between it ?d)" using affinity_frame(4) a by (metis fst_conv)
    then have d2: "P (affinity_of d2)" using Cons.prems(1) [of it ?d] d by simp
    have "P (affinity_of (fst (pickAndReserve None hint model its d2)))"
      using Cons.IH [of d2] Cons.prems(1) d2 by auto
    then show ?thesis
      using p Inr a d2 by (auto simp: sync_inflight_def split: sum.split bool.split)
  qed
qed simp

lemma aff_Get_binds:
  assumes "affinity_ok a" "bound a t1 s = Some i"
  shows "\<exists>a'. aff_Get t1 t2 s a = (a', i, True) \<and> affinity_ok a' \<and> (\<forall>t \<le> t2 + ttl a. bound a' t s = Some i)"
proof -
  obtain a' r where g: "aff_Get t1 t2 s a = (a', r)" by (cases "aff_Get t1 t2 s a")
  with mem.get_result [OF assms(1), of t1 t2 s] assms(2) have "r = (i, True)" by simp
  with g mem.get_renews [OF assms, of _ t2] affinity_ok_Get [OF assms(1), of t1 t2 s] show ?thesis by simp
qed


text \<open>
  First contact binds: an unbound session that is given an account is bound to that account's
  identifier for a full time to live.
\<close>

theorem Acquire_binds_new_session:
  assumes "affinity_of d = Some a" "affinity_ok a" "session \<noteq> ''''" "bound a (aq_get1 tm) session = None"
    and "\<And>it d. it \<in> set its \<Longrightarrow> affinity_of (it_before it d) = affinity_of d \<and> affinity_of (it_between it d) = affinity_of d"
    and "Acquire None None hint tm its model session d = (d', Some (Inr c))" "ID (cred_at d' c) \<noteq> ''''"
  shows "binds d' (aq_set tm + ttl a) session (ID (cred_at d' c))"
proof -
  obtain a' where g: "aff_Get (aq_get1 tm) (aq_get2 tm) session a = (a', '''', False)" "affinity_ok a'" "ttl a' = ttl a"
    using mem.get_result [OF assms(2), of "aq_get1 tm" "aq_get2 tm" session] assms(4)
      mem.get_inv [OF assms(2), of "aq_get1 tm" "aq_get2 tm" session]
    by (cases "aff_Get (aq_get1 tm) (aq_get2 tm) session a") auto
  let ?d = "d\<lparr>affinity_of := Some a'\<rparr>"
  have lb: "local_binding None tm model session d = (?d, False, None)"
    using assms(1,3) g(1) by (simp add: local_binding_def)
  obtain d2 r where p: "pickAndReserve None hint model its ?d = (d2, r)" by (metis prod.exhaust)
  have "affinity_of d2 = Some a'"
    using pickAndReserve_affinity [where P = "\<lambda>ao. ao = Some a'", of its ?d hint model] assms(5) p by simp
  moreover have "d' = bind_session None tm session c d2"
    using assms(6) lb p by (auto simp: Acquire_def shared_binding_def maybeRefresh_def split: option.splits sum.splits)
  ultimately show ?thesis
    using assms(3,7) g mem.put_binds [OF g(2) assms(3)] affinity_ok_Set [OF g(2)]
    by (simp add: bind_session_def binds_def)
qed

text \<open>The sample pool with the session \<open>s\<close> bound to its account at time 1.\<close>

definition demo_bound :: "unit conductor" where
  "demo_bound = demo\<lparr>affinity_of := Some (aff_Set 1 ''s'' ''a'' (NewAffinity 0))\<rparr>"

definition demo_times :: acquire_times where
  "demo_times = \<lparr>aq_get1 = 5, aq_get2 = 6, aq_reserve = 7, aq_set = 8\<rparr>"


theorem Acquire_binds_new_session_witness:
  "binds (fst (Acquire None None '''' demo_times [still 7] ''m'' ''s'' demo)) (8 + 30 * minute) ''s'' ''a''"
proof -
  obtain d' r where q: "Acquire None None '''' demo_times [still 7] ''m'' ''s'' demo = (d', r)" by (metis prod.exhaust)
  have "bound (NewAffinity 0) (aq_get1 demo_times) ''s'' = None" "ttl (NewAffinity 0) = 30 * minute" "aq_set demo_times = 8"
    by (simp_all add: bound_def NewAffinity_def demo_times_def duration_defs)
  moreover have "r = Some (Inr 0) \<and> ID (cred_at d' 0) = ''a''"
  proof -
    have lb: "local_binding None demo_times ''m'' ''s'' demo = (demo, False, None)"
      by (simp add: local_binding_def aff_Get_def NewAffinity_def demo_def NewConductor_def)
    have "choosable (still 7) ''m'' demo 0" by (simp add: choosable_def)
    moreover have "c = 0" if "choosable (still 7) ''m'' demo c" for c using that by (simp add: choosable_def)
    ultimately obtain sel where
      p: "pickAndReserve None '''' ''m'' [still 7] demo =
        (demo\<lparr>selector_of := sel, sched := upd_cred 0 (\<lambda>_. count_reservation ''m'' (cred_at demo 0)) (sched demo)\<rparr>, Some (Inr 0))"
      using local_iteration [OF still_undisturbed [of 7], of "''m''" demo "''''" "[]"] by metis
    show ?thesis
      using q lb p
      by (auto simp: Acquire_def shared_binding_def maybeRefresh_def bind_session_def upd_cred_def demo_account_def
          simp del: pickAndReserve.simps)
  qed
  ultimately show ?thesis
    using Acquire_binds_new_session [of demo "NewAffinity 0" "''s''" demo_times "[still 7]" "''''" "''m''" d' 0] q
    by (simp add: affinity_ok_New still_def)
qed

end
