(* ===== verification/Go_Strconv.thy ===== *)
theory Go_Strconv
  imports Prelude
begin

text \<open>
  The decimal conversions of Go's \<open>strconv\<close> the sources use: \<open>strconv.ParseInt(s, 10, 64)\<close> and
  the decimal printing of an integer, with the round trip between them. A result with an error is
  still a number: Go returns 0 on a syntax error and the nearest bound on a range error.
\<close>

datatype num_error = ErrSyntax | ErrRange

definition is_digit :: "char \<Rightarrow> bool" where
  "is_digit c \<longleftrightarrow> 48 \<le> (of_char c :: nat) \<and> (of_char c :: nat) \<le> 57"

definition digit_val :: "char \<Rightarrow> nat" where
  "digit_val c = of_char c - 48"

definition digit_char :: "nat \<Rightarrow> char" where
  "digit_char d = char_of (48 + d)"

fun parse_digits :: "nat \<Rightarrow> string \<Rightarrow> nat \<times> num_error option" where
  "parse_digits n [] = (n, None)"
| "parse_digits n (c # cs) =
     (if \<not> is_digit c then (0, Some ErrSyntax)
      else
        (let n' = n * 10 + digit_val c in
         if n' > 2 ^ 64 - 1 then (2 ^ 64 - 1, Some ErrRange) else parse_digits n' cs))"

definition ParseUint :: "string \<Rightarrow> nat \<times> num_error option" where
  "ParseUint s = (if s = '''' then (0, Some ErrSyntax) else parse_digits 0 s)"

definition ParseInt :: "string \<Rightarrow> int \<times> num_error option" where
  "ParseInt s =
     (if s = '''' then (0, Some ErrSyntax)
      else
        (let neg = (hd s = CHR ''-'');
             s = (if hd s = CHR ''+'' \<or> hd s = CHR ''-'' then tl s else s);
             (un, err) = ParseUint s
         in if err = Some ErrSyntax then (0, err)
            else if \<not> neg \<and> un \<ge> 2 ^ 63 then (2 ^ 63 - 1, Some ErrRange)
            else if neg \<and> un > 2 ^ 63 then (- (2 ^ 63), Some ErrRange)
            else (if neg then - int un else int un, None)))"

fun show_nat :: "nat \<Rightarrow> string" where
  "show_nat n = (if n < 10 then [digit_char n] else show_nat (n div 10) @ [digit_char (n mod 10)])"

declare show_nat.simps [simp del]

definition show_int :: "int \<Rightarrow> string" where
  "show_int i = (if i < 0 then CHR ''-'' # show_nat (nat (- i)) else show_nat (nat i))"

section \<open>Round trip\<close>

lemma digit_char_val [simp]: "d < 10 \<Longrightarrow> digit_val (digit_char d) = d"
  by (simp add: digit_val_def digit_char_def)

lemma digit_char_is [simp]: "d < 10 \<Longrightarrow> is_digit (digit_char d)"
  by (simp add: is_digit_def digit_char_def)

lemma show_nat_ne [simp]: "show_nat n \<noteq> []"
  by (subst show_nat.simps) simp

lemma show_nat_digits: "\<forall>c \<in> set (show_nat n). is_digit c"
proof (induction n rule: show_nat.induct)
  case (1 n)
  then show ?case by (subst show_nat.simps) (simp add: Let_def)
qed

lemma digit_not_sign: "is_digit c \<Longrightarrow> c \<noteq> CHR ''-'' \<and> c \<noteq> CHR ''+'' \<and> c \<noteq> CHR '':''"
  by (auto simp: is_digit_def)

lemma parse_digits_append:
  "parse_digits n s = (m, None) \<Longrightarrow> parse_digits n (s @ t) = parse_digits m t"
  by (induction n s rule: parse_digits.induct) (auto simp: Let_def split: if_splits)

lemma parse_show_nat: "n < 2 ^ 64 \<Longrightarrow> parse_digits 0 (show_nat n) = (n, None)"
proof (induction n rule: show_nat.induct)
  case (1 n)
  show ?case
  proof (cases "n < 10")
    case True
    then show ?thesis by (subst show_nat.simps) simp
  next
    case False
    then have "parse_digits 0 (show_nat (n div 10)) = (n div 10, None)" using 1 by simp
    from parse_digits_append [OF this, of "[digit_char (n mod 10)]"] False 1(2) show ?thesis
      by (subst show_nat.simps) (simp add: Let_def)
  qed
qed

lemma ParseInt_show_int:
  assumes "- (2 ^ 63) \<le> i" "i < 2 ^ 63"
  shows "ParseInt (show_int i) = (i, None)"
proof -
  have d: "hd (show_nat n) \<noteq> CHR ''-'' \<and> hd (show_nat n) \<noteq> CHR ''+''" for n
    using digit_not_sign show_nat_digits hd_in_set show_nat_ne by metis
  have p: "ParseUint (show_nat n) = (n, None)" if "n < 2 ^ 64" for n
    using that by (simp add: ParseUint_def parse_show_nat)
  show ?thesis
  proof (cases "i < 0")
    case True
    with assms p [of "nat (- i)"] show ?thesis by (simp add: ParseInt_def show_int_def)
  next
    case False
    with assms p [of "nat i"] d [of "nat i"] show ?thesis by (simp add: ParseInt_def show_int_def)
  qed
qed

end
