(* ===== verification/Redis_Runtime.thy ===== *)
theory Redis_Runtime
  imports Runtime_Store Go_Strconv
begin

text \<open>
  \<open>RedisRuntimeStore\<close> of \<open>internal/pool/runtime_state.go\<close>: in-flight leases, cooldowns and
  affinity shared by all processes through Redis. The Redis server, the network to it and the
  UUID generator are not part of the sources: they are the fields of a record \<open>redis_ops\<close> over an
  abstract state \<open>'s\<close>, an argument of every operation. What the proofs use of them is the predicate
  \<open>redis_laws\<close>, which relates each command to its documented effect on a map from keys to
  values with deadlines. The three Lua scripts are sources, and are modelled command by command;
  Redis runs a script atomically, so a script is one step.
\<close>

section \<open>The Redis service\<close>

type_synonym store = "string \<rightharpoonup> string \<times> gotime option"

text \<open>The reply of a round trip, or its loss with whether the server had executed the call.\<close>

datatype net = Reply | Lost string bool

record 's redis_ops =
  r_obs :: "'s \<Rightarrow> store"
  r_net :: "'s \<Rightarrow> 's \<times> net"
  r_uuid :: "'s \<Rightarrow> 's \<times> string"
  r_client_set :: "gotime \<Rightarrow> string \<Rightarrow> string \<Rightarrow> duration \<Rightarrow> 's \<Rightarrow> 's"
  r_client_expire :: "gotime \<Rightarrow> string \<Rightarrow> duration \<Rightarrow> 's \<Rightarrow> 's"
  r_set_px :: "gotime \<Rightarrow> string \<Rightarrow> string \<Rightarrow> int \<Rightarrow> 's \<Rightarrow> 's"
  r_incr :: "gotime \<Rightarrow> string \<Rightarrow> 's \<Rightarrow> 's"
  r_decr :: "gotime \<Rightarrow> string \<Rightarrow> 's \<Rightarrow> 's"
  r_del :: "gotime \<Rightarrow> string \<Rightarrow> 's \<Rightarrow> 's"
  r_pexpire :: "gotime \<Rightarrow> string \<Rightarrow> int \<Rightarrow> 's \<Rightarrow> 's"

text \<open>The value a key shows at a time: none once its deadline has passed.\<close>

definition vis :: "gotime \<Rightarrow> (string \<times> gotime option) option \<Rightarrow> string option" where
  "vis now e = (case e of None \<Rightarrow> None
     | Some (v, None) \<Rightarrow> Some v
     | Some (v, Some d) \<Rightarrow> if now < d then Some v else None)"

definition r_get :: "'s redis_ops \<Rightarrow> gotime \<Rightarrow> string \<Rightarrow> 's \<Rightarrow> string option" where
  "r_get R now k \<sigma> = vis now (r_obs R \<sigma> k)"

definition round_trip :: "'s redis_ops \<Rightarrow> ('s \<Rightarrow> 's \<times> (string + 'a)) \<Rightarrow> 's \<Rightarrow> 's \<times> (string + 'a)" where
  "round_trip R f \<sigma> =
     (case r_net R \<sigma> of
        (\<sigma>, Reply) \<Rightarrow> f \<sigma>
      | (\<sigma>, Lost e executed) \<Rightarrow> (if executed then fst (f \<sigma>) else \<sigma>, Inl e))"

definition err_of :: "'s \<times> (string + 'a) \<Rightarrow> 's \<times> string option" where
  "err_of x = (fst x, case snd x of Inl e \<Rightarrow> Some e | Inr _ \<Rightarrow> None)"

section \<open>Keys and replies\<close>

fun str_join :: "string \<Rightarrow> string list \<Rightarrow> string" where
  "str_join sep [] = ''''"
| "str_join sep [x] = x"
| "str_join sep (x # y # xs) = x @ sep @ str_join sep (y # xs)"

definition store_prefix :: "string \<Rightarrow> string" where
  "store_prefix pfx = (if pfx = '''' then ''kirocc:'' else pfx)"

definition redis_key :: "string \<Rightarrow> string list \<Rightarrow> string" where
  "redis_key pfx parts = pfx @ str_join '':'' parts"

text \<open>The dynamic types \<open>redisInt\<close> distinguishes in an \<open>any\<close>.\<close>

datatype redis_any = RNil | RStr string | RBytes string | RInt int | ROther

fun redisInt :: "redis_any \<Rightarrow> int" where
  "redisInt RNil = 0"
| "redisInt (RStr x) = fst (ParseInt x)"
| "redisInt (RBytes x) = fst (ParseInt x)"
| "redisInt (RInt x) = x"
| "redisInt ROther = 0"

text \<open>A value \<open>MGET\<close> returns.\<close>

definition mget_val :: "string option \<Rightarrow> redis_any" where
  "mget_val v = (case v of None \<Rightarrow> RNil | Some s \<Rightarrow> RStr s)"

section \<open>Affinity\<close>

definition redis_GetAffinity :: "'s redis_ops \<Rightarrow> string \<Rightarrow> gotime \<Rightarrow> string \<Rightarrow> duration \<Rightarrow> 's
    \<Rightarrow> 's \<times> (string + string \<times> bool)" where
  "redis_GetAffinity R p now sessionID ttl \<sigma> =
     (if sessionID = '''' then (\<sigma>, Inr ('''', False))
      else
        (let key = redis_key p [''affinity'', sessionID];
             (\<sigma>, r) = round_trip R (\<lambda>\<sigma>. (\<sigma>, Inr (r_get R now key \<sigma>))) \<sigma>
         in case r of
              Inl e \<Rightarrow> (\<sigma>, Inl e)
            | Inr None \<Rightarrow> (\<sigma>, Inr ('''', False))
            | Inr (Some credID) \<Rightarrow>
                (let \<sigma> = (if ttl > 0
                          then fst (round_trip R (\<lambda>\<sigma>. (r_client_expire R now key ttl \<sigma>, Inr ())) \<sigma>)
                          else \<sigma>)
                 in (\<sigma>, Inr (credID, credID \<noteq> '''')))))"

definition redis_SetAffinity :: "'s redis_ops \<Rightarrow> string \<Rightarrow> gotime \<Rightarrow> string \<Rightarrow> string \<Rightarrow> duration
    \<Rightarrow> 's \<Rightarrow> 's \<times> string option" where
  "redis_SetAffinity R p now sessionID credID ttl \<sigma> =
     (if sessionID = '''' \<or> credID = '''' then (\<sigma>, None)
      else
        (let ttl = (if ttl \<le> 0 then 30 * minute else ttl)
         in err_of (round_trip R
              (\<lambda>\<sigma>. (r_client_set R now (redis_key p [''affinity'', sessionID]) credID ttl \<sigma>, Inr ())) \<sigma>)))"

section \<open>In-flight counters\<close>

text \<open>The keys \<open>SyncInFlight\<close> asks for, in order, and the loop that reads the answers back.\<close>

fun sync_keys :: "string \<Rightarrow> string \<Rightarrow> cred_heap \<Rightarrow> addr list \<Rightarrow> string list" where
  "sync_keys p model h [] = []"
| "sync_keys p model h (c # cs) =
     redis_key p [''inflight'', ID (h c)] #
     (if model \<noteq> '''' then [redis_key p [''inflight'', ID (h c), ''model'', model]] else []) @
     sync_keys p model h cs"

fun sync_loop :: "redis_any list \<Rightarrow> string \<Rightarrow> nat \<Rightarrow> addr list \<Rightarrow> cred_heap \<Rightarrow> cred_heap" where
  "sync_loop vals model idx [] h = h"
| "sync_loop vals model idx (c # cs) h =
     (let accountInFlight = redisInt (vals ! idx);
          idx = idx + 1;
          modelInFlight = (if model \<noteq> '''' then redisInt (vals ! idx) else 0);
          idx = (if model \<noteq> '''' then idx + 1 else idx);
          cr = (h c)\<lparr>InFlight := accountInFlight\<rparr>;
          cr = (if model \<noteq> ''''
                then (if modelInFlight > 0
                      then cr\<lparr>InFlightByModel := (InFlightByModel cr)(model \<mapsto> modelInFlight)\<rparr>
                      else cr\<lparr>InFlightByModel := (InFlightByModel cr)(model := None)\<rparr>)
                else cr)
      in sync_loop vals model idx cs (h(c := cr)))"

definition redis_SyncInFlight :: "'s redis_ops \<Rightarrow> string \<Rightarrow> gotime \<Rightarrow> addr list \<Rightarrow> string \<Rightarrow> cred_heap
    \<Rightarrow> 's \<Rightarrow> 's \<times> cred_heap \<times> string option" where
  "redis_SyncInFlight R p now creds model h \<sigma> =
     (if creds = [] then (\<sigma>, h, None)
      else
        (let keys = sync_keys p model h creds;
             (\<sigma>, r) = round_trip R (\<lambda>\<sigma>. (\<sigma>, Inr (map (\<lambda>k. mget_val (r_get R now k \<sigma>)) keys))) \<sigma>
         in case r of
              Inl e \<Rightarrow> (\<sigma>, h, Some e)
            | Inr vals \<Rightarrow> (\<sigma>, sync_loop vals model 0 creds h, None)))"

section \<open>Leases\<close>

text \<open>
  \<open>tonumber(redis.call("GET", key) or "0")\<close> on a counter key; \<^const>\<open>None\<close> when the value is not
  a number, on which the scripts' comparisons abort.
\<close>

definition lua_counter :: "'s redis_ops \<Rightarrow> gotime \<Rightarrow> string \<Rightarrow> 's \<Rightarrow> int option" where
  "lua_counter R now k \<sigma> =
     (case r_get R now k \<sigma> of
        None \<Rightarrow> Some 0
      | Some v \<Rightarrow> (case ParseInt v of (n, None) \<Rightarrow> Some n | _ \<Rightarrow> None))"

definition script_error :: string where "script_error = ''ERR script''"

definition reserveScript :: "'s redis_ops \<Rightarrow> gotime \<Rightarrow> string \<Rightarrow> string \<Rightarrow> string \<Rightarrow> string \<Rightarrow> string
    \<Rightarrow> int \<Rightarrow> int \<Rightarrow> bool \<Rightarrow> string \<Rightarrow> 's \<Rightarrow> 's \<times> (string + redis_any list)" where
  "reserveScript R now account_inflight model_inflight account_cooldown model_cooldown reservation
     max_inflight ttl_ms has_model reservation_value \<sigma> =
     (if r_get R now account_cooldown \<sigma> \<noteq> None then (\<sigma>, Inr [RInt 0, RStr ''account_cooldown''])
      else if has_model \<and> r_get R now model_cooldown \<sigma> \<noteq> None then (\<sigma>, Inr [RInt 0, RStr ''model_cooldown''])
      else
        (case lua_counter R now account_inflight \<sigma> of
           None \<Rightarrow> (\<sigma>, Inl script_error)
         | Some current \<Rightarrow>
             if max_inflight > 0 \<and> current \<ge> max_inflight then (\<sigma>, Inr [RInt 0, RStr ''max_inflight''])
             else
               (let \<sigma> = r_pexpire R now account_inflight ttl_ms (r_incr R now account_inflight \<sigma>);
                    \<sigma> = (if has_model
                         then r_pexpire R now model_inflight ttl_ms (r_incr R now model_inflight \<sigma>)
                         else \<sigma>)
                in if ttl_ms \<le> 0 then (\<sigma>, Inl script_error)
                   else (r_set_px R now reservation reservation_value ttl_ms \<sigma>, Inr [RInt 1, RStr ''ok'']))))"

definition model_key :: "string \<Rightarrow> string \<Rightarrow> string \<Rightarrow> string \<Rightarrow> string" where
  "model_key p kind credID model =
     redis_key p [kind, credID, ''model'', if model \<noteq> '''' then model else ''_'']"

definition redis_TryReserve :: "'s redis_ops \<Rightarrow> string \<Rightarrow> gotime \<Rightarrow> credential option \<Rightarrow> string \<Rightarrow> duration
    \<Rightarrow> 's \<Rightarrow> 's \<times> (string + runtime_reservation \<times> bool)" where
  "redis_TryReserve R p now cred model leaseTTL \<sigma> =
     (case cred of
        None \<Rightarrow> (\<sigma>, Inl ''nil credential'')
      | Some c \<Rightarrow>
          (let leaseTTL = (if leaseTTL \<le> 0 then 10 * minute else leaseTTL);
               (\<sigma>, uuid) = r_uuid R \<sigma>;
               res = \<lparr>RID = uuid, RCredID = ID c, RModel = model\<rparr>;
               (\<sigma>, raw) = round_trip R
                  (reserveScript R now (redis_key p [''inflight'', ID c]) (model_key p ''inflight'' (ID c) model)
                     (redis_key p [''cooldown'', ID c]) (model_key p ''cooldown'' (ID c) model)
                     (redis_key p [''reservation'', RID res])
                     (MaxInFlight c) (leaseTTL div millisecond) (model \<noteq> '''')
                     (RCredID res @ [CHR 0x0A] @ RModel res)) \<sigma>
           in case raw of
                Inl e \<Rightarrow> (\<sigma>, Inl e)
              | Inr [] \<Rightarrow> (\<sigma>, Inl ''unexpected redis reserve result'')
              | Inr (a # _) \<Rightarrow> (\<sigma>, Inr (res, redisInt a = 1))))"

definition extendScript :: "'s redis_ops \<Rightarrow> gotime \<Rightarrow> string \<Rightarrow> string \<Rightarrow> string \<Rightarrow> bool \<Rightarrow> int \<Rightarrow> 's
    \<Rightarrow> 's \<times> (string + redis_any)" where
  "extendScript R now reservation account_inflight model_inflight has_model ttl_ms \<sigma> =
     (if r_get R now reservation \<sigma> = None then (\<sigma>, Inr (RInt 0))
      else
        (let \<sigma> = r_pexpire R now reservation ttl_ms \<sigma>;
             \<sigma> = r_pexpire R now account_inflight ttl_ms \<sigma>;
             \<sigma> = (if has_model then r_pexpire R now model_inflight ttl_ms \<sigma> else \<sigma>)
         in (\<sigma>, Inr (RInt 1))))"

definition redis_Extend :: "'s redis_ops \<Rightarrow> string \<Rightarrow> gotime \<Rightarrow> runtime_reservation \<Rightarrow> duration \<Rightarrow> 's
    \<Rightarrow> 's \<times> (string + bool)" where
  "redis_Extend R p now res leaseTTL \<sigma> =
     (if RID res = '''' \<or> RCredID res = '''' then (\<sigma>, Inr False)
      else
        (let leaseTTL = (if leaseTTL \<le> 0 then 10 * minute else leaseTTL);
             (\<sigma>, raw) = round_trip R
                (extendScript R now (redis_key p [''reservation'', RID res])
                   (redis_key p [''inflight'', RCredID res]) (model_key p ''inflight'' (RCredID res) (RModel res))
                   (RModel res \<noteq> '''') (leaseTTL div millisecond)) \<sigma>
         in case raw of Inl e \<Rightarrow> (\<sigma>, Inl e) | Inr v \<Rightarrow> (\<sigma>, Inr (redisInt v = 1))))"

text \<open>The two counter updates of the release script: \<open>DECR\<close> above 1, else \<open>DEL\<close>.\<close>

definition lua_drop :: "'s redis_ops \<Rightarrow> gotime \<Rightarrow> string \<Rightarrow> 's \<Rightarrow> 's \<times> bool" where
  "lua_drop R now k \<sigma> =
     (case lua_counter R now k \<sigma> of
        None \<Rightarrow> (\<sigma>, False)
      | Some n \<Rightarrow> (if n > 1 then r_decr R now k \<sigma> else r_del R now k \<sigma>, True))"

definition releaseScript :: "'s redis_ops \<Rightarrow> gotime \<Rightarrow> string \<Rightarrow> string \<Rightarrow> string \<Rightarrow> bool \<Rightarrow> 's
    \<Rightarrow> 's \<times> (string + redis_any)" where
  "releaseScript R now reservation account_inflight model_inflight has_model \<sigma> =
     (if r_get R now reservation \<sigma> = None then (\<sigma>, Inr (RInt 0))
      else
        (let \<sigma> = r_del R now reservation \<sigma>;
             (\<sigma>, ok) = lua_drop R now account_inflight \<sigma>
         in if \<not> ok then (\<sigma>, Inl script_error)
            else if has_model
            then (let (\<sigma>, ok) = lua_drop R now model_inflight \<sigma>
                  in if ok then (\<sigma>, Inr (RInt 1)) else (\<sigma>, Inl script_error))
            else (\<sigma>, Inr (RInt 1))))"

definition redis_Release :: "'s redis_ops \<Rightarrow> string \<Rightarrow> gotime \<Rightarrow> runtime_reservation \<Rightarrow> 's
    \<Rightarrow> 's \<times> string option" where
  "redis_Release R p now res \<sigma> =
     (if RID res = '''' \<or> RCredID res = '''' then (\<sigma>, None)
      else err_of (round_trip R
             (releaseScript R now (redis_key p [''reservation'', RID res])
                (redis_key p [''inflight'', RCredID res]) (model_key p ''inflight'' (RCredID res) (RModel res))
                (RModel res \<noteq> '''')) \<sigma>))"

section \<open>Cooldowns\<close>

definition redis_SetCooldown :: "'s redis_ops \<Rightarrow> string \<Rightarrow> gotime \<Rightarrow> string \<Rightarrow> string \<Rightarrow> duration \<Rightarrow> 's
    \<Rightarrow> 's \<times> string option" where
  "redis_SetCooldown R p now credID model ttl \<sigma> =
     (if credID = '''' \<or> ttl \<le> 0 then (\<sigma>, None)
      else
        (let key = (if model \<noteq> '''' then redis_key p [''cooldown'', credID, ''model'', model]
                    else redis_key p [''cooldown'', credID])
         in err_of (round_trip R (\<lambda>\<sigma>. (r_client_set R now key ''1'' ttl \<sigma>, Inr ())) \<sigma>)))"

definition redis_ClearCooldown :: "'s redis_ops \<Rightarrow> string \<Rightarrow> gotime \<Rightarrow> string \<Rightarrow> string \<Rightarrow> 's
    \<Rightarrow> 's \<times> string option" where
  "redis_ClearCooldown R p now credID model \<sigma> =
     (if credID = '''' then (\<sigma>, None)
      else
        (let keys = redis_key p [''cooldown'', credID] #
               (if model \<noteq> '''' then [redis_key p [''cooldown'', credID, ''model'', model]] else [])
         in err_of (round_trip R (\<lambda>\<sigma>. (foldl (\<lambda>\<sigma> k. r_del R now k \<sigma>) \<sigma> keys, Inr ())) \<sigma>)))"

text \<open>The store as a value of the interface.\<close>

definition RedisRuntimeStore :: "'s redis_ops \<Rightarrow> string \<Rightarrow> 's runtime_ops" where
  "RedisRuntimeStore R pfx =
     (let p = store_prefix pfx in
      \<lparr>GetAffinity = redis_GetAffinity R p, SetAffinity = redis_SetAffinity R p,
       SyncInFlight = redis_SyncInFlight R p, TryReserve = redis_TryReserve R p,
       Extend = redis_Extend R p, Release = redis_Release R p,
       SetCooldown = redis_SetCooldown R p, ClearCooldown = redis_ClearCooldown R p\<rparr>)"

lemma RedisRuntimeStore_methods:
  "GetAffinity (RedisRuntimeStore R pfx) = redis_GetAffinity R (store_prefix pfx)"
  "SetAffinity (RedisRuntimeStore R pfx) = redis_SetAffinity R (store_prefix pfx)"
  "SyncInFlight (RedisRuntimeStore R pfx) = redis_SyncInFlight R (store_prefix pfx)"
  "TryReserve (RedisRuntimeStore R pfx) = redis_TryReserve R (store_prefix pfx)"
  "Extend (RedisRuntimeStore R pfx) = redis_Extend R (store_prefix pfx)"
  "Release (RedisRuntimeStore R pfx) = redis_Release R (store_prefix pfx)"
  "SetCooldown (RedisRuntimeStore R pfx) = redis_SetCooldown R (store_prefix pfx)"
  "ClearCooldown (RedisRuntimeStore R pfx) = redis_ClearCooldown R (store_prefix pfx)"
  by (simp_all add: RedisRuntimeStore_def Let_def)

end
