(* ===== verification/Redis_Lease.thy ===== *)
theory Redis_Lease
  imports Redis_Runtime
begin

text \<open>
  Distributed admission control: whatever processes reserve, renew and release leases through
  the scripts of \<open>runtime_state.go\<close>, in whatever interleaving and with whatever replies lost, an
  account never has more live leases than its \<open>MaxInFlight\<close>. The hypotheses on Redis are
  \<open>redis_laws\<close>; \<open>kv_redis\<close> is an instance of them.
\<close>

section \<open>The documented effect of the Redis commands\<close>

definition kv_add :: "int \<Rightarrow> gotime \<Rightarrow> string \<Rightarrow> store \<Rightarrow> store" where
  "kv_add d now k m =
     (case vis now (m k) of
        None \<Rightarrow> m(k \<mapsto> (show_int d, None))
      | Some v \<Rightarrow> m(k \<mapsto> (show_int (fst (ParseInt v) + d), snd (the (m k)))))"

definition kv_set :: "gotime \<Rightarrow> string \<Rightarrow> string \<Rightarrow> int \<Rightarrow> store \<Rightarrow> store" where
  "kv_set now k v ms m = m(k \<mapsto> (v, Some (now + ms * millisecond)))"

definition kv_pexpire :: "gotime \<Rightarrow> string \<Rightarrow> int \<Rightarrow> store \<Rightarrow> store" where
  "kv_pexpire now k ms m =
     (case vis now (m k) of
        None \<Rightarrow> m(k := None)
      | Some v \<Rightarrow> m(k \<mapsto> (v, Some (now + ms * millisecond))))"

definition counts :: "string option \<Rightarrow> bool" where
  "counts v \<longleftrightarrow> (\<forall>x. v = Some x \<longrightarrow> snd (ParseInt x) = None \<and> \<bar>fst (ParseInt x)\<bar> < 2 ^ 62)"

definition redis_laws :: "'s redis_ops \<Rightarrow> bool" where
  "redis_laws R \<longleftrightarrow>
     (\<forall>\<sigma>. r_obs R (fst (r_net R \<sigma>)) = r_obs R \<sigma>) \<and>
     (\<forall>\<sigma>. r_obs R (fst (r_uuid R \<sigma>)) = r_obs R \<sigma>) \<and>
     (\<forall>now k v d \<sigma> k'. k' \<noteq> k \<longrightarrow> r_obs R (r_client_set R now k v d \<sigma>) k' = r_obs R \<sigma> k') \<and>
     (\<forall>now k d \<sigma> k'. k' \<noteq> k \<longrightarrow> r_obs R (r_client_expire R now k d \<sigma>) k' = r_obs R \<sigma> k') \<and>
     (\<forall>now k v ms \<sigma>. 0 < ms \<longrightarrow> r_obs R (r_set_px R now k v ms \<sigma>) = kv_set now k v ms (r_obs R \<sigma>)) \<and>
     (\<forall>now k \<sigma>. counts (r_get R now k \<sigma>) \<longrightarrow> r_obs R (r_incr R now k \<sigma>) = kv_add 1 now k (r_obs R \<sigma>)) \<and>
     (\<forall>now k \<sigma> k'. k' \<noteq> k \<longrightarrow> r_obs R (r_incr R now k \<sigma>) k' = r_obs R \<sigma> k') \<and>
     (\<forall>now k \<sigma>. counts (r_get R now k \<sigma>) \<longrightarrow> r_obs R (r_decr R now k \<sigma>) = kv_add (-1) now k (r_obs R \<sigma>)) \<and>
     (\<forall>now k \<sigma> k'. k' \<noteq> k \<longrightarrow> r_obs R (r_decr R now k \<sigma>) k' = r_obs R \<sigma> k') \<and>
     (\<forall>now k \<sigma>. r_obs R (r_del R now k \<sigma>) = (r_obs R \<sigma>)(k := None)) \<and>
     (\<forall>now k ms \<sigma>. 0 < ms \<longrightarrow> r_obs R (r_pexpire R now k ms \<sigma>) = kv_pexpire now k ms (r_obs R \<sigma>))"

lemma redis_lawsD:
  assumes "redis_laws R"
  shows "r_obs R (fst (r_net R \<sigma>)) = r_obs R \<sigma>"
    and "r_obs R (fst (r_uuid R \<sigma>)) = r_obs R \<sigma>"
    and "k' \<noteq> k \<Longrightarrow> r_obs R (r_client_set R now k v d \<sigma>) k' = r_obs R \<sigma> k'"
    and "k' \<noteq> k \<Longrightarrow> r_obs R (r_client_expire R now k d \<sigma>) k' = r_obs R \<sigma> k'"
    and "0 < ms \<Longrightarrow> r_obs R (r_set_px R now k v ms \<sigma>) = kv_set now k v ms (r_obs R \<sigma>)"
    and "counts (r_get R now k \<sigma>) \<Longrightarrow> r_obs R (r_incr R now k \<sigma>) = kv_add 1 now k (r_obs R \<sigma>)"
    and "k' \<noteq> k \<Longrightarrow> r_obs R (r_incr R now k \<sigma>) k' = r_obs R \<sigma> k'"
    and "counts (r_get R now k \<sigma>) \<Longrightarrow> r_obs R (r_decr R now k \<sigma>) = kv_add (-1) now k (r_obs R \<sigma>)"
    and "k' \<noteq> k \<Longrightarrow> r_obs R (r_decr R now k \<sigma>) k' = r_obs R \<sigma> k'"
    and "r_obs R (r_del R now k \<sigma>) = (r_obs R \<sigma>)(k := None)"
    and "0 < ms \<Longrightarrow> r_obs R (r_pexpire R now k ms \<sigma>) = kv_pexpire now k ms (r_obs R \<sigma>)"
  using assms by (simp_all add: redis_laws_def)

text \<open>A Redis that is exactly such a map, with a working network and numbered identifiers.\<close>

definition kv_redis :: "(store \<times> nat) redis_ops" where
  "kv_redis =
     \<lparr>r_obs = fst, r_net = (\<lambda>\<sigma>. (\<sigma>, Reply)), r_uuid = (\<lambda>(m, n). ((m, Suc n), show_nat n)),
      r_client_set = (\<lambda>now k v d (m, n). (m(k \<mapsto> (v, Some (now + d))), n)),
      r_client_expire = (\<lambda>now k d (m, n). (m(k := map_option (\<lambda>(v, _). (v, Some (now + d))) (m k)), n)),
      r_set_px = (\<lambda>now k v ms (m, n). (kv_set now k v ms m, n)),
      r_incr = (\<lambda>now k (m, n). (kv_add 1 now k m, n)),
      r_decr = (\<lambda>now k (m, n). (kv_add (-1) now k m, n)),
      r_del = (\<lambda>now k (m, n). (m(k := None), n)),
      r_pexpire = (\<lambda>now k ms (m, n). (kv_pexpire now k ms m, n))\<rparr>"

lemma kv_redis_laws: "redis_laws kv_redis"
  by (auto simp: redis_laws_def kv_redis_def kv_add_def split: option.splits)

lemma kv_redis_simps:
  "r_obs kv_redis (m, i) = m" "r_net kv_redis \<sigma> = (\<sigma>, Reply)" "r_uuid kv_redis (m, i) = ((m, Suc i), show_nat i)"
  "r_set_px kv_redis now k v ms (m, i) = (kv_set now k v ms m, i)"
  "r_incr kv_redis now k (m, i) = (kv_add 1 now k m, i)"
  "r_decr kv_redis now k (m, i) = (kv_add (-1) now k m, i)"
  "r_del kv_redis now k (m, i) = (m(k := None), i)"
  "r_pexpire kv_redis now k ms (m, i) = (kv_pexpire now k ms m, i)"
  by (simp_all add: kv_redis_def)

section \<open>Keys\<close>

definition lease_key :: "string \<Rightarrow> runtime_reservation \<Rightarrow> string" where
  "lease_key p r = redis_key p [''reservation'', RID r]"

definition acct_key :: "string \<Rightarrow> string \<Rightarrow> string" where
  "acct_key p X = redis_key p [''inflight'', X]"

lemma lease_key_eq [simp]: "lease_key p r = lease_key p r' \<longleftrightarrow> RID r = RID r'"
  by (simp add: lease_key_def redis_key_def)

lemma acct_key_eq [simp]: "acct_key p X = acct_key p Y \<longleftrightarrow> X = Y"
  by (simp add: acct_key_def redis_key_def)

lemma key_kinds [simp]:
  "acct_key p X \<noteq> lease_key p r" "lease_key p r \<noteq> acct_key p X"
  "model_key p ''inflight'' Y m \<noteq> lease_key p r" "lease_key p r \<noteq> model_key p ''inflight'' Y m"
  by (simp_all add: acct_key_def lease_key_def model_key_def redis_key_def)

lemma model_key_not_acct:
  "CHR '':'' \<notin> set X \<Longrightarrow> model_key p ''inflight'' Y m \<noteq> acct_key p X"
  by (auto simp: acct_key_def model_key_def redis_key_def)

lemma other_kinds:
  assumes "hd kind \<noteq> CHR ''i''" "hd kind \<noteq> CHR ''r''" "kind \<noteq> ''''"
  shows "redis_key p (kind # xs) \<noteq> acct_key p X" "redis_key p (kind # xs) \<noteq> lease_key p r"
proof -
  have "hd (str_join '':'' (kind # xs)) = hd kind" using assms by (cases xs; cases kind) auto
  moreover have "str_join '':'' (kind # xs) \<noteq> ''''" using assms by (cases xs; cases kind) auto
  ultimately show "redis_key p (kind # xs) \<noteq> acct_key p X" "redis_key p (kind # xs) \<noteq> lease_key p r"
    using assms by (auto simp: redis_key_def acct_key_def lease_key_def)
qed

section \<open>The invariant on the store\<close>

definition live :: "string \<Rightarrow> string \<Rightarrow> gotime \<Rightarrow> store \<Rightarrow> runtime_reservation set \<Rightarrow> runtime_reservation set" where
  "live p X now m I = {r \<in> I. RCredID r = X \<and> vis now (m (lease_key p r)) \<noteq> None}"

definition covered :: "string \<Rightarrow> string \<Rightarrow> duration \<Rightarrow> gotime \<Rightarrow> store \<Rightarrow> nat \<Rightarrow> runtime_reservation \<Rightarrow> bool" where
  "covered p X T now m c r \<longleftrightarrow> (\<exists>v d w e. m (lease_key p r) = Some (v, Some d) \<and> d \<le> now + T \<and>
     m (acct_key p X) = Some (w, Some e) \<and> d \<le> e \<and> int c \<le> fst (ParseInt w))"

definition lease_inv :: "string \<Rightarrow> string \<Rightarrow> int \<Rightarrow> duration \<Rightarrow> gotime \<Rightarrow> store \<Rightarrow> runtime_reservation set \<Rightarrow> bool" where
  "lease_inv p X Mx T now m I \<longleftrightarrow>
     finite I \<and> inj_on RID I \<and> (\<forall>r \<in> I. CHR '':'' \<notin> set (RCredID r)) \<and>
     (\<forall>v d. m (acct_key p X) = Some (v, d) \<longrightarrow> (\<exists>n e. v = show_int n \<and> d = Some e \<and> 1 \<le> n \<and> n \<le> Mx)) \<and>
     (\<forall>r \<in> live p X now m I. covered p X T now m (card (live p X now m I)) r)"

lemma vis_Some [simp]: "vis now (Some (v, Some d)) = (if now < d then Some v else None)"
  "vis now (Some (v, None)) = Some v" "vis now None = None"
  by (simp_all add: vis_def)

lemma lease_inv_cong:
  assumes "lease_inv p X Mx T now m I" "m' (acct_key p X) = m (acct_key p X)"
    and "\<And>r. r \<in> I \<Longrightarrow> RCredID r = X \<Longrightarrow> m' (lease_key p r) = m (lease_key p r)"
  shows "lease_inv p X Mx T now m' I"
proof -
  have l: "live p X now m' I = live p X now m I" using assms(3) by (auto simp: live_def)
  have "covered p X T now m' c r = covered p X T now m c r" if "r \<in> live p X now m I" for c r
    using that assms(2,3) by (auto simp: covered_def live_def)
  with assms(1,2) l show ?thesis by (simp add: lease_inv_def)
qed

lemma lease_inv_tick:
  assumes "lease_inv p X Mx T now m I" "now \<le> now'"
  shows "lease_inv p X Mx T now' m I"
proof -
  have "vis now' e \<noteq> None \<Longrightarrow> vis now e \<noteq> None" for e
    using assms(2) by (auto simp: vis_def split: option.splits if_splits)
  then have sub: "live p X now' m I \<subseteq> live p X now m I" by (auto simp: live_def)
  have fin: "finite (live p X now m I)" using assms(1) by (simp add: lease_inv_def live_def)
  have le: "card (live p X now' m I) \<le> card (live p X now m I)" by (rule card_mono [OF fin sub])
  have "covered p X T now' m (card (live p X now' m I)) r" if "r \<in> live p X now' m I" for r
  proof -
    have "covered p X T now m (card (live p X now m I)) r" using that sub assms(1) by (auto simp: lease_inv_def)
    then obtain v d w e where "m (lease_key p r) = Some (v, Some d)" "d \<le> now + T"
      "m (acct_key p X) = Some (w, Some e)" "d \<le> e" "int (card (live p X now m I)) \<le> fst (ParseInt w)"
      unfolding covered_def by blast
    moreover have "int (card (live p X now' m I)) \<le> int (card (live p X now m I))" using le by simp
    ultimately show ?thesis using assms(2) unfolding covered_def
      by (intro exI [of _ v] exI [of _ d] exI [of _ w] exI [of _ e]) auto
  qed
  then show ?thesis using assms(1) by (simp add: lease_inv_def)
qed

lemma lease_inv_issue:
  assumes "lease_inv p X Mx T now m I" "RID r \<notin> RID ` I" "CHR '':'' \<notin> set (RCredID r)"
    and "RCredID r = X \<Longrightarrow> m (lease_key p r) = None"
  shows "lease_inv p X Mx T now m (insert r I)"
proof -
  have "live p X now m (insert r I) = live p X now m I" using assms(4) by (auto simp: live_def)
  with assms(1-3) show ?thesis by (auto simp: lease_inv_def)
qed

text \<open>The count the account key shows, and that it covers the live leases.\<close>

definition shown :: "gotime \<Rightarrow> (string \<times> gotime option) option \<Rightarrow> int" where
  "shown now e = (case vis now e of None \<Rightarrow> 0 | Some v \<Rightarrow> fst (ParseInt v))"

lemma lease_inv_shown:
  assumes "lease_inv p X Mx T now m I" "Mx < 2 ^ 62"
  shows "int (card (live p X now m I)) \<le> shown now (m (acct_key p X))"
    and "shown now (m (acct_key p X)) \<le> max 0 Mx"
    and "counts (vis now (m (acct_key p X)))"
    and "vis now (m (acct_key p X)) \<noteq> None \<Longrightarrow>
      \<exists>e. m (acct_key p X) = Some (show_int (shown now (m (acct_key p X))), Some e) \<and> now < e \<and>
        1 \<le> shown now (m (acct_key p X))"
proof -
  let ?a = "m (acct_key p X)" and ?c = "int (card (live p X now m I))"
  consider (absent) "?a = None" | (present) n e where "?a = Some (show_int n, Some e)" "1 \<le> n" "n \<le> Mx"
    "ParseInt (show_int n) = (n, None)"
  proof (cases ?a)
    case (Some a)
    then obtain n e where "a = (show_int n, Some e)" "1 \<le> n" "n \<le> Mx"
      using assms(1) unfolding lease_inv_def by (cases a) blast
    with Some assms(2) that(2) ParseInt_show_int [of n] show ?thesis by simp
  qed (rule that)
  note acct = this
  from acct show "shown now ?a \<le> max 0 Mx"
    by cases (auto simp: shown_def)
  from acct assms(2) show "counts (vis now ?a)"
    by cases (auto simp: counts_def)
  from acct show "vis now ?a \<noteq> None \<Longrightarrow> \<exists>e. ?a = Some (show_int (shown now ?a), Some e) \<and> now < e \<and> 1 \<le> shown now ?a"
    by cases (auto simp: shown_def split: if_splits)
  show "?c \<le> shown now ?a"
  proof (cases "live p X now m I = {}")
    case True
    from acct show ?thesis unfolding True by cases (auto simp: shown_def)
  next
    case False
    then obtain r where r: "r \<in> live p X now m I" by auto
    then obtain v d w e where c: "m (lease_key p r) = Some (v, Some d)"
      "?a = Some (w, Some e)" "d \<le> e" "?c \<le> fst (ParseInt w)"
      using assms(1) unfolding lease_inv_def covered_def by blast
    have "now < e" using r c by (auto simp: live_def split: if_splits)
    with c show ?thesis by (simp add: shown_def)
  qed
qed

lemma lease_inv_live:
  assumes "lease_inv p X Mx T now m I" "r \<in> live p X now m I"
  shows "\<exists>v d w e. m (lease_key p r) = Some (v, Some d) \<and> now < d \<and> d \<le> now + T \<and>
    m (acct_key p X) = Some (w, Some e) \<and> d \<le> e"
  using assms unfolding lease_inv_def covered_def live_def by (auto split: if_splits)

lemma lease_inv_reserve:
  assumes inv: "lease_inv p X Mx T now m I" and Mx: "Mx < 2 ^ 62" and T: "0 < T"
    and n: "n = shown now (m (acct_key p X))" "n < Mx"
    and r: "RID r \<notin> RID ` I" "RCredID r = X" "CHR '':'' \<notin> set X"
    and m': "m' (acct_key p X) = Some (show_int (n + 1), Some (now + T))"
      "m' (lease_key p r) = Some (v, Some (now + T))"
      "\<And>r'. r' \<in> I \<Longrightarrow> m' (lease_key p r') = m (lease_key p r')"
  shows "lease_inv p X Mx T now m' (insert r I)"
proof -
  have l: "live p X now m' (insert r I) = insert r (live p X now m I)"
    using m' r T by (auto simp: live_def)
  have c: "int (card (insert r (live p X now m I))) \<le> n + 1"
  proof -
    have "r \<notin> live p X now m I" "finite (live p X now m I)"
      using r(1) inv by (auto simp: live_def lease_inv_def)
    then show ?thesis using lease_inv_shown(1) [OF inv Mx] n by simp
  qed
  have "0 \<le> n" using lease_inv_shown(1) [OF inv Mx] n by linarith
  then have pr: "ParseInt (show_int (n + 1)) = (n + 1, None)"
    using Mx n by (intro ParseInt_show_int) auto
  have "covered p X T now m' (card (insert r (live p X now m I))) r'"
    if "r' \<in> insert r (live p X now m I)" for r'
  proof (cases "r' = r")
    case True
    then show ?thesis using m' c pr by (simp add: covered_def)
  next
    case False
    then have r': "r' \<in> live p X now m I" "r' \<in> I" using that by (auto simp: live_def)
    from lease_inv_live [OF inv r'(1)] show ?thesis
      using m'(1) m'(3) [OF r'(2)] c pr by (auto simp: covered_def)
  qed
  then show ?thesis using inv r m'(1) n(2) \<open>0 \<le> n\<close> by (auto simp: lease_inv_def l)
qed

lemma lease_inv_extend:
  assumes inv: "lease_inv p X Mx T now m I" and T: "0 < T"
    and r: "r \<in> live p X now m I"
    and m': "m (acct_key p X) = Some (w, e) \<Longrightarrow> m' (acct_key p X) = Some (w, Some (now + T))"
      "m (lease_key p r) = Some (v, d) \<Longrightarrow> m' (lease_key p r) = Some (v, Some (now + T))"
      "\<And>r'. r' \<in> I \<Longrightarrow> r' \<noteq> r \<Longrightarrow> m' (lease_key p r') = m (lease_key p r')"
    and wv: "m (acct_key p X) = Some (w, e)" "m (lease_key p r) = Some (v, d)"
  shows "lease_inv p X Mx T now m' I"
proof -
  have rI: "r \<in> I" "RCredID r = X" using r by (auto simp: live_def)
  have l: "live p X now m' I = live p X now m I"
  proof -
    have "vis now (m' (lease_key p r')) \<noteq> None \<longleftrightarrow> vis now (m (lease_key p r')) \<noteq> None" if "r' \<in> I" for r'
      using that r m'(2) [OF wv(2)] m'(3) [of r'] T by (cases "r' = r") (auto simp: live_def)
    then show ?thesis by (auto simp: live_def)
  qed
  have c: "int (card (live p X now m I)) \<le> fst (ParseInt w)"
    using inv r wv(1) by (auto simp: lease_inv_def covered_def)
  have "covered p X T now m' (card (live p X now m I)) r'" if "r' \<in> live p X now m I" for r'
  proof (cases "r' = r")
    case True
    then show ?thesis using m'(1) [OF wv(1)] m'(2) [OF wv(2)] c by (simp add: covered_def)
  next
    case False
    with that have "r' \<in> I" by (auto simp: live_def)
    from lease_inv_live [OF inv that] show ?thesis
      using m'(1) [OF wv(1)] m'(3) [OF \<open>r' \<in> I\<close> False] c by (auto simp: covered_def)
  qed
  then show ?thesis using inv m'(1) [OF wv(1)] wv(1) by (auto simp: lease_inv_def l)
qed

lemma lease_inv_release:
  assumes inv: "lease_inv p X Mx T now m I" and Mx: "Mx < 2 ^ 62"
    and r: "r \<in> live p X now m I" and n: "n = shown now (m (acct_key p X))"
    and m': "m (acct_key p X) = Some (w, e) \<Longrightarrow> m' (acct_key p X) =
        (if n > 1 then Some (show_int (n - 1), e) else None)"
      "m' (lease_key p r) = None"
      "\<And>r'. r' \<in> I \<Longrightarrow> r' \<noteq> r \<Longrightarrow> m' (lease_key p r') = m (lease_key p r')"
    and w: "m (acct_key p X) = Some (w, e)"
  shows "lease_inv p X Mx T now m' I"
proof -
  have l: "live p X now m' I = live p X now m I - {r}"
  proof -
    have "vis now (m' (lease_key p r')) \<noteq> None \<longleftrightarrow> r' \<noteq> r \<and> vis now (m (lease_key p r')) \<noteq> None" if "r' \<in> I" for r'
      using that m'(2) m'(3) [of r'] by (cases "r' = r") auto
    then show ?thesis by (auto simp: live_def)
  qed
  have fin: "finite (live p X now m I)" using inv by (simp add: live_def lease_inv_def)
  have card: "int (card (live p X now m I - {r})) \<le> n - 1"
    using lease_inv_shown(1) [OF inv Mx] card_Suc_Diff1 [OF fin r] n by linarith
  show ?thesis
  proof (cases "n > 1")
    case True
    have n2: "n \<le> Mx" using lease_inv_shown(2) [OF inv Mx] n True by auto
    then have pr: "ParseInt (show_int (n - 1)) = (n - 1, None)"
      using Mx True by (intro ParseInt_show_int) auto
    have "covered p X T now m' (card (live p X now m I - {r})) r'" if "r' \<in> live p X now m I - {r}" for r'
    proof -
      have r': "r' \<in> live p X now m I" "r' \<in> I" "r' \<noteq> r" using that by (auto simp: live_def)
      from lease_inv_live [OF inv r'(1)] show ?thesis
        using m'(1) [OF w] m'(3) [OF r'(2,3)] card pr True w by (auto simp: covered_def)
    qed
    then show ?thesis using inv m'(1) [OF w] True n2 w by (auto simp: lease_inv_def l)
  next
    case False
    then have "card (live p X now m I - {r}) = 0" using card by linarith
    then have e: "live p X now m I - {r} = {}" using fin by simp
    have "m' (acct_key p X) = None" using m'(1) [OF w] False by simp
    with inv show ?thesis by (simp add: lease_inv_def l e)
  qed
qed

section \<open>The scripts preserve it\<close>

text \<open>
  The requests of all processes on the shared store, with the time of the server and the set of
  leases ever asked for. A lease identifier is fresh: UUIDs do not repeat. All processes run with
  the same lease time and, for account \<open>X\<close>, the same cap.
\<close>

inductive lease_step :: "'s redis_ops \<Rightarrow> string \<Rightarrow> string \<Rightarrow> int \<Rightarrow> duration
    \<Rightarrow> gotime \<times> 's \<times> runtime_reservation set \<Rightarrow> gotime \<times> 's \<times> runtime_reservation set \<Rightarrow> bool"
  for R p X Mx ttl where
  tick: "now \<le> now' \<Longrightarrow> lease_step R p X Mx ttl (now, \<sigma>, I) (now', \<sigma>, I)"
| reserve: "redis_TryReserve R p now (Some c) model ttl \<sigma> = (\<sigma>', result) \<Longrightarrow>
    CHR '':'' \<notin> set (ID c) \<Longrightarrow> (ID c = X \<Longrightarrow> MaxInFlight c = Mx) \<Longrightarrow>
    u = snd (r_uuid R \<sigma>) \<Longrightarrow> u \<notin> RID ` I \<Longrightarrow> r_obs R \<sigma> (redis_key p [''reservation'', u]) = None \<Longrightarrow>
    lease_step R p X Mx ttl (now, \<sigma>, I) (now, \<sigma>', insert \<lparr>RID = u, RCredID = ID c, RModel = model\<rparr> I)"
| extend: "r \<in> I \<Longrightarrow> redis_Extend R p now r ttl \<sigma> = (\<sigma>', ok) \<Longrightarrow>
    lease_step R p X Mx ttl (now, \<sigma>, I) (now, \<sigma>', I)"
| release: "r \<in> I \<Longrightarrow> redis_Release R p now r \<sigma> = (\<sigma>', err) \<Longrightarrow>
    lease_step R p X Mx ttl (now, \<sigma>, I) (now, \<sigma>', I)"
| get_affinity: "redis_GetAffinity R p now s attl \<sigma> = (\<sigma>', a) \<Longrightarrow>
    lease_step R p X Mx ttl (now, \<sigma>, I) (now, \<sigma>', I)"
| set_affinity: "redis_SetAffinity R p now s cid attl \<sigma> = (\<sigma>', err) \<Longrightarrow>
    lease_step R p X Mx ttl (now, \<sigma>, I) (now, \<sigma>', I)"
| sync: "redis_SyncInFlight R p now cs model h \<sigma> = (\<sigma>', h', err) \<Longrightarrow>
    lease_step R p X Mx ttl (now, \<sigma>, I) (now, \<sigma>', I)"
| set_cooldown: "redis_SetCooldown R p now cid model cttl \<sigma> = (\<sigma>', err) \<Longrightarrow>
    lease_step R p X Mx ttl (now, \<sigma>, I) (now, \<sigma>', I)"
| clear_cooldown: "redis_ClearCooldown R p now cid model \<sigma> = (\<sigma>', err) \<Longrightarrow>
    lease_step R p X Mx ttl (now, \<sigma>, I) (now, \<sigma>', I)"

lemma round_trip_obs:
  assumes "redis_laws R" "round_trip R f \<sigma> = (\<sigma>', r)"
  shows "\<exists>\<tau>. r_obs R \<tau> = r_obs R \<sigma> \<and> (r_obs R \<sigma>' = r_obs R \<tau> \<or> \<sigma>' = fst (f \<tau>))"
proof -
  obtain \<tau> n where n: "r_net R \<sigma> = (\<tau>, n)" by (cases "r_net R \<sigma>")
  have "r_obs R \<tau> = r_obs R \<sigma>" using redis_lawsD(1) [OF assms(1), of \<sigma>] n by simp
  with assms(2) n show ?thesis
    by (intro exI [of _ \<tau>]) (auto simp: round_trip_def split: net.splits if_splits)
qed

text \<open>A round trip keeps a property of the stored map that its command keeps.\<close>

lemma round_trip_keeps:
  assumes "redis_laws R" "round_trip R f \<sigma> = (\<sigma>', r)" "P (r_obs R \<sigma>)"
    and "\<And>\<tau>. r_obs R \<tau> = r_obs R \<sigma> \<Longrightarrow> P (r_obs R (fst (f \<tau>)))"
  shows "P (r_obs R \<sigma>')"
  using round_trip_obs [OF assms(1,2)] assms(3,4) by metis

lemma kv_pexpire_other: "k' \<noteq> k \<Longrightarrow> kv_pexpire now k ms m k' = m k'"
  by (simp add: kv_pexpire_def split: option.splits)

lemma kv_add_other: "k' \<noteq> k \<Longrightarrow> kv_add d now k m k' = m k'"
  by (simp add: kv_add_def split: option.splits)

lemma kv_set_other: "k' \<noteq> k \<Longrightarrow> kv_set now k v ms m k' = m k'"
  by (simp add: kv_set_def)

lemmas kv_other = kv_pexpire_other kv_add_other kv_set_other

text \<open>Incrementing and renewing a counter, and dropping it.\<close>

lemma incr_pexpire_shown:
  assumes "redis_laws R" "0 < ms" "counts (r_get R now k \<sigma>)"
  shows "r_obs R (r_pexpire R now k ms (r_incr R now k \<sigma>)) k =
    Some (show_int (shown now (r_obs R \<sigma> k) + 1), Some (now + ms * millisecond))"
  using assms redis_lawsD(6) [OF assms(1,3)] redis_lawsD(11) [OF assms(1,2), of now k "r_incr R now k \<sigma>"]
  by (auto simp: kv_pexpire_def kv_add_def shown_def vis_def split: option.splits if_splits)

lemma incr_pexpire_other:
  assumes "redis_laws R" "0 < ms" "k' \<noteq> k"
  shows "r_obs R (r_pexpire R now k ms (r_incr R now k \<sigma>)) k' = r_obs R \<sigma> k'"
  using assms by (simp add: redis_lawsD(7,11) kv_other)

lemma lua_drop_other:
  assumes "redis_laws R" "k' \<noteq> k"
  shows "r_obs R (fst (lua_drop R now k \<sigma>)) k' = r_obs R \<sigma> k'"
  using assms by (simp add: lua_drop_def redis_lawsD(9,10) split: option.splits)

lemma lua_counter_shown:
  "counts (r_get R now k \<sigma>) \<Longrightarrow> lua_counter R now k \<sigma> = Some (shown now (r_obs R \<sigma> k))"
  by (auto simp: lua_counter_def shown_def counts_def r_get_def split: option.splits prod.splits)

lemma lua_drop_shown:
  assumes "redis_laws R" "counts (r_get R now k \<sigma>)" "r_obs R \<sigma> k = Some (w, e)" "vis now (Some (w, e)) \<noteq> None"
  shows "r_obs R (fst (lua_drop R now k \<sigma>)) k =
    (if shown now (r_obs R \<sigma> k) > 1 then Some (show_int (shown now (r_obs R \<sigma> k) - 1), e) else None)
    \<and> snd (lua_drop R now k \<sigma>)"
  using assms redis_lawsD(8) [OF assms(1,2)]
  by (auto simp: lua_drop_def lua_counter_shown redis_lawsD(10) kv_add_def shown_def split: option.splits)

lemma reserveScript_inv:
  fixes R :: "'s redis_ops"
  assumes L: "redis_laws R" and inv: "lease_inv p X Mx T now (r_obs R \<sigma>) I"
    and X: "CHR '':'' \<notin> set X" and Mx: "0 < Mx" "Mx < 2 ^ 62"
    and ms: "0 < ms" "T = ms * millisecond"
    and r: "RID r \<notin> RID ` I" "CHR '':'' \<notin> set (RCredID r)" "r_obs R \<sigma> (lease_key p r) = None"
    and mx: "RCredID r = X \<Longrightarrow> mx = Mx"
  shows "lease_inv p X Mx T now (r_obs R (fst (reserveScript R now (acct_key p (RCredID r))
    (model_key p ''inflight'' (RCredID r) m) acd mcd (lease_key p r) mx ms hm v \<sigma>))) (insert r I)"
    (is "lease_inv _ _ _ _ _ (r_obs R (fst ?out)) _")
proof -
  let ?a = "acct_key p (RCredID r)" and ?mk = "model_key p ''inflight'' (RCredID r) m"
  define s1 where "s1 = r_pexpire R now ?a ms (r_incr R now ?a \<sigma>)"
  define s2 where "s2 = (if hm then r_pexpire R now ?mk ms (r_incr R now ?mk s1) else s1)"
  define s3 where "s3 = r_set_px R now (lease_key p r) v ms s2"
  have issue: "lease_inv p X Mx T now (r_obs R \<sigma>) (insert r I)"
    by (rule lease_inv_issue [OF inv]) (use r in auto)
  have "fst ?out = \<sigma> \<or> (\<exists>n. fst ?out = s3 \<and> lua_counter R now ?a \<sigma> = Some n \<and> (mx > 0 \<longrightarrow> n < mx))"
    unfolding reserveScript_def s1_def s2_def s3_def using ms(1)
    by (simp add: Let_def split: option.split) auto
  then consider "fst ?out = \<sigma>"
    | n where "fst ?out = s3" "lua_counter R now ?a \<sigma> = Some n" "mx > 0 \<longrightarrow> n < mx" by blast
  then show ?thesis
  proof cases
    case 1
    then show ?thesis using issue by simp
  next
    case (2 n)
    have s2: "r_obs R s2 k = r_obs R s1 k" if "k \<noteq> ?mk" for k
      using that by (simp add: s2_def incr_pexpire_other [OF L ms(1)])
    have s1: "r_obs R s1 k = r_obs R \<sigma> k" if "k \<noteq> ?a" for k
      using that by (simp add: s1_def incr_pexpire_other [OF L ms(1)])
    have s3: "r_obs R s3 k = r_obs R s2 k" if "k \<noteq> lease_key p r" for k
      using that by (simp add: s3_def redis_lawsD(5) [OF L ms(1)] kv_other)
    have lease: "r_obs R s3 (lease_key p r) = Some (v, Some (now + T))"
      by (simp add: s3_def redis_lawsD(5) [OF L ms(1)] kv_set_def ms(2))
    have others: "r_obs R s3 (lease_key p r') = r_obs R \<sigma> (lease_key p r')" if "r' \<in> I" for r'
    proof -
      have "RID r' \<noteq> RID r" using that r(1) by (metis image_eqI)
      then show ?thesis using s1 [of "lease_key p r'"] s2 [of "lease_key p r'"] s3 [of "lease_key p r'"] by simp
    qed
    have aX: "r_obs R s3 (acct_key p X) = r_obs R s1 (acct_key p X)"
      using s2 [OF model_key_not_acct [OF X, THEN not_sym]] s3 [OF key_kinds(1)] by simp
    have "lease_inv p X Mx T now (r_obs R s3) (insert r I)"
    proof (cases "RCredID r = X")
      case False
      then have "r_obs R s3 (acct_key p X) = r_obs R \<sigma> (acct_key p X)" using aX s1 by simp
      then show ?thesis by (rule lease_inv_cong [OF issue]) (use others False in auto)
    next
      case True
      have cnt: "counts (r_get R now ?a \<sigma>)"
        using lease_inv_shown(3) [OF inv Mx(2)] True by (simp add: r_get_def)
      then have "n = shown now (r_obs R \<sigma> (acct_key p X))" using 2(2) True by (simp add: lua_counter_shown)
      moreover have "r_obs R s3 (acct_key p X) = Some (show_int (n + 1), Some (now + T))"
        using aX incr_pexpire_shown [OF L ms(1) cnt] True calculation by (simp add: s1_def ms(2))
      ultimately show ?thesis
        using lease_inv_reserve [OF inv Mx(2) _ _ _ r(1) True X _ lease others] 2(3) mx [OF True] Mx(1) ms
        by (auto simp: millisecond_def)
    qed
    then show ?thesis using 2(1) by simp
  qed
qed

lemma extendScript_inv:
  assumes L: "redis_laws R" and inv: "lease_inv p X Mx T now (r_obs R \<sigma>) I"
    and X: "CHR '':'' \<notin> set X" and Mx: "Mx < 2 ^ 62"
    and ms: "0 < ms" "T = ms * millisecond" and r: "r \<in> I"
  shows "lease_inv p X Mx T now (r_obs R (fst (extendScript R now (lease_key p r)
    (acct_key p (RCredID r)) (model_key p ''inflight'' (RCredID r) m) hm ms \<sigma>))) I"
    (is "lease_inv _ _ _ _ _ (r_obs R (fst ?out)) _")
proof (cases "r_get R now (lease_key p r) \<sigma>")
  case None
  then show ?thesis using inv by (simp add: extendScript_def)
next
  case (Some v)
  let ?m = "r_obs R \<sigma>" and ?a = "acct_key p (RCredID r)"
  let ?m1 = "kv_pexpire now ?a ms (kv_pexpire now (lease_key p r) ms ?m)"
  have obs: "r_obs R (fst ?out) k = ?m1 k" if "k \<noteq> model_key p ''inflight'' (RCredID r) m" for k
    using that Some by (simp add: extendScript_def Let_def redis_lawsD(11) [OF L ms(1)] kv_other)
  have acct: "r_obs R (fst ?out) (acct_key p X) = ?m1 (acct_key p X)"
    by (rule obs) (rule model_key_not_acct [OF X, THEN not_sym])
  have leases: "r_obs R (fst ?out) (lease_key p r') = ?m1 (lease_key p r')" for r' by (rule obs) simp
  have others: "?m1 (lease_key p r') = ?m (lease_key p r')" if "r' \<in> I" "r' \<noteq> r" for r'
  proof -
    have "RID r' \<noteq> RID r" using that r inv by (auto simp: lease_inv_def inj_on_def)
    then show ?thesis by (simp add: kv_other)
  qed
  show ?thesis
  proof (cases "RCredID r = X")
    case False
    show ?thesis
      by (rule lease_inv_cong [OF inv]) (use acct leases others False in \<open>auto simp: kv_other\<close>)
  next
    case True
    have lv: "r \<in> live p X now ?m I" using r True Some by (simp add: live_def r_get_def)
    from lease_inv_live [OF inv lv] obtain v d w e where o:
      "?m (lease_key p r) = Some (v, Some d)" "now < d" "?m (acct_key p X) = Some (w, Some e)" "d \<le> e" by blast
    show ?thesis
      by (rule lease_inv_extend [OF inv _ lv _ _ _ o(3,1)])
        (use ms o acct leases others True in \<open>auto simp: kv_pexpire_def millisecond_def\<close>)
  qed
qed

lemma releaseScript_inv:
  assumes L: "redis_laws R" and inv: "lease_inv p X Mx T now (r_obs R \<sigma>) I"
    and X: "CHR '':'' \<notin> set X" and Mx: "Mx < 2 ^ 62" and r: "r \<in> I"
  shows "lease_inv p X Mx T now (r_obs R (fst (releaseScript R now (lease_key p r)
    (acct_key p (RCredID r)) (model_key p ''inflight'' (RCredID r) m) hm \<sigma>))) I"
    (is "lease_inv _ _ _ _ _ (r_obs R (fst ?out)) _")
proof (cases "r_get R now (lease_key p r) \<sigma>")
  case None
  then show ?thesis using inv by (simp add: releaseScript_def)
next
  case (Some v)
  let ?a = "acct_key p (RCredID r)"
  define s1 where "s1 = r_del R now (lease_key p r) \<sigma>"
  define s2 where "s2 = fst (lua_drop R now ?a s1)"
  have obs: "r_obs R (fst ?out) k = r_obs R s2 k" if "k \<noteq> model_key p ''inflight'' (RCredID r) m" for k
    using Some lua_drop_other [OF L that, of now s2]
    by (auto simp: releaseScript_def s2_def s1_def Let_def split: prod.splits)
  have s1: "r_obs R s1 = (r_obs R \<sigma>)(lease_key p r := None)" by (simp add: s1_def redis_lawsD(10) [OF L])
  have acct: "r_obs R (fst ?out) (acct_key p X) = r_obs R s2 (acct_key p X)"
    by (rule obs) (rule model_key_not_acct [OF X, THEN not_sym])
  have leases: "r_obs R (fst ?out) (lease_key p r') = r_obs R s1 (lease_key p r')" for r'
    using obs [of "lease_key p r'"] lua_drop_other [OF L, of "lease_key p r'" ?a now s1] by (simp add: s2_def)
  have others: "r_obs R s1 (lease_key p r') = r_obs R \<sigma> (lease_key p r')" if "r' \<in> I" "r' \<noteq> r" for r'
  proof -
    have "RID r' \<noteq> RID r" using that r inv by (auto simp: lease_inv_def inj_on_def)
    then show ?thesis by (simp add: s1)
  qed
  show ?thesis
  proof (cases "RCredID r = X")
    case False
    have "r_obs R s2 (acct_key p X) = r_obs R s1 (acct_key p X)"
      unfolding s2_def by (rule lua_drop_other [OF L]) (use False in simp)
    then have "r_obs R (fst ?out) (acct_key p X) = r_obs R \<sigma> (acct_key p X)" using acct by (simp add: s1)
    then show ?thesis
    proof (rule lease_inv_cong [OF inv])
      fix r' assume "r' \<in> I" "RCredID r' = X"
      with False have "r' \<noteq> r" by auto
      with leases others [OF \<open>r' \<in> I\<close>] show "r_obs R (fst ?out) (lease_key p r') = r_obs R \<sigma> (lease_key p r')"
        by simp
    qed
  next
    case True
    have lv: "r \<in> live p X now (r_obs R \<sigma>) I" using r True Some by (simp add: live_def r_get_def)
    from lease_inv_live [OF inv lv] obtain v d w e where o: "r_obs R \<sigma> (lease_key p r) = Some (v, Some d)"
      "now < d" "r_obs R \<sigma> (acct_key p X) = Some (w, Some e)" "d \<le> e" by blast
    have a1: "r_obs R s1 ?a = r_obs R \<sigma> (acct_key p X)" using True by (simp add: s1)
    have "r_obs R s2 ?a = (if shown now (r_obs R \<sigma> (acct_key p X)) > 1
        then Some (show_int (shown now (r_obs R \<sigma> (acct_key p X)) - 1), Some e) else None)"
      using lua_drop_shown [OF L, of now ?a s1 w "Some e"] lease_inv_shown(3) [OF inv Mx] a1 o
      by (simp add: s2_def r_get_def)
    then show ?thesis
      by (intro lease_inv_release [OF inv Mx lv refl _ _ _ o(3)]) (use o(3) acct leases others True in \<open>auto simp: s1\<close>)
  qed
qed

text \<open>Commands on affinity and cooldown keys touch neither counters nor leases.\<close>

lemma lease_inv_other_key:
  assumes inv: "lease_inv p X Mx T now m I"
    and kind: "hd kind \<noteq> CHR ''i''" "hd kind \<noteq> CHR ''r''" "kind \<noteq> ''''"
    and m': "\<And>k. k \<noteq> redis_key p (kind # xs) \<Longrightarrow> m' k = m k"
  shows "lease_inv p X Mx T now m' I"
  using m' [OF other_kinds(1) [OF kind, THEN not_sym]] m' [OF other_kinds(2) [OF kind, THEN not_sym]]
  by (intro lease_inv_cong [OF inv]) auto

lemma affinity_ops_inv:
  assumes L: "redis_laws R" and inv: "lease_inv p X Mx T now (r_obs R \<sigma>) I"
  shows "redis_GetAffinity R p t s attl \<sigma> = (\<sigma>', a) \<Longrightarrow> lease_inv p X Mx T now (r_obs R \<sigma>') I"
    and "redis_SetAffinity R p t s cid attl \<sigma> = (\<sigma>', err) \<Longrightarrow> lease_inv p X Mx T now (r_obs R \<sigma>') I"
    and "redis_SyncInFlight R p t cs model h \<sigma> = (\<sigma>', h', err) \<Longrightarrow> lease_inv p X Mx T now (r_obs R \<sigma>') I"
    and "redis_SetCooldown R p t cid model attl \<sigma> = (\<sigma>', err) \<Longrightarrow> lease_inv p X Mx T now (r_obs R \<sigma>') I"
    and "redis_ClearCooldown R p t cid model \<sigma> = (\<sigma>', err) \<Longrightarrow> lease_inv p X Mx T now (r_obs R \<sigma>') I"
proof -
  note keep = round_trip_keeps [OF L, where P = "\<lambda>m. lease_inv p X Mx T now m I"]
  have read: "lease_inv p X Mx T now (r_obs R \<tau>) I"
    if "round_trip R (\<lambda>\<sigma>. (\<sigma>, f \<sigma>)) \<rho> = (\<tau>, r)" "lease_inv p X Mx T now (r_obs R \<rho>) I" for \<tau> \<rho> r f
    by (rule keep [OF that]) (use that(2) in simp)
  have expire: "lease_inv p X Mx T now (r_obs R (r_client_expire R t (redis_key p (''affinity'' # xs)) d \<tau>)) I"
    if "lease_inv p X Mx T now (r_obs R \<tau>) I" for \<tau> xs d
    by (rule lease_inv_other_key [OF that, of "''affinity''" xs]) (simp_all add: redis_lawsD(4) [OF L])
  have setx: "lease_inv p X Mx T now (r_obs R (r_client_set R t (redis_key p (kind # xs)) v d \<tau>)) I"
    if "lease_inv p X Mx T now (r_obs R \<tau>) I" "kind \<in> {''affinity'', ''cooldown''}" for \<tau> xs d v kind
    by (rule lease_inv_other_key [OF that(1), of kind xs]) (use that(2) in \<open>auto simp: redis_lawsD(3) [OF L]\<close>)
  have delcd: "lease_inv p X Mx T now (r_obs R (r_del R t (redis_key p (''cooldown'' # xs)) \<tau>)) I"
    if "lease_inv p X Mx T now (r_obs R \<tau>) I" for \<tau> xs
    by (rule lease_inv_other_key [OF that, of "''cooldown''" xs]) (simp_all add: redis_lawsD(10) [OF L])
  have exp_trip: "lease_inv p X Mx T now
      (r_obs R (fst (round_trip R (\<lambda>\<sigma>. (r_client_expire R t (redis_key p (''affinity'' # xs)) d \<sigma>, Inr ())) \<tau>))) I"
    if "lease_inv p X Mx T now (r_obs R \<tau>) I" for \<tau> xs d
    by (rule keep [OF prod.collapse [symmetric] that]) (use that expire in simp)
  show "redis_GetAffinity R p t s attl \<sigma> = (\<sigma>', a) \<Longrightarrow> lease_inv p X Mx T now (r_obs R \<sigma>') I"
    using inv by (auto simp: redis_GetAffinity_def Let_def intro!: exp_trip intro: read
        split: if_splits prod.splits sum.splits option.splits)
  show "redis_SyncInFlight R p t cs model h \<sigma> = (\<sigma>', h', err) \<Longrightarrow> lease_inv p X Mx T now (r_obs R \<sigma>') I"
    using inv read by (auto simp: redis_SyncInFlight_def Let_def split: if_splits prod.splits sum.splits)
  have trip: "lease_inv p X Mx T now (r_obs R (fst (round_trip R f \<sigma>))) I"
    if "\<And>\<tau>. lease_inv p X Mx T now (r_obs R \<tau>) I \<Longrightarrow> lease_inv p X Mx T now (r_obs R (fst (f \<tau>))) I"
    for f :: "'a \<Rightarrow> 'a \<times> (string + unit)"
    by (rule keep [OF prod.collapse [symmetric] inv]) (use that inv in simp)
  show "redis_SetAffinity R p t s cid attl \<sigma> = (\<sigma>', err) \<Longrightarrow> lease_inv p X Mx T now (r_obs R \<sigma>') I"
    using inv setx by (auto simp: redis_SetAffinity_def err_of_def Let_def split: if_splits intro!: trip)
  show "redis_SetCooldown R p t cid model attl \<sigma> = (\<sigma>', err) \<Longrightarrow> lease_inv p X Mx T now (r_obs R \<sigma>') I"
    using inv setx by (auto simp: redis_SetCooldown_def err_of_def Let_def split: if_splits intro!: trip)
  show "redis_ClearCooldown R p t cid model \<sigma> = (\<sigma>', err) \<Longrightarrow> lease_inv p X Mx T now (r_obs R \<sigma>') I"
    using inv delcd by (auto simp: redis_ClearCooldown_def err_of_def Let_def split: if_splits intro!: trip)
qed

lemma TryReserve_state:
  assumes "r_uuid R \<sigma> = (\<tau>, u)" "0 < ttl"
  shows "fst (redis_TryReserve R p now (Some c) model ttl \<sigma>) =
    fst (round_trip R (reserveScript R now (acct_key p (ID c)) (model_key p ''inflight'' (ID c) model)
      (redis_key p [''cooldown'', ID c]) (model_key p ''cooldown'' (ID c) model)
      (lease_key p \<lparr>RID = u, RCredID = ID c, RModel = model\<rparr>)
      (MaxInFlight c) (ttl div millisecond) (model \<noteq> '''') (ID c @ [CHR 0x0A] @ model)) \<tau>)"
  using assms
  by (simp add: redis_TryReserve_def acct_key_def lease_key_def split: prod.split sum.split list.split)

lemma Extend_state:
  assumes "RID r \<noteq> ''''" "RCredID r \<noteq> ''''" "0 < ttl"
  shows "fst (redis_Extend R p now r ttl \<sigma>) =
    fst (round_trip R (extendScript R now (lease_key p r) (acct_key p (RCredID r))
        (model_key p ''inflight'' (RCredID r) (RModel r)) (RModel r \<noteq> '''') (ttl div millisecond)) \<sigma>)"
  using assms
  by (simp add: redis_Extend_def acct_key_def lease_key_def split: prod.split sum.split)

lemma lease_step_inv:
  assumes L: "redis_laws R" and step: "lease_step R p X Mx ttl (now, \<sigma>, I) (now', \<sigma>', I')"
    and X: "CHR '':'' \<notin> set X" and Mx: "0 < Mx" "Mx < 2 ^ 62" and ttl: "millisecond \<le> ttl"
    and inv: "lease_inv p X Mx (ttl div millisecond * millisecond) now (r_obs R \<sigma>) I"
  shows "lease_inv p X Mx (ttl div millisecond * millisecond) now' (r_obs R \<sigma>') I'"
proof -
  define T ms where "T = ttl div millisecond * millisecond" and "ms = ttl div millisecond"
  have ms: "0 < ms" "T = ms * millisecond" and pos: "\<not> ttl \<le> 0"
    using ttl by (auto simp: T_def ms_def pos_imp_zdiv_pos_iff millisecond_def)
  note inv = inv [folded T_def]
  from step have "lease_inv p X Mx T now' (r_obs R \<sigma>') I'"
  proof cases
    case tick
    with lease_inv_tick [OF inv] show ?thesis by simp
  next
    case (reserve c model result u)
    let ?r = "\<lparr>RID = u, RCredID = ID c, RModel = model\<rparr>"
    obtain \<tau> where \<tau>: "r_uuid R \<sigma> = (\<tau>, u)" using reserve by (cases "r_uuid R \<sigma>") auto
    have o: "r_obs R \<tau> = r_obs R \<sigma>" using redis_lawsD(2) [OF L, of \<sigma>] \<tau> by simp
    let ?f = "reserveScript R now (acct_key p (ID c)) (model_key p ''inflight'' (ID c) model)
      (redis_key p [''cooldown'', ID c]) (model_key p ''cooldown'' (ID c) model) (lease_key p ?r)
      (MaxInFlight c) ms (model \<noteq> '''') (ID c @ [CHR 0x0A] @ model)"
    have s: "\<sigma>' = fst (round_trip R ?f \<tau>)"
      using TryReserve_state [OF \<tau>, of ttl p now c model] reserve pos by (simp add: ms_def)
    have "lease_inv p X Mx T now (r_obs R (fst (round_trip R ?f \<tau>))) (insert ?r I)"
    proof (rule round_trip_keeps [OF L prod.collapse [symmetric]])
      show "lease_inv p X Mx T now (r_obs R \<tau>) (insert ?r I)"
        unfolding o by (rule lease_inv_issue [OF inv]) (use reserve in \<open>auto simp: lease_key_def\<close>)
    next
      fix \<rho> assume "r_obs R \<rho> = r_obs R \<tau>"
      with inv o show "lease_inv p X Mx T now (r_obs R (fst (?f \<rho>))) (insert ?r I)"
        using reserveScript_inv [OF L _ X Mx ms, of p now \<rho> I ?r] reserve by (simp add: lease_key_def)
    qed
    then show ?thesis using s reserve by simp
  next
    case (extend r ok)
    show ?thesis
    proof (cases "RID r = '''' \<or> RCredID r = ''''")
      case True
      with extend inv show ?thesis by (auto simp: redis_Extend_def)
    next
      case False
      let ?f = "extendScript R now (lease_key p r) (acct_key p (RCredID r))
        (model_key p ''inflight'' (RCredID r) (RModel r)) (RModel r \<noteq> '''') ms"
      have "\<sigma>' = fst (round_trip R ?f \<sigma>)"
        using Extend_state [of r ttl R p now \<sigma>] extend False pos by (simp add: ms_def)
      moreover have "lease_inv p X Mx T now (r_obs R (fst (round_trip R ?f \<sigma>))) I"
        by (rule round_trip_keeps [OF L prod.collapse [symmetric], where P = "\<lambda>m. lease_inv p X Mx T now m I", OF inv])
          (use extendScript_inv [OF L _ X Mx(2) ms extend(3)] inv in simp)
      ultimately show ?thesis using extend by simp
    qed
  next
    case (release r err)
    show ?thesis
    proof (cases "RID r = '''' \<or> RCredID r = ''''")
      case True
      with release inv show ?thesis by (auto simp: redis_Release_def)
    next
      case False
      let ?f = "releaseScript R now (lease_key p r) (acct_key p (RCredID r))
        (model_key p ''inflight'' (RCredID r) (RModel r)) (RModel r \<noteq> '''')"
      have "\<sigma>' = fst (round_trip R ?f \<sigma>)"
        using release False by (auto simp: redis_Release_def err_of_def acct_key_def lease_key_def)
      moreover have "lease_inv p X Mx T now (r_obs R (fst (round_trip R ?f \<sigma>))) I"
        by (rule round_trip_keeps [OF L prod.collapse [symmetric], where P = "\<lambda>m. lease_inv p X Mx T now m I", OF inv])
          (use releaseScript_inv [OF L _ X Mx(2) release(3)] inv in simp)
      ultimately show ?thesis using release by simp
    qed
  qed (use affinity_ops_inv [OF L inv] in auto)
  then show ?thesis by (simp add: T_def)
qed

section \<open>Admission control across processes\<close>

lemma lease_run_inv:
  assumes "redis_laws R" "CHR '':'' \<notin> set X" "0 < Mx" "Mx < 2 ^ 62" "millisecond \<le> ttl"
    and "(lease_step R p X Mx ttl)\<^sup>*\<^sup>* (t0, \<sigma>0, {}) s" "r_obs R \<sigma>0 (acct_key p X) = None"
  shows "lease_inv p X Mx (ttl div millisecond * millisecond) (fst s) (r_obs R (fst (snd s))) (snd (snd s))"
  using assms(6)
proof (induction rule: rtranclp_induct)
  case base
  then show ?case using assms(7) by (simp add: lease_inv_def live_def)
next
  case (step s s')
  obtain now \<sigma> I now' \<sigma>' I' where "s = (now, \<sigma>, I)" "s' = (now', \<sigma>', I')" by (metis prod_cases3)
  with step lease_step_inv [OF assms(1) _ assms(2-5)] show ?case by simp
qed

text \<open>
  C1. Distributed concurrency cap: let any number of processes share one Redis, reserving with
  the same lease time (at least a millisecond) and the same positive cap for account \<open>X\<close>, and let
  them reserve, renew, release, read and write cooldowns and affinity in any order, at any times,
  with any requests or replies lost. Then at every moment at most \<open>MaxInFlight\<close> leases of \<open>X\<close> are
  live. The identifiers of accounts must not contain \<open>:\<close> (a key of one account would otherwise
  be a key of another).
\<close>

theorem redis_cap_respected:
  assumes "redis_laws R" "CHR '':'' \<notin> set X" "0 < Mx" "Mx < 2 ^ 62" "millisecond \<le> ttl"
    and "(lease_step R p X Mx ttl)\<^sup>*\<^sup>* (t0, \<sigma>0, {}) (t, \<sigma>, I)"
    and "r_obs R \<sigma>0 (redis_key p [''inflight'', X]) = None"
  shows "int (card {r \<in> I. RCredID r = X \<and> r_get R t (redis_key p [''reservation'', RID r]) \<sigma> \<noteq> None}) \<le> Mx"
proof -
  have "lease_inv p X Mx (ttl div millisecond * millisecond) t (r_obs R \<sigma>) I"
    using lease_run_inv [OF assms(1-6)] assms(7) by (simp add: acct_key_def)
  from lease_inv_shown(1,2) [OF this assms(4)] assms(3) show ?thesis
    by (simp add: live_def r_get_def lease_key_def)
qed

text \<open>A run in which the single slot of an account is taken and a second request is refused.\<close>

definition one_slot :: credential where
  "one_slot = zero_credential\<lparr>ID := ''a'', MaxInFlight := 1\<rparr>"

theorem redis_cap_respected_witness:
  "\<exists>\<sigma> I. (lease_step kv_redis ''kirocc:'' ''a'' 1 second)\<^sup>*\<^sup>* (0, (Map.empty, 0), {}) (0, \<sigma>, I) \<and>
     card I = 2 \<and>
     card {r \<in> I. RCredID r = ''a'' \<and> r_get kv_redis 0 (redis_key ''kirocc:'' [''reservation'', RID r]) \<sigma> \<noteq> None} \<le> 1"
proof -
  let ?p = "''kirocc:''"
  let ?r = "\<lambda>n. \<lparr>RID = show_nat n, RCredID = ''a'', RModel = ''''\<rparr>"
  let ?rsv = "\<lambda>\<sigma>. redis_TryReserve kv_redis ?p 0 (Some one_slot) '''' second \<sigma>"
  define \<sigma>1 where "\<sigma>1 = fst (?rsv (Map.empty, 0))"
  define \<sigma>2 where "\<sigma>2 = fst (?rsv \<sigma>1)"
  have ne: "show_nat (Suc 0) \<noteq> show_nat 0" "show_nat 1 \<noteq> show_nat 0" by (simp_all add: show_nat.simps digit_char_def)
  have snd1: "snd \<sigma>1 = 1" "fst \<sigma>1 (redis_key ?p [''reservation'', show_nat 1]) = None"
    by (simp_all add: \<sigma>1_def redis_TryReserve_def reserveScript_def kv_redis_def one_slot_def
        zero_credential_def lua_counter_def r_get_def round_trip_def kv_add_def kv_set_def kv_pexpire_def
        redis_key_def model_key_def duration_defs ne)
  have kv [simp]: "snd (r_uuid kv_redis \<sigma>) = show_nat (snd \<sigma>)" "r_obs kv_redis \<sigma> = fst \<sigma>" for \<sigma>
    by (cases \<sigma>; simp add: kv_redis_def)+
  have id: "ID one_slot = ''a''" "MaxInFlight one_slot = 1" by (simp_all add: one_slot_def)
  have e1: "?rsv (Map.empty, 0) = (\<sigma>1, snd (?rsv (Map.empty, 0)))" by (simp add: \<sigma>1_def)
  have e2: "?rsv \<sigma>1 = (\<sigma>2, snd (?rsv \<sigma>1))" by (simp add: \<sigma>2_def)
  have s1: "lease_step kv_redis ?p ''a'' 1 second (0, (Map.empty, 0), {}) (0, \<sigma>1, {?r 0})"
    using lease_step.reserve [OF e1, of "''a''" 1 "show_nat 0" "{}"] id by simp
  have s2: "lease_step kv_redis ?p ''a'' 1 second (0, \<sigma>1, {?r 0}) (0, \<sigma>2, {?r 1, ?r 0})"
    using lease_step.reserve [OF e2, of "''a''" 1 "show_nat 1" "{?r 0}"] snd1 ne id by simp
  have run: "(lease_step kv_redis ?p ''a'' 1 second)\<^sup>*\<^sup>* (0, (Map.empty, 0), {}) (0, \<sigma>2, {?r 1, ?r 0})"
    using s1 s2 by (meson converse_rtranclp_into_rtranclp rtranclp.rtrancl_refl)
  have "card {?r 1, ?r 0} = 2" using ne by simp
  with redis_cap_respected [OF kv_redis_laws _ _ _ _ run] run show ?thesis
    by (intro exI [of _ \<sigma>2] exI [of _ "{?r 1, ?r 0}"]) (simp add: duration_defs)
qed

lemma kv_TryReserve:
  assumes "counts (vis now (m (redis_key p [''inflight'', ID c])))"
  shows "redis_TryReserve kv_redis p now (Some c) '''' second (m, i) =
    (let r = \<lparr>RID = show_nat i, RCredID = ID c, RModel = ''''\<rparr>;
         n = shown now (m (redis_key p [''inflight'', ID c]))
     in if vis now (m (redis_key p [''cooldown'', ID c])) \<noteq> None \<or> MaxInFlight c > 0 \<and> n \<ge> MaxInFlight c
        then ((m, Suc i), Inr (r, False))
        else ((m(redis_key p [''inflight'', ID c] \<mapsto> (show_int (n + 1), Some (now + second)),
                 redis_key p [''reservation'', show_nat i] \<mapsto> (ID c @ [CHR 0x0A], Some (now + second))), Suc i),
              Inr (r, True)))"
proof -
  have lc: "lua_counter kv_redis now k (m', j) = Some (shown now (m' k))" if "counts (vis now (m' k))" for k m' j
    using lua_counter_shown [of kv_redis now k "(m', j)"] that by (simp add: kv_redis_def r_get_def)
  have bump: "kv_pexpire now k (second div millisecond) (kv_add 1 now k m') =
      m'(k \<mapsto> (show_int (shown now (m' k) + 1), Some (now + second)))" if "counts (vis now (m' k))" for k m'
    using that by (auto simp: kv_pexpire_def kv_add_def shown_def vis_def duration_defs split: option.splits if_splits)
  show ?thesis
    using lc [where m' = m and k = "redis_key p [''inflight'', ID c]" and j = "Suc i", OF assms]
      bump [where m' = m and k = "redis_key p [''inflight'', ID c]", OF assms]
    by (simp add: redis_TryReserve_def reserveScript_def Let_def kv_redis_simps round_trip_def r_get_def
        kv_set_def duration_defs)
qed

text \<open>
  Capacity lost to a crash is not always given back: the counter of an account carries one
  deadline, which every new reservation pushes back, and nothing takes a lapsed lease out of the
  count. Here an account with two slots loses a request to a crash at time 0 (lease of 1 s); a
  short request at 0.6 s renews the counter; at 1.2 s, with the crashed lease gone and a single
  lease live, the second slot is still refused.
\<close>

definition two_slots :: credential where
  "two_slots = zero_credential\<lparr>ID := ''a'', MaxInFlight := 2\<rparr>"

definition crash_run :: "(store \<times> nat) \<times> (string + runtime_reservation \<times> bool) list" where
  "crash_run =
     (let p = ''kirocc:'';
          rsv = (\<lambda>t \<sigma>. redis_TryReserve kv_redis p (t * millisecond) (Some two_slots) '''' second \<sigma>);
          (\<sigma>, r0) = rsv 0 (Map.empty, 0);
          (\<sigma>, r1) = rsv 600 \<sigma>;
          \<sigma> = (case r1 of Inr (res, _) \<Rightarrow> fst (redis_Release kv_redis p (700 * millisecond) res \<sigma>) | Inl _ \<Rightarrow> \<sigma>);
          (\<sigma>, r2) = rsv 1200 \<sigma>;
          (\<sigma>, r3) = rsv 1300 \<sigma>
      in (\<sigma>, [r0, r1, r2, r3]))"

theorem crashed_lease_keeps_slot:
  "map (map_sum id snd) (snd crash_run) = [Inr True, Inr True, Inr True, Inr False] \<and>
   r_get kv_redis (1300 * millisecond) (redis_key ''kirocc:'' [''reservation'', show_nat 0]) (fst crash_run) = None \<and>
   r_get kv_redis (1300 * millisecond) (redis_key ''kirocc:'' [''reservation'', show_nat 2]) (fst crash_run) \<noteq> None"
proof -
  have ids: "show_nat 0 = ''0''" "show_nat (Suc 0) = ''1''" "show_nat (Suc (Suc 0)) = ''2''"
    "show_nat 2 = ''2''" "show_nat 3 = ''3''"
    by (simp_all add: show_nat.simps digit_char_def char_of_def bit_0)
  let ?p = "''kirocc:''" and ?a = "redis_key ''kirocc:'' [''inflight'', ''a'']"
  let ?k = "\<lambda>i. redis_key ''kirocc:'' [''reservation'', i]" and ?v = "''a'' @ [CHR 0x0A]"
  let ?r = "\<lambda>i. \<lparr>RID = i, RCredID = ''a'', RModel = ''''\<rparr>"
  let ?at = "\<lambda>t :: int. Some (t * millisecond)"
  let ?m0 = "Map.empty(?a \<mapsto> (show_int 1, ?at 1000), ?k ''0'' \<mapsto> (?v, ?at 1000))"
  let ?m1 = "?m0(?a \<mapsto> (show_int 2, ?at 1600), ?k ''1'' \<mapsto> (?v, ?at 1600))"
  let ?m1' = "?m1(?k ''1'' := None, ?a \<mapsto> (show_int 1, ?at 1600))"
  let ?m2 = "?m1'(?a \<mapsto> (show_int 2, ?at 2200), ?k ''2'' \<mapsto> (?v, ?at 2200))"
  let ?rsv = "\<lambda>t \<sigma>. redis_TryReserve kv_redis ?p (t * millisecond) (Some two_slots) '''' second \<sigma>"
  have cnt: "ParseInt (show_int 1) = (1, None)" "ParseInt (show_int 2) = (2, None)"
    by (simp_all add: ParseInt_show_int)
  have c: "ID two_slots = ''a''" "MaxInFlight two_slots = 2" by (simp_all add: two_slots_def)
  note eval = counts_def shown_def c ids cnt redis_key_def duration_defs Let_def
  have t0: "?rsv 0 (Map.empty, 0) = ((?m0, 1), Inr (?r ''0'', True))"
    by (subst kv_TryReserve) (simp_all add: eval)
  have t1: "?rsv 600 (?m0, 1) = ((?m1, 2), Inr (?r ''1'', True))"
    by (subst kv_TryReserve) (simp_all add: eval)
  have rel: "redis_Release kv_redis ?p (700 * millisecond) (?r ''1'') (?m1, 2) = ((?m1', 2), None)"
    by (simp add: redis_Release_def err_of_def releaseScript_def lua_drop_def lua_counter_def kv_redis_simps
        round_trip_def r_get_def kv_add_def eval)
  have t2: "?rsv 1200 (?m1', 2) = ((?m2, 3), Inr (?r ''2'', True))"
    by (subst kv_TryReserve) (simp_all add: eval)
  have t3: "?rsv 1300 (?m2, 3) = ((?m2, 4), Inr (?r ''3'', False))"
    by (subst kv_TryReserve) (simp_all add: eval)
  have run: "crash_run = ((?m2, 4), [Inr (?r ''0'', True), Inr (?r ''1'', True), Inr (?r ''2'', True), Inr (?r ''3'', False)])"
    unfolding crash_run_def Let_def t0 prod.case t1 sum.case rel fst_conv t2 t3 by (rule refl)
  show ?thesis
    unfolding run by (simp add: r_get_def kv_redis_def redis_key_def ids duration_defs)

qed

end
