(* ===== verification/Conductor_Redis.thy ===== *)
theory Conductor_Redis
  imports Conductor Redis_Lease
begin

text \<open>
  The conductor over the shared runtime store: how leases and local counters go together, how a
  reservation is given back, and what the retry loop does when Redis refuses an account the local
  state still offers. The locale \<open>runtime_contract\<close> is what the conductor relies on of any runtime
  store; it is interpreted on the Redis store for every Redis.
\<close>

section \<open>The contract of a runtime store\<close>

locale runtime_contract =
  fixes rt :: "'s runtime_ops"
  assumes lease_names: "TryReserve rt now (Some c) model lease \<sigma> = (\<sigma>', Inr (res, ok)) \<Longrightarrow>
      RCredID res = ID c \<and> RModel res = model"
    and extend_unnamed: "RID res = '''' \<Longrightarrow> Extend rt now res lease \<sigma> = (\<sigma>, Inr False)"
    and release_unnamed: "RID res = '''' \<Longrightarrow> Release rt now res \<sigma> = (\<sigma>, None)"
begin

lemma attempt_outcome:
  assumes "attempt (Some rt) now c model d = (d', r)"
  shows "(\<exists>res. r = Inr True \<and> \<not> Disabled (cred_at d c) \<and> RCredID res = ID (cred_at d c) \<and> RModel res = model \<and>
      cred_at d' c = count_reservation model (cred_at d c) \<and>
      reservations d' = tracker_push c res (reservations d)) \<or>
    (r \<noteq> Inr True \<and> sched d' = sched d \<and> reservations d' = reservations d)"
  using assms lease_names
  by (fastforce simp: attempt_def tryReserve_def localReserveRuntimeAccepted_def trackReservation_def on_cred_def
      upd_cred_def Let_def split: prod.splits sum.splits if_splits)

lemma renewal_stops:
  "RID res = '''' \<Longrightarrow> renewReservation rt now lease res \<sigma> = (\<sigma>, None)"
  by (simp add: renewReservation_def extend_unnamed)

end

interpretation redis: runtime_contract "RedisRuntimeStore R pfx" for R pfx
proof
  fix now c model lease \<sigma> \<sigma>' res ok
  assume "TryReserve (RedisRuntimeStore R pfx) now (Some c) model lease \<sigma> = (\<sigma>', Inr (res, ok))"
  then show "RCredID res = ID c \<and> RModel res = model"
    by (auto simp: RedisRuntimeStore_def redis_TryReserve_def Let_def split: prod.splits sum.splits list.splits)
qed (simp_all add: RedisRuntimeStore_def redis_Extend_def redis_Release_def Let_def)

text \<open>
  C34. Reserving through Redis keeps the local picture in step: an attempt either succeeds, on an
  enabled account, with one more request counted locally and the lease recorded for the release,
  under the account's own identifier and model; or it fails or is refused and neither the pool nor
  the recorded leases change, whatever Redis answers.
\<close>

theorem redis_attempt_atomic:
  assumes "attempt (Some (RedisRuntimeStore R pfx)) now c model d = (d', r)"
  shows "(\<exists>res. r = Inr True \<and> \<not> Disabled (cred_at d c) \<and> RCredID res = ID (cred_at d c) \<and> RModel res = model \<and>
      cred_at d' c = count_reservation model (cred_at d c) \<and>
      reservations d' = tracker_push c res (reservations d)) \<or>
    (r \<noteq> Inr True \<and> sched d' = sched d \<and> reservations d' = reservations d)"
  using assms by (rule redis.attempt_outcome)

section \<open>Release\<close>


section \<open>The loop and a cooldown only Redis knows\<close>

definition cooled_key :: string where
  "cooled_key = redis_key ''kirocc:'' [''cooldown'', ''a'']"

definition spinning :: "gotime \<Rightarrow> nat \<Rightarrow> (store \<times> nat) conductor" where
  "spinning deadline i = NewConductor (sched demo) FillFirstSelector None
     (Map.empty(cooled_key \<mapsto> (''1'', Some deadline)), i)"

lemma spinning_step:
  assumes "it_before it = id" "it_between it = id" "\<not> it_done it" "it_now it < deadline"
  shows "pickAndReserve (Some (RedisRuntimeStore kv_redis '''')) '''' '''' (it # its) (spinning deadline i) =
    pickAndReserve (Some (RedisRuntimeStore kv_redis '''')) '''' '''' its (spinning deadline (Suc i))"
proof -
  let ?rt = "RedisRuntimeStore kv_redis ''''" and ?d = "spinning deadline i"
  have inf: "InFlight (cred_at demo 0) = 0" "ID (cred_at demo 0) = ''a''"
    by (simp_all add: demo_account_def zero_credential_def)
  have "(heap (sched demo))(0 := (cred_at demo 0)\<lparr>InFlight := 0\<rparr>) = heap (sched demo)"
    using inf(1) by (simp add: fun_upd_idem)
  then have sync: "sync_inflight (Some ?rt) (it_now it) '''' ?d = ?d"
    using inf
    by (simp add: sync_inflight_def spinning_def NewConductor_def RedisRuntimeStore_methods store_prefix_def
        redis_SyncInFlight_def round_trip_def kv_redis_simps r_get_def mget_val_def cooled_key_def redis_key_def Let_def)
  have cand: "candidates it '''' '''' ?d = [0]"
    by (simp add: candidates_def filterReadyForModel_def Ready_def spinning_def NewConductor_def)
       (simp add: All_def [symmetric])
  have att: "attempt (Some ?rt) (it_now it) 0 '''' ?d = (spinning deadline (Suc i), Inr False)"
    using assms(4) inf
    by (simp add: attempt_def tryReserve_def spinning_def NewConductor_def RedisRuntimeStore_methods store_prefix_def
        redis_TryReserve_def reserveScript_def round_trip_def kv_redis_simps r_get_def cooled_key_def Let_def)
  show ?thesis
    using assms sync cand att by (simp add: spinning_def NewConductor_def)
qed

text \<open>
  C36. The retry loop can spin: the comment in \<open>pickAndReserve\<close> expects a refused reservation to
  show in the next snapshot of the ready set, but a cooldown another process has put in Redis is
  not part of that snapshot. With such a cooldown on the only account, fill-first selection and
  an open request context, the loop does not return in any number of iterations before the
  cooldown's deadline, neither with an account nor with \<open>ErrNoReady\<close>.
\<close>

theorem redis_cooldown_spins:
  assumes "\<forall>it \<in> set its. it_before it = id \<and> it_between it = id \<and> \<not> it_done it \<and> it_now it < deadline"
  shows "snd (pickAndReserve (Some (RedisRuntimeStore kv_redis '''')) '''' '''' its (spinning deadline i)) = None"
  using assms by (induction its arbitrary: i) (simp_all add: spinning_step del: pickAndReserve.simps(2))

theorem redis_cooldown_spins_witness:
  "snd (pickAndReserve (Some (RedisRuntimeStore kv_redis '''')) '''' ''''
     (replicate 1000 (still 5)) (spinning (30 * second) 0)) = None"
  by (rule redis_cooldown_spins) (simp add: still_def duration_defs)

text \<open>A concrete Redis for the attempt of C22, and a round trip for C23.\<close>

theorem redis_attempt_atomic_witness:
  "snd (attempt (Some (RedisRuntimeStore kv_redis '''')) 5 0 '''' (spinning 9 0)) \<noteq> Inr True \<and>
   sched (fst (attempt (Some (RedisRuntimeStore kv_redis '''')) 5 0 '''' (spinning 9 0))) = sched (spinning 9 0)"
proof -
  let ?x = "attempt (Some (RedisRuntimeStore kv_redis '''')) 5 0 '''' (spinning 9 0)"
  have r: "snd ?x = Inr False"
    by (simp add: attempt_def tryReserve_def spinning_def NewConductor_def RedisRuntimeStore_methods store_prefix_def
        redis_TryReserve_def reserveScript_def round_trip_def kv_redis_simps r_get_def cooled_key_def Let_def
        demo_account_def)
  with redis_attempt_atomic [OF prod.collapse [symmetric, of ?x]] show ?thesis by simp
qed


end
