(* ===== verification/Frame.thy ===== *)
theory Frame
  imports Prelude "HOL-Library.Word"
begin

unbundle bit_operations_syntax

text \<open>
  \<open>internal/kiroproto/frame.go\<close>: one frame of the AWS event stream. A frame is
  total length, headers length, CRC of these 8 bytes, headers, payload, CRC of all before, the
  numbers big-endian. The reader is the bytes still to come and the error that ends them
  (\<^const>\<open>None\<close> for a plain end of file); \<open>readFrame\<close> returns what it leaves unread. The CRC is the
  IEEE CRC-32 of \<open>hash/crc32\<close>, on 32-bit words.
\<close>

section \<open>CRC-32\<close>

definition crc_poly :: "32 word" where "crc_poly = 0xEDB88320"

definition crc_bit :: "32 word \<Rightarrow> 32 word" where
  "crc_bit c = (if c AND 1 = 1 then drop_bit 1 c XOR crc_poly else drop_bit 1 c)"

definition crc_byte :: "32 word \<Rightarrow> char \<Rightarrow> 32 word" where
  "crc_byte c b = (crc_bit ^^ 8) (c XOR of_nat (of_char b))"

definition crc32 :: "bytes \<Rightarrow> 32 word" where
  "crc32 bs = foldl crc_byte 0xFFFFFFFF bs XOR 0xFFFFFFFF"

section \<open>Big-endian numbers\<close>

definition byte_val :: "char \<Rightarrow> nat" where "byte_val c = of_char c"

fun be_nat :: "bytes \<Rightarrow> nat" where
  "be_nat [] = 0"
| "be_nat (b # bs) = byte_val b * 256 ^ length bs + be_nat bs"

fun be_enc :: "nat \<Rightarrow> nat \<Rightarrow> bytes" where
  "be_enc 0 n = []"
| "be_enc (Suc k) n = char_of (n div 256 ^ k) # be_enc k n"

lemma byte_val_lt [simp]: "byte_val c < 256"
  by (simp add: byte_val_def)

lemma byte_val_char_of [simp]: "byte_val (char_of n) = n mod 256"
  by (simp add: byte_val_def)

lemma char_of_byte_val [simp]: "char_of (byte_val c) = c"
  by (simp add: byte_val_def)

lemma length_be_enc [simp]: "length (be_enc k n) = k"
  by (induction k) simp_all

lemma be_nat_lt: "be_nat bs < 256 ^ length bs"
proof (induction bs)
  case (Cons b bs)
  have "byte_val b * 256 ^ length bs + be_nat bs < byte_val b * 256 ^ length bs + 256 ^ length bs"
    using Cons by simp
  also have "\<dots> = (byte_val b + 1) * 256 ^ length bs" by (simp add: algebra_simps)
  also have "\<dots> \<le> 256 * 256 ^ length bs"
    using byte_val_lt [of b] by (intro mult_right_mono) (simp_all only: less_eq_Suc_le Suc_eq_plus1 [symmetric] zero_le)
  finally show ?case by simp
qed simp

lemma be_nat_enc: "be_nat (be_enc k n) = n mod 256 ^ k"
proof (induction k)
  case (Suc k)
  have "n mod (256 ^ k * 256) = 256 ^ k * (n div 256 ^ k mod 256) + n mod 256 ^ k" by (rule mod_mult2_eq)
  with Suc show ?case by (simp add: mult.commute)
qed simp

lemma be_nat_inj: "length bs = length cs \<Longrightarrow> be_nat bs = be_nat cs \<Longrightarrow> bs = cs"
proof (induction bs cs rule: list_induct2)
  case (Cons b bs c cs)
  let ?k = "256 ^ length cs :: nat"
  have lt: "be_nat bs < ?k" "be_nat cs < ?k" using be_nat_lt [of bs] be_nat_lt [of cs] Cons.hyps by simp_all
  have eq: "byte_val b * ?k + be_nat bs = byte_val c * ?k + be_nat cs" using Cons.prems Cons.hyps by simp
  then have "(byte_val b * ?k + be_nat bs) div ?k = (byte_val c * ?k + be_nat cs) div ?k" by simp
  with lt have "byte_val b = byte_val c" by simp
  then have "b = c" by (metis char_of_byte_val)
  with eq Cons.IH show ?case by simp
qed simp

lemma be_enc_nat: "length bs = k \<Longrightarrow> be_enc k (be_nat bs) = bs"
  using be_nat_inj [of "be_enc k (be_nat bs)" bs] be_nat_lt [of bs] by (simp add: be_nat_enc)

section \<open>Reading a frame\<close>

record reader =
  pending_bytes :: bytes
  read_error :: "string option"

datatype frame_error =
    TruncatedPrelude nat
  | ReadingPrelude string
  | PreludeCRC
  | TotalTooSmall nat
  | TotalTooLarge nat
  | HeadersExceedBody nat
  | ReadingBody string
  | MessageCRC

datatype frame_result = FrameEOF | FrameErr frame_error | Frame bytes bytes reader

definition maxFrameSize :: nat where "maxFrameSize = 4 * 1024 * 1024"

text \<open>\<open>binary.BigEndian.Uint32\<close> of a slice, and a CRC as a number to compare it with.\<close>

definition crc_nat :: "bytes \<Rightarrow> nat" where "crc_nat bs = unat (crc32 bs)"

definition read_err :: "reader \<Rightarrow> string" where
  "read_err br = (case read_error br of None \<Rightarrow> ''unexpected EOF'' | Some e \<Rightarrow> e)"

definition readFrame :: "reader \<Rightarrow> frame_result" where
  "readFrame br =
     (let buf = pending_bytes br; n = min 12 (length buf) in
      if n < 12
      then (if n = 0 \<and> read_error br = None then FrameEOF
            else if read_error br = None then FrameErr (TruncatedPrelude n)
            else FrameErr (ReadingPrelude (read_err br)))
      else
        (let prelude = take 12 buf; buf = drop 12 buf;
             preludeCRC = be_nat (drop 8 prelude)
         in if crc_nat (take 8 prelude) \<noteq> preludeCRC then FrameErr PreludeCRC
            else
              (let totalLen = be_nat (take 4 prelude);
                   headersLen = be_nat (take 4 (drop 4 prelude))
               in if totalLen < 16 then FrameErr (TotalTooSmall totalLen)
                  else if totalLen > maxFrameSize then FrameErr (TotalTooLarge totalLen)
                  else
                    (let bodyLen = totalLen - 12 in
                     if headersLen > bodyLen - 4 then FrameErr (HeadersExceedBody headersLen)
                     else if length buf < bodyLen then FrameErr (ReadingBody (read_err br))
                     else
                       (let remaining = take bodyLen buf;
                            msgCRC = be_nat (drop (length remaining - 4) remaining)
                        in if crc_nat (prelude @ take (length remaining - 4) remaining) \<noteq> msgCRC
                           then FrameErr MessageCRC
                           else Frame (take headersLen remaining)
                                  (drop headersLen (take (length remaining - 4) remaining))
                                  (br\<lparr>pending_bytes := drop bodyLen buf\<rparr>))))))"

text \<open>The frame format, as its specification: what an encoder writes.\<close>

definition frame_prelude :: "bytes \<Rightarrow> bytes \<Rightarrow> bytes" where
  "frame_prelude h p =
     (let lens = be_enc 4 (16 + length h + length p) @ be_enc 4 (length h)
      in lens @ be_enc 4 (crc_nat lens))"

definition encode_frame :: "bytes \<Rightarrow> bytes \<Rightarrow> bytes" where
  "encode_frame h p = (let m = frame_prelude h p @ h @ p in m @ be_enc 4 (crc_nat m))"

definition frame_fits :: "bytes \<Rightarrow> bytes \<Rightarrow> bool" where
  "frame_fits h p \<longleftrightarrow> 16 + length h + length p \<le> maxFrameSize"

lemma crc_nat_lt: "crc_nat bs < 256 ^ 4"
  using unsigned_less [of "crc32 bs"] by (simp add: crc_nat_def)

lemma length_frame_prelude [simp]: "length (frame_prelude h p) = 12"
  by (simp add: frame_prelude_def Let_def)

lemma be_nat_crc [simp]: "be_nat (be_enc 4 (crc_nat bs)) = crc_nat bs"
  using crc_nat_lt by (simp add: be_nat_enc del: power_numeral)

lemma readFrame_encode:
  assumes "frame_fits h p" "pending_bytes br = encode_frame h p @ rest"
  shows "readFrame br = Frame h p (br\<lparr>pending_bytes := rest\<rparr>)"
proof -
  let ?P = "frame_prelude h p" and ?m = "frame_prelude h p @ h @ p"
  have small: "16 + length h + length p < 256 ^ 4" "length h < 256 ^ 4"
    using assms(1) by (auto simp: frame_fits_def maxFrameSize_def)
  have pre: "take 4 ?P = be_enc 4 (16 + length h + length p)" "take 4 (drop 4 ?P) = be_enc 4 (length h)"
    "take 8 ?P = be_enc 4 (16 + length h + length p) @ be_enc 4 (length h)" "drop 8 ?P = be_enc 4 (crc_nat (take 8 ?P))"
    by (simp_all add: frame_prelude_def Let_def)
  have len: "be_nat (take 4 ?P) = 16 + length h + length p" "be_nat (take 4 (drop 4 ?P)) = length h"
    using small by (simp_all add: pre be_nat_enc del: power_numeral)
  have body: "pending_bytes br = ?P @ (h @ p @ be_enc 4 (crc_nat ?m)) @ rest"
    by (simp add: assms(2) encode_frame_def Let_def)
  show ?thesis
    using assms(1) unfolding readFrame_def body
    by (simp add: Let_def len pre(4) frame_fits_def)
qed

lemma readFrame_only_encodings:
  assumes "readFrame br = Frame h p br'"
  shows "frame_fits h p \<and> (\<exists>rest. pending_bytes br = encode_frame h p @ rest \<and> br' = br\<lparr>pending_bytes := rest\<rparr>)"
proof -
  define buf tl hl body where "buf = pending_bytes br" and "tl = be_nat (take 4 buf)"
    and "hl = be_nat (take 4 (drop 4 buf))" and "body = take (tl - 12) (drop 12 buf)"
  have n12: "12 \<le> length buf"
    using assms by (auto simp: readFrame_def Let_def buf_def not_le split: if_splits)
  have pre: "take 4 (take 12 buf) = take 4 buf" "take 4 (drop 4 (take 12 buf)) = take 4 (drop 4 buf)"
    "take 8 (take 12 buf) = take 8 buf" "drop 8 (take 12 buf) = take 4 (drop 8 buf)"
    by (simp_all add: drop_take)
  have eq: "readFrame br =
    (if crc_nat (take 8 buf) \<noteq> be_nat (take 4 (drop 8 buf)) then FrameErr PreludeCRC
     else if tl < 16 then FrameErr (TotalTooSmall tl)
     else if tl > maxFrameSize then FrameErr (TotalTooLarge tl)
     else if hl > tl - 12 - 4 then FrameErr (HeadersExceedBody hl)
     else if length (drop 12 buf) < tl - 12 then FrameErr (ReadingBody (read_err br))
     else if crc_nat (take 12 buf @ take (length body - 4) body) \<noteq> be_nat (drop (length body - 4) body)
     then FrameErr MessageCRC
     else Frame (take hl body) (drop hl (take (length body - 4) body))
            (br\<lparr>pending_bytes := drop (tl - 12) (drop 12 buf)\<rparr>))"
    unfolding readFrame_def Let_def buf_def [symmetric] pre tl_def [symmetric] hl_def [symmetric] body_def [symmetric]
    using n12 by (simp only: min.absorb1) simp
  have bl: "length body = min (tl - 12) (length buf - 12)" by (simp add: body_def min.commute)
  have R: "crc_nat (take 8 buf) = be_nat (take 4 (drop 8 buf))" "16 \<le> tl" "tl \<le> maxFrameSize" "hl \<le> tl - 16"
    "length body = tl - 12"
    "crc_nat (take 12 buf @ take (length body - 4) body) = be_nat (drop (length body - 4) body)"
    "h = take hl body" "p = drop hl (take (length body - 4) body)"
    "br' = br\<lparr>pending_bytes := drop (tl - 12) (drop 12 buf)\<rparr>"
    using assms bl unfolding eq by (simp_all split: if_splits)
  have b4: "length body - 4 = tl - 16" using R(5) by simp
  note R = R(1-4) R(5) R(5) R(6-9) [unfolded b4]
  have lens: "length h = hl" "length p = tl - 16 - hl" using R by auto
  have tot: "16 + length h + length p = tl" using lens R by simp
  have "take 8 buf = take 4 buf @ take 4 (drop 4 buf)" using take_add [of 4 4 buf] by simp
  then have t8: "take 8 buf = be_enc 4 tl @ be_enc 4 hl"
    using n12 be_enc_nat [of "take 4 buf" 4] be_enc_nat [of "take 4 (drop 4 buf)" 4] by (simp add: tl_def hl_def)
  have "take 12 buf = take 8 buf @ take 4 (drop 8 buf)" using take_add [of 8 4 buf] by simp
  then have P: "take 12 buf = frame_prelude h p"
    using n12 be_enc_nat [of "take 4 (drop 8 buf)" 4] R(1) lens(1) tot t8 by (simp add: frame_prelude_def Let_def)
  have hp: "take (tl - 16) body = h @ p"
    using R(4,8,9) by (metis append_take_drop_id min.absorb1 take_take)
  have "drop (tl - 16) body = be_enc 4 (crc_nat (frame_prelude h p @ h @ p))"
    using be_enc_nat [of "drop (tl - 16) body" 4] R(2,6,7) P hp by simp
  then have "body = h @ p @ be_enc 4 (crc_nat (frame_prelude h p @ h @ p))"
    using hp by (metis append.assoc append_take_drop_id)
  moreover have "buf = take 12 buf @ body @ drop (tl - 12) (drop 12 buf)"
    unfolding body_def append_take_drop_id ..
  ultimately have "buf = encode_frame h p @ drop (tl - 12) (drop 12 buf)"
    using P by (simp add: encode_frame_def Let_def)
  with R(10) tot R(3) show ?thesis by (auto simp: frame_fits_def buf_def)
qed


text \<open>The check value of the CRC-32 (IEEE) catalogue entry.\<close>

lemma crc32_check: "crc32 ''123456789'' = 0xCBF43926"
proof -
  have "(f ^^ 8) x = f (f (f (f (f (f (f (f x)))))))" for f :: "32 word \<Rightarrow> 32 word" and x
    by (simp add: eval_nat_numeral)
  then show ?thesis
    by (simp add: crc32_def crc_byte_def crc_bit_def crc_poly_def)
qed

text \<open>
  C8. The frame reader accepts exactly the frames: it returns headers and payload, and leaves the
  rest unread, precisely when the input starts with the encoding of these headers and this
  payload, both checksums included, within the size limit. So what an encoder writes is read back,
  and nothing else (a wrong length, checksum or truncation) is ever taken for a frame.
\<close>

theorem readFrame_accepts_exactly_frames:
  "readFrame br = Frame h p br' \<longleftrightarrow>
   frame_fits h p \<and> (\<exists>rest. pending_bytes br = encode_frame h p @ rest \<and> br' = br\<lparr>pending_bytes := rest\<rparr>)"
  using readFrame_encode readFrame_only_encodings by metis

section \<open>Headers\<close>

text \<open>\<open>headerValueSizes\<close>; \<open>-1\<close> is a variable length.\<close>

definition headerValueSizes :: "nat \<Rightarrow> int option" where
  "headerValueSizes t =
     (if t = 0 \<or> t = 1 then Some 0 else if t = 2 then Some 1 else if t = 3 then Some 2
      else if t = 4 then Some 4 else if t = 5 then Some 8 else if t = 6 \<or> t = 7 then Some (-1)
      else if t = 8 then Some 8 else if t = 9 then Some 16 else None)"

text \<open>
  One header at the head of the slice: its name, type and value, and the bytes after it;
  \<^const>\<open>None\<close> where the loop breaks.
\<close>

definition next_header :: "bytes \<Rightarrow> (bytes \<times> nat \<times> bytes \<times> bytes) option" where
  "next_header hs =
     (case hs of
        [] \<Rightarrow> None
      | b # hs \<Rightarrow>
          (let nameLen = byte_val b in
           if nameLen > length hs then None
           else
             (let name = take nameLen hs; hs = drop nameLen hs in
              case hs of
                [] \<Rightarrow> None
              | b # hs \<Rightarrow>
                  (let valueType = byte_val b in
                   case headerValueSizes valueType of
                     None \<Rightarrow> None
                   | Some sz \<Rightarrow>
                       if sz < 0 \<and> length hs < 2 then None
                       else
                         (let valueLen = (if sz \<ge> 0 then nat sz else be_nat (take 2 hs));
                              hs = (if sz \<ge> 0 then hs else drop 2 hs)
                          in if valueLen > length hs then None
                             else Some (name, valueType, take valueLen hs, drop valueLen hs))))))"

lemma next_header_shorter: "next_header hs = Some (n, t, v, rest) \<Longrightarrow> length rest < length hs"
  by (auto simp: next_header_def Let_def split: list.splits option.splits if_splits)
     (metis diff_le_self length_Cons length_drop le_imp_less_Suc less_SucI order_less_le_trans)+

definition note_header :: "bytes \<times> nat \<times> bytes \<Rightarrow> string \<times> string \<Rightarrow> string \<times> string" where
  "note_header h acc =
     (let (name, ty, v) = h; (msgType, eventType) = acc in
      if ty = 7
      then (if name = '':message-type'' then (v, eventType)
            else if name = '':event-type'' \<or> name = '':exception-type'' then (msgType, v)
            else (msgType, eventType))
      else (msgType, eventType))"

function scan_headers :: "bytes \<Rightarrow> string \<times> string \<Rightarrow> string \<times> string" where
  "scan_headers hs acc =
     (case next_header hs of
        None \<Rightarrow> acc
      | Some (n, t, v, rest) \<Rightarrow> scan_headers rest (note_header (n, t, v) acc))"
  by auto
termination by (relation "measure (\<lambda>(hs, _). length hs)") (auto dest: next_header_shorter)

declare scan_headers.simps [simp del]

definition extractFrameHeaders :: "bytes \<Rightarrow> string \<times> string" where
  "extractFrameHeaders headers = scan_headers headers ('''', '''')"

text \<open>A header as an encoder writes it.\<close>

definition header_ok :: "bytes \<times> nat \<times> bytes \<Rightarrow> bool" where
  "header_ok h \<longleftrightarrow>
     (let (name, ty, v) = h in
      length name < 256 \<and>
      (case headerValueSizes ty of
         None \<Rightarrow> False
       | Some sz \<Rightarrow> if sz < 0 then length v < 65536 else length v = nat sz))"

definition encode_header :: "bytes \<times> nat \<times> bytes \<Rightarrow> bytes" where
  "encode_header h =
     (let (name, ty, v) = h in
      char_of (length name) # name @ char_of ty #
      (if headerValueSizes ty = Some (-1) then be_enc 2 (length v) else []) @ v)"

lemma headerValueSizes_lt: "headerValueSizes t = Some s \<Longrightarrow> t < 10 \<and> (s < 0 \<longrightarrow> s = -1)"
  by (auto simp: headerValueSizes_def split: if_splits)

lemma next_header_encode:
  assumes "header_ok (n, t, v)"
  shows "next_header (encode_header (n, t, v) @ rest) = Some (n, t, v, rest)"
proof -
  obtain s where s: "headerValueSizes t = Some s" "length n < 256"
    "if s < 0 then length v < 65536 else length v = nat s"
    using assms by (auto simp: header_ok_def split: option.splits)
  have t: "t mod 256 = t" "s < 0 \<Longrightarrow> s = -1" using headerValueSizes_lt [OF s(1)] by auto
  show ?thesis
  proof (cases "s < 0")
    case True
    then have "s = -1" using t by simp
    then have "headerValueSizes t = Some (-1)" "length v < 65536" using s by simp_all
    with s(2) t(1) show ?thesis by (simp add: next_header_def encode_header_def be_nat_enc)
  next
    case False
    with s(2) t(1) s(1,3) show ?thesis by (simp add: next_header_def encode_header_def Let_def)
  qed
qed

lemma scan_headers_encoded:
  "\<forall>h \<in> set hs. header_ok h \<Longrightarrow> scan_headers (concat (map encode_header hs)) acc = fold note_header hs acc"
proof (induction hs arbitrary: acc)
  case Nil
  then show ?case by (subst scan_headers.simps) (simp add: next_header_def)
next
  case (Cons h hs)
  obtain n t v where h: "h = (n, t, v)" by (metis prod.exhaust)
  with Cons next_header_encode [of n t v "concat (map encode_header hs)"] show ?case
    by (subst scan_headers.simps) simp
qed

text \<open>
  The header walk finds every header: for any sequence of well-formed headers of any types,
  the message type and event type it returns are those of the last string headers
  \<open>:message-type\<close> and \<open>:event-type\<close> or \<open>:exception-type\<close>, in one pass over all of them, however
  many other headers surround them.
\<close>

theorem extractFrameHeaders_encoded:
  assumes "\<forall>h \<in> set hs. header_ok h"
  shows "extractFrameHeaders (concat (map encode_header hs)) = fold note_header hs ('''', '''')"
  using assms by (simp add: extractFrameHeaders_def scan_headers_encoded)

theorem extractFrameHeaders_encoded_witness:
  "extractFrameHeaders (concat (map encode_header
     [('':content-type'', 7, ''x''), ('':event-type'', 7, ''toolUseEvent''), (''n'', 3, ''ab''),
      ('':message-type'', 7, ''event'')])) = (''event'', ''toolUseEvent'')"
proof -
  let ?hs = "[('':content-type'', 7, ''x''), ('':event-type'', 7, ''toolUseEvent''), (''n'', 3, ''ab''),
      ('':message-type'', 7, ''event'')]"
  have "\<forall>h \<in> set ?hs. header_ok h" by (simp add: header_ok_def headerValueSizes_def)
  from extractFrameHeaders_encoded [OF this]
  have "extractFrameHeaders (concat (map encode_header ?hs)) = fold note_header ?hs ('''', '''')" .
  also have "\<dots> = (''event'', ''toolUseEvent'')" by (simp add: note_header_def)
  finally show ?thesis .
qed

end
