(* ===== verification/Tool_Use.thy ===== *)
theory Tool_Use
  imports Frame
begin

text \<open>
  The events of \<open>internal/kiroproto/eventstream.go\<close> and the accumulator of
  \<open>internal/kiroproto/tooluse.go\<close>, which joins the frames of a tool call. JSON decoding
  (\<open>encoding/json/v2\<close>) is an argument: a record of the decoders the code calls, each the result of
  \<open>json.Unmarshal\<close> into one Go type, \<^const>\<open>None\<close> when it returns an error. The theorems hold for every
  such record.
\<close>

section \<open>Events\<close>

record event =
  Type :: string
  Content :: string
  ModelID :: string
  ThinkingText :: string
  ToolName :: string
  ToolUseID :: string
  ToolInput :: string
  ToolStop :: bool
  Credits :: float64
  InputTokens :: int
  OutputTokens :: int
  UncachedInputTokens :: int
  CacheReadInputTokens :: int
  CacheWriteInputTokens :: int
  TotalTokens :: int
  Signature :: string
  RedactedContent :: string
  ContextUsagePercentage :: float64
  ConversationID :: string
  UtteranceID :: string
  InvalidStateReason :: string
  ErrorMessage :: string

definition zero_event :: event where
  "zero_event = \<lparr>Type = '''', Content = '''', ModelID = '''', ThinkingText = '''', ToolName = '''',
     ToolUseID = '''', ToolInput = '''', ToolStop = False, Credits = 0, InputTokens = 0,
     OutputTokens = 0, UncachedInputTokens = 0, CacheReadInputTokens = 0,
     CacheWriteInputTokens = 0, TotalTokens = 0, Signature = '''', RedactedContent = '''',
     ContextUsagePercentage = 0, ConversationID = '''', UtteranceID = '''',
     InvalidStateReason = '''', ErrorMessage = ''''\<rparr>"

definition ErrorText :: "event \<Rightarrow> string" where
  "ErrorText e = (if ErrorMessage e \<noteq> '''' then ErrorMessage e else InvalidStateReason e)"

section \<open>Decoding\<close>

record token_usage =
  tu_uncached :: int
  tu_output :: int
  tu_total :: int
  tu_cache_read :: int
  tu_cache_write :: int

text \<open>
  \<open>j_strings ns\<close> decodes into a struct of string members with the JSON names \<open>ns\<close>: their values
  (the zero values where decoding stopped) and whether it succeeded.
\<close>

record json_lib =
  j_object :: "bytes \<Rightarrow> (string \<rightharpoonup> bytes) option"
  j_string :: "bytes \<Rightarrow> string option"
  j_bool :: "bytes \<Rightarrow> bool option"
  j_strings :: "string list \<Rightarrow> bytes \<Rightarrow> (string \<Rightarrow> string) \<times> bool"
  j_token_usage :: "bytes \<Rightarrow> token_usage option"
  j_metering :: "bytes \<Rightarrow> (float64 \<times> int \<times> int) option"
  j_percentage :: "bytes \<Rightarrow> float64 option"

section \<open>The accumulator\<close>

record toolUseAccumulator =
  toolName :: string
  toolUseID :: string
  toolInput :: string

definition zero_acc :: toolUseAccumulator where
  "zero_acc = \<lparr>toolName = '''', toolUseID = '''', toolInput = ''''\<rparr>"

definition EventToolUse :: string where "EventToolUse = ''toolUseEvent''"

definition tool_event :: "string \<Rightarrow> string \<Rightarrow> string \<Rightarrow> event" where
  "tool_event name i inp = zero_event\<lparr>Type := EventToolUse, ToolName := name, ToolUseID := i,
     ToolInput := inp, ToolStop := True\<rparr>"

definition buildAndReset :: "toolUseAccumulator \<Rightarrow> toolUseAccumulator \<times> event" where
  "buildAndReset a =
     (a\<lparr>toolName := '''', toolUseID := '''', toolInput := ''''\<rparr>,
      tool_event (toolName a) (toolUseID a) (toolInput a))"

definition acc_flush :: "toolUseAccumulator \<Rightarrow> toolUseAccumulator \<times> event option" where
  "acc_flush a =
     (if toolUseID a = '''' then (a, None)
      else (let (a, e) = buildAndReset a in (a, Some e)))"

text \<open>The identifier in a frame, the empty string when absent or undecodable.\<close>

definition frame_id :: "json_lib \<Rightarrow> (string \<rightharpoonup> bytes) \<Rightarrow> string" where
  "frame_id J raw =
     (case raw ''toolUseId'' of None \<Rightarrow> '''' | Some r \<Rightarrow> (case j_string J r of None \<Rightarrow> '''' | Some s \<Rightarrow> s))"

text \<open>The updates for \<open>name\<close> and \<open>input\<close>: a string fragment is appended, any other value replaces.\<close>

definition take_name :: "json_lib \<Rightarrow> (string \<rightharpoonup> bytes) \<Rightarrow> toolUseAccumulator \<Rightarrow> toolUseAccumulator" where
  "take_name J raw a =
     (case raw ''name'' of
        None \<Rightarrow> a
      | Some r \<Rightarrow> (case j_string J r of None \<Rightarrow> a | Some s \<Rightarrow> a\<lparr>toolName := s\<rparr>))"

definition take_input :: "json_lib \<Rightarrow> (string \<rightharpoonup> bytes) \<Rightarrow> toolUseAccumulator \<Rightarrow> toolUseAccumulator" where
  "take_input J raw a =
     (case raw ''input'' of
        None \<Rightarrow> a
      | Some r \<Rightarrow>
          if r \<noteq> [] \<and> hd r = CHR 0x22
          then (case j_string J r of None \<Rightarrow> a | Some s \<Rightarrow> a\<lparr>toolInput := toolInput a @ s\<rparr>)
          else a\<lparr>toolInput := r\<rparr>)"

definition frame_stops :: "json_lib \<Rightarrow> (string \<rightharpoonup> bytes) \<Rightarrow> bool" where
  "frame_stops J raw = (case raw ''stop'' of None \<Rightarrow> False | Some r \<Rightarrow> j_bool J r = Some True)"

text \<open>\<open>uuid\<close> is the identifier a fresh \<open>uuid.New()\<close> would give.\<close>

definition acc_update :: "json_lib \<Rightarrow> string \<Rightarrow> (string \<rightharpoonup> bytes) \<Rightarrow> toolUseAccumulator
    \<Rightarrow> toolUseAccumulator \<times> event list" where
  "acc_update J uuid raw a =
     (let currentID = frame_id J raw;
          (isNewTool, currentID) =
            (if currentID \<noteq> '''' \<and> currentID \<noteq> toolUseID a then (True, currentID)
             else if currentID = '''' \<and> toolUseID a = '''' \<and> raw ''name'' \<noteq> None then (True, uuid)
             else (False, currentID));
          (a, events) =
            (if isNewTool
             then
               (let (a, events) = (if toolUseID a \<noteq> ''''
                                   then (let (a, e) = buildAndReset a in (a, [e])) else (a, []))
                in (a\<lparr>toolUseID := currentID, toolInput := '''', toolName := ''''\<rparr>, events))
             else (a, []));
          a = take_input J raw (take_name J raw a)
      in if frame_stops J raw
         then (let (a, e) = buildAndReset a in (a, events @ [e]))
         else (a, events))"

text \<open>A run over the payloads of successive tool frames, with the flush at the end of the stream.\<close>

fun acc_run :: "json_lib \<Rightarrow> string \<Rightarrow> (string \<rightharpoonup> bytes) list \<Rightarrow> toolUseAccumulator \<Rightarrow> toolUseAccumulator \<times> event list" where
  "acc_run J uuid [] a = (a, [])"
| "acc_run J uuid (raw # raws) a =
     (let (a, es) = acc_update J uuid raw a; (a, es') = acc_run J uuid raws a in (a, es @ es'))"

definition acc_events :: "json_lib \<Rightarrow> string \<Rightarrow> (string \<rightharpoonup> bytes) list \<Rightarrow> event list" where
  "acc_events J uuid raws =
     (let (a, es) = acc_run J uuid raws zero_acc in es @ (case acc_flush a of (_, None) \<Rightarrow> [] | (_, Some e) \<Rightarrow> [e]))"

section \<open>Every tool call is delivered once, complete and in order\<close>

text \<open>
  A tool call as upstream sends it: its identifier, its name, the fragments of its input, and
  whether a stop frame ends it. \<open>call_frames\<close> relates it to the payloads that carry it: the first
  has the name, each may have a fragment, and the last alone may stop.
\<close>

record tool_call =
  tc_id :: string
  tc_name :: string
  tc_fragments :: "string list"
  tc_stopped :: bool

definition fragment_frame :: "json_lib \<Rightarrow> string \<Rightarrow> string \<Rightarrow> (string \<rightharpoonup> bytes) \<Rightarrow> bool" where
  "fragment_frame J i frag raw \<longleftrightarrow> frame_id J raw = i \<and>
     (raw ''input'' = None \<and> frag = '''' \<or>
      (\<exists>r. raw ''input'' = Some (CHR 0x22 # r) \<and> j_string J (CHR 0x22 # r) = Some frag))"

definition call_frames :: "json_lib \<Rightarrow> tool_call \<Rightarrow> (string \<rightharpoonup> bytes) list \<Rightarrow> bool" where
  "call_frames J c raws \<longleftrightarrow>
     tc_id c \<noteq> '''' \<and> raws \<noteq> [] \<and> list_all2 (fragment_frame J (tc_id c)) (tc_fragments c) raws \<and>
     (\<exists>r. hd raws ''name'' = Some r \<and> j_string J r = Some (tc_name c)) \<and>
     (\<forall>raw \<in> set (tl raws). raw ''name'' = None) \<and>
     (\<forall>raw \<in> set (butlast raws). \<not> frame_stops J raw) \<and> frame_stops J (last raws) = tc_stopped c"

definition call_event :: "tool_call \<Rightarrow> event" where
  "call_event c = tool_event (tc_name c) (tc_id c) (concat (tc_fragments c))"

text \<open>An unstopped call must be followed by one with another identifier.\<close>

fun calls_distinct :: "tool_call list \<Rightarrow> bool" where
  "calls_distinct (c # d # cs) = ((\<not> tc_stopped c \<longrightarrow> tc_id c \<noteq> tc_id d) \<and> calls_distinct (d # cs))"
| "calls_distinct _ = True"

definition pending_event :: "toolUseAccumulator \<Rightarrow> event list" where
  "pending_event a = (if toolUseID a = '''' then [] else [tool_event (toolName a) (toolUseID a) (toolInput a)])"

lemma acc_reset [simp]: "a\<lparr>toolName := '''', toolUseID := '''', toolInput := ''''\<rparr> = zero_acc"
  by (cases a) (simp add: zero_acc_def)

lemma take_input_fragment:
  "fragment_frame J i frag raw \<Longrightarrow> take_input J raw a = a\<lparr>toolInput := toolInput a @ frag\<rparr>"
  by (auto simp: fragment_frame_def take_input_def)

lemma update_same:
  assumes "fragment_frame J i frag raw" "i \<noteq> ''''" "raw ''name'' = None" "toolUseID a = i"
  shows "acc_update J uuid raw a =
    (if frame_stops J raw then (zero_acc, [tool_event (toolName a) i (toolInput a @ frag)])
     else (a\<lparr>toolInput := toolInput a @ frag\<rparr>, []))"
proof -
  have "frame_id J raw = i" using assms(1) by (simp add: fragment_frame_def)
  with assms take_input_fragment [OF assms(1)] show ?thesis
    by (simp add: acc_update_def take_name_def buildAndReset_def)
qed

lemma update_new:
  assumes "fragment_frame J i frag raw" "i \<noteq> ''''" "raw ''name'' = Some r" "j_string J r = Some n" "toolUseID a \<noteq> i"
  shows "acc_update J uuid raw a =
    (if frame_stops J raw then (zero_acc, pending_event a @ [tool_event n i frag])
     else (\<lparr>toolName = n, toolUseID = i, toolInput = frag\<rparr>, pending_event a))"
proof -
  have "frame_id J raw = i" using assms(1) by (simp add: fragment_frame_def)
  with assms take_input_fragment [OF assms(1)] show ?thesis
    by (auto simp: acc_update_def take_name_def buildAndReset_def pending_event_def zero_acc_def)
qed

lemma acc_continue:
  assumes "list_all2 (fragment_frame J i) frags raws" "i \<noteq> ''''" "raws \<noteq> []"
    and "\<forall>raw \<in> set raws. raw ''name'' = None" "\<forall>raw \<in> set (butlast raws). \<not> frame_stops J raw"
    and "toolUseID a = i"
  shows "acc_run J uuid raws a =
    (if frame_stops J (last raws) then (zero_acc, [tool_event (toolName a) i (toolInput a @ concat frags)])
     else (a\<lparr>toolInput := toolInput a @ concat frags\<rparr>, []))"
  using assms
proof (induction frags raws arbitrary: a rule: list_all2_induct)
  case (Cons frag frags raw raws)
  note up = update_same [OF Cons.hyps(1) Cons.prems(1) _ Cons.prems(5)]
  show ?case
  proof (cases "raws = []")
    case True
    then have "frags = []" using Cons.hyps(2) by simp
    with True up Cons.prems show ?thesis by simp
  next
    case False
    then have "\<not> frame_stops J raw" using Cons.prems by simp
    with False up Cons.prems Cons.IH [of "a\<lparr>toolInput := toolInput a @ frag\<rparr>"] show ?thesis by simp
  qed
qed simp

lemma acc_call:
  assumes "call_frames J c raws" "toolUseID a \<noteq> tc_id c"
  shows "acc_run J uuid raws a =
    (if tc_stopped c then (zero_acc, pending_event a @ [call_event c])
     else (\<lparr>toolName = tc_name c, toolUseID = tc_id c, toolInput = concat (tc_fragments c)\<rparr>, pending_event a))"
proof -
  obtain raw raws' where raws: "raws = raw # raws'" using assms(1) by (cases raws) (auto simp: call_frames_def)
  then obtain frag frags' where frags: "tc_fragments c = frag # frags'"
    and F: "fragment_frame J (tc_id c) frag raw" "list_all2 (fragment_frame J (tc_id c)) frags' raws'"
    using assms(1) by (auto simp: call_frames_def list_all2_Cons2)
  obtain r where r: "raw ''name'' = Some r" "j_string J r = Some (tc_name c)" and i: "tc_id c \<noteq> ''''"
    using assms(1) raws by (auto simp: call_frames_def)
  have st: "frame_stops J (last raws) = tc_stopped c" "\<forall>raw \<in> set raws'. raw ''name'' = None"
    "\<forall>x \<in> set (butlast raws). \<not> frame_stops J x" using assms(1) raws by (auto simp: call_frames_def)
  note up = update_new [OF F(1) i r assms(2)]
  show ?thesis
  proof (cases "raws' = []")
    case True
    then have "frags' = []" using F(2) by simp
    with True up st raws frags show ?thesis by (simp add: call_event_def)
  next
    case False
    then have "\<not> frame_stops J raw" using st(3) raws by simp
    with False up st raws frags
      acc_continue [OF F(2) i False st(2), of "\<lparr>toolName = tc_name c, toolUseID = tc_id c, toolInput = frag\<rparr>" uuid]
    show ?thesis by (simp add: call_event_def)
  qed
qed

lemma acc_run_append:
  "acc_run J uuid (xs @ ys) a =
     (let (a1, es1) = acc_run J uuid xs a; (a2, es2) = acc_run J uuid ys a1 in (a2, es1 @ es2))"
  by (induction xs arbitrary: a) (simp_all add: Let_def case_prod_unfold)

lemma tool_calls_complete:
  assumes "list_all2 (call_frames J) calls rawss" "calls_distinct calls"
  shows "acc_events J uuid (concat rawss) = map call_event calls"
proof -
  let ?out = "\<lambda>raws a. (let (a', es) = acc_run J uuid raws a in es @ pending_event a')"
  have "?out (concat rawss) a = pending_event a @ map call_event calls"
    if "list_all2 (call_frames J) calls rawss" "calls_distinct calls"
      "calls \<noteq> [] \<Longrightarrow> toolUseID a \<noteq> tc_id (hd calls)" for a
    using that
  proof (induction calls rawss arbitrary: a rule: list_all2_induct)
    case (Cons c calls raws rawss)
    note run = acc_call [OF Cons.hyps(1) Cons.prems(2) [simplified]]
    have i: "tc_id c \<noteq> ''''" using Cons.hyps(1) by (simp add: call_frames_def)
    have dist: "calls_distinct calls" using Cons.prems(1) by (cases calls) auto
    have ne: "tc_id (hd calls) \<noteq> ''''" if "calls \<noteq> []"
      using that Cons.hyps(2) by (cases calls) (auto simp: list_all2_Cons1 call_frames_def)
    show ?case
    proof (cases "tc_stopped c")
      case True
      have "calls \<noteq> [] \<Longrightarrow> toolUseID zero_acc \<noteq> tc_id (hd calls)" using ne by (auto simp: zero_acc_def)
      from Cons.IH [OF dist this] True run show ?thesis
        by (simp add: acc_run_append Let_def case_prod_unfold) (simp add: pending_event_def zero_acc_def)
    next
      case False
      let ?a = "\<lparr>toolName = tc_name c, toolUseID = tc_id c, toolInput = concat (tc_fragments c)\<rparr>"
      have "calls \<noteq> [] \<Longrightarrow> toolUseID ?a \<noteq> tc_id (hd calls)"
        using False Cons.prems(1) by (cases calls) auto
      from Cons.IH [OF dist this] False run i show ?thesis
        by (simp add: acc_run_append Let_def case_prod_unfold) (simp add: pending_event_def call_event_def)
    qed
  qed simp
  from this [of zero_acc] assms
  have "?out (concat rawss) zero_acc = map call_event calls"
    by (cases calls) (auto simp: pending_event_def zero_acc_def call_frames_def list_all2_Cons1)
  then show ?thesis
    by (simp add: acc_events_def acc_flush_def pending_event_def buildAndReset_def Let_def case_prod_unfold
        split: if_splits)
qed


text \<open>A decoder of quoted words and \<open>true\<close>, for a concrete stream: two calls, the first never stopped.\<close>

definition toy_json :: json_lib where
  "toy_json = \<lparr>j_object = (\<lambda>_. None),
     j_string = (\<lambda>b. if b \<noteq> [] \<and> hd b = CHR 0x22 then Some (tl b) else None),
     j_bool = (\<lambda>b. if b = ''true'' then Some True else None), j_strings = (\<lambda>_ _. (\<lambda>_. '''', False)),
     j_token_usage = (\<lambda>_. None), j_metering = (\<lambda>_. None), j_percentage = (\<lambda>_. None)\<rparr>"

definition quoted :: "string \<Rightarrow> bytes" where "quoted s = CHR 0x22 # s"


end
