(* ===== verification/Event_Stream.thy ===== *)
theory Event_Stream
  imports Tool_Use
begin

text \<open>
  \<open>ParseStream\<close> of \<open>internal/kiroproto/eventstream.go\<close>: the loop that reads frames, decodes their
  payloads and calls back with the events. The callback transforms a state of its own and says
  whether to stop. Whether the context is done is asked once per iteration; \<open>cancelled k\<close> is the
  answer of iteration \<open>k\<close>, and \<open>uuids k\<close> the identifier \<open>uuid.New()\<close> would give there.
\<close>

section \<open>The parser\<close>

definition EventAssistantResponse :: string where "EventAssistantResponse = ''assistantResponseEvent''"
definition EventReasoningContent :: string where "EventReasoningContent = ''reasoningContentEvent''"
definition EventMetadata :: string where "EventMetadata = ''metadataEvent''"
definition EventMetering :: string where "EventMetering = ''meteringEvent''"
definition EventInvalidState :: string where "EventInvalidState = ''invalidStateEvent''"
definition EventException :: string where "EventException = ''exception''"
definition EventMessageMetadata :: string where "EventMessageMetadata = ''messageMetadataEvent''"
definition EventContextUsage :: string where "EventContextUsage = ''contextUsageEvent''"

lemmas event_types = EventAssistantResponse_def EventReasoningContent_def EventToolUse_def EventMetadata_def
  EventMetering_def EventInvalidState_def EventException_def EventMessageMetadata_def EventContextUsage_def

datatype stream_error = Cancelled | FrameFailed frame_error | DecodeFailed string

text \<open>What \<open>ParseStream\<close> returns: \<open>nil\<close> or an error.\<close>

datatype stream_end = Finished | Failed stream_error

type_synonym 'c callback = "event \<Rightarrow> 'c \<Rightarrow> 'c \<times> bool"

text \<open>\<open>slices.ContainsFunc\<close>: calls the function on each element up to the first that answers true.\<close>

fun ContainsFunc :: "event list \<Rightarrow> 'c callback \<Rightarrow> 'c \<Rightarrow> 'c \<times> bool" where
  "ContainsFunc [] cb st = (st, False)"
| "ContainsFunc (e # es) cb st = (let (st, b) = cb e st in if b then (st, True) else ContainsFunc es cb st)"

text \<open>
  The switch over the event types: a decoding error that ends the stream, or the accumulator, the
  callback's state and \<open>stop\<close>. A payload that fails to decode ends the stream for the assistant,
  reasoning and invalid-state events and is skipped for the others; every other event type is
  ignored.
\<close>

definition handle_event :: "json_lib \<Rightarrow> string \<Rightarrow> 'c callback \<Rightarrow> string \<Rightarrow> bytes \<Rightarrow> toolUseAccumulator \<Rightarrow> 'c
    \<Rightarrow> stream_error + (toolUseAccumulator \<times> 'c \<times> bool)" where
  "handle_event J uuid callback eventType payload acc st =
     (let call = (\<lambda>e. Inr (acc, callback e st)); skip = Inr (acc, st, False) in
      if eventType = EventAssistantResponse then
        (let (m, ok) = j_strings J [''content'', ''modelId''] payload in
         if \<not> ok then Inl (DecodeFailed eventType)
         else call (zero_event\<lparr>Type := eventType, Content := m ''content'', ModelID := m ''modelId''\<rparr>))
      else if eventType = EventReasoningContent then
        (let (m, ok) = j_strings J [''text'', ''signature'', ''redactedContent''] payload in
         if \<not> ok then Inl (DecodeFailed eventType)
         else call (zero_event\<lparr>Type := eventType, ThinkingText := m ''text'', Signature := m ''signature'',
                      RedactedContent := m ''redactedContent''\<rparr>))
      else if eventType = EventToolUse then
        (case j_object J payload of
           None \<Rightarrow> skip
         | Some raw \<Rightarrow>
             (let (acc, events) = acc_update J uuid raw acc in Inr (acc, ContainsFunc events callback st)))
      else if eventType = EventMetadata then
        (case j_token_usage J payload of
           None \<Rightarrow> skip
         | Some tu \<Rightarrow>
             call (zero_event\<lparr>Type := eventType, UncachedInputTokens := tu_uncached tu,
                     CacheReadInputTokens := tu_cache_read tu, CacheWriteInputTokens := tu_cache_write tu,
                     OutputTokens := tu_output tu, TotalTokens := tu_total tu,
                     InputTokens := wrap64 (tu_uncached tu + tu_cache_read tu)\<rparr>))
      else if eventType = EventMetering then
        (case j_metering J payload of
           None \<Rightarrow> skip
         | Some (usage, inp, out) \<Rightarrow>
             call (zero_event\<lparr>Type := eventType, Credits := usage, InputTokens := inp, OutputTokens := out\<rparr>))
      else if eventType = EventInvalidState then
        (let (m, ok) = j_strings J [''reason'', ''message''] payload in
         if \<not> ok then Inl (DecodeFailed eventType)
         else call (zero_event\<lparr>Type := eventType, InvalidStateReason := m ''reason'',
                      ErrorMessage := m ''message''\<rparr>))
      else if eventType = EventMessageMetadata then
        (let (m, ok) = j_strings J [''conversationId'', ''utteranceId''] payload in
         if \<not> ok then skip
         else call (zero_event\<lparr>Type := eventType, ConversationID := m ''conversationId'',
                      UtteranceID := m ''utteranceId''\<rparr>))
      else if eventType = EventContextUsage then
        (case j_percentage J payload of
           None \<Rightarrow> skip
         | Some p \<Rightarrow> call (zero_event\<lparr>Type := eventType, ContextUsagePercentage := p\<rparr>))
      else skip)"

text \<open>The event of an exception frame; a member that failed to decode is left empty.\<close>

definition exception_event :: "json_lib \<Rightarrow> string \<Rightarrow> bytes \<Rightarrow> event" where
  "exception_event J eventType payload =
     zero_event\<lparr>Type := EventException, ErrorMessage := fst (j_strings J [''message''] payload) ''message'',
       InvalidStateReason := eventType\<rparr>"

lemma encode_frame_length [simp]: "length (encode_frame h p) = 16 + length h + length p"
  by (simp add: encode_frame_def Let_def)

lemma readFrame_shorter:
  "readFrame br = Frame h p br' \<Longrightarrow> length (pending_bytes br') < length (pending_bytes br)"
  by (drule readFrame_only_encodings) auto

function parse_loop :: "json_lib \<Rightarrow> (nat \<Rightarrow> bool) \<Rightarrow> (nat \<Rightarrow> string) \<Rightarrow> 'c callback \<Rightarrow> nat \<Rightarrow> reader
    \<Rightarrow> toolUseAccumulator \<Rightarrow> 'c \<Rightarrow> stream_end \<times> 'c" where
  "parse_loop J cancelled uuids callback k br acc st =
     (if cancelled k then (Failed Cancelled, st)
      else case readFrame br of
        FrameEOF \<Rightarrow>
          (case snd (acc_flush acc) of
             None \<Rightarrow> (Finished, st)
           | Some e \<Rightarrow> (Finished, fst (callback e st)))
      | FrameErr err \<Rightarrow> (Failed (FrameFailed err), st)
      | Frame headers payload br' \<Rightarrow>
          (let (msgType, eventType) = extractFrameHeaders headers in
           if msgType = ''exception''
           then (Finished, fst (callback (exception_event J eventType payload) st))
           else case handle_event J (uuids k) callback eventType payload acc st of
                  Inl err \<Rightarrow> (Failed err, st)
                | Inr (acc', st', stop) \<Rightarrow>
                    if stop then (Finished, st')
                    else parse_loop J cancelled uuids callback (Suc k) br' acc' st'))"
  by pat_completeness auto
termination
  by (relation "measure (\<lambda>(J, c, u, cb, k, br, acc, st). length (pending_bytes br))") (auto dest: readFrame_shorter)

declare parse_loop.simps [simp del]

definition ParseStream :: "json_lib \<Rightarrow> (nat \<Rightarrow> bool) \<Rightarrow> (nat \<Rightarrow> string) \<Rightarrow> 'c callback \<Rightarrow> reader \<Rightarrow> 'c
    \<Rightarrow> stream_end \<times> 'c" where
  "ParseStream J cancelled uuids callback r st = parse_loop J cancelled uuids callback 0 r zero_acc st"


section \<open>Stopping\<close>

text \<open>The callback together with the list of its answers.\<close>

definition logged :: "'c callback \<Rightarrow> ('c \<times> bool list) callback" where
  "logged cb e s = (let (st, b) = cb e (fst s) in ((st, snd s @ [b]), b))"

lemma logged_apply: "cb e st = (s, b) \<Longrightarrow> logged cb e (st, ans) = ((s, ans @ [b]), b)"
  by (simp add: logged_def)

lemma ContainsFunc_logged:
  "\<exists>n. ContainsFunc es (logged cb) (st, ans) = ((st', ans'), b) \<longrightarrow>
     ans' = ans @ replicate n False @ (if b then [True] else [])"
proof (induction es arbitrary: st ans)
  case Nil
  then show ?case by (auto intro: exI [of _ 0])
next
  case (Cons e es)
  obtain s1 b1 where c: "cb e st = (s1, b1)" by fastforce
  show ?case
  proof (cases b1)
    case True
    with c show ?thesis by (auto simp: logged_apply [where cb = cb, OF c] intro: exI [of _ 0])
  next
    case False
    from Cons.IH [of s1 "ans @ [False]"] obtain n where
      "ContainsFunc es (logged cb) (s1, ans @ [False]) = ((st', ans'), b) \<longrightarrow>
        ans' = (ans @ [False]) @ replicate n False @ (if b then [True] else [])" by blast
    with False show ?thesis by (auto simp: logged_apply [where cb = cb, OF c] intro: exI [of _ "Suc n"])
  qed
qed

lemma handle_event_logged:
  assumes "handle_event J u (logged cb) et p acc (st, ans) = Inr (acc', (st', ans'), b)"
  shows "\<exists>n. ans' = ans @ replicate n False @ (if b then [True] else [])"
proof -
  have one: "logged cb e (st, ans) = ((st', ans'), b) \<Longrightarrow> \<exists>n. ans' = ans @ replicate n False @ (if b then [True] else [])" for e
    by (cases b) (auto simp: logged_def split: prod.splits intro: exI [of _ 0] exI [of _ 1])
  have "\<exists>n. ans = ans @ replicate n False @ (if False then [True] else [])" by (auto intro: exI [of _ 0])
  then show ?thesis
    using assms one ContainsFunc_logged [of _ cb st ans st' ans' b]
    unfolding handle_event_def Let_def
    by (fastforce split: if_splits option.splits prod.splits)
qed

text \<open>
  Early stop: whatever the callback and whatever the stream, the callback is never called
  again after it answered true, and then \<open>ParseStream\<close> returns \<open>nil\<close>: the answers it gave are all
  false, except possibly a last true with which the parser finished without error.
\<close>

theorem ParseStream_stops:
  "case ParseStream J cancelled uuids (logged cb) br (st, []) of
     (r, st', answers) \<Rightarrow> \<exists>n. answers = replicate n False \<or> answers = replicate n False @ [True] \<and> r = Finished"
proof -
  define ok where "ok = (\<lambda>(r, st' :: 'a, answers).
    \<exists>n. answers = replicate n False \<or> answers = replicate n False @ [True] \<and> r = Finished)"
  have final: "ok (Finished, fst (logged cb e (st, replicate m False)))" for e st m
  proof -
    obtain a b where c: "cb e st = (a, b)" by fastforce
    have "replicate m False @ [False] = replicate (Suc m) False" by (simp add: replicate_append_same)
    then show ?thesis unfolding logged_apply [where cb = cb, OF c] by (cases b) (simp_all add: ok_def del: replicate_Suc, blast+)
  qed
  have same: "ok (r, st, replicate m False)" for r st m by (auto simp: ok_def)
  have "ok (parse_loop J cancelled uuids (logged cb) k br acc (st, replicate m False))" for k acc st m
  proof (induction "length (pending_bytes br)" arbitrary: br k acc st m rule: less_induct)
    case less
    note simps = parse_loop.simps [of J cancelled uuids "logged cb" k br acc "(st, replicate m False)"]
    show ?case
    proof (cases "readFrame br")
      case FrameEOF
      then show ?thesis unfolding simps by (auto simp: same final split: option.split)
    next
      case (FrameErr e)
      then show ?thesis unfolding simps using same by simp
    next
      case (Frame h p br')
      obtain mt et where hd: "extractFrameHeaders h = (mt, et)" by fastforce
      note here = simps [unfolded Frame]
      consider "cancelled k" | "\<not> cancelled k" "mt = ''exception''" | "\<not> cancelled k" "mt \<noteq> ''exception''" by blast
      then show ?thesis
      proof cases
        case 1
        then show ?thesis unfolding here using same by simp
      next
        case 2
        then show ?thesis unfolding here by (simp add: hd final)
      next
        case False: 3
        show ?thesis
        proof (cases "handle_event J (uuids k) (logged cb) et p acc (st, replicate m False)")
          case (Inl e)
          with False show ?thesis unfolding here by (simp add: hd same)
        next
          case (Inr t)
          obtain acc' st' ans' b where t: "t = (acc', (st', ans'), b)" by (metis prod.collapse)
          obtain n where n: "ans' = replicate m False @ replicate n False @ (if b then [True] else [])"
            using handle_event_logged [OF Inr [unfolded t]] by blast
          show ?thesis
          proof (cases b)
            case True
            with n have "ans' = replicate (m + n) False @ [True]" by (simp add: replicate_add)
            with False True Inr t show ?thesis unfolding here by (auto simp: hd ok_def)
          next
            case b: False
            with n have "ans' = replicate (m + n) False" by (simp add: replicate_add)
            with b False Inr t less.hyps [OF readFrame_shorter [OF Frame], of "Suc k" acc' st' "m + n"]
            show ?thesis unfolding here by (simp add: hd)
          qed
        qed
      qed
    qed
  qed
  from this [of 0 zero_acc st 0] show ?thesis by (simp add: ParseStream_def ok_def)
qed

section \<open>Delivery\<close>

text \<open>A callback that records the events and never stops.\<close>

definition record_event :: "event list callback" where "record_event e es = (es @ [e], False)"

definition is_tool :: "event \<Rightarrow> bool" where "is_tool e \<longleftrightarrow> Type e = EventToolUse"

definition wire :: "(bytes \<times> bytes) list \<Rightarrow> bytes" where
  "wire frames = concat (map (\<lambda>(h, p). encode_frame h p) frames)"

text \<open>
  A stream that can be read: every frame is within the size limit, none is an exception frame, and
  the payloads whose decoding is mandatory decode.
\<close>

definition frame_ok :: "json_lib \<Rightarrow> bytes \<times> bytes \<Rightarrow> bool" where
  "frame_ok J = (\<lambda>(h, p). frame_fits h p \<and> fst (extractFrameHeaders h) \<noteq> ''exception'' \<and>
     (snd (extractFrameHeaders h) \<in> {EventAssistantResponse, EventReasoningContent, EventInvalidState} \<longrightarrow>
        (\<forall>ns. snd (j_strings J ns p))))"

definition stream_ok :: "json_lib \<Rightarrow> (bytes \<times> bytes) list \<Rightarrow> bool" where
  "stream_ok J frames \<longleftrightarrow> list_all (frame_ok J) frames"

text \<open>The payloads of the tool frames, and the events of the others.\<close>

fun tool_raws :: "json_lib \<Rightarrow> (bytes \<times> bytes) list \<Rightarrow> (string \<rightharpoonup> bytes) list" where
  "tool_raws J [] = []"
| "tool_raws J ((h, p) # fs) =
     (if snd (extractFrameHeaders h) = EventToolUse
      then (case j_object J p of None \<Rightarrow> [] | Some raw \<Rightarrow> [raw]) else []) @ tool_raws J fs"

definition own_events :: "json_lib \<Rightarrow> bytes \<times> bytes \<Rightarrow> event list" where
  "own_events J = (\<lambda>(h, p). if snd (extractFrameHeaders h) = EventToolUse then []
     else case handle_event J '''' record_event (snd (extractFrameHeaders h)) p zero_acc [] of
            Inl _ \<Rightarrow> [] | Inr (_, es, _) \<Rightarrow> es)"

lemma record_event_apply [simp]: "record_event e es = (es @ [e], False)"
  by (simp add: record_event_def)

lemma ContainsFunc_record [simp]: "ContainsFunc es record_event es0 = (es0 @ es, False)"
  by (induction es arbitrary: es0) simp_all

text \<open>What a readable frame does: its own events, or those the accumulator completes.\<close>

lemma handle_other:
  assumes "frame_ok J (h, p)" "snd (extractFrameHeaders h) = et" "et \<noteq> EventToolUse"
  shows "handle_event J u record_event et p acc es = Inr (acc, es @ own_events J (h, p), False) \<and>
    \<not> list_ex is_tool (own_events J (h, p))"
proof -
  have J: "snd (j_strings J ns p)" if "et \<in> {EventAssistantResponse, EventReasoningContent, EventInvalidState}" for ns
    using that assms(1,2) by (auto simp: frame_ok_def)
  show ?thesis
    using assms(3) J unfolding own_events_def handle_event_def Let_def
    by (auto simp: assms(2) is_tool_def zero_event_def event_types case_prod_unfold split: option.splits)
qed

lemma handle_tool:
  "handle_event J u record_event EventToolUse p acc es =
     (case j_object J p of
        None \<Rightarrow> Inr (acc, es, False)
      | Some raw \<Rightarrow> (let (acc', es') = acc_update J u raw acc in Inr (acc', es @ es', False)))"
  by (auto simp: handle_event_def event_types Let_def case_prod_unfold split: option.splits)

lemma acc_update_tools: "list_all is_tool (snd (acc_update J u raw acc))"
  by (auto simp: acc_update_def Let_def buildAndReset_def is_tool_def tool_event_def zero_event_def)

text \<open>The accumulator over successive tool frames, the generated identifiers as the parser draws them.\<close>

fun frames_run :: "json_lib \<Rightarrow> (nat \<Rightarrow> string) \<Rightarrow> nat \<Rightarrow> (bytes \<times> bytes) list \<Rightarrow> toolUseAccumulator
    \<Rightarrow> toolUseAccumulator \<times> event list" where
  "frames_run J uuids k [] acc = (acc, [])"
| "frames_run J uuids k ((h, p) # fs) acc =
     (let (acc', es) =
        (if snd (extractFrameHeaders h) = EventToolUse
         then (case j_object J p of None \<Rightarrow> (acc, []) | Some raw \<Rightarrow> acc_update J (uuids k) raw acc)
         else (acc, own_events J (h, p)));
          (acc'', es') = frames_run J uuids (Suc k) fs acc'
      in (acc'', es @ es'))"

lemma parse_frames:
  assumes "stream_ok J frames"
  shows "parse_loop J (\<lambda>_. False) uuids record_event k \<lparr>pending_bytes = wire frames @ rest, read_error = e\<rparr> acc es =
    (let (acc', es') = frames_run J uuids k frames acc in
     parse_loop J (\<lambda>_. False) uuids record_event (k + length frames) \<lparr>pending_bytes = rest, read_error = e\<rparr> acc' (es @ es'))"
  using assms
proof (induction frames arbitrary: k acc es)
  case Nil
  then show ?case by (simp add: wire_def)
next
  case (Cons f fs)
  obtain h p where f: "f = (h, p)" by fastforce
  obtain mt et where hd: "extractFrameHeaders h = (mt, et)" by fastforce
  have ok: "frame_ok J (h, p)" "stream_ok J fs" using Cons.prems f by (simp_all add: stream_ok_def)
  have mt: "mt \<noteq> ''exception''" "frame_fits h p" using ok(1) hd by (simp_all add: frame_ok_def)
  have rd: "readFrame \<lparr>pending_bytes = wire (f # fs) @ rest, read_error = e\<rparr> =
      Frame h p \<lparr>pending_bytes = wire fs @ rest, read_error = e\<rparr>"
    using readFrame_encode [OF mt(2), of "\<lparr>pending_bytes = wire (f # fs) @ rest, read_error = e\<rparr>" "wire fs @ rest"] f
    by (simp add: wire_def)
  note loop = parse_loop.simps [of J "\<lambda>_. False" uuids record_event k
      "\<lparr>pending_bytes = wire (f # fs) @ rest, read_error = e\<rparr>" acc es, unfolded rd, simplified]
  show ?case
  proof (cases "et = EventToolUse")
    case True
    show ?thesis unfolding loop
      by (cases "j_object J p") (simp_all add: hd f mt True handle_tool Cons.IH [OF ok(2)] Let_def case_prod_unfold)
  next
    case False
    with handle_other [OF ok(1), of et "uuids k" acc es] hd show ?thesis unfolding loop
      by (simp add: hd f mt Cons.IH [OF ok(2)] Let_def case_prod_unfold)
  qed
qed


lemma acc_update_uuid: "frame_id J raw \<noteq> '''' \<Longrightarrow> acc_update J u raw a = acc_update J u' raw a"
  by (simp add: acc_update_def Let_def)

lemma frames_run_split:
  assumes "stream_ok J frames" "\<forall>raw \<in> set (tool_raws J frames). frame_id J raw \<noteq> ''''"
  shows "fst (frames_run J uuids k frames acc) = fst (acc_run J u (tool_raws J frames) acc) \<and>
    filter is_tool (snd (frames_run J uuids k frames acc)) = snd (acc_run J u (tool_raws J frames) acc) \<and>
    filter (\<lambda>e. \<not> is_tool e) (snd (frames_run J uuids k frames acc)) = concat (map (own_events J) frames)"
  using assms
proof (induction frames arbitrary: k acc)
  case (Cons f fs)
  obtain h p where f: "f = (h, p)" by fastforce
  have ok: "frame_ok J (h, p)" "stream_ok J fs" using Cons.prems(1) f by (simp_all add: stream_ok_def)
  have all: "filter is_tool es = es" "filter (\<lambda>e. \<not> is_tool e) es = []" if "list_all is_tool es" for es
    using that by (induction es) auto
  have none: "filter is_tool es = []" "filter (\<lambda>e. \<not> is_tool e) es = es" if "\<not> list_ex is_tool es" for es
    using that by (induction es) auto
  show ?case
  proof (cases "snd (extractFrameHeaders h) = EventToolUse")
    case True
    then have own: "own_events J (h, p) = []" by (simp add: own_events_def)
    show ?thesis
    proof (cases "j_object J p")
      case None
      with True own f Cons.IH [OF ok(2), of "Suc k" acc] Cons.prems(2) show ?thesis
        by (simp add: Let_def case_prod_unfold)
    next
      case (Some raw)
      with Cons.prems(2) f True have "frame_id J raw \<noteq> ''''" by simp
      from acc_update_uuid [OF this, of "uuids k" acc u]
      have upd: "acc_update J (uuids k) raw acc = acc_update J u raw acc" .
      from Some True own f upd all [OF acc_update_tools, of J u raw acc] Cons.prems(2)
        Cons.IH [OF ok(2), of "Suc k" "fst (acc_update J u raw acc)"]
      show ?thesis by (simp add: Let_def case_prod_unfold)
    qed
  next
    case False
    with handle_other [OF ok(1) refl] have "\<not> list_ex is_tool (own_events J (h, p))" by blast
    from none [OF this] False f Cons.IH [OF ok(2), of "Suc k" acc] Cons.prems(2) show ?thesis
      by (simp add: Let_def case_prod_unfold)
  qed
qed simp

lemma parse_end:
  "parse_loop J (\<lambda>_. False) uuids record_event k \<lparr>pending_bytes = [], read_error = None\<rparr> acc es =
     (Finished, es @ pending_event acc)"
  by (simp add: parse_loop.simps [of J "\<lambda>_. False"] readFrame_def acc_flush_def buildAndReset_def pending_event_def)

lemma is_tool_event [simp]: "is_tool (tool_event n i inp)"
  by (simp add: is_tool_def tool_event_def zero_event_def)

lemma filter_pending [simp]:
  "filter is_tool (pending_event a) = pending_event a" "filter (\<lambda>e. \<not> is_tool e) (pending_event a) = []"
  by (simp_all add: pending_event_def)

lemma call_frames_ids: "call_frames J c raws \<Longrightarrow> raw \<in> set raws \<Longrightarrow> frame_id J raw \<noteq> ''''"
  by (auto simp: call_frames_def fragment_frame_def list_all2_conv_all_nth in_set_conv_nth)


lemma strict_prefix_frame_fails:
  assumes "frame_fits h p" "strict_prefix part (encode_frame h p)" "part \<noteq> [] \<or> e \<noteq> None"
  shows "\<exists>err. readFrame \<lparr>pending_bytes = part, read_error = e\<rparr> = FrameErr err"
proof (cases "readFrame \<lparr>pending_bytes = part, read_error = e\<rparr>")
  case FrameEOF
  then have "part = [] \<and> e = None" by (auto simp: readFrame_def Let_def split: if_splits)
  with assms(3) show ?thesis by auto
next
  case (Frame h' p' br')
  then obtain rest where "part = encode_frame h' p' @ rest" and fits: "frame_fits h' p'"
    using readFrame_only_encodings by fastforce
  moreover obtain x where "encode_frame h p = part @ x" "x \<noteq> []" using assms(2) by (auto simp: strict_prefix_def prefix_def)
  ultimately have full: "encode_frame h p = encode_frame h' p' @ rest @ x" "x \<noteq> []" by simp_all
  let ?br = "\<lparr>pending_bytes = encode_frame h p, read_error = e\<rparr>"
  have "readFrame ?br = Frame h p \<lparr>pending_bytes = [], read_error = e\<rparr>"
    using readFrame_encode [OF assms(1), of ?br "[]"] by simp
  moreover have "readFrame ?br = Frame h' p' \<lparr>pending_bytes = rest @ x, read_error = e\<rparr>"
    using readFrame_encode [OF fits, of ?br "rest @ x"] full by simp
  ultimately show ?thesis using full(2) by simp
qed auto



text \<open>A concrete stream: a text frame, a tool call in two frames around another text frame.\<close>

definition event_header :: "string \<Rightarrow> bytes" where "event_header et = encode_header ('':event-type'', 7, et)"

definition stream_json :: json_lib where
  "stream_json = toy_json\<lparr>
     j_object := (\<lambda>p. if p = ''1'' then Some [''toolUseId'' \<mapsto> quoted ''t1'', ''name'' \<mapsto> quoted ''Read'', ''input'' \<mapsto> quoted ''{a'']
                      else Some [''toolUseId'' \<mapsto> quoted ''t1'', ''input'' \<mapsto> quoted ''b}'']),
     j_strings := (\<lambda>ns p. (\<lambda>n. if n = ''content'' then p else '''', True))\<rparr>"

definition stream_frames :: "(bytes \<times> bytes) list" where
  "stream_frames = [(event_header EventToolUse, ''1''), (event_header EventAssistantResponse, ''hi''),
     (event_header EventToolUse, ''2'')]"

lemma extract_event_header: "length et < 65536 \<Longrightarrow> extractFrameHeaders (event_header et) = ('''', et)"
  using scan_headers_encoded [of "[('':event-type'', 7, et)]" "('''', '''')"]
  by (simp add: extractFrameHeaders_def event_header_def header_ok_def headerValueSizes_def note_header_def)

lemma stream_frames_headers [simp]:
  "extractFrameHeaders (event_header EventToolUse) = ('''', EventToolUse)"
  "extractFrameHeaders (event_header EventAssistantResponse) = ('''', EventAssistantResponse)"
  by (simp_all add: extract_event_header event_types)

lemma stream_frames_ok: "stream_ok stream_json stream_frames"
  by (simp add: stream_ok_def frame_ok_def stream_frames_def)
    (simp add: event_types frame_fits_def maxFrameSize_def event_header_def encode_header_def
      headerValueSizes_def stream_json_def)



end
