(* ===== verification/Resp_State.thy ===== *)
theory Resp_State
  imports Event_Stream Go_Strings
begin

text \<open>
  The data of \<open>internal/respconv\<close>: the accumulator that turns Kiro events into an Anthropic response
  (\<open>accumulator.go\<close>), the delta it returns per event, tool calls, usage and the tool input
  validator. The operations follow in the theories that import this one, one per source file.

  A \<open>strings.Builder\<close> is the string written so far. Rune and token counts are unbounded integers:
  they count bytes held in memory, and \<open>maxTokensBudget*4\<close> is only formed once the count has reached
  the budget, so no sum or product here can leave the 64-bit range.
\<close>

definition StopReasonStopSequence :: string where "StopReasonStopSequence = ''stop_sequence''"
definition StopReasonMaxTokens :: string where "StopReasonMaxTokens = ''max_tokens''"
definition StopReasonEndTurn :: string where "StopReasonEndTurn = ''end_turn''"
definition StopReasonToolUse :: string where "StopReasonToolUse = ''tool_use''"

lemmas stop_reasons = StopReasonStopSequence_def StopReasonMaxTokens_def StopReasonEndTurn_def StopReasonToolUse_def

record EventDelta =
  TextDelta :: string
  ThinkingDelta :: string
  SignatureDelta :: string
  d_RedactedContent :: string
  d_ToolStop :: bool
  d_ToolUseID :: string
  d_ToolName :: string
  d_ToolInput :: string
  IsError :: bool
  d_ErrorMessage :: string
  StopSignal :: bool
  d_StopReason :: string
  d_StopSequence :: string

definition zero_delta :: EventDelta where
  "zero_delta = \<lparr>TextDelta = '''', ThinkingDelta = '''', SignatureDelta = '''', d_RedactedContent = '''',
     d_ToolStop = False, d_ToolUseID = '''', d_ToolName = '''', d_ToolInput = '''', IsError = False,
     d_ErrorMessage = '''', StopSignal = False, d_StopReason = '''', d_StopSequence = ''''\<rparr>"

record ToolCall =
  tc_ID :: string
  tc_Name :: string
  tc_Input :: string

text \<open>Why a tool call is rejected; the code formats these as messages.\<close>

datatype reject_reason =
    InvalidJSONInput
  | MissingRequired "string list"
  | WrongFieldType string "string list" string

record InvalidToolCall =
  itc_ID :: string
  itc_Name :: string
  itc_Input :: string
  itc_Reason :: reject_reason

record Usage =
  u_InputTokens :: int
  u_OutputTokens :: int
  u_CacheReadInputTokens :: int
  u_CacheWriteInputTokens :: int
  u_CacheCreation5mInputTokens :: int
  u_CacheCreation1hInputTokens :: int

type_synonym UsageAdjuster = "Usage \<Rightarrow> Usage"

text \<open>
  The validator's maps from a tool name. The property types of a tool are listed in the order in
  which an iteration over that Go map visits them.
\<close>

record ToolInputValidator =
  v_known :: "string list"
  v_required :: "string \<rightharpoonup> string list"
  v_types :: "string \<rightharpoonup> (string \<times> string list) list"

record responseAccumulator =
  lastContent :: string
  lastThinking :: string
  TextBuf :: string
  ThinkingBuf :: string
  ToolCalls :: "ToolCall list"
  InvalidToolCalls :: "InvalidToolCall list"
  HasToolUse :: bool
  ToolParseError :: bool
  HasMetadata :: bool
  a_InputTokens :: int
  a_OutputTokens :: int
  a_CacheReadInputTokens :: int
  a_CacheWriteInputTokens :: int
  RawInputTokens :: int
  RawOutputTokens :: int
  RawCacheReadTokens :: int
  RawCacheWriteTokens :: int
  FinalUsage :: "Usage option"
  a_UsageAdjuster :: "UsageAdjuster option"
  HasContextUsage :: bool
  a_ContextUsagePercentage :: float64
  ContextWindowSize :: int
  a_Signature :: string
  a_ConversationID :: string
  HasText :: bool
  LocalStop :: bool
  StopReason :: string
  StopSequence :: string
  stopSequences :: "string list"
  stopSeqMaxKeep :: int
  stopSeqPending :: string
  PreCountedInputTokens :: int
  maxTokensBudget :: int
  outputRuneCount :: int
  thinkingTagInside :: bool
  thinkingTagBuf :: string
  suppressReasoningContent :: bool
  DropToolName :: string
  toolNameMap :: "string \<rightharpoonup> string"
  toolInputValidator :: "ToolInputValidator option"

definition zero_accumulator :: responseAccumulator where
  "zero_accumulator = \<lparr>lastContent = '''', lastThinking = '''', TextBuf = '''', ThinkingBuf = '''',
     ToolCalls = [], InvalidToolCalls = [], HasToolUse = False, ToolParseError = False, HasMetadata = False,
     a_InputTokens = 0, a_OutputTokens = 0, a_CacheReadInputTokens = 0, a_CacheWriteInputTokens = 0,
     RawInputTokens = 0, RawOutputTokens = 0, RawCacheReadTokens = 0, RawCacheWriteTokens = 0,
     FinalUsage = None, a_UsageAdjuster = None, HasContextUsage = False, a_ContextUsagePercentage = 0,
     ContextWindowSize = 0, a_Signature = '''', a_ConversationID = '''', HasText = False, LocalStop = False,
     StopReason = '''', StopSequence = '''', stopSequences = [], stopSeqMaxKeep = 0, stopSeqPending = '''',
     PreCountedInputTokens = 0, maxTokensBudget = 0, outputRuneCount = 0, thinkingTagInside = False,
     thinkingTagBuf = '''', suppressReasoningContent = False, DropToolName = '''', toolNameMap = Map.empty,
     toolInputValidator = None\<rparr>"

end
