(* ===== verification/Token_Budget.thy ===== *)
theory Token_Budget
  imports Resp_State
begin

text \<open>
  \<open>internal/respconv/token_budget.go\<close>: the local \<open>max_tokens\<close> limit, four runes to a token.
\<close>

definition applyMaxTokensBudget :: "string \<Rightarrow> responseAccumulator \<Rightarrow> responseAccumulator \<times> string" where
  "applyMaxTokensBudget delta a =
     (if maxTokensBudget a \<le> 0
      then (a\<lparr>outputRuneCount := outputRuneCount a + int (rune_count delta)\<rparr>, delta)
      else
        (let runesInDelta = int (rune_count delta);
             newTotal = outputRuneCount a + runesInDelta
         in if newTotal div 4 < maxTokensBudget a then (a\<lparr>outputRuneCount := newTotal\<rparr>, delta)
            else
              (let remaining = maxTokensBudget a * 4 - outputRuneCount a in
               if remaining \<le> 0 then (a\<lparr>LocalStop := True, StopReason := StopReasonMaxTokens\<rparr>, '''')
               else if runesInDelta > remaining
               then (a\<lparr>outputRuneCount := outputRuneCount a + remaining, LocalStop := True,
                       StopReason := StopReasonMaxTokens\<rparr>, rune_take (nat remaining) delta)
               else
                 (let a = a\<lparr>outputRuneCount := outputRuneCount a + runesInDelta\<rparr> in
                  if outputRuneCount a div 4 \<ge> maxTokensBudget a
                  then (a\<lparr>LocalStop := True, StopReason := StopReasonMaxTokens\<rparr>, delta)
                  else (a, delta)))))"

section \<open>The limit\<close>

fun budget_run :: "string list \<Rightarrow> responseAccumulator \<Rightarrow> responseAccumulator \<times> string list" where
  "budget_run [] a = (a, [])"
| "budget_run (d # ds) a =
     (let (a, out) = applyMaxTokensBudget d a; (a, outs) = budget_run ds a in (a, out # outs))"

lemma div4_less_iff: "(x::int) div 4 < b \<longleftrightarrow> x < 4 * b"
  by linarith

lemma budget_step:
  assumes "maxTokensBudget a = b" "0 < b" "0 \<le> outputRuneCount a" "outputRuneCount a \<le> 4 * b"
    "outputRuneCount a = 4 * b \<longrightarrow> LocalStop a" "applyMaxTokensBudget d a = (a', out)"
  shows "maxTokensBudget a' = b \<and> outputRuneCount a' = min (4 * b) (outputRuneCount a + int (rune_count d)) \<and>
    int (rune_count out) = outputRuneCount a' - outputRuneCount a \<and> prefix out d \<and>
    (outputRuneCount a' < 4 * b \<longrightarrow> out = d) \<and>
    LocalStop a' = (LocalStop a \<or> outputRuneCount a' = 4 * b)"
proof -
  have pre: "prefix (rune_take n d) d" for n using rune_take_drop [of n d] prefixI by metis
  show ?thesis
    using assms unfolding applyMaxTokensBudget_def Let_def div4_less_iff
    by (auto simp: rune_count_take pre not_le div4_less_iff not_less min_def split: if_splits)
qed

text \<open>
  C26. The token limit is exact: with a positive budget of \<open>b\<close> tokens, whatever the sizes of the
  pieces, the runes let through are all those given as long as fewer than \<open>4 * b\<close> came, and exactly
  \<open>4 * b\<close> otherwise; what is let through is a prefix of what was given, nothing is dropped before
  the limit, and the stop is raised precisely when the limit is reached.
\<close>

theorem budget_exact:
  assumes "maxTokensBudget a = b" "0 < b" "outputRuneCount a = 0" "\<not> LocalStop a"
    and "budget_run ds a = (a', outs)"
  shows "int (sum_list (map rune_count outs)) = min (4 * b) (int (sum_list (map rune_count ds))) \<and>
    prefix (concat outs) (concat ds) \<and>
    LocalStop a' = (4 * b \<le> int (sum_list (map rune_count ds))) \<and>
    (\<not> LocalStop a' \<longrightarrow> outs = ds)"
proof -
  have "outputRuneCount a' = min (4 * b) (outputRuneCount a + int (sum_list (map rune_count ds))) \<and>
      int (sum_list (map rune_count outs)) = outputRuneCount a' - outputRuneCount a \<and>
      (outputRuneCount a' < 4 * b \<longrightarrow> outs = ds) \<and> prefix (concat outs) (concat ds) \<and>
      (outputRuneCount a = 4 * b \<longrightarrow> concat outs = '''') \<and>
      LocalStop a' = (LocalStop a \<or> outputRuneCount a' = 4 * b)"
    if "maxTokensBudget a = b" "0 \<le> outputRuneCount a" "outputRuneCount a \<le> 4 * b"
      "outputRuneCount a = 4 * b \<longrightarrow> LocalStop a" "budget_run ds a = (a', outs)" for a
    using that
  proof (induction ds arbitrary: a outs)
    case (Cons d ds)
    obtain a1 out outs1 where A: "applyMaxTokensBudget d a = (a1, out)" and R: "budget_run ds a1 = (a', outs1)"
      and outs: "outs = out # outs1" using Cons.prems(5) by (auto simp: Let_def split: prod.splits)
    note st = budget_step [OF Cons.prems(1) assms(2) Cons.prems(2-4) A]
    have "0 \<le> outputRuneCount a1" "outputRuneCount a1 \<le> 4 * b" using st Cons.prems(2) by auto
    note IH = Cons.IH [OF _ this _ R]
    have empty: "out = ''''" if "outputRuneCount a = 4 * b"
      using st that rune_count_pos [of out] by (cases out) auto
    have pre: "prefix (concat outs) (concat (d # ds))"
    proof (cases "outputRuneCount a1 = 4 * b")
      case True
      then have "concat outs1 = ''''" using IH st by argo
      with st outs show ?thesis by (simp add: prefix_prefix del: concat_eq_Nil_conv)
    next
      case False
      with IH st outs show ?thesis by auto
    qed
    show ?case using IH st outs pre empty assms(2) by (auto simp: min_def split: if_splits)
  qed auto
  from this [OF assms(1) _ _ _ assms(5)] assms(2-4) show ?thesis by (auto simp: min_def)
qed

theorem budget_exact_witness:
  "let (a', outs) = budget_run [''hello'', ''world''] (zero_accumulator\<lparr>maxTokensBudget := 2\<rparr>) in
   int (sum_list (map rune_count outs)) = min 8 (int (sum_list (map rune_count [''hello'', ''world'']))) \<and>
   prefix (concat outs) ''helloworld'' \<and> LocalStop a' = (8 \<le> int (sum_list (map rune_count [''hello'', ''world''])))"
  using budget_exact [of "zero_accumulator\<lparr>maxTokensBudget := 2\<rparr>" 2 "[''hello'', ''world'']"]
  by (simp add: zero_accumulator_def split: prod.split)

end
