(* ===== verification/Stop_Sequence.thy ===== *)
theory Stop_Sequence
  imports Resp_State
begin

text \<open>
  \<open>internal/respconv/stop_sequence.go\<close>: stop sequences are searched in the text held back so far
  plus the new delta; the last runes that could begin a match are held back until more text comes.
\<close>

text \<open>The loop over the sequences: the first, in the order of the request, that occurs.\<close>

fun find_stop :: "string list \<Rightarrow> string \<Rightarrow> (string \<times> nat) option" where
  "find_stop [] pending = None"
| "find_stop (s # ss) pending =
     (case str_index pending s of Some idx \<Rightarrow> Some (s, idx) | None \<Rightarrow> find_stop ss pending)"

definition applyStopSequenceFilter :: "string \<Rightarrow> responseAccumulator \<Rightarrow> responseAccumulator \<times> string" where
  "applyStopSequenceFilter delta a =
     (let pending = stopSeqPending a @ delta in
      case find_stop (stopSequences a) pending of
        Some (s, idx) \<Rightarrow>
          (a\<lparr>stopSeqPending := '''', LocalStop := True, StopReason := StopReasonStopSequence, StopSequence := s\<rparr>,
           take idx pending)
      | None \<Rightarrow>
          (let runeCount = int (rune_count pending) in
           if runeCount \<le> stopSeqMaxKeep a then (a\<lparr>stopSeqPending := pending\<rparr>, '''')
           else (let splitAt = rune_offset (nat (runeCount - stopSeqMaxKeep a)) pending in
                 (a\<lparr>stopSeqPending := drop splitAt pending\<rparr>, take splitAt pending))))"

definition flushStopSeqPending :: "responseAccumulator \<Rightarrow> responseAccumulator \<times> string" where
  "flushStopSeqPending a = (a\<lparr>stopSeqPending := ''''\<rparr>, stopSeqPending a)"

definition resolveStopReason :: "responseAccumulator \<Rightarrow> string \<times> string option" where
  "resolveStopReason a =
     (if StopReason a \<noteq> ''''
      then (if StopReason a = StopReasonStopSequence then (StopReason a, Some (StopSequence a))
            else (StopReason a, None))
      else if HasToolUse a then (StopReasonToolUse, None)
      else (StopReasonEndTurn, None))"

fun add_stops :: "string list \<Rightarrow> responseAccumulator \<Rightarrow> responseAccumulator" where
  "add_stops [] a = a"
| "add_stops (s # ss) a =
     (if s = '''' then add_stops ss a
      else
        (let a = a\<lparr>stopSequences := stopSequences a @ [s]\<rparr>;
             runeLen = int (rune_count s)
         in add_stops ss (if runeLen - 1 > stopSeqMaxKeep a then a\<lparr>stopSeqMaxKeep := runeLen - 1\<rparr> else a)))"

definition initStopSequences :: "string list \<Rightarrow> responseAccumulator \<Rightarrow> responseAccumulator" where
  "initStopSequences seqs a = add_stops seqs (a\<lparr>stopSequences := [], stopSeqMaxKeep := 0\<rparr>)"

section \<open>What \<open>initStopSequences\<close> sets up\<close>

lemma add_stops_sequences: "stopSequences (add_stops ss a) = stopSequences a @ filter (\<lambda>s. s \<noteq> '''') ss"
  by (induction ss arbitrary: a) (simp_all add: Let_def)

lemma add_stops_keep:
  "0 \<le> stopSeqMaxKeep a \<Longrightarrow> stopSeqMaxKeep a \<le> stopSeqMaxKeep (add_stops ss a) \<and>
   (\<forall>s \<in> set ss. int (rune_count s) - 1 \<le> stopSeqMaxKeep (add_stops ss a))"
proof (induction ss arbitrary: a)
  case (Cons s ss)
  let ?a = "a\<lparr>stopSequences := stopSequences a @ [s]\<rparr>"
  let ?b = "if int (rune_count s) - 1 > stopSeqMaxKeep ?a then ?a\<lparr>stopSeqMaxKeep := int (rune_count s) - 1\<rparr> else ?a"
  have "0 \<le> stopSeqMaxKeep ?b" "stopSeqMaxKeep a \<le> stopSeqMaxKeep ?b" "int (rune_count s) - 1 \<le> stopSeqMaxKeep ?b"
    using Cons.prems by auto
  with Cons.IH [of ?b] Cons.IH [of a] Cons.prems show ?case by (cases "s = ''''") (auto simp: Let_def)
qed simp

lemma add_stops_other [simp]:
  "stopSeqPending (add_stops ss a) = stopSeqPending a" "LocalStop (add_stops ss a) = LocalStop a"
  by (induction ss arbitrary: a) (simp_all add: Let_def)

section \<open>The filter over a stream\<close>

text \<open>The filter over the deltas of a stream, up to the first match.\<close>

fun stop_run :: "string list \<Rightarrow> responseAccumulator \<Rightarrow> responseAccumulator \<times> string" where
  "stop_run [] a = (a, '''')"
| "stop_run (d # ds) a =
     (let (a, out) = applyStopSequenceFilter d a in
      if LocalStop a then (a, out) else (let (a, outs) = stop_run ds a in (a, out @ outs)))"

lemma find_stop_None: "find_stop ss t = None \<longleftrightarrow> (\<forall>s \<in> set ss. \<not> str_occurs s t)"
  by (induction ss) (auto simp: str_index_None [symmetric] split: option.splits)

lemma find_stop_Some: "find_stop ss t = Some (s, i) \<Longrightarrow> s \<in> set ss \<and> str_index t s = Some i"
  by (induction ss) (auto split: option.splits)

lemma occurs_iff_nth: "str_occurs p s \<longleftrightarrow> (\<exists>j \<le> length s. take (length p) (drop j s) = p)"
proof
  assume "str_occurs p s"
  then obtain u v where "s = u @ p @ v" by (auto simp: str_occurs_def)
  then show "\<exists>j \<le> length s. take (length p) (drop j s) = p" by (intro exI [of _ "length u"]) simp
next
  assume "\<exists>j \<le> length s. take (length p) (drop j s) = p"
  then obtain j where "take (length p) (drop j s) = p" by blast
  then have "s = take j s @ p @ drop (length p) (drop j s)" by (metis append_take_drop_id)
  then show "str_occurs p s" unfolding str_occurs_def by blast
qed

text \<open>
  A match that begins in the text already let through ends in the text seen before: otherwise it
  would span one rune let through, all those held back and one new rune, more than it has.
\<close>

lemma no_straddle:
  assumes v: "valid_utf8 E" "valid_utf8 P" "valid_utf8 d" "valid_utf8 s" and s: "s \<noteq> ''''" "rune_count s \<le> Suc keep"
    and keep: "keep \<le> rune_count P" and eq: "E @ P @ d = u @ s @ w" and u: "length u < length E"
  shows "length u + length s \<le> length (E @ P)"
proof (rule ccontr)
  assume long: "\<not> ?thesis"
  define e where "e = drop (length u) E"
  have tu: "u = take (length u) (E @ P @ d)" by (simp add: eq)
  also have "\<dots> = take (length u) E" using u by simp
  finally have E: "E = u @ e" by (metis e_def append_take_drop_id)
  have "valid_utf8 (E @ P @ d)" using v by (simp add: valid_utf8_append)
  moreover have "\<not> is_cont ((E @ P @ d) ! length u)"
    using v(4) s(1) valid_head_lead [of s] unfolding eq by (simp add: valid_utf8_head nth_append)
  moreover have "length u < length (E @ P @ d)" using u by simp
  ultimately have "valid_utf8 u" using valid_split [of "E @ P @ d" "length u"] tu by metis
  then have ve: "valid_utf8 e" using v(1) E by (simp add: valid_utf8_append)
  have "e @ P @ d = s @ w" using eq E by simp
  moreover have "length (e @ P) < length s" using long E by simp
  ultimately obtain x where x: "s = (e @ P) @ x"
    by (metis append.assoc append_eq_append_conv_if less_imp_le_nat take_all_iff append_take_drop_id)
  with \<open>length (e @ P) < length s\<close> have "x \<noteq> []" by auto
  have "e \<noteq> []" using u E by auto
  have "rune_count s = rune_count e + rune_count P + rune_count x"
    using x ve v(2) by (simp add: rune_count_append)
  with s(2) keep rune_count_pos [OF \<open>x \<noteq> []\<close>] rune_count_pos [OF \<open>e \<noteq> []\<close>] show False by simp
qed


text \<open>The state between deltas: \<open>E\<close> is what was let through, together with what is held back it is all text so far.\<close>

definition stop_inv :: "nat \<Rightarrow> string \<Rightarrow> string \<Rightarrow> responseAccumulator \<Rightarrow> bool" where
  "stop_inv keep E seen a \<longleftrightarrow>
     stopSeqMaxKeep a = int keep \<and> \<not> LocalStop a \<and> seen = E @ stopSeqPending a \<and>
     valid_utf8 E \<and> valid_utf8 (stopSeqPending a) \<and> (E \<noteq> [] \<longrightarrow> keep \<le> rune_count (stopSeqPending a)) \<and>
     (\<forall>s \<in> set (stopSequences a). s \<noteq> '''' \<and> valid_utf8 s \<and> rune_count s \<le> Suc keep \<and> \<not> str_occurs s seen)"

lemma match_in_pending:
  assumes "stop_inv keep E seen a" "valid_utf8 d" "s \<in> set (stopSequences a)" "take (length s) (drop j (seen @ d)) = s"
  shows "length E \<le> j"
proof (rule ccontr)
  assume j: "\<not> length E \<le> j"
  let ?P = "stopSeqPending a"
  have C: "seen = E @ ?P" and s: "s \<noteq> ''''" "valid_utf8 s" "rune_count s \<le> Suc keep" "\<not> str_occurs s seen"
    and v: "valid_utf8 E" "valid_utf8 ?P" "keep \<le> rune_count ?P"
    using assms(1,3) j by (auto simp: stop_inv_def)
  have jl: "j < length E" using j by simp
  have "E @ ?P @ d = take j (seen @ d) @ s @ drop (length s) (drop j (seen @ d))"
    using assms(4) C by (metis append.assoc append_take_drop_id)
  from no_straddle [OF v(1,2) assms(2) s(2,1,3) v(3) this] jl C
  have "j + length s \<le> length seen" by simp
  then have "take (length s) (drop j seen) = s" using assms(4) jl C by simp
  then have "str_occurs s seen" using occurs_iff_nth [of s seen] \<open>j + length s \<le> length seen\<close> by fastforce
  with s(4) show False by simp
qed

lemma stop_step_None:
  assumes inv: "stop_inv keep E seen a" and d: "valid_utf8 d"
    and none: "find_stop (stopSequences a) (stopSeqPending a @ d) = None"
    and step: "applyStopSequenceFilter d a = (a', out)"
  shows "stop_inv keep (E @ out) (seen @ d) a' \<and> stopSequences a' = stopSequences a"
proof -
  let ?pd = "stopSeqPending a @ d" and ?k = "nat (int (rune_count (stopSeqPending a @ d)) - stopSeqMaxKeep a)"
  have I: "stopSeqMaxKeep a = int keep" "seen = E @ stopSeqPending a" "valid_utf8 E" "valid_utf8 ?pd"
    using inv d by (auto simp: stop_inv_def valid_utf8_append)
  have a': "a' = a\<lparr>stopSeqPending := rune_drop ?k ?pd\<rparr>" "out = rune_take ?k ?pd"
    using none step I(1) by (auto simp: applyStopSequenceFilter_def Let_def rune_drop_def rune_take_def split: if_splits)
  have "\<not> str_occurs s (seen @ d)" if s: "s \<in> set (stopSequences a)" for s
  proof
    assume "str_occurs s (seen @ d)"
    then obtain j where j: "j \<le> length (seen @ d)" "take (length s) (drop j (seen @ d)) = s"
      by (auto simp: occurs_iff_nth)
    from match_in_pending [OF inv d s j(2)] have "length E \<le> j" .
    with j I(2) have "take (length s) (drop (j - length E) ?pd) = s" "j - length E \<le> length ?pd" by auto
    then have "str_occurs s ?pd" by (auto simp: occurs_iff_nth)
    with none s show False by (simp add: find_stop_None)
  qed
  moreover have "E @ out \<noteq> [] \<longrightarrow> keep \<le> rune_count (rune_drop ?k ?pd)"
  proof
    assume "E @ out \<noteq> []"
    show "keep \<le> rune_count (rune_drop ?k ?pd)"
    proof (cases "out = []")
      case True
      then have "rune_drop ?k ?pd = ?pd" using a'(2) rune_take_drop [of ?k ?pd] by simp
      with True inv \<open>E @ out \<noteq> []\<close> show ?thesis by (auto simp: stop_inv_def rune_count_append)
    next
      case False
      then have "?k \<noteq> 0" using a'(2) by (auto simp: rune_take_def)
      then show ?thesis using I(1) by (simp add: rune_count_drop)
    qed
  qed
  moreover have "valid_utf8 (E @ out)" "valid_utf8 (rune_drop ?k ?pd)" "seen @ d = (E @ out) @ rune_drop ?k ?pd"
    using I valid_rune_take_drop [OF I(4), of ?k] a'(2) by (simp_all add: valid_utf8_append)
  ultimately show ?thesis using inv a' by (auto simp: stop_inv_def)
qed

lemma stop_step_Some:
  assumes inv: "stop_inv keep E seen a" and d: "valid_utf8 d"
    and some: "find_stop (stopSequences a) (stopSeqPending a @ d) = Some (s, i)"
    and step: "applyStopSequenceFilter d a = (a', out)"
  shows "s \<in> set (stopSequences a) \<and> LocalStop a' \<and> StopReason a' = StopReasonStopSequence \<and> StopSequence a' = s \<and>
    prefix ((E @ out) @ s) (seen @ d) \<and> \<not> str_occurs s ((E @ out) @ butlast s)"
proof -
  let ?pd = "stopSeqPending a @ d"
  have C: "seen = E @ stopSeqPending a" using inv by (simp add: stop_inv_def)
  have s: "s \<in> set (stopSequences a)" "str_index ?pd s = Some i" using find_stop_Some [OF some] by auto
  have a': "LocalStop a' \<and> StopReason a' = StopReasonStopSequence \<and> StopSequence a' = s" "out = take i ?pd"
    using some step by (auto simp: applyStopSequenceFilter_def Let_def)
  have split: "?pd = out @ s @ drop (i + length s) ?pd" using str_index_SomeD [OF s(2)] unfolding a'(2) .
  then have pre: "prefix ((E @ out) @ s) (seen @ d)" using C by (metis append.assoc prefixI)
  have ne: "s \<noteq> ''''" using inv s(1) by (auto simp: stop_inv_def)
  have "\<not> str_occurs s ((E @ out) @ butlast s)"
  proof
    assume "str_occurs s ((E @ out) @ butlast s)"
    then obtain u v where uv: "(E @ out) @ butlast s = u @ s @ v" by (auto simp: str_occurs_def)
    have "s = butlast s @ [last s]" using ne by simp
    then have td: "seen @ d = u @ s @ v @ [last s] @ drop (i + length s) ?pd"
      using split C uv by (metis append.assoc)
    then have occ: "take (length s) (drop (length u) (seen @ d)) = s" by simp
    have le: "length E \<le> length u" by (rule match_in_pending [OF inv d s(1) occ])
    then have "take (length s) (drop (length u - length E) ?pd) = s" using occ C by simp
    moreover have "length u < length E + i"
    proof -
      have "length out = i" using str_index_bound [OF s(2)] a'(2) by simp
      moreover have "0 < length s" using ne by simp
      moreover have "length E + length out + (length s - 1) = length u + length s + length v"
        using arg_cong [OF uv, of length] by simp
      ultimately show ?thesis by linarith
    qed
    then have "length u - length E < i" using le by linarith
    ultimately show False using str_index_least [OF s(2)] by blast
  qed
  with s a' pre show ?thesis by simp
qed

lemma stop_run_correct:
  assumes "stop_inv keep E seen a" "\<forall>d \<in> set ds. valid_utf8 d" "stop_run ds a = (a', out)"
  shows "if \<exists>s \<in> set (stopSequences a). str_occurs s (seen @ concat ds)
    then LocalStop a' \<and> StopReason a' = StopReasonStopSequence \<and> StopSequence a' \<in> set (stopSequences a) \<and>
      prefix ((E @ out) @ StopSequence a') (seen @ concat ds) \<and> \<not> str_occurs (StopSequence a') ((E @ out) @ butlast (StopSequence a'))
    else \<not> LocalStop a' \<and> (E @ out) @ stopSeqPending a' = seen @ concat ds"
  using assms
proof (induction ds arbitrary: E seen a out)
  case Nil
  then show ?case by (auto simp: stop_inv_def)
next
  case (Cons d ds)
  obtain a1 o1 where st: "applyStopSequenceFilter d a = (a1, o1)" by fastforce
  have d: "valid_utf8 d" using Cons.prems by simp
  show ?case
  proof (cases "find_stop (stopSequences a) (stopSeqPending a @ d)")
    case None
    note step = stop_step_None [OF Cons.prems(1) d None st]
    then have nl: "\<not> LocalStop a1" by (simp add: stop_inv_def)
    obtain o2 where o2: "stop_run ds a1 = (a', o2)" "out = o1 @ o2"
      using Cons.prems(3) st nl by (auto split: prod.splits)
    have sq: "stopSequences a1 = stopSequences a" and inv: "stop_inv keep (E @ o1) (seen @ d) a1" using step by simp_all
    have "\<forall>d \<in> set ds. valid_utf8 d" using Cons.prems(2) by simp
    from Cons.IH [OF inv this o2(1)] show ?thesis by (simp only: sq o2(2) append.assoc concat.simps)
  next
    case (Some si)
    obtain s i where "si = (s, i)" by fastforce
    note step = stop_step_Some [OF Cons.prems(1) d Some [unfolded this] st]
    then have o1: "a' = a1" "out = o1" using Cons.prems(3) st by auto
    have pre: "prefix ((E @ o1) @ s) (seen @ concat (d # ds))"
      using step prefix_prefix [of "(E @ o1) @ s" "seen @ d" "concat ds"] by simp
    then have "str_occurs s (seen @ concat (d # ds))" unfolding str_occurs_def prefix_def by (metis append.assoc)
    with step o1 pre show ?thesis by auto
  qed
qed

text \<open>
  C14. Stop sequences across chunk boundaries: however the text is cut into deltas, if none of the
  non-empty sequences occurs in the whole text, nothing stops and the text let through followed by
  the text held back is the whole text; otherwise the stream stops with the reason
  \<open>stop_sequence\<close>, and the text let through is exactly what precedes the first occurrence of the
  reported sequence.
\<close>

theorem stop_sequence_correct:
  assumes "\<forall>s \<in> set seqs. valid_utf8 s" "\<forall>d \<in> set ds. valid_utf8 d" "stopSeqPending a = ''''" "\<not> LocalStop a"
    and "stop_run ds (initStopSequences seqs a) = (a', out)"
  shows "if \<exists>s \<in> set seqs. s \<noteq> '''' \<and> str_occurs s (concat ds)
    then LocalStop a' \<and> StopReason a' = StopReasonStopSequence \<and> StopSequence a' \<in> set seqs \<and>
      prefix (out @ StopSequence a') (concat ds) \<and> \<not> str_occurs (StopSequence a') (out @ butlast (StopSequence a'))
    else \<not> LocalStop a' \<and> out @ stopSeqPending a' = concat ds"
proof -
  let ?a = "initStopSequences seqs a"
  have ss: "stopSequences ?a = filter (\<lambda>s. s \<noteq> '''') seqs" by (simp add: initStopSequences_def add_stops_sequences)
  note keep = add_stops_keep [of "a\<lparr>stopSequences := [], stopSeqMaxKeep := 0\<rparr>" seqs, simplified, folded initStopSequences_def]
  have rc: "rune_count s \<le> Suc (nat (stopSeqMaxKeep ?a))" if "s \<in> set seqs" for s
    using keep that by fastforce
  have occ: "\<not> str_occurs s ''''" if "s \<noteq> ''''" for s :: string using that by (simp add: str_occurs_def)
  have "stop_inv (nat (stopSeqMaxKeep ?a)) '''' '''' ?a"
    using assms(1,3,4) keep ss rc occ by (auto simp: stop_inv_def initStopSequences_def)
  from stop_run_correct [OF this assms(2,5)] show ?thesis by (auto simp: ss split: if_splits)
qed

theorem stop_sequence_correct_witness:
  "let (a', out) = stop_run [''one E'', ''ND two''] (initStopSequences [''END'', ''''] zero_accumulator) in
   StopSequence a' = ''END'' \<and> prefix (out @ ''END'') ''one END two''"
proof -
  obtain a' out where r: "stop_run [''one E'', ''ND two''] (initStopSequences [''END'', ''''] zero_accumulator) = (a', out)"
    by fastforce
  have v: "\<forall>s \<in> set [''END'', '''']. valid_utf8 s" "\<forall>d \<in> set [''one E'', ''ND two'']. valid_utf8 d"
    by (simp_all add: valid_utf8.simps valid_head_def lead_info_def rune_size_Cons byte_in_def)
  have o: "\<exists>s \<in> set [''END'', '''']. s \<noteq> '''' \<and> str_occurs s (concat [''one E'', ''ND two''])"
  proof -
    have "concat [''one E'', ''ND two''] = ''one '' @ ''END'' @ '' two''" by simp
    then have "str_occurs ''END'' (concat [''one E'', ''ND two''])" unfolding str_occurs_def by blast
    then show ?thesis by auto
  qed
  have "stopSeqPending zero_accumulator = ''''" "\<not> LocalStop zero_accumulator" by (simp_all add: zero_accumulator_def)
  from stop_sequence_correct [OF v this r, unfolded if_P [OF o]]
  have "StopSequence a' \<in> set [''END'', '''']" "prefix (out @ StopSequence a') ''one END two''"
    "\<not> str_occurs (StopSequence a') (out @ butlast (StopSequence a'))" by simp_all
  then show ?thesis unfolding r by auto
qed


text \<open>
  The sequences are tried in the order of the request, not by position: a sequence listed later is
  let through when one listed earlier occurs after it in the same delta.
\<close>

lemma listed_order_leaks:
  "let (a, out) = stop_run [''x B y A z''] (initStopSequences [''A'', ''B''] zero_accumulator) in
   StopSequence a = ''A'' \<and> out = ''x B y ''"
  by code_simp

end
