(* ===== verification/Thinking_Tags.thy ===== *)
theory Thinking_Tags
  imports Resp_State
begin

text \<open>
  \<open>internal/respconv/thinking_tags.go\<close>: the parser that routes prompt-injected
  \<open><thinking>...</thinking>\<close> to the thinking channel, with tags cut by chunk boundaries held back in
  \<open>thinkingTagBuf\<close>.
\<close>

definition thinkingOpenTag :: string where "thinkingOpenTag = ''<thinking>''"
definition thinkingCloseTag :: string where "thinkingCloseTag = ''</thinking>''"

lemmas tags = thinkingOpenTag_def thinkingCloseTag_def

text \<open>The loop from \<open>maxLen\<close> down to 1.\<close>

fun partial_from :: "nat \<Rightarrow> string \<Rightarrow> string \<Rightarrow> nat" where
  "partial_from 0 s tag = 0"
| "partial_from (Suc n) s tag =
     (if drop (length s - Suc n) s = take (Suc n) tag then Suc n else partial_from n s tag)"

definition partialTagSuffix :: "string \<Rightarrow> string \<Rightarrow> nat" where
  "partialTagSuffix s tag = partial_from (min (length tag - 1) (length s)) s tag"

text \<open>\<open>canStartThinking\<close>; \<open>fresh\<close> is \<open>!a.HasText && a.TextBuf.Len() == 0\<close>.\<close>

definition canStartThinking :: "bool \<Rightarrow> string \<Rightarrow> string \<Rightarrow> bool" where
  "canStartThinking fresh textBuilder pre \<longleftrightarrow> fresh \<and> textBuilder = '''' \<and> all_space pre"

record tag_state =
  t_buf :: string
  t_inside :: bool
  t_suppress :: bool
  t_text :: string
  t_think :: string

function tag_loop :: "bool \<Rightarrow> tag_state \<Rightarrow> tag_state" where
  "tag_loop fresh t =
     (let buf = t_buf t in
      if buf = [] then t
      else if t_inside t
      then
        (case str_index buf thinkingCloseTag of
           Some idx \<Rightarrow>
             tag_loop fresh (t\<lparr>t_think := t_think t @ take idx buf,
               t_buf := drop (idx + length thinkingCloseTag) buf, t_inside := False\<rparr>)
         | None \<Rightarrow>
             (let keep = partialTagSuffix buf thinkingCloseTag in
              if keep > 0
              then t\<lparr>t_think := t_think t @ take (length buf - keep) buf, t_buf := drop (length buf - keep) buf\<rparr>
              else t\<lparr>t_think := t_think t @ buf, t_buf := ''''\<rparr>))
      else
        (case str_index buf thinkingOpenTag of
           Some idx \<Rightarrow>
             if \<not> canStartThinking fresh (t_text t) (take idx buf)
             then t\<lparr>t_text := t_text t @ buf, t_buf := ''''\<rparr>
             else tag_loop fresh (t\<lparr>t_buf := drop (idx + length thinkingOpenTag) buf, t_inside := True,
                    t_suppress := True\<rparr>)
         | None \<Rightarrow>
             (let keep = partialTagSuffix buf thinkingOpenTag; pre = take (length buf - keep) buf in
              if keep > 0 \<and> canStartThinking fresh (t_text t) pre
              then t\<lparr>t_buf := drop (length buf - keep) buf\<rparr>
              else t\<lparr>t_text := t_text t @ buf, t_buf := ''''\<rparr>)))"
  by pat_completeness auto
termination
  by (relation "measure (\<lambda>(f, t). length (t_buf t))") (auto simp: tags)

declare tag_loop.simps [simp del]

definition parseThinkingTags :: "string \<Rightarrow> responseAccumulator \<Rightarrow> responseAccumulator \<times> string \<times> string" where
  "parseThinkingTags delta a =
     (if thinkingTagBuf a = '''' \<and> \<not> thinkingTagInside a \<and> CHR ''<'' \<notin> set delta then (a, delta, '''')
      else
        (let t = tag_loop (\<not> HasText a \<and> TextBuf a = '''')
               \<lparr>t_buf = thinkingTagBuf a @ delta, t_inside = thinkingTagInside a,
                t_suppress = suppressReasoningContent a, t_text = '''', t_think = ''''\<rparr>
         in (a\<lparr>thinkingTagBuf := t_buf t, thinkingTagInside := t_inside t, suppressReasoningContent := t_suppress t\<rparr>,
             t_text t, t_think t)))"

definition finalizeThinkingTags :: "responseAccumulator \<Rightarrow> responseAccumulator \<times> string \<times> string" where
  "finalizeThinkingTags a =
     (if thinkingTagBuf a = '''' then (a, '''', '''')
      else if thinkingTagInside a then (a\<lparr>thinkingTagBuf := ''''\<rparr>, '''', thinkingTagBuf a)
      else (a\<lparr>thinkingTagBuf := ''''\<rparr>, thinkingTagBuf a, ''''))"

section \<open>The longest partial tag\<close>

lemma partial_from_spec:
  assumes "n \<le> length s" "n \<le> length tag"
  shows "partial_from n s tag \<le> n \<and> drop (length s - partial_from n s tag) s = take (partial_from n s tag) tag \<and>
    (\<forall>m \<le> n. drop (length s - m) s = take m tag \<longrightarrow> m \<le> partial_from n s tag)"
  using assms by (induction n) (auto simp: le_Suc_eq)

lemma partialTagSuffix_spec:
  assumes "tag \<noteq> []"
  shows "partialTagSuffix s tag \<le> length s" "partialTagSuffix s tag < length tag"
    "drop (length s - partialTagSuffix s tag) s = take (partialTagSuffix s tag) tag"
    "\<And>p. suffix p s \<Longrightarrow> strict_prefix p tag \<Longrightarrow> length p \<le> partialTagSuffix s tag"
proof -
  let ?n = "min (length tag - 1) (length s)"
  have P: "partialTagSuffix s tag \<le> ?n" "drop (length s - partialTagSuffix s tag) s = take (partialTagSuffix s tag) tag"
    "\<forall>m \<le> ?n. drop (length s - m) s = take m tag \<longrightarrow> m \<le> partialTagSuffix s tag"
    using partial_from_spec [of ?n s tag] by (simp_all add: partialTagSuffix_def)
  show "partialTagSuffix s tag \<le> length s" "drop (length s - partialTagSuffix s tag) s = take (partialTagSuffix s tag) tag"
    using P by simp_all
  show "partialTagSuffix s tag < length tag" using P(1) assms by (cases tag) auto
  fix p assume p: "suffix p s" "strict_prefix p tag"
  have "drop (length s - length p) s = p" using p(1) by (auto simp: suffix_def)
  moreover have "take (length p) tag = p" using p(2) by (auto simp: strict_prefix_def prefix_def)
  moreover have "length p \<le> ?n" using p suffix_length_le [OF p(1)] prefix_length_less [OF p(2)] by simp
  ultimately show "length p \<le> partialTagSuffix s tag" using P(3) by metis
qed


section \<open>A thinking block at the start of a response\<close>

text \<open>The caller: once text was produced, \<open>HasText\<close> is set.\<close>

fun tags_run :: "string list \<Rightarrow> responseAccumulator \<Rightarrow> responseAccumulator \<times> string \<times> string" where
  "tags_run [] a = (a, '''', '''')"
| "tags_run (d # ds) a =
     (let (a, t, k) = parseThinkingTags d a;
          a = (if t \<noteq> '''' then a\<lparr>HasText := True\<rparr> else a);
          (a, t', k') = tags_run ds a
      in (a, t @ t', k @ k'))"

text \<open>A text that cannot be taken for leading white space or the beginning of a tag.\<close>

definition visible_text :: "string \<Rightarrow> bool" where
  "visible_text y \<longleftrightarrow> (\<forall>n. 0 < n \<and> n \<le> length y \<longrightarrow> \<not> all_space (take n y)) \<and> (y \<noteq> '''' \<longrightarrow> hd y \<noteq> CHR ''<'')"

lemma tags_nonempty: "thinkingOpenTag \<noteq> []" "thinkingCloseTag \<noteq> []"
  by (simp_all add: tags)

lemma str_index_short: "length s < length p \<Longrightarrow> str_index s p = None"
  using str_index_bound [of s p] by (cases "str_index s p") auto

text \<open>The close tag has no border, so its first occurrence in \<open>X @ close @ Y\<close> is where it was put.\<close>

lemma first_close:
  assumes "\<not> str_occurs thinkingCloseTag X"
  shows "str_index (X @ thinkingCloseTag @ Y) thinkingCloseTag = Some (length X)"
proof -
  let ?c = thinkingCloseTag
  have "str_occurs ?c (X @ ?c @ Y)" by (auto simp: str_occurs_def)
  then obtain i where i: "str_index (X @ ?c @ Y) ?c = Some i"
    using str_index_None by fastforce
  have le: "i \<le> length X" using str_index_least [OF i, of "length X"] by (cases "length X < i") auto
  have at: "take (length ?c) (drop i (X @ ?c @ Y)) = ?c" by (rule str_index_at [OF i])
  have "i = length X"
  proof (rule ccontr)
    assume "i \<noteq> length X"
    with le have lt: "i < length X" by simp
    show False
    proof (cases "i + length ?c \<le> length X")
      case True
      then have "take (length ?c) (drop i X) = ?c" using at lt by simp
      then have "X = take i X @ ?c @ drop (length ?c) (drop i X)" by (metis append_take_drop_id)
      with assms show False unfolding str_occurs_def by blast
    next
      case False
      let ?m = "length X - i"
      have m: "0 < ?m" "?m < length ?c" using False lt by auto
      have "?c ! ?m = take (length ?c) (drop i (X @ ?c @ Y)) ! ?m" using at by simp
      also have "\<dots> = ?c ! 0" using m lt by (simp add: nth_append)
      finally have "?c ! ?m = CHR ''<''" by (simp add: tags)
      moreover have "\<forall>m < length ?c. 0 < m \<longrightarrow> ?c ! m \<noteq> CHR ''<''" by (simp add: tags All_less_Suc nth_Cons')
      ultimately show False using m by blast
    qed
  qed
  with i show ?thesis by simp
qed

lemma tag_loop_outside_text:
  assumes "visible_text y \<or> \<not> fresh" "\<not> t_inside t" "t_buf t = y"
  shows "tag_loop fresh t = t\<lparr>t_text := t_text t @ y, t_buf := ''''\<rparr>"
proof (cases "y = []")
  case True
  with assms(3) show ?thesis by (simp add: tag_loop.simps)
next
  case False
  have no: "\<not> canStartThinking fresh (t_text t) (take n y)" if "0 < n" "n \<le> length y" for n
    using assms(1) that by (auto simp: canStartThinking_def visible_text_def)
  show ?thesis
  proof (cases "str_index y thinkingOpenTag")
    case None
    let ?k = "partialTagSuffix y thinkingOpenTag"
    have "\<not> canStartThinking fresh (t_text t) (take (length y - ?k) y)" if "?k > 0"
    proof (cases "fresh")
      case True
      have S: "?k \<le> length y" "drop (length y - ?k) y = take ?k thinkingOpenTag"
        using partialTagSuffix_spec [of thinkingOpenTag y] by (simp_all add: tags)
      have "?k \<noteq> length y"
      proof
        assume "?k = length y"
        then have "y = take ?k thinkingOpenTag" using S by simp
        with that have "hd y = CHR ''<''" by (cases ?k) (simp_all add: tags)
        with assms(1) False True show False by (simp add: visible_text_def)
      qed
      with no S(1) show ?thesis by simp
    qed (simp add: canStartThinking_def)
    with None False assms(2,3) show ?thesis by (subst tag_loop.simps) (auto simp: Let_def)
  next
    case (Some idx)
    have "\<not> canStartThinking fresh (t_text t) (take idx y)"
    proof (cases fresh)
      case True
      have "idx \<noteq> 0"
      proof
        assume "idx = 0"
        then have "take (length thinkingOpenTag) y = thinkingOpenTag" using str_index_at [OF Some] by simp
        then have "hd y = CHR ''<''" by (cases y) (auto simp: tags)
        with assms(1) False True show False by (simp add: visible_text_def)
      qed
      with no str_index_bound [OF Some] show ?thesis by simp
    qed (simp add: canStartThinking_def)
    with Some False assms(2,3) show ?thesis by (subst tag_loop.simps) (simp add: Let_def)
  qed
qed

lemma tag_loop_inside:
  assumes x: "\<not> str_occurs thinkingCloseTag X" and v: "visible_text y" and t: "t_inside t" "t_text t = ''''"
    and r: "t_think t @ t_buf t = r" "length (t_think t) \<le> length X" "prefix r (X @ thinkingCloseTag @ y)"
  shows "if length r < length (X @ thinkingCloseTag)
    then \<exists>B K. tag_loop fresh t = t\<lparr>t_think := K, t_buf := B\<rparr> \<and> K @ B = r \<and> length K \<le> length X
    else tag_loop fresh t = t\<lparr>t_think := X, t_buf := '''', t_inside := False, t_text := drop (length (X @ thinkingCloseTag)) r\<rparr>"
proof -
  let ?c = thinkingCloseTag
  show ?thesis
  proof (cases "length r < length (X @ ?c)")
    case True
    let ?k = "partialTagSuffix (t_buf t) ?c"
    have S: "?k \<le> length (t_buf t)" "\<And>p. suffix p (t_buf t) \<Longrightarrow> strict_prefix p ?c \<Longrightarrow> length p \<le> ?k"
      using partialTagSuffix_spec(1,4) [OF tags_nonempty(2)] by blast+
    have pre: "prefix r (X @ ?c)" using r(3) True by (auto simp: prefix_def append_eq_append_conv2)
    have none: "str_index (t_buf t) ?c = None"
    proof (cases "str_index (t_buf t) ?c")
      case (Some i)
      obtain z where "X @ ?c = r @ z" using pre by (auto simp: prefix_def)
      moreover have "t_buf t = take i (t_buf t) @ ?c @ drop (i + length ?c) (t_buf t)" by (rule str_index_SomeD [OF Some])
      ultimately have "X @ ?c @ '''' = (t_think t @ take i (t_buf t)) @ ?c @ drop (i + length ?c) (t_buf t) @ z"
        using r(1) by (metis append.assoc append_Nil2)
      from str_index_first [OF first_close [OF x, of "''''"] this]
      have "length X \<le> length (t_think t) + i" using str_index_bound [OF Some] by simp
      with True r(1) str_index_bound [OF Some] show ?thesis by auto
    qed simp
    have keep: "length (t_think t @ take (length (t_buf t) - ?k) (t_buf t)) \<le> length X"
    proof (cases "length r \<le> length X")
      case True
      with r(1) show ?thesis by auto
    next
      case False
      obtain z where z: "X @ ?c = r @ z" using pre by (auto simp: prefix_def)
      have zne: "z \<noteq> []" using True arg_cong [OF z, of length] by auto
      define p where "p = drop (length X) r"
      have p: "r = X @ p" using pre False by (auto simp: prefix_def append_eq_append_conv2 p_def)
      with z have "?c = p @ z" by simp
      with zne have "strict_prefix p ?c" by (auto simp: strict_prefix_def prefix_def)
      moreover have "suffix p (t_buf t)"
        using r(1,2) p by (metis append_eq_append_conv2 suffixI append.assoc append_eq_append_conv_if suffix_appendI le_refl suffix_order.refl)
      ultimately have "length p \<le> ?k" by (rule S(2) [rotated])
      moreover have "length (t_think t) + length (t_buf t) = length X + length p"
        using arg_cong [OF r(1), of length] p by simp
      ultimately show ?thesis using S(1) by simp
    qed
    have "tag_loop fresh t = t\<lparr>t_think := t_think t @ take (length (t_buf t) - ?k) (t_buf t), t_buf := drop (length (t_buf t) - ?k) (t_buf t)\<rparr>"
      using t none by (subst tag_loop.simps) (auto simp: Let_def)
    with True keep r(1) show ?thesis by (auto intro!: exI)
  next
    case False
    obtain X2 where X2: "X = t_think t @ X2"
      using r by (metis append_eq_append_conv2 append_eq_append_conv_if append_take_drop_id prefix_def)
    obtain Y1 where Y1: "r = X @ ?c @ Y1" "prefix Y1 y"
      using prefix_beyond [of r "X @ ?c" y] False r(3) by (metis append.assoc not_less)
    have buf: "t_buf t = X2 @ ?c @ Y1" using r(1) X2 Y1 by simp
    have "\<not> str_occurs ?c X2" using x X2 str_occurs_appendR by metis
    from first_close [OF this] buf have idx: "str_index (t_buf t) ?c = Some (length X2)" by simp
    have vis: "visible_text Y1" using v Y1(2) by (auto simp: visible_text_def prefix_def)
    let ?t = "t\<lparr>t_think := X, t_buf := Y1, t_inside := False\<rparr>"
    have "tag_loop fresh t = tag_loop fresh ?t"
      using t idx buf X2 by (subst tag_loop.simps) (simp add: Let_def tags)
    also have "\<dots> = ?t\<lparr>t_text := Y1, t_buf := ''''\<rparr>"
      using tag_loop_outside_text [of Y1 fresh ?t] vis t(2) by simp
    finally show ?thesis using False Y1 by simp
  qed
qed


text \<open>
  Where the parser is after the bytes \<open>c\<close> of \<open><thinking>X</thinking>y\<close>: in the open tag, inside, or
  after the close tag; \<open>w\<close> and \<open>k\<close> are the text and the thinking produced so far.
\<close>

definition tag_inv :: "string \<Rightarrow> string \<Rightarrow> string \<Rightarrow> responseAccumulator \<Rightarrow> string \<Rightarrow> string \<Rightarrow> bool" where
  "tag_inv X y c a w k \<longleftrightarrow> TextBuf a = '''' \<and>
     (if length c < length thinkingOpenTag
      then \<not> HasText a \<and> thinkingTagBuf a = c \<and> \<not> thinkingTagInside a \<and> w = '''' \<and> k = ''''
      else if length c < length (thinkingOpenTag @ X @ thinkingCloseTag)
      then \<not> HasText a \<and> thinkingTagInside a \<and> w = '''' \<and> suppressReasoningContent a \<and>
        thinkingOpenTag @ k @ thinkingTagBuf a = c \<and> length k \<le> length X
      else \<not> thinkingTagInside a \<and> thinkingTagBuf a = '''' \<and> k = X \<and> suppressReasoningContent a \<and>
        w = drop (length (thinkingOpenTag @ X @ thinkingCloseTag)) c \<and> HasText a = (w \<noteq> ''''))"

definition note_text :: "string \<Rightarrow> responseAccumulator \<Rightarrow> responseAccumulator" where
  "note_text t a = (if t \<noteq> '''' then a\<lparr>HasText := True\<rparr> else a)"

lemma enter_tag:
  assumes "t_buf t = thinkingOpenTag @ r" "\<not> t_inside t" "t_text t = ''''"
  shows "tag_loop True t = tag_loop True (t\<lparr>t_buf := r, t_inside := True, t_suppress := True\<rparr>)"
proof -
  have "str_index (t_buf t) thinkingOpenTag = Some 0" using assms(1) by (simp add: tags)
  with assms show ?thesis
    by (subst tag_loop.simps) (simp add: Let_def canStartThinking_def tags_nonempty)
qed

lemma tag_loop_partial_open:
  assumes "strict_prefix c thinkingOpenTag" "t_buf t = c" "\<not> t_inside t" "t_text t = ''''"
  shows "tag_loop True t = t"
proof (cases "c = []")
  case True
  with assms(2) show ?thesis by (simp add: tag_loop.simps)
next
  case False
  have none: "str_index c thinkingOpenTag = None"
    using str_index_short prefix_length_less [OF assms(1)] .
  have "length c \<le> partialTagSuffix c thinkingOpenTag" "partialTagSuffix c thinkingOpenTag \<le> length c"
    using partialTagSuffix_spec(1,4) [OF tags_nonempty(1)] assms(1) by blast+
  then have "partialTagSuffix c thinkingOpenTag = length c" by simp
  with none False assms(2-4) show ?thesis
    by (subst tag_loop.simps) (simp add: Let_def canStartThinking_def)
qed

text \<open>Inside the block, from the bytes \<open>r\<close> still to be scanned after the thinking \<open>k\<close> already produced.\<close>

lemma inside_step:
  assumes x: "\<not> str_occurs thinkingCloseTag X" "visible_text y"
    and a: "TextBuf a = ''''" "\<not> HasText a" and k: "length k \<le> length X"
    and r: "prefix (k @ r) (X @ thinkingCloseTag @ y)"
    and t: "t = tag_loop True \<lparr>t_buf = r, t_inside = True, t_suppress = True, t_text = '''', t_think = ''''\<rparr>"
  shows "tag_inv X y (thinkingOpenTag @ k @ r)
    (note_text (t_text t) (a\<lparr>thinkingTagBuf := t_buf t, thinkingTagInside := t_inside t, suppressReasoningContent := t_suppress t\<rparr>))
    (t_text t) (k @ t_think t)"
proof -
  have "prefix k X" using prefix_within [OF append_prefixD [OF r] k] .
  then obtain X' where X: "X = k @ X'" by (auto simp: prefix_def)
  have x': "\<not> str_occurs thinkingCloseTag X'" using x(1) X str_occurs_appendR by metis
  have r': "prefix r (X' @ thinkingCloseTag @ y)" using r X by (metis append.assoc same_prefix_prefix)
  let ?t0 = "\<lparr>t_buf = r, t_inside = True, t_suppress = True, t_text = '''', t_think = ''''\<rparr>"
  have L: "if length r < length (X' @ thinkingCloseTag)
    then \<exists>B K. t = ?t0\<lparr>t_think := K, t_buf := B\<rparr> \<and> K @ B = r \<and> length K \<le> length X'
    else t = ?t0\<lparr>t_think := X', t_buf := '''', t_inside := False, t_text := drop (length (X' @ thinkingCloseTag)) r\<rparr>"
    unfolding t by (rule tag_loop_inside [OF x' x(2)]) (simp_all add: r')
  show ?thesis
  proof (cases "length r < length (X' @ thinkingCloseTag)")
    case True
    then obtain B K where "t = ?t0\<lparr>t_think := K, t_buf := B\<rparr>" "K @ B = r" "length K \<le> length X'"
      using L [unfolded if_P [OF True]] by blast
    with True a k X show ?thesis by (auto simp: tag_inv_def note_text_def)
  next
    case False
    note L [unfolded if_not_P [OF False]]
    with False a k X show ?thesis by (auto simp: tag_inv_def note_text_def)
  qed
qed

lemma tag_step:
  assumes x: "\<not> str_occurs thinkingCloseTag X" "visible_text y"
    and inv: "tag_inv X y c a w k" and pre: "prefix (c @ d) (thinkingOpenTag @ X @ thinkingCloseTag @ y)"
    and p: "parseThinkingTags d a = (a', t, th)"
  shows "tag_inv X y (c @ d) (note_text t a') (w @ t) (k @ th)"
proof -
  let ?o = thinkingOpenTag and ?c = thinkingCloseTag
  let ?t0 = "\<lparr>t_buf = thinkingTagBuf a @ d, t_inside = thinkingTagInside a,
                t_suppress = suppressReasoningContent a, t_text = '''', t_think = ''''\<rparr>"
  have TB: "TextBuf a = ''''" using inv by (simp add: tag_inv_def)
  consider (A) "length c < length ?o" | (B) "length ?o \<le> length c" "length c < length (?o @ X @ ?c)"
    | (C) "length (?o @ X @ ?c) \<le> length c" by fastforce
  then show ?thesis
  proof cases
    case A
    then have st: "\<not> HasText a" "thinkingTagBuf a = c" "\<not> thinkingTagInside a" "w = ''''" "k = ''''"
      using inv by (simp_all add: tag_inv_def)
    show ?thesis
    proof (cases "c @ d = []")
      case True
      with p st inv show ?thesis by (simp add: parseThinkingTags_def note_text_def)
    next
      case False
      then have "hd (c @ d) = CHR ''<''" using pre by (cases "c @ d") (auto simp: prefix_def tags)
      then have slow: "\<not> (c = '''' \<and> CHR ''<'' \<notin> set d)" using False by (cases d) auto
      have p': "a' = a\<lparr>thinkingTagBuf := t_buf (tag_loop True ?t0), thinkingTagInside := t_inside (tag_loop True ?t0),
          suppressReasoningContent := t_suppress (tag_loop True ?t0)\<rparr>"
        "t = t_text (tag_loop True ?t0)" "th = t_think (tag_loop True ?t0)"
        using p slow st TB by (auto simp: parseThinkingTags_def Let_def)
      show ?thesis
      proof (cases "length (c @ d) < length ?o")
        case True
        then have "strict_prefix (c @ d) ?o" using prefix_within [OF pre] by (metis less_imp_le_nat nat_less_le strict_prefix_def)
        then have "tag_loop True ?t0 = ?t0" by (rule tag_loop_partial_open) (simp_all add: st)
        with p' True st TB show ?thesis by (simp add: tag_inv_def note_text_def)
      next
        case False
        then obtain r where r: "c @ d = ?o @ r" using prefix_beyond(1) [OF pre] by (metis not_less)
        then have "prefix ('''' @ r) (X @ ?c @ y)" using pre by simp
        note step = inside_step [OF x TB st(1) _ this refl]
        have "tag_loop True ?t0 = tag_loop True \<lparr>t_buf = r, t_inside = True, t_suppress = True, t_text = '''', t_think = ''''\<rparr>"
          using enter_tag [of ?t0 r] r st by simp
        with step p' r st show ?thesis by simp
      qed
    qed
  next
    case B
    then have st: "\<not> HasText a" "thinkingTagInside a" "w = ''''" "suppressReasoningContent a"
      "?o @ k @ thinkingTagBuf a = c" "length k \<le> length X"
      using inv by (simp_all add: tag_inv_def)
    have "prefix (k @ thinkingTagBuf a @ d) (X @ ?c @ y)" using pre st(5) by (metis append.assoc same_prefix_prefix)
    note step = inside_step [OF x TB st(1,6) this refl]
    with p st TB show ?thesis by (auto simp: parseThinkingTags_def Let_def)
  next
    case C
    then have st: "\<not> thinkingTagInside a" "thinkingTagBuf a = ''''" "k = X" "suppressReasoningContent a"
      "w = drop (length (?o @ X @ ?c)) c" "HasText a = (w \<noteq> '''')"
      using inv by (auto simp: tag_inv_def)
    have vis: "visible_text d \<or> \<not> (\<not> HasText a)"
    proof (cases "w = ''''")
      case True
      with C st have "length c = length (?o @ X @ ?c)" by simp
      with prefix_beyond(2) [of "c @ d" "?o @ X @ ?c" y] pre have "prefix d y" by simp
      with x(2) show ?thesis by (auto simp: visible_text_def prefix_def)
    qed (simp add: st)
    have "a' = a \<and> t = d \<and> th = ''''"
      using p tag_loop_outside_text [of d "\<not> HasText a" ?t0] vis st TB
      by (auto simp: parseThinkingTags_def Let_def split: if_splits)
    with C st TB show ?thesis by (auto simp: tag_inv_def note_text_def)
  qed
qed

lemma tags_run_inv:
  assumes "\<not> str_occurs thinkingCloseTag X" "visible_text y" "tag_inv X y c a w k"
    "prefix (c @ concat ds) (thinkingOpenTag @ X @ thinkingCloseTag @ y)" "tags_run ds a = (a', t, th)"
  shows "tag_inv X y (c @ concat ds) a' (w @ t) (k @ th)"
  using assms(3-)
proof (induction ds arbitrary: c a w k t th)
  case (Cons d ds)
  obtain a1 t1 k1 where p: "parseThinkingTags d a = (a1, t1, k1)" by (metis prod.collapse)
  obtain t2 k2 where r: "tags_run ds (note_text t1 a1) = (a', t2, k2)" "t = t1 @ t2" "th = k1 @ k2"
    using Cons.prems(3) p by (auto simp: Let_def note_text_def split: prod.splits)
  have "prefix (c @ d) (thinkingOpenTag @ X @ thinkingCloseTag @ y)"
    using Cons.prems(2) by (metis append.assoc concat.simps(2) append_prefixD)
  note step = tag_step [OF assms(1,2) Cons.prems(1) this p]
  from Cons.IH [OF step _ r(1)] Cons.prems(2) r(2,3) show ?case by simp
qed simp




text \<open>
  White space before the open tag is allowed only when it arrives in the same delta as the tag: on
  its own it counts as visible text, and the block that follows is shown as text.
\<close>

lemma split_whitespace_disables_tag:
  "snd (tags_run ['' '', ''<thinking>a</thinking>b''] zero_accumulator) = ('' <thinking>a</thinking>b'', '''') \<and>
   snd (tags_run ['' <thinking>a</thinking>b''] zero_accumulator) = (''b'', ''a'')"
  by code_simp

end
