(* ===== verification/Tool_Calls.thy ===== *)
theory Tool_Calls
  imports Resp_State
begin

text \<open>
  \<open>internal/respconv/tool_calls.go\<close> and \<open>invalid_tool_call.go\<close>: removal of duplicate tool calls and
  the helpers for rejected ones. \<open>normal\<close> is \<open>normalizeJSON\<close>, which decodes and re-encodes with the
  JSON library.
\<close>

text \<open>Phase 1: the longest input per identifier, and the identifiers in order of appearance.\<close>

fun dedup_ids :: "ToolCall list \<Rightarrow> (string \<rightharpoonup> ToolCall) \<times> string list \<Rightarrow> (string \<rightharpoonup> ToolCall) \<times> string list" where
  "dedup_ids [] s = s"
| "dedup_ids (c # cs) (byID, order) =
     (case byID (tc_ID c) of
        Some existing \<Rightarrow>
          dedup_ids cs (if length (tc_Input c) > length (tc_Input existing) then byID(tc_ID c \<mapsto> c) else byID, order)
      | None \<Rightarrow> dedup_ids cs (byID(tc_ID c \<mapsto> c), order @ [tc_ID c]))"

text \<open>Phase 2: the first call of each name and normalised input.\<close>

fun dedup_args :: "(string \<Rightarrow> string) \<Rightarrow> (string \<rightharpoonup> ToolCall) \<Rightarrow> string list \<Rightarrow> (string \<times> string) list \<Rightarrow> ToolCall list" where
  "dedup_args normal byID [] seen = []"
| "dedup_args normal byID (i # is) seen =
     (case byID i of
        None \<Rightarrow> dedup_args normal byID is seen
      | Some c \<Rightarrow>
          (let k = (tc_Name c, normal (tc_Input c)) in
           if k \<in> set seen then dedup_args normal byID is seen
           else c # dedup_args normal byID is (k # seen)))"

definition DeduplicateToolCalls :: "(string \<Rightarrow> string) \<Rightarrow> ToolCall list \<Rightarrow> ToolCall list" where
  "DeduplicateToolCalls normal calls =
     (if length calls \<le> 1 then calls
      else (let (byID, order) = dedup_ids calls (Map.empty, []) in dedup_args normal byID order []))"

definition truncateLogValue :: "string \<Rightarrow> int \<Rightarrow> string" where
  "truncateLogValue s maxRunes =
     (if maxRunes \<le> 0 \<or> int (rune_count s) \<le> maxRunes then s
      else rune_take (nat maxRunes) s @ [CHR 0xE2, CHR 0x80, CHR 0xA6])"

definition discardInvalidToolCallWarning :: "responseAccumulator \<Rightarrow> responseAccumulator" where
  "discardInvalidToolCallWarning a = a\<lparr>InvalidToolCalls := []\<rparr>"

section \<open>What is kept\<close>

definition call_key :: "(string \<Rightarrow> string) \<Rightarrow> ToolCall \<Rightarrow> string \<times> string" where
  "call_key normal c = (tc_Name c, normal (tc_Input c))"

text \<open>Phase 1 after the calls \<open>done\<close>: an identifier has an entry exactly when it occurred, a longest one.\<close>

definition ids_inv :: "ToolCall list \<Rightarrow> (string \<rightharpoonup> ToolCall) \<times> string list \<Rightarrow> bool" where
  "ids_inv past s \<longleftrightarrow>
     (case s of (byID, order) \<Rightarrow>
        distinct order \<and> set order = tc_ID ` set past \<and> dom byID = set order \<and>
        (\<forall>i c. byID i = Some c \<longrightarrow> tc_ID c = i \<and> c \<in> set past \<and>
           (\<forall>d \<in> set past. tc_ID d = i \<longrightarrow> length (tc_Input d) \<le> length (tc_Input c))))"

lemma dedup_ids_inv: "ids_inv past s \<Longrightarrow> ids_inv (past @ cs) (dedup_ids cs s)"
proof (induction cs arbitrary: past s)
  case (Cons c cs)
  obtain byID order where s: "s = (byID, order)" by fastforce
  let ?s = "case byID (tc_ID c) of
      Some e \<Rightarrow> (if length (tc_Input c) > length (tc_Input e) then byID(tc_ID c \<mapsto> c) else byID, order)
    | None \<Rightarrow> (byID(tc_ID c \<mapsto> c), order @ [tc_ID c])"
  have "ids_inv (past @ [c]) ?s"
  proof (cases "byID (tc_ID c)")
    case None
    then have "tc_ID c \<notin> set order" using Cons.prems s by (auto simp: ids_inv_def)
    moreover from this have "tc_ID d \<noteq> tc_ID c" if "d \<in> set past" for d
      using that Cons.prems s by (auto simp: ids_inv_def) (metis image_eqI)
    ultimately show ?thesis using None Cons.prems s by (auto simp: ids_inv_def)
  next
    case (Some e)
    then have "tc_ID c \<in> set order" using Cons.prems s by (auto simp: ids_inv_def)
    with Some Cons.prems s show ?thesis
      by (auto simp: ids_inv_def) (use order.strict_implies_order order.trans in blast)+
  qed
  moreover have "dedup_ids (c # cs) s = dedup_ids cs ?s" by (simp add: s split: option.split)
  ultimately show ?case using Cons.IH by (metis append.assoc append_Cons append_Nil)
qed simp

lemma dedup_args_sound:
  assumes "\<forall>i c. byID i = Some c \<longrightarrow> tc_ID c = i" "distinct order"
  shows "set (dedup_args normal byID order seen) \<subseteq> {c. \<exists>i \<in> set order. byID i = Some c \<and> call_key normal c \<notin> set seen} \<and>
    distinct (map (call_key normal) (dedup_args normal byID order seen)) \<and>
    distinct (map tc_ID (dedup_args normal byID order seen))"
  using assms(2)
proof (induction order arbitrary: seen)
  case (Cons i order)
  show ?case
  proof (cases "byID i")
    case None
    with Cons show ?thesis by auto
  next
    case (Some c)
    note IH1 = Cons.IH [of seen] and IH2 = Cons.IH [of "call_key normal c # seen"]
    have "\<not> (\<exists>d \<in> set (dedup_args normal byID order (call_key normal c # seen)). tc_ID d = tc_ID c)"
      using IH2 Cons.prems Some assms(1) by auto
    moreover have "\<not> (\<exists>d \<in> set (dedup_args normal byID order (call_key normal c # seen)). call_key normal d = call_key normal c)"
      using IH2 Cons.prems by auto
    ultimately show ?thesis using IH1 IH2 Cons.prems Some
      by (auto simp: Let_def call_key_def [symmetric])
  qed
qed simp

lemma dedup_args_complete:
  "i \<in> set order \<Longrightarrow> byID i = Some c \<Longrightarrow>
   call_key normal c \<in> set seen \<union> call_key normal ` set (dedup_args normal byID order seen)"
proof (induction order arbitrary: seen)
  case (Cons j order)
  show ?case
  proof (cases "byID j")
    case None
    with Cons show ?thesis by auto
  next
    case (Some d)
    note IH = Cons.IH [OF _ Cons.prems(2), of seen] Cons.IH [OF _ Cons.prems(2), of "call_key normal d # seen"]
    from Some IH Cons.prems show ?thesis
      by (cases "i = j") (auto simp: Let_def call_key_def [symmetric])
  qed
qed simp

text \<open>
  C40. Deduplication of tool calls: the kept calls are among the given ones, no two share an
  identifier and no two have the same name and the same normalised input; and no call is lost: for
  each call there is a longest one with its identifier, and a call with that one's name and
  normalised input is kept.
\<close>

theorem dedup_correct:
  assumes "res = DeduplicateToolCalls normal calls"
  shows "set res \<subseteq> set calls \<and> distinct (map tc_ID res) \<and> distinct (map (call_key normal) res) \<and>
    (\<forall>c \<in> set calls. \<exists>k \<in> set calls. tc_ID k = tc_ID c \<and>
       (\<forall>d \<in> set calls. tc_ID d = tc_ID c \<longrightarrow> length (tc_Input d) \<le> length (tc_Input k)) \<and>
       call_key normal k \<in> call_key normal ` set res)"
proof (cases "length calls \<le> 1")
  case True
  then have "calls = [] \<or> (\<exists>c. calls = [c])" by (cases calls) auto
  with assms True show ?thesis by (auto simp: DeduplicateToolCalls_def)
next
  case False
  obtain byID order where d: "dedup_ids calls (Map.empty, []) = (byID, order)" by fastforce
  have "ids_inv [] (Map.empty, [])" by (simp add: ids_inv_def)
  from dedup_ids_inv [OF this, of calls] d have inv: "ids_inv calls (byID, order)" by simp
  then have by_ok: "\<forall>i c. byID i = Some c \<longrightarrow> tc_ID c = i" "distinct order" by (auto simp: ids_inv_def)
  have res: "res = dedup_args normal byID order []" using assms False d by (simp add: DeduplicateToolCalls_def)
  note sound = dedup_args_sound [OF by_ok, of normal "[]", folded res]
  have sub: "set res \<subseteq> set calls" using sound inv by (auto simp: ids_inv_def)
  have "\<exists>k \<in> set calls. tc_ID k = tc_ID c \<and>
       (\<forall>d \<in> set calls. tc_ID d = tc_ID c \<longrightarrow> length (tc_Input d) \<le> length (tc_Input k)) \<and>
       call_key normal k \<in> call_key normal ` set res" if c: "c \<in> set calls" for c
  proof -
    have i: "tc_ID c \<in> set order" using c inv by (auto simp: ids_inv_def)
    moreover have "dom byID = set order" using inv by (simp add: ids_inv_def)
    ultimately obtain k where k: "byID (tc_ID c) = Some k" by blast
    from dedup_args_complete [where byID = byID, OF i k, of normal "[]", folded res]
    have "call_key normal k \<in> call_key normal ` set res" by simp
    moreover have "tc_ID k = tc_ID c" "k \<in> set calls"
      "\<forall>d \<in> set calls. tc_ID d = tc_ID c \<longrightarrow> length (tc_Input d) \<le> length (tc_Input k)"
      using inv k by (auto simp: ids_inv_def)
    ultimately show ?thesis by blast
  qed
  with sound sub show ?thesis by auto
qed

theorem dedup_correct_witness:
  "distinct (map tc_ID (DeduplicateToolCalls (\<lambda>s. s)
     [\<lparr>tc_ID = ''1'', tc_Name = ''R'', tc_Input = ''{}''\<rparr>, \<lparr>tc_ID = ''1'', tc_Name = ''R'', tc_Input = ''{aa}''\<rparr>,
      \<lparr>tc_ID = ''2'', tc_Name = ''R'', tc_Input = ''{aa}''\<rparr>])) \<and>
   DeduplicateToolCalls (\<lambda>s. s)
     [\<lparr>tc_ID = ''1'', tc_Name = ''R'', tc_Input = ''{}''\<rparr>, \<lparr>tc_ID = ''1'', tc_Name = ''R'', tc_Input = ''{aa}''\<rparr>,
      \<lparr>tc_ID = ''2'', tc_Name = ''R'', tc_Input = ''{aa}''\<rparr>] = [\<lparr>tc_ID = ''1'', tc_Name = ''R'', tc_Input = ''{aa}''\<rparr>]"
  using dedup_correct [OF refl, of "\<lambda>s. s" "[\<lparr>tc_ID = ''1'', tc_Name = ''R'', tc_Input = ''{}''\<rparr>,
      \<lparr>tc_ID = ''1'', tc_Name = ''R'', tc_Input = ''{aa}''\<rparr>, \<lparr>tc_ID = ''2'', tc_Name = ''R'', tc_Input = ''{aa}''\<rparr>]"]
  by (simp add: DeduplicateToolCalls_def)

end
