(* ===== verification/Accumulator.thy ===== *)
theory Accumulator
  imports Token_Budget Stop_Sequence Thinking_Tags Tool_Calls Chunk_Delta
begin

text \<open>
  \<open>internal/respconv/accumulator.go\<close>, \<open>usage.go\<close>, \<open>usage_adjuster.go\<close> and \<open>finalize.go\<close>: creation of the
  accumulator, the flush at the end of a stream, token usage and the final result.
\<close>

section \<open>Accumulator\<close>

definition newAccumulator :: "int \<Rightarrow> string list \<Rightarrow> int \<Rightarrow> int \<Rightarrow> responseAccumulator" where
  "newAccumulator contextWindowSize stopSeqs maxTokens preCounted =
     initStopSequences stopSeqs
       (zero_accumulator\<lparr>ContextWindowSize := contextWindowSize, maxTokensBudget := maxTokens,
          PreCountedInputTokens := preCounted\<rparr>)"

definition IsEmptyVisibleEndTurn :: "responseAccumulator \<Rightarrow> bool" where
  "IsEmptyVisibleEndTurn a =
     (if LocalStop a then False else ThinkingBuf a \<noteq> '''' \<and> TextBuf a = '''' \<and> \<not> HasToolUse a)"

definition accumulateThinking :: "string \<Rightarrow> EventDelta \<Rightarrow> responseAccumulator \<Rightarrow> responseAccumulator \<times> EventDelta" where
  "accumulateThinking thought d a =
     (let (a, thought) = applyMaxTokensBudget thought a;
          (a, d) = (if thought \<noteq> '''' then (a\<lparr>ThinkingBuf := ThinkingBuf a @ thought\<rparr>, d\<lparr>ThinkingDelta := thought\<rparr>)
                    else (a, d))
      in if LocalStop a then (a, d\<lparr>StopSignal := True, d_StopReason := StopReason a\<rparr>) else (a, d))"

text \<open>
  The text path, shared by \<open>ProcessEvent\<close> and \<open>FinalizeStream\<close>, which both contain it: stop sequences
  if there are any, the token limit unless a stop was raised, then the text buffer. The result is
  the text written.
\<close>

definition accumulate_text :: "string \<Rightarrow> responseAccumulator \<Rightarrow> responseAccumulator \<times> string" where
  "accumulate_text textOut a =
     (let a = a\<lparr>HasText := True\<rparr>;
          (a, textOut) = (if stopSequences a \<noteq> [] then applyStopSequenceFilter textOut a else (a, textOut));
          (a, textOut) = (if textOut \<noteq> '''' \<and> \<not> LocalStop a then applyMaxTokensBudget textOut a else (a, textOut))
      in (if textOut \<noteq> '''' then (a\<lparr>TextBuf := TextBuf a @ textOut\<rparr>, textOut) else (a, '''')))"

definition FinalizeStream :: "responseAccumulator \<Rightarrow> responseAccumulator \<times> string \<times> string" where
  "FinalizeStream a =
     (let (a, textOut, thinkingOut) = finalizeThinkingTags a;
          (a, thinkingDelta) =
            (if thinkingOut \<noteq> '''' then (let (a, d) = accumulateThinking thinkingOut zero_delta a in (a, ThinkingDelta d))
             else (a, ''''));
          (a, textDelta) = (if textOut \<noteq> '''' then accumulate_text textOut a else (a, ''''));
          (a, remaining) = flushStopSeqPending a
      in if remaining \<noteq> '''' \<and> \<not> LocalStop a
         then (let (a, remaining) = applyMaxTokensBudget remaining a in
               if remaining \<noteq> '''' then (a\<lparr>TextBuf := TextBuf a @ remaining\<rparr>, textDelta @ remaining, thinkingDelta)
               else (a, textDelta, thinkingDelta))
         else (a, textDelta, thinkingDelta))"

section \<open>Usage\<close>

definition estimatedOutputTokens :: "responseAccumulator \<Rightarrow> int" where
  "estimatedOutputTokens a = (if outputRuneCount a = 0 then 0 else max 1 (outputRuneCount a div 4))"

text \<open>Percentages are rationals: the rounding of \<open>float64\<close> products is not modelled.\<close>

definition rawResolvedUsage :: "responseAccumulator \<Rightarrow> int \<times> int" where
  "rawResolvedUsage a =
     (if HasMetadata a \<or> a_InputTokens a > 0 \<or> a_OutputTokens a > 0 then (a_InputTokens a, a_OutputTokens a)
      else if PreCountedInputTokens a > 0 then (PreCountedInputTokens a, estimatedOutputTokens a)
      else if HasContextUsage a \<and> ContextWindowSize a > 0
      then (let pct = max 0 (min 100 (a_ContextUsagePercentage a));
                estOutput = estimatedOutputTokens a;
                total = \<lfloor>pct / 100 * of_int (ContextWindowSize a)\<rfloor>
            in (max 0 (total - estOutput), estOutput))
      else (0, 0))"

definition resolvedUsage :: "responseAccumulator \<Rightarrow> int \<times> int" where
  "resolvedUsage a =
     (case FinalUsage a of
        Some u \<Rightarrow> (u_InputTokens u, u_OutputTokens u)
      | None \<Rightarrow> rawResolvedUsage a)"

type_synonym usage_map = "(string \<times> int) list"

definition mapValue :: "Usage \<Rightarrow> usage_map" where
  "mapValue u =
     [(''input_tokens'', u_InputTokens u), (''output_tokens'', u_OutputTokens u),
      (''cache_read_input_tokens'', u_CacheReadInputTokens u),
      (''cache_creation_input_tokens'', u_CacheWriteInputTokens u)] @
     (if u_CacheCreation5mInputTokens u > 0 \<or> u_CacheCreation1hInputTokens u > 0
      then [(''cache_creation_5m_input_tokens'', u_CacheCreation5mInputTokens u),
            (''cache_creation_1h_input_tokens'', u_CacheCreation1hInputTokens u)] else [])"

definition base_usage :: "int \<Rightarrow> int \<Rightarrow> responseAccumulator \<Rightarrow> Usage" where
  "base_usage inputTokens outputTokens a =
     \<lparr>u_InputTokens = inputTokens, u_OutputTokens = outputTokens,
      u_CacheReadInputTokens = a_CacheReadInputTokens a, u_CacheWriteInputTokens = a_CacheWriteInputTokens a,
      u_CacheCreation5mInputTokens = 0, u_CacheCreation1hInputTokens = 0\<rparr>"

definition UsageMap :: "int \<Rightarrow> int \<Rightarrow> responseAccumulator \<Rightarrow> usage_map" where
  "UsageMap inputTokens outputTokens a =
     (case FinalUsage a of
        Some u \<Rightarrow> mapValue u
      | None \<Rightarrow> mapValue (base_usage inputTokens outputTokens a))"

section \<open>Final result\<close>

record finalResult =
  r_StopReason :: string
  r_StopSequence :: "string option"
  r_InputTokens :: int
  r_OutputTokens :: int
  r_RawInputTokens :: int
  r_RawOutputTokens :: int
  r_RawCacheReadTokens :: int
  r_RawCacheWriteTokens :: int
  r_Usage :: usage_map

text \<open>The six tests after the adjuster.\<close>

definition clamp_usage :: "Usage \<Rightarrow> Usage" where
  "clamp_usage u =
     \<lparr>u_InputTokens = max 0 (u_InputTokens u), u_OutputTokens = max 0 (u_OutputTokens u),
      u_CacheReadInputTokens = max 0 (u_CacheReadInputTokens u),
      u_CacheWriteInputTokens = max 0 (u_CacheWriteInputTokens u),
      u_CacheCreation5mInputTokens = max 0 (u_CacheCreation5mInputTokens u),
      u_CacheCreation1hInputTokens = max 0 (u_CacheCreation1hInputTokens u)\<rparr>"

definition finalizeResult :: "responseAccumulator \<Rightarrow> responseAccumulator \<times> string \<times> string \<times> finalResult" where
  "finalizeResult a =
     (let (a, textDelta, thinkingDelta) = FinalizeStream a;
          (stopReason, stopSequence) = resolveStopReason a;
          (rawIn, rawOut) = rawResolvedUsage a;
          cacheRead = a_CacheReadInputTokens a; cacheWrite = a_CacheWriteInputTokens a;
          a = a\<lparr>RawInputTokens := rawIn, RawOutputTokens := rawOut, RawCacheReadTokens := cacheRead,
                RawCacheWriteTokens := cacheWrite\<rparr>;
          usage = base_usage rawIn rawOut a;
          usage = (case a_UsageAdjuster a of None \<Rightarrow> usage | Some f \<Rightarrow> clamp_usage (f usage));
          a = a\<lparr>FinalUsage := Some usage\<rparr>
      in (a, textDelta, thinkingDelta,
          \<lparr>r_StopReason = stopReason, r_StopSequence = stopSequence, r_InputTokens = u_InputTokens usage,
           r_OutputTokens = u_OutputTokens usage, r_RawInputTokens = rawIn, r_RawOutputTokens = rawOut,
           r_RawCacheReadTokens = cacheRead, r_RawCacheWriteTokens = cacheWrite,
           r_Usage = UsageMap (u_InputTokens usage) (u_OutputTokens usage) a\<rparr>))"

end
