(* ===== verification/Json.thy ===== *)
theory Json
  imports Prelude
begin

text \<open>
  The Go values of decoded JSON (\<open>any\<close>): what \<open>json.Unmarshal\<close> puts into an \<open>any\<close> variable. A
  \<open>map[string]any\<close> is the list of its entries in the order in which an iteration over the map
  visits them; its keys are distinct.
\<close>

datatype json =
    JNull
  | JBool bool
  | JNum float64
  | JStr string
  | JArr "json list"
  | JObj "(string \<times> json) list"

type_synonym jmap = "(string \<times> json) list"

text \<open>\<open>m[k] = v\<close> keeps the place of an existing key; \<open>maps.Copy(dst, src)\<close> assigns every entry.\<close>

fun jput :: "string \<Rightarrow> json \<Rightarrow> jmap \<Rightarrow> jmap" where
  "jput k v [] = [(k, v)]"
| "jput k v ((k', v') # m) = (if k = k' then (k, v) # m else (k', v') # jput k v m)"

definition jcopy :: "jmap \<Rightarrow> jmap \<Rightarrow> jmap" where
  "jcopy src dst = fold (\<lambda>(k, v) m. jput k v m) src dst"

lemma map_of_jput [simp]: "map_of (jput k v m) = (map_of m)(k \<mapsto> v)"
  by (induction m) auto

lemma map_of_jcopy: "distinct (map fst src) \<Longrightarrow> map_of (jcopy src dst) = map_of dst ++ map_of src"
proof (induction src arbitrary: dst)
  case (Cons kv src)
  obtain k v where kv: "kv = (k, v)" by fastforce
  have "map_of (jcopy (kv # src) dst) = (map_of dst)(k \<mapsto> v) ++ map_of src"
    using Cons kv by (simp add: jcopy_def)
  also have "\<dots> = map_of dst ++ (map_of src)(k \<mapsto> v)"
  proof -
    have "map_of src k = None" using Cons.prems kv by (simp add: map_of_eq_None_iff)
    then show ?thesis by (intro ext) (auto simp: map_add_def split: option.splits)
  qed
  finally show ?case unfolding kv map_of.simps fst_conv snd_conv .
qed (simp add: jcopy_def)

lemma fst_jput: "set (map fst (jput k v m)) = insert k (set (map fst m))"
  by (induction k v m rule: jput.induct) (simp_all add: insert_commute)

lemma distinct_jput: "distinct (map fst m) \<Longrightarrow> distinct (map fst (jput k v m))"
proof (induction m)
  case (Cons kv m)
  have "set (map fst (jput k v m)) = insert k (set (map fst m))" by (rule fst_jput)
  with Cons show ?case by (cases kv) auto
qed simp

lemma set_jput: "set (jput k v m) \<subseteq> insert (k, v) (set m)"
  by (induction m) (auto split: if_splits)

lemma set_jcopy: "set (jcopy src dst) \<subseteq> set src \<union> set dst"
proof (induction src arbitrary: dst)
  case (Cons kv src)
  obtain k v where kv: "kv = (k, v)" by fastforce
  have "set (jcopy (kv # src) dst) \<subseteq> set src \<union> set (jput k v dst)"
    using Cons.IH [of "jput k v dst"] kv by (simp add: jcopy_def)
  also have "\<dots> \<subseteq> set (kv # src) \<union> set dst" using set_jput [of k v dst] kv by auto
  finally show ?case .
qed (simp add: jcopy_def)

lemma distinct_jcopy: "distinct (map fst dst) \<Longrightarrow> distinct (map fst (jcopy src dst))"
  by (induction src arbitrary: dst) (auto simp: jcopy_def distinct_jput)

end
