(* ===== verification/Schema_Sanitize.thy ===== *)
theory Schema_Sanitize
  imports Json
begin

text \<open>
  \<open>internal/reqconv/schema_sanitize.go\<close>: the rewriting of a tool's JSON schema into the subset Kiro
  accepts. A nil map is the empty one.
\<close>

definition unsupportedKeywords :: "string list" where
  "unsupportedKeywords =
     [''additionalProperties'', ''$schema'', ''propertyNames'', ''default'', ''exclusiveMinimum'',
      ''exclusiveMaximum'', ''$defs'', ''$ref'', ''patternProperties'', ''if'', ''then'', ''else'',
      ''dependentRequired'', ''dependentSchemas'', ''prefixItems'', ''unevaluatedProperties'',
      ''unevaluatedItems'', ''contentMediaType'', ''contentEncoding'', ''format'', ''pattern'',
      ''minLength'', ''maxLength'', ''minimum'', ''maximum'', ''minItems'', ''maxItems'', ''uniqueItems'',
      ''multipleOf'', ''not'']"

text \<open>The type assertions \<open>v.(string)\<close>, \<open>v.(map[string]any)\<close> with their zero values.\<close>

definition as_string :: "json option \<Rightarrow> string" where
  "as_string v = (case v of Some (JStr s) \<Rightarrow> s | _ \<Rightarrow> '''')"

definition as_map :: "json option \<Rightarrow> jmap" where
  "as_map v = (case v of Some (JObj m) \<Rightarrow> m | _ \<Rightarrow> [])"

definition requiredNames :: "json option \<Rightarrow> string list" where
  "requiredNames v =
     (case v of
        Some (JArr xs) \<Rightarrow> concat (map (\<lambda>x. case x of JStr s \<Rightarrow> [s] | _ \<Rightarrow> []) xs)
      | _ \<Rightarrow> [])"

definition dropNullBranches :: "json list \<Rightarrow> json list" where
  "dropNullBranches branches =
     filter (\<lambda>b. case b of JObj m \<Rightarrow> map_of m ''type'' \<noteq> Some (JStr ''null'') | _ \<Rightarrow> True) branches"

text \<open>
  The three merges run over the sanitized branches; \<open>None\<close> stands for a branch that is not an object.
\<close>

definition branch_schemas :: "(jmap \<Rightarrow> jmap) \<Rightarrow> json list \<Rightarrow> jmap option list" where
  "branch_schemas sanitize branches = map (\<lambda>b. case b of JObj m \<Rightarrow> Some (sanitize m) | _ \<Rightarrow> None) branches"

fun object_loop :: "bool \<Rightarrow> jmap option list \<Rightarrow> jmap \<times> string list \<times> string list
    \<Rightarrow> (jmap \<times> string list \<times> string list) option" where
  "object_loop first [] s = Some s"
| "object_loop first (None # bs) s = None"
| "object_loop first (Some m # bs) (properties, commonRequired, requiredOrder) =
     (let props = as_map (map_of m ''properties''); typ = as_string (map_of m ''type'') in
      if typ \<noteq> ''object'' \<and> props = [] then None
      else
        (let properties = fold (\<lambda>(n, p) ps. if n \<in> set (map fst ps) then ps else jput n p ps) props properties;
             req = requiredNames (map_of m ''required'')
         in if first then object_loop False bs (properties, req, req)
            else object_loop False bs (properties, filter (\<lambda>n. n \<in> set req) commonRequired, requiredOrder)))"

definition flattenObjectBranches :: "jmap option list \<Rightarrow> jmap option" where
  "flattenObjectBranches branches =
     (if length branches < 2 then None
      else case object_loop True branches ([], [], []) of
        None \<Rightarrow> None
      | Some (properties, commonRequired, requiredOrder) \<Rightarrow>
          if properties = [] then None
          else
            (let required = filter (\<lambda>n. n \<in> set commonRequired) requiredOrder in
             Some ([(''type'', JStr ''object''), (''properties'', JObj properties)] @
               (if required \<noteq> [] then [(''required'', JArr (map JStr required))] else []))))"

fun scalar_loop :: "jmap option list \<Rightarrow> string list \<Rightarrow> string list option" where
  "scalar_loop [] types = Some types"
| "scalar_loop (None # bs) types = None"
| "scalar_loop (Some m # bs) types =
     (if \<not> set (map fst m) \<subseteq> {''type'', ''description''} then None
      else
        (let typ = as_string (map_of m ''type'') in
         if typ = '''' \<or> typ = ''object'' \<or> typ = ''array'' then None
         else if typ \<in> set types then scalar_loop bs types
         else scalar_loop bs (types @ [typ])))"

definition flattenScalarBranches :: "jmap option list \<Rightarrow> jmap option" where
  "flattenScalarBranches branches =
     (if length branches < 2 then None
      else case scalar_loop branches [] of
        None \<Rightarrow> None
      | Some types \<Rightarrow>
          (case types of
             [] \<Rightarrow> None
           | [t] \<Rightarrow> Some [(''type'', JStr t)]
           | _ \<Rightarrow> Some [(''type'', JArr (map JStr types))]))"

fun enum_loop :: "jmap option list \<Rightarrow> json list \<times> string \<times> bool \<Rightarrow> (json list \<times> string \<times> bool) option" where
  "enum_loop [] s = Some s"
| "enum_loop (None # bs) s = None"
| "enum_loop (Some m # bs) (allEnums, typ, typConsistent) =
     (case map_of m ''enum'' of
        Some (JArr arr) \<Rightarrow>
          (case map_of m ''type'' of
             Some (JStr t) \<Rightarrow>
               if typ = '''' then enum_loop bs (allEnums @ arr, t, typConsistent)
               else enum_loop bs (allEnums @ arr, typ, typConsistent \<and> typ = t)
           | _ \<Rightarrow> enum_loop bs (allEnums @ arr, typ, False))
      | _ \<Rightarrow> None)"

definition flattenEnumBranches :: "jmap option list \<Rightarrow> jmap option" where
  "flattenEnumBranches branches =
     (if branches = [] then None
      else case enum_loop branches ([], '''', True) of
        None \<Rightarrow> None
      | Some (allEnums, typ, typConsistent) \<Rightarrow>
          Some ((''enum'', JArr allEnums) # (if typ \<noteq> '''' \<and> typConsistent then [(''type'', JStr typ)] else [])))"

text \<open>The first pass: every key but the combinators.\<close>

definition deep :: "(jmap \<Rightarrow> jmap) \<Rightarrow> json \<Rightarrow> json" where
  "deep sanitize v =
     (case v of
        JObj m \<Rightarrow> JObj (sanitize m)
      | JArr xs \<Rightarrow> JArr (map (\<lambda>x. case x of JObj m \<Rightarrow> JObj (sanitize m) | _ \<Rightarrow> x) xs)
      | _ \<Rightarrow> v)"

definition plain_entry :: "(jmap \<Rightarrow> jmap) \<Rightarrow> string \<times> json \<Rightarrow> jmap \<Rightarrow> jmap" where
  "plain_entry sanitize kv result =
     (let (key, value) = kv in
      if key \<in> set unsupportedKeywords then result
      else if key = ''const'' then jput ''enum'' (JArr [value]) result
      else if key = ''required'' then (if value = JArr [] then result else jput key value result)
      else if key \<in> {''anyOf'', ''oneOf'', ''allOf''} then result
      else jput key (deep sanitize value) result)"

text \<open>The second pass: the combinators.\<close>

definition union_schema :: "(jmap \<Rightarrow> jmap) \<Rightarrow> json list \<Rightarrow> jmap" where
  "union_schema sanitize arr =
     (let branches = dropNullBranches arr; schemas = branch_schemas sanitize branches in
      if branches = [] then []
      else case flattenEnumBranches schemas of
        Some merged \<Rightarrow> merged
      | None \<Rightarrow>
          (case flattenObjectBranches schemas of
             Some merged \<Rightarrow> merged
           | None \<Rightarrow>
               (case flattenScalarBranches schemas of
                  Some merged \<Rightarrow> merged
                | None \<Rightarrow> (case hd schemas of Some m \<Rightarrow> m | None \<Rightarrow> []))))"

definition combinator_entry :: "(jmap \<Rightarrow> jmap) \<Rightarrow> string \<times> json \<Rightarrow> jmap \<Rightarrow> jmap" where
  "combinator_entry sanitize kv result =
     (let (key, value) = kv in
      case value of
        JArr arr \<Rightarrow>
          if key = ''anyOf'' \<or> key = ''oneOf'' then jcopy (union_schema sanitize arr) result
          else if key = ''allOf''
          then fold (\<lambda>m r. case m of Some m \<Rightarrow> jcopy m r | None \<Rightarrow> r) (branch_schemas sanitize arr) result
          else result
      | _ \<Rightarrow> result)"

text \<open>For the recursion: only the objects inside an entry are sanitized.\<close>

lemma branch_schemas_cong:
  "branches = branches' \<Longrightarrow> (\<And>m. JObj m \<in> set branches' \<Longrightarrow> f m = g m) \<Longrightarrow> branch_schemas f branches = branch_schemas g branches'"
  by (auto simp: branch_schemas_def split: json.splits)

definition inner_objects :: "json \<Rightarrow> jmap set" where
  "inner_objects v = (case v of JObj m \<Rightarrow> {m} | JArr xs \<Rightarrow> {m. JObj m \<in> set xs} | _ \<Rightarrow> {})"

lemma deep_cong: "(\<And>m. m \<in> inner_objects v \<Longrightarrow> f m = g m) \<Longrightarrow> deep f v = deep g v"
  by (auto simp: deep_def inner_objects_def split: json.splits)

lemma plain_entry_cong:
  assumes "kv = kv'" "r = r'" "\<And>m. m \<in> inner_objects (snd kv') \<Longrightarrow> f m = g m"
  shows "plain_entry f kv r = plain_entry g kv' r'"
  using assms deep_cong [of "snd kv'" f g] by (cases kv') (auto simp: plain_entry_def)

lemma combinator_entry_cong:
  assumes "kv = kv'" "r = r'" "\<And>m. m \<in> inner_objects (snd kv') \<Longrightarrow> f m = g m"
  shows "combinator_entry f kv r = combinator_entry g kv' r'"
proof -
  have all: "branch_schemas f arr = branch_schemas g arr" if "snd kv' = JArr arr" for arr
    using assms(3) that by (intro branch_schemas_cong) (auto simp: inner_objects_def)
  have some: "branch_schemas f (dropNullBranches arr) = branch_schemas g (dropNullBranches arr)"
    if "snd kv' = JArr arr" for arr
    using assms(3) that by (intro branch_schemas_cong) (auto simp: inner_objects_def dropNullBranches_def)
  have "union_schema f arr = union_schema g arr" if "snd kv' = JArr arr" for arr
    unfolding union_schema_def Let_def some [OF that] ..
  with all assms(1,2) show ?thesis
    by (cases kv') (auto simp: combinator_entry_def split: json.splits)
qed

lemma inner_objects_smaller: "m \<in> inner_objects v \<Longrightarrow> size (JObj m) \<le> size v"
proof (cases v)
  case (JArr xs)
  assume "m \<in> inner_objects v"
  with JArr have "JObj m \<in> set xs" by (simp add: inner_objects_def)
  then have "size (JObj m) \<le> size_list size xs" by (rule size_list_estimation') simp
  with JArr show ?thesis by simp
qed (auto simp: inner_objects_def)

lemma entry_smaller: "(k, v) \<in> set s \<Longrightarrow> size v < size (JObj s)"
proof -
  assume "(k, v) \<in> set s"
  then have "size_prod (\<lambda>_. 0) size (k, v) \<le> size_list (size_prod (\<lambda>_. 0) size) s"
    by (rule size_list_estimation') simp
  then show ?thesis by simp
qed

lemma inner_entry_smaller: "kv \<in> set s \<Longrightarrow> m \<in> inner_objects (snd kv) \<Longrightarrow> size (JObj m) < size (JObj s)"
  using entry_smaller [of "fst kv" "snd kv" s] inner_objects_smaller [of m "snd kv"] by simp

definition plain_pass :: "(jmap \<Rightarrow> jmap) \<Rightarrow> jmap \<Rightarrow> jmap" where
  "plain_pass sanitize schema = fold (plain_entry sanitize) schema []"

definition combinator_pass :: "(jmap \<Rightarrow> jmap) \<Rightarrow> jmap \<Rightarrow> jmap \<Rightarrow> jmap" where
  "combinator_pass sanitize schema result = fold (combinator_entry sanitize) schema result"

lemma plain_pass_cong [fundef_cong]:
  assumes "s = s'" "\<And>kv m. kv \<in> set s' \<Longrightarrow> m \<in> inner_objects (snd kv) \<Longrightarrow> f m = g m"
  shows "plain_pass f s = plain_pass g s'"
  unfolding plain_pass_def using assms by (intro fold_cong plain_entry_cong ext) auto

lemma combinator_pass_cong [fundef_cong]:
  assumes "s = s'" "r = r'" "\<And>kv m. kv \<in> set s' \<Longrightarrow> m \<in> inner_objects (snd kv) \<Longrightarrow> f m = g m"
  shows "combinator_pass f s r = combinator_pass g s' r'"
  unfolding combinator_pass_def using assms by (intro fold_cong combinator_entry_cong ext) auto

function SanitizeJSONSchema :: "jmap \<Rightarrow> jmap" where
  "SanitizeJSONSchema schema =
     (let result = plain_pass SanitizeJSONSchema schema in combinator_pass SanitizeJSONSchema schema result)"
  by pat_completeness auto
termination
  by (relation "measure (\<lambda>m. size (JObj m))")
    (simp_all only: wf_measure in_measure inner_entry_smaller)

declare SanitizeJSONSchema.simps [simp del]


section \<open>The result is in the accepted subset\<close>

definition forbidden :: "string \<Rightarrow> bool" where
  "forbidden k \<longleftrightarrow> k \<in> set unsupportedKeywords \<union> {''const'', ''anyOf'', ''oneOf'', ''allOf''}"

text \<open>
  No rejected keyword, at any depth; the values of \<open>enum\<close> and \<open>required\<close> are data, not schemas.
\<close>

inductive clean :: "jmap \<Rightarrow> bool" where
  "(\<And>k v. (k, v) \<in> set m \<Longrightarrow> \<not> forbidden k) \<Longrightarrow>
   (\<And>k v m'. (k, v) \<in> set m \<Longrightarrow> k \<noteq> ''enum'' \<Longrightarrow> k \<noteq> ''required'' \<Longrightarrow> m' \<in> inner_objects v \<Longrightarrow> clean m') \<Longrightarrow>
   clean m"

inductive_cases cleanE: "clean m"

definition clean_entry :: "string \<times> json \<Rightarrow> bool" where
  "clean_entry kv \<longleftrightarrow> \<not> forbidden (fst kv) \<and>
     (fst kv \<in> {''enum'', ''required''} \<or> (\<forall>m \<in> inner_objects (snd kv). clean m))"

lemma clean_iff: "clean m \<longleftrightarrow> (\<forall>kv \<in> set m. clean_entry kv)"
proof
  assume "clean m"
  then show "\<forall>kv \<in> set m. clean_entry kv"
  proof (cases rule: clean.cases)
    case 1
    show ?thesis
    proof
      fix kv assume "kv \<in> set m"
      then have "(fst kv, snd kv) \<in> set m" by simp
      with 1 show "clean_entry kv" unfolding clean_entry_def by blast
    qed
  qed
next
  assume all: "\<forall>kv \<in> set m. clean_entry kv"
  show "clean m"
  proof (rule clean.intros)
    fix k v assume "(k, v) \<in> set m"
    then show "\<not> forbidden k" using all by (auto simp: clean_entry_def)
  next
    fix k v m' assume "(k, v) \<in> set m" "k \<noteq> ''enum''" "k \<noteq> ''required''" "m' \<in> inner_objects v"
    then show "clean m'" using all unfolding clean_entry_def by fastforce
  qed
qed

text \<open>The keywords the code itself writes.\<close>

lemma allowed_keywords [simp]:
  "\<not> forbidden ''type''" "\<not> forbidden ''properties''" "\<not> forbidden ''required''" "\<not> forbidden ''enum''"
  by (simp_all add: forbidden_def unsupportedKeywords_def)

lemma clean_entry_simps [simp]:
  "clean_entry (k, JStr s) \<longleftrightarrow> \<not> forbidden k"
  "clean_entry (k, JArr (map JStr ss)) \<longleftrightarrow> \<not> forbidden k"
  "clean_entry (''properties'', JObj m) \<longleftrightarrow> clean m"
  "clean_entry (''enum'', v)" "clean_entry (''required'', v)"
  by (auto simp: clean_entry_def inner_objects_def)

lemma clean_Nil [simp]: "clean []"
  by (simp add: clean_iff)

lemma clean_jput: "clean m \<Longrightarrow> clean_entry (k, v) \<Longrightarrow> clean (jput k v m)"
  using set_jput [of k v m] by (auto simp: clean_iff)

lemma clean_jcopy: "clean src \<Longrightarrow> clean dst \<Longrightarrow> clean (jcopy src dst)"
  using set_jcopy [of src dst] by (auto simp: clean_iff)

lemma clean_fold:
  "clean r \<Longrightarrow> (\<And>kv r. kv \<in> set s \<Longrightarrow> clean r \<Longrightarrow> clean (f kv r)) \<Longrightarrow> clean (fold f s r)"
  by (induction s arbitrary: r) auto


lemma inner_deep: "inner_objects (deep f v) \<subseteq> f ` inner_objects v"
  by (cases v) (auto simp: inner_objects_def deep_def split: json.splits)

lemma clean_properties:
  assumes "clean m"
  shows "clean (as_map (map_of m ''properties''))"
proof (cases "map_of m ''properties''")
  case (Some v)
  then have "clean_entry (''properties'', v)" using assms map_of_SomeD [OF Some] by (auto simp: clean_iff)
  then show ?thesis using Some by (cases v) (simp_all add: as_map_def)
qed (simp add: as_map_def)

lemma object_loop_clean:
  assumes "object_loop first bs (ps, c, ro) = Some (ps', c', ro')" "clean ps" "\<forall>m. Some m \<in> set bs \<longrightarrow> clean m"
  shows "clean ps'"
  using assms
proof (induction first bs "(ps, c, ro)" arbitrary: ps c ro rule: object_loop.induct)
  case (3 first m bs ps c ro)
  let ?add = "\<lambda>(n, p) ps. if n \<in> set (map fst ps) then ps else jput n p ps"
  have "clean m" using 3 by simp
  from clean_properties [OF this] have p: "\<forall>kv \<in> set (as_map (map_of m ''properties'')). clean_entry kv" by (simp add: clean_iff)
  have "clean (fold ?add (as_map (map_of m ''properties'')) ps)"
    by (rule clean_fold) (use 3 p in \<open>auto intro!: clean_jput split: prod.splits\<close>)
  with 3 show ?case by (auto simp: Let_def split: if_splits)
qed auto

lemma flatten_clean:
  assumes "\<forall>m. Some m \<in> set bs \<longrightarrow> clean m"
  shows "flattenEnumBranches bs = Some r \<Longrightarrow> clean r" "flattenObjectBranches bs = Some r \<Longrightarrow> clean r"
    "flattenScalarBranches bs = Some r \<Longrightarrow> clean r"
proof -
  show "flattenEnumBranches bs = Some r \<Longrightarrow> clean r"
    by (auto simp: flattenEnumBranches_def clean_iff split: if_splits option.splits)
  have "\<exists>t ts. r = [(''type'', JStr t)] \<or> r = [(''type'', JArr (map JStr ts))]" if "flattenScalarBranches bs = Some r"
    using that by (simp add: flattenScalarBranches_def split: if_splits option.splits list.splits)
      (metis list.simps(9))+
  then show "flattenScalarBranches bs = Some r \<Longrightarrow> clean r" by (auto simp: clean_iff)
  assume "flattenObjectBranches bs = Some r"
  then obtain ps c ro where L: "object_loop True bs ([], [], []) = Some (ps, c, ro)"
    and r: "r = [(''type'', JStr ''object''), (''properties'', JObj ps)] @
      (let req = filter (\<lambda>n. n \<in> set c) ro in if req \<noteq> [] then [(''required'', JArr (map JStr req))] else [])"
    by (auto simp: flattenObjectBranches_def Let_def split: if_splits option.splits)
  have "clean ps" by (rule object_loop_clean [OF L]) (simp_all add: assms)
  then show "clean r" unfolding r by (simp add: clean_iff [of "_ # _"] Let_def)
qed

lemma branch_schemas_clean:
  "(\<And>m. JObj m \<in> set bs \<Longrightarrow> clean (f m)) \<Longrightarrow> Some m \<in> set (branch_schemas f bs) \<Longrightarrow> clean m"
  by (auto simp: branch_schemas_def split: json.splits)

lemma union_schema_clean:
  assumes "\<And>m. JObj m \<in> set arr \<Longrightarrow> clean (f m)"
  shows "clean (union_schema f arr)"
proof -
  let ?bs = "branch_schemas f (dropNullBranches arr)"
  have all: "\<forall>m. Some m \<in> set ?bs \<longrightarrow> clean m"
    using branch_schemas_clean [of "dropNullBranches arr" f] assms by (auto simp: dropNullBranches_def)
  have "hd ?bs \<in> set ?bs" if "dropNullBranches arr \<noteq> []"
    using that by (intro hd_in_set) (simp add: branch_schemas_def)
  with all flatten_clean [OF all] show ?thesis
    by (auto simp: union_schema_def Let_def split: option.split)
qed

lemma if_chain:
  "(if a then x else if b then y else if c then (if d then x else z) else if e then x else w) = t \<Longrightarrow>
   t = x \<or> t = y \<or> (c \<and> t = z) \<or> (\<not> a \<and> \<not> b \<and> \<not> e \<and> t = w)"
  by (auto split: if_splits)


text \<open>
  The same recursion is applied to the map of properties, whose keys are parameter names: a
  parameter named like a rejected keyword is dropped, although \<open>required\<close> still lists it.
\<close>

lemma parameter_dropped:
  "SanitizeJSONSchema [(''type'', JStr ''object''),
     (''properties'', JObj [(''pattern'', JObj [(''type'', JStr ''string'')])]), (''required'', JArr [JStr ''pattern''])] =
   [(''type'', JStr ''object''), (''properties'', JObj []), (''required'', JArr [JStr ''pattern''])]"
  by code_simp

text \<open>With both \<open>anyOf\<close> and \<open>oneOf\<close> the result depends on the order in which the map is visited.\<close>

lemma combinator_order_matters:
  "SanitizeJSONSchema [(''anyOf'', JArr [JObj [(''type'', JStr ''string'')]]), (''oneOf'', JArr [JObj [(''type'', JStr ''integer'')]])]
     = [(''type'', JStr ''integer'')] \<and>
   SanitizeJSONSchema [(''oneOf'', JArr [JObj [(''type'', JStr ''integer'')]]), (''anyOf'', JArr [JObj [(''type'', JStr ''string'')]])]
     = [(''type'', JStr ''string'')]"
  by code_simp

end
