(* ===== verification/Tool_Input.thy ===== *)
theory Tool_Input
  imports Schema_Sanitize Resp_State "HOL-Library.List_Lexorder" "HOL-Library.Char_ord"
begin

text \<open>
  \<open>internal/respconv/tool_input_validator.go\<close>: tool inputs the model produced are checked against the
  required fields and the top-level property types of the advertised schema. Tools are given by
  name and input schema. \<open>parse\<close> is \<open>json.Unmarshal\<close> into a \<open>map[string]any\<close>: \<^const>\<open>None\<close> for an error,
  \<^term>\<open>Some None\<close> for a nil map.
\<close>

section \<open>Building the validator\<close>

text \<open>\<open>slices.Sort\<close> and \<open>slices.Compact\<close>.\<close>

definition sorted_compact :: "string list \<Rightarrow> string list" where
  "sorted_compact ss = remdups_adj (sort ss)"

definition requiredFields :: "jmap \<Rightarrow> string list" where
  "requiredFields schema =
     (case map_of schema ''required'' of
        Some (JArr xs) \<Rightarrow>
          sorted_compact (concat (map (\<lambda>x. case x of JStr s \<Rightarrow> if s \<noteq> '''' then [s] else [] | _ \<Rightarrow> []) xs))
      | _ \<Rightarrow> [])"

definition schemaTypes :: "json option \<Rightarrow> string list" where
  "schemaTypes raw =
     (case raw of
        Some (JStr s) \<Rightarrow> if s \<noteq> '''' then [s] else []
      | Some (JArr xs) \<Rightarrow>
          sorted_compact (concat (map (\<lambda>x. case x of JStr s \<Rightarrow> if s \<noteq> '''' then [s] else [] | _ \<Rightarrow> []) xs))
      | _ \<Rightarrow> [])"

definition propertyTypes :: "jmap \<Rightarrow> (string \<times> string list) list" where
  "propertyTypes schema =
     (case map_of schema ''properties'' of
        Some (JObj props) \<Rightarrow>
          concat (map (\<lambda>(name, prop).
            case prop of
              JObj propSchema \<Rightarrow>
                if name = '''' then []
                else (let types = schemaTypes (map_of propSchema ''type'') in if types \<noteq> [] then [(name, types)] else [])
            | _ \<Rightarrow> []) props)
      | _ \<Rightarrow> [])"

fun add_tools :: "(string \<times> jmap) list \<Rightarrow> ToolInputValidator \<Rightarrow> ToolInputValidator" where
  "add_tools [] v = v"
| "add_tools ((name, inputSchema) # ts) v =
     (if name = '''' then add_tools ts v
      else
        (let schema = SanitizeJSONSchema inputSchema;
             req = requiredFields schema; types = propertyTypes schema;
             v = v\<lparr>v_known := name # v_known v\<rparr>;
             v = (if req \<noteq> [] then v\<lparr>v_required := (v_required v)(name \<mapsto> req)\<rparr> else v);
             v = (if types \<noteq> [] then v\<lparr>v_types := (v_types v)(name \<mapsto> types)\<rparr> else v)
         in add_tools ts v))"

definition NewToolInputValidator :: "(string \<times> jmap) list \<Rightarrow> ToolInputValidator option" where
  "NewToolInputValidator tools =
     (if tools = [] then None
      else
        (let v = add_tools tools \<lparr>v_known = [], v_required = Map.empty, v_types = Map.empty\<rparr>
         in if v_known v = [] then None else Some v))"

section \<open>Validation\<close>

definition jsonType :: "json \<Rightarrow> string" where
  "jsonType value =
     (case value of
        JNull \<Rightarrow> ''null''
      | JBool _ \<Rightarrow> ''boolean''
      | JStr _ \<Rightarrow> ''string''
      | JArr _ \<Rightarrow> ''array''
      | JObj _ \<Rightarrow> ''object''
      | JNum n \<Rightarrow> if of_int \<lfloor>n\<rfloor> = n then ''integer'' else ''number'')"

fun matchesJSONTypes :: "json \<Rightarrow> string list \<Rightarrow> bool" where
  "matchesJSONTypes value [] = False"
| "matchesJSONTypes value (typ # expected) =
     (if typ = jsonType value then True
      else if typ = ''number'' \<and> jsonType value = ''integer'' then True
      else if typ = ''integer'' \<and> (case value of JNum n \<Rightarrow> of_int \<lfloor>n\<rfloor> = n | _ \<Rightarrow> False) then True
      else matchesJSONTypes value expected)"

text \<open>The loop over the property types: the first present field whose value does not match.\<close>

fun check_types :: "jmap \<Rightarrow> (string \<times> string list) list \<Rightarrow> reject_reason option" where
  "check_types obj [] = None"
| "check_types obj ((name, expected) # ts) =
     (case map_of obj name of
        None \<Rightarrow> check_types obj ts
      | Some value \<Rightarrow>
          if \<not> matchesJSONTypes value expected then Some (WrongFieldType name expected (jsonType value))
          else check_types obj ts)"

definition dflt :: "'a list option \<Rightarrow> 'a list" where
  "dflt m = (case m of None \<Rightarrow> [] | Some xs \<Rightarrow> xs)"

text \<open>Surrounding space is removed; an empty input or \<open>null\<close> is read as the empty object.\<close>

definition input_text :: "string \<Rightarrow> string" where
  "input_text raw = (let raw = TrimSpace raw in if raw = '''' \<or> raw = ''null'' then ''{}'' else raw)"

definition Validate :: "(string \<Rightarrow> jmap option option) \<Rightarrow> ToolInputValidator \<Rightarrow> string \<Rightarrow> string \<Rightarrow> reject_reason + string" where
  "Validate parse v tool raw =
     (if tool \<notin> set (v_known v) then Inr raw
      else
        (let raw = input_text raw in
         case parse raw of
              None \<Rightarrow> Inl InvalidJSONInput
            | Some o1 \<Rightarrow>
                (let (obj, raw) = (case o1 of None \<Rightarrow> ([], ''{}'') | Some m \<Rightarrow> (m, raw));
                     missing = filter (\<lambda>n. map_of obj n = None) (dflt (v_required v tool))
                 in if missing \<noteq> [] then Inl (MissingRequired missing)
                    else case check_types obj (dflt (v_types v tool)) of
                      Some r \<Rightarrow> Inl r
                    | None \<Rightarrow> Inr raw)))"

section \<open>What is forwarded\<close>

text \<open>JSON Schema's meaning of a type name for a value.\<close>

definition has_json_type :: "json \<Rightarrow> string \<Rightarrow> bool" where
  "has_json_type v t \<longleftrightarrow>
     (case v of
        JNull \<Rightarrow> t = ''null''
      | JBool _ \<Rightarrow> t = ''boolean''
      | JStr _ \<Rightarrow> t = ''string''
      | JArr _ \<Rightarrow> t = ''array''
      | JObj _ \<Rightarrow> t = ''object''
      | JNum n \<Rightarrow> t = ''number'' \<or> (t = ''integer'' \<and> n \<in> \<int>))"

lemma integral_iff: "of_int \<lfloor>n\<rfloor> = n \<longleftrightarrow> (n :: rat) \<in> \<int>"
  by (metis Ints_cases Ints_of_int floor_of_int)

lemma matches_step: "matchesJSONTypes v (t # ts) \<longleftrightarrow> has_json_type v t \<or> matchesJSONTypes v ts"
proof (cases v)
  case (JNum n)
  have "jsonType v = (if n \<in> \<int> then ''integer'' else ''number'')"
    unfolding JNum jsonType_def json.case integral_iff ..
  moreover have "has_json_type v t \<longleftrightarrow> t = ''number'' \<or> (t = ''integer'' \<and> n \<in> \<int>)"
    unfolding JNum has_json_type_def json.case ..
  moreover have "matchesJSONTypes v (t # ts) =
     (t = jsonType v \<or> (t = ''number'' \<and> jsonType v = ''integer'') \<or> (t = ''integer'' \<and> n \<in> \<int>) \<or> matchesJSONTypes v ts)"
    unfolding matchesJSONTypes.simps JNum json.case integral_iff by argo
  ultimately show ?thesis by argo
qed (auto simp: jsonType_def has_json_type_def)

lemma matches_iff: "matchesJSONTypes v expected \<longleftrightarrow> (\<exists>t \<in> set expected. has_json_type v t)"
  by (induction expected) (simp_all add: matches_step del: matchesJSONTypes.simps(2))

lemma check_types_None:
  "check_types obj ts = None \<longleftrightarrow>
   (\<forall>(name, expected) \<in> set ts. \<forall>v. map_of obj name = Some v \<longrightarrow> (\<exists>t \<in> set expected. has_json_type v t))"
  by (induction ts) (auto simp: matches_iff split: option.splits if_splits)

lemma add_tools_other:
  "n \<notin> set (map fst ts) \<Longrightarrow> n \<in> set (v_known (add_tools ts v)) \<longleftrightarrow> n \<in> set (v_known v)"
  "n \<notin> set (map fst ts) \<Longrightarrow> v_required (add_tools ts v) n = v_required v n"
  "n \<notin> set (map fst ts) \<Longrightarrow> v_types (add_tools ts v) n = v_types v n"
  by (induction ts v rule: add_tools.induct) (auto simp: Let_def)

lemma add_tools_member:
  assumes "(n, s) \<in> set ts" "distinct (map fst ts)" "n \<noteq> ''''" "v_required v n = None" "v_types v n = None"
  shows "n \<in> set (v_known (add_tools ts v)) \<and>
    dflt (v_required (add_tools ts v) n) = requiredFields (SanitizeJSONSchema s) \<and>
    dflt (v_types (add_tools ts v) n) = propertyTypes (SanitizeJSONSchema s)"
  using assms
proof (induction ts v rule: add_tools.induct)
  case (2 name inputSchema ts v)
  let ?req = "requiredFields (SanitizeJSONSchema inputSchema)" and ?types = "propertyTypes (SanitizeJSONSchema inputSchema)"
  let ?v1 = "v\<lparr>v_known := name # v_known v\<rparr>"
  let ?v2 = "if ?req \<noteq> [] then ?v1\<lparr>v_required := (v_required ?v1)(name \<mapsto> ?req)\<rparr> else ?v1"
  let ?v3 = "if ?types \<noteq> [] then ?v2\<lparr>v_types := (v_types ?v2)(name \<mapsto> ?types)\<rparr> else ?v2"
  show ?case
  proof (cases "name = n")
    case True
    then have s: "s = inputSchema" "n \<notin> set (map fst ts)" using "2.prems"(1,2) by force+
    have "add_tools ((name, inputSchema) # ts) v = add_tools ts ?v3" using True "2.prems"(3) by (simp add: Let_def)
    moreover have "n \<in> set (v_known ?v3)" "dflt (v_required ?v3 n) = ?req" "dflt (v_types ?v3 n) = ?types"
      using True "2.prems"(4,5) by (simp_all add: dflt_def)
    ultimately show ?thesis using add_tools_other [OF s(2), of ?v3] s(1) by simp
  next
    case False
    then have ts: "(n, s) \<in> set ts" "distinct (map fst ts)" using "2.prems"(1,2) by auto
    have v3: "v_required ?v3 n = None" "v_types ?v3 n = None" using False "2.prems"(4,5) by simp_all
    show ?thesis
    proof (cases "name = ''''")
      case True
      with "2.IH"(1) [OF True ts "2.prems"(3-5)] show ?thesis by simp
    next
      case ne: False
      from "2.IH"(2) [OF ne refl refl refl refl refl refl ts "2.prems"(3) v3] ne show ?thesis by (simp add: Let_def)
    qed
  qed
qed simp




end
