(* ===== verification/Api_Constants.thy ===== *)
theory Api_Constants
  imports Prelude
begin

text \<open>
  The constants of the Anthropic API (internal/anthropic/types.go) and of the Kiro API
  (internal/kiroproto/types.go) that both directions of the conversion use.
\<close>

definition BlockTypeText :: string where "BlockTypeText = ''text''"
definition BlockTypeThinking :: string where "BlockTypeThinking = ''thinking''"
definition BlockTypeToolUse :: string where "BlockTypeToolUse = ''tool_use''"
definition BlockTypeRedactedThinking :: string where "BlockTypeRedactedThinking = ''redacted_thinking''"
definition BlockTypeImage :: string where "BlockTypeImage = ''image''"
definition BlockTypeServerToolUse :: string where "BlockTypeServerToolUse = ''server_tool_use''"
definition BlockTypeToolResult :: string where "BlockTypeToolResult = ''tool_result''"
definition BlockTypeToolSearchToolResult :: string where "BlockTypeToolSearchToolResult = ''tool_search_tool_result''"
definition BlockTypeToolReference :: string where "BlockTypeToolReference = ''tool_reference''"
definition BlockTypeToolSearchSearchResult :: string where
  "BlockTypeToolSearchSearchResult = ''tool_search_tool_search_result''"

lemmas block_types = BlockTypeText_def BlockTypeThinking_def BlockTypeToolUse_def BlockTypeRedactedThinking_def
  BlockTypeImage_def BlockTypeServerToolUse_def BlockTypeToolResult_def BlockTypeToolSearchToolResult_def
  BlockTypeToolReference_def BlockTypeToolSearchSearchResult_def

definition ToolTypeSearchRegex :: string where "ToolTypeSearchRegex = ''tool_search_tool_regex_20251119''"
definition ToolTypeSearchBM25 :: string where "ToolTypeSearchBM25 = ''tool_search_tool_bm25_20251119''"
definition ToolTypeWebSearch :: string where "ToolTypeWebSearch = ''web_search_20250305''"

definition ThinkingToolName :: string where "ThinkingToolName = ''thinking''"
definition OriginKiroCLI :: string where "OriginKiroCLI = ''KIRO_CLI''"
definition OriginAIEditor :: string where "OriginAIEditor = ''AI_EDITOR''"
definition ChatTriggerTypeManual :: string where "ChatTriggerTypeManual = ''MANUAL''"
definition AgentTaskTypeVibe :: string where "AgentTaskTypeVibe = ''vibe''"
definition ToolResultStatusSuccess :: string where "ToolResultStatusSuccess = ''success''"
definition ToolResultStatusError :: string where "ToolResultStatusError = ''error''"

end
