(* ===== verification/Event_Processor.thy ===== *)
theory Event_Processor
  imports Accumulator Tool_Input Api_Constants
begin

text \<open>
  \<open>internal/respconv/event_processor.go\<close>: how each Kiro event changes the accumulator and what delta it
  yields. The JSON library is a record of the calls made here: decoding a tool input to a map,
  decoding the thinking tool's \<open>thought\<close>, the validity test and the normalisation of a JSON text.
\<close>

record resp_lib =
  rl_parse :: "string \<Rightarrow> jmap option option"
  rl_thought :: "string \<Rightarrow> string option"
  rl_valid :: "string \<Rightarrow> bool"
  rl_normal :: "string \<Rightarrow> string"

text \<open>The recording of an accepted tool call, with its runes counted against the token limit.\<close>

definition record_tool :: "resp_lib \<Rightarrow> event \<Rightarrow> string \<Rightarrow> string \<Rightarrow> EventDelta \<Rightarrow> responseAccumulator
    \<Rightarrow> responseAccumulator \<times> EventDelta" where
  "record_tool L e name inp d a =
     (let a = a\<lparr>HasToolUse := True\<rparr>;
          tc = \<lparr>tc_ID = ToolUseID e, tc_Name = name, tc_Input = inp\<rparr>;
          a = (if \<not> rl_valid L inp then a\<lparr>ToolParseError := True\<rparr> else a);
          a = a\<lparr>outputRuneCount := outputRuneCount a + int (rune_count inp)\<rparr>;
          a = (if maxTokensBudget a > 0 \<and> outputRuneCount a div 4 \<ge> maxTokensBudget a
               then a\<lparr>LocalStop := True, StopReason := StopReasonMaxTokens\<rparr> else a);
          a = a\<lparr>ToolCalls := ToolCalls a @ [tc]\<rparr>;
          d = d\<lparr>d_ToolStop := True, d_ToolUseID := ToolUseID e, d_ToolName := name, d_ToolInput := inp\<rparr>
      in if LocalStop a then (a, d\<lparr>StopSignal := True, d_StopReason := StopReason a\<rparr>) else (a, d))"

definition processToolUseEvent :: "resp_lib \<Rightarrow> event \<Rightarrow> EventDelta \<Rightarrow> responseAccumulator \<Rightarrow> responseAccumulator \<times> EventDelta" where
  "processToolUseEvent L e d a =
     (if \<not> ToolStop e \<or> LocalStop a then (a, d)
      else
        (let name = (case toolNameMap a (ToolName e) of Some mapped \<Rightarrow> mapped | None \<Rightarrow> ToolName e) in
         if name = ThinkingToolName
         then (case rl_thought L (ToolInput e) of
                 Some thought \<Rightarrow> if thought \<noteq> '''' then accumulateThinking thought d a else (a, d)
               | None \<Rightarrow> (a, d))
         else if DropToolName a \<noteq> '''' \<and> ToolName e = DropToolName a
         then (a, d\<lparr>d_ToolStop := True, d_ToolUseID := ToolUseID e, d_ToolName := name, d_ToolInput := ToolInput e\<rparr>)
         else
           (case (case toolInputValidator a of None \<Rightarrow> Inr (ToolInput e) | Some v \<Rightarrow> Validate (rl_parse L) v name (ToolInput e)) of
              Inl reason \<Rightarrow>
                (a\<lparr>InvalidToolCalls := InvalidToolCalls a @
                    [\<lparr>itc_ID = ToolUseID e, itc_Name = name, itc_Input = ToolInput e, itc_Reason = reason\<rparr>]\<rparr>, d)
            | Inr inp \<Rightarrow> record_tool L e name inp d a)))"

definition ProcessEvent :: "resp_lib \<Rightarrow> event \<Rightarrow> responseAccumulator \<Rightarrow> responseAccumulator \<times> EventDelta" where
  "ProcessEvent L e a =
     (let d = zero_delta in
      if Type e = EventAssistantResponse then
        (let delta = compute_delta (Content e) (lastContent a);
             a = a\<lparr>lastContent := Content e\<rparr>
         in if delta \<noteq> '''' \<and> \<not> LocalStop a
            then
              (let (a, textOut, thinkingOut) = parseThinkingTags delta a;
                   (a, d) = (if thinkingOut \<noteq> '''' then accumulateThinking thinkingOut d a else (a, d));
                   (a, d) = (if textOut \<noteq> ''''
                             then (let (a, out) = accumulate_text textOut a in
                                   (a, if out \<noteq> '''' then d\<lparr>TextDelta := out\<rparr> else d))
                             else (a, d))
               in if LocalStop a
                  then (a, d\<lparr>StopSignal := True, d_StopReason := StopReason a, d_StopSequence := StopSequence a\<rparr>)
                  else (a, d))
            else (a, d))
      else if Type e = EventReasoningContent then
        (let (a, d) = (if Signature e \<noteq> '''' \<and> Signature e \<noteq> a_Signature a
                       then (a\<lparr>a_Signature := Signature e\<rparr>, d\<lparr>SignatureDelta := Signature e\<rparr>) else (a, d))
         in if RedactedContent e \<noteq> '''' then (a, d\<lparr>d_RedactedContent := RedactedContent e\<rparr>)
            else if suppressReasoningContent a then (a, d)
            else
              (let delta = compute_delta (ThinkingText e) (lastThinking a);
                   a = a\<lparr>lastThinking := ThinkingText e\<rparr>
               in if delta \<noteq> '''' \<and> \<not> LocalStop a then accumulateThinking delta d a else (a, d)))
      else if Type e = EventToolUse then processToolUseEvent L e d a
      else if Type e = EventMetadata then
        (a\<lparr>HasMetadata := True, a_InputTokens := InputTokens e, a_OutputTokens := OutputTokens e,
           a_CacheReadInputTokens := CacheReadInputTokens e, a_CacheWriteInputTokens := CacheWriteInputTokens e\<rparr>, d)
      else if Type e = EventMetering then
        (if \<not> HasMetadata a then (a\<lparr>a_InputTokens := InputTokens e, a_OutputTokens := OutputTokens e\<rparr>, d) else (a, d))
      else if Type e = EventMessageMetadata then (a\<lparr>a_ConversationID := ConversationID e\<rparr>, d)
      else if Type e = EventContextUsage then
        (a\<lparr>HasContextUsage := True, a_ContextUsagePercentage := ContextUsagePercentage e\<rparr>, d)
      else if Type e = EventInvalidState \<or> Type e = EventException then
        (a, d\<lparr>IsError := True, d_ErrorMessage := ErrorText e\<rparr>)
      else (a, d))"


section \<open>Where the token limit is not applied\<close>

text \<open>
  The limit is skipped for text once a stop is raised within the same event: by thinking that used
  up the limit, or by a stop sequence found in the same delta. The text is then emitted in full.
\<close>

definition no_lib :: resp_lib where
  "no_lib = \<lparr>rl_parse = (\<lambda>_. None), rl_thought = (\<lambda>_. None), rl_valid = (\<lambda>_. True), rl_normal = (\<lambda>s. s)\<rparr>"

lemma limit_skipped_after_thinking:
  "let a = fst (ProcessEvent no_lib (zero_event\<lparr>Type := EventAssistantResponse, Content := ''<thinking>hmmm</thinking>far too long''\<rparr>)
             (newAccumulator 0 [] 1 0))
   in StopReason a = StopReasonMaxTokens \<and> TextBuf a = ''far too long''"
  by code_simp

lemma limit_skipped_at_stop_sequence:
  "let a = fst (ProcessEvent no_lib (zero_event\<lparr>Type := EventAssistantResponse, Content := ''far too long END''\<rparr>)
             (newAccumulator 0 [''END''] 1 0))
   in StopReason a = StopReasonStopSequence \<and> TextBuf a = ''far too long ''"
  by code_simp

end
