(* ===== verification/Sse_Writer.thy ===== *)
theory Sse_Writer
  imports Event_Processor
begin

text \<open>
  \<open>internal/respconv/streaming.go\<close> and \<open>streaming_toolsearch.go\<close>: the writer that turns Kiro events into
  the server-sent events of the Anthropic protocol. Its output is the sequence of events sent, with
  the calls of \<open>OnVisibleOutput\<close> at their place. The environment says which write to the client fails
  and which event \<open>json.Marshal\<close> can encode (it refuses strings that are not UTF-8).
\<close>

section \<open>Data\<close>

datatype block =
    TextBlock
  | ThinkingBlock "string option"
  | ToolUseBlock string string
  | RedactedBlock string
  | ServerToolUseBlock string string
  | ToolSearchResultBlock string "string list"
  | ToolSearchErrorBlock string string

datatype block_delta = TextD string | ThinkingD string | SignatureD string | InputJsonD string

datatype sse =
    MessageStart string string usage_map
  | BlockStart int block
  | BlockDelta int block_delta
  | BlockStop int
  | MessageDelta string "string option" usage_map
  | MessageStop
  | ErrorEvent string string

datatype out_item = Sent sse | VisibleOutput

record SSEWriter =
  w_model :: string
  w_msgID :: string
  blockIndex :: int
  activeType :: string
  started :: bool
  writeErr :: bool
  w_acc :: responseAccumulator
  signatureSent :: bool
  visibleFired :: bool
  w_out :: "out_item list"
  w_writes :: nat

record writer_env =
  env_lib :: resp_lib
  write_fails :: "nat \<Rightarrow> bool"
  marshals :: "sse \<Rightarrow> bool"

definition NewSSEWriter :: "string \<Rightarrow> string \<Rightarrow> int \<Rightarrow> string list \<Rightarrow> int \<Rightarrow> int \<Rightarrow> SSEWriter" where
  "NewSSEWriter uuid model contextWindowSize stopSeqs maxTokens preCounted =
     \<lparr>w_model = model, w_msgID = ''msg_'' @ take 24 uuid, blockIndex = -1, activeType = '''', started = False,
      writeErr = False, w_acc = newAccumulator contextWindowSize stopSeqs maxTokens preCounted,
      signatureSent = False, visibleFired = False, w_out = [], w_writes = 0\<rparr>"

section \<open>Writing\<close>

definition writeRawSSE :: "writer_env \<Rightarrow> sse \<Rightarrow> SSEWriter \<Rightarrow> SSEWriter" where
  "writeRawSSE E ev s =
     (if writeErr s then s
      else if write_fails E (w_writes s) then s\<lparr>writeErr := True, w_writes := Suc (w_writes s)\<rparr>
      else s\<lparr>w_out := w_out s @ [Sent ev], w_writes := Suc (w_writes s)\<rparr>)"

definition writeSSE :: "writer_env \<Rightarrow> sse \<Rightarrow> SSEWriter \<Rightarrow> SSEWriter" where
  "writeSSE E ev s = (if writeErr s then s else if \<not> marshals E ev then s else writeRawSSE E ev s)"

definition writeDelta :: "writer_env \<Rightarrow> block_delta \<Rightarrow> SSEWriter \<Rightarrow> SSEWriter" where
  "writeDelta E d s = writeRawSSE E (BlockDelta (blockIndex s) d) s"

definition ensureStarted :: "writer_env \<Rightarrow> SSEWriter \<Rightarrow> SSEWriter" where
  "ensureStarted E s =
     (if started s then s
      else (let s = s\<lparr>started := True\<rparr> in
            writeSSE E (MessageStart (w_msgID s) (w_model s) (UsageMap 0 0 (w_acc s))) s))"

definition closeActiveBlock :: "writer_env \<Rightarrow> SSEWriter \<Rightarrow> SSEWriter" where
  "closeActiveBlock E s =
     (if activeType s = '''' then s
      else (writeRawSSE E (BlockStop (blockIndex s)) s)\<lparr>activeType := ''''\<rparr>)"

definition switchBlock :: "writer_env \<Rightarrow> string \<Rightarrow> SSEWriter \<Rightarrow> SSEWriter" where
  "switchBlock E blockType s =
     (if activeType s = blockType then s
      else
        (let s = closeActiveBlock E s;
             s = s\<lparr>blockIndex := blockIndex s + 1, activeType := blockType\<rparr>;
             (s, contentBlock) =
               (if blockType = BlockTypeThinking
                then (if a_Signature (w_acc s) \<noteq> ''''
                      then (s\<lparr>signatureSent := True\<rparr>, ThinkingBlock (Some (a_Signature (w_acc s))))
                      else (s, ThinkingBlock None))
                else (s, TextBlock))
         in writeSSE E (BlockStart (blockIndex s) contentBlock) s))"

definition writeBlock :: "writer_env \<Rightarrow> block \<Rightarrow> block_delta option \<Rightarrow> SSEWriter \<Rightarrow> SSEWriter" where
  "writeBlock E contentBlock delta s =
     (let s = closeActiveBlock E s;
          s = s\<lparr>blockIndex := blockIndex s + 1\<rparr>;
          s = writeSSE E (BlockStart (blockIndex s) contentBlock) s;
          s = (case delta of Some d \<Rightarrow> writeSSE E (BlockDelta (blockIndex s) d) s | None \<Rightarrow> s)
      in writeRawSSE E (BlockStop (blockIndex s)) s)"

definition fireVisibleOutput :: "SSEWriter \<Rightarrow> SSEWriter" where
  "fireVisibleOutput s =
     (if visibleFired s then s else s\<lparr>visibleFired := True, w_out := w_out s @ [VisibleOutput]\<rparr>)"

definition writeThinkingDelta :: "writer_env \<Rightarrow> string \<Rightarrow> SSEWriter \<Rightarrow> SSEWriter" where
  "writeThinkingDelta E delta s =
     writeDelta E (ThinkingD delta) (switchBlock E BlockTypeThinking (ensureStarted E s))"

definition writeSignatureDelta :: "writer_env \<Rightarrow> string \<Rightarrow> SSEWriter \<Rightarrow> SSEWriter" where
  "writeSignatureDelta E sig s =
     (if sig = '''' \<or> signatureSent s then s
      else
        (let s = ensureStarted E s in
         if activeType s \<noteq> BlockTypeThinking then s
         else (writeSSE E (BlockDelta (blockIndex s) (SignatureD sig)) s)\<lparr>signatureSent := True\<rparr>))"

definition writeTextDelta :: "writer_env \<Rightarrow> string \<Rightarrow> SSEWriter \<Rightarrow> SSEWriter" where
  "writeTextDelta E t s = writeDelta E (TextD t) (switchBlock E BlockTypeText (fireVisibleOutput s))"

definition WriteError :: "writer_env \<Rightarrow> string \<Rightarrow> string \<Rightarrow> SSEWriter \<Rightarrow> SSEWriter" where
  "WriteError E errType message s = writeSSE E (ErrorEvent errType message) (closeActiveBlock E s)"

definition Finish :: "writer_env \<Rightarrow> SSEWriter \<Rightarrow> SSEWriter" where
  "Finish E s =
     (let s = ensureStarted E s;
          (a, textDelta, thinkingDelta, res) = finalizeResult (w_acc s);
          s = s\<lparr>w_acc := discardInvalidToolCallWarning a\<rparr>;
          s = (if thinkingDelta \<noteq> '''' then writeThinkingDelta E thinkingDelta s else s);
          s = (if textDelta \<noteq> '''' then writeTextDelta E textDelta s else s);
          s = closeActiveBlock E s;
          s = writeSSE E (MessageDelta (r_StopReason res) (r_StopSequence res) (r_Usage res)) s
      in writeSSE E MessageStop s)"

section \<open>Handling events\<close>

definition HandleEvent :: "writer_env \<Rightarrow> event \<Rightarrow> SSEWriter \<Rightarrow> SSEWriter \<times> bool" where
  "HandleEvent E e s =
     (let (a, d) = ProcessEvent (env_lib E) e (w_acc s);
          s = s\<lparr>w_acc := a\<rparr>;
          stop_or = (\<lambda>s. if StopSignal d then (Finish E s, True) else (s, False))
      in
      if Type e = EventAssistantResponse then
        (let s = (if ThinkingDelta d \<noteq> '''' then writeThinkingDelta E (ThinkingDelta d) s else s);
             s = (if TextDelta d \<noteq> '''' then writeTextDelta E (TextDelta d) (ensureStarted E s) else s)
         in stop_or s)
      else if Type e = EventReasoningContent then
        (if d_RedactedContent d \<noteq> ''''
         then
           (let s = closeActiveBlock E (ensureStarted E s);
                s = s\<lparr>blockIndex := blockIndex s + 1, activeType := BlockTypeRedactedThinking\<rparr>;
                s = writeSSE E (BlockStart (blockIndex s) (RedactedBlock (d_RedactedContent d))) s
            in (closeActiveBlock E s, False))
         else if ThinkingDelta d = ''''
         then ((if SignatureDelta d \<noteq> '''' then writeSignatureDelta E (SignatureDelta d) s else s), False)
         else
           (let s = writeThinkingDelta E (ThinkingDelta d) s;
                s = (if SignatureDelta d \<noteq> '''' then writeSignatureDelta E (SignatureDelta d) s else s)
            in stop_or s))
      else if Type e = EventToolUse then
        (if ThinkingDelta d \<noteq> '''' then stop_or (writeThinkingDelta E (ThinkingDelta d) s)
         else if \<not> d_ToolStop d then (s, False)
         else
           (let s = closeActiveBlock E (fireVisibleOutput (ensureStarted E s));
                s = s\<lparr>blockIndex := blockIndex s + 1, activeType := BlockTypeToolUse\<rparr>;
                s = writeSSE E (BlockStart (blockIndex s) (ToolUseBlock (d_ToolUseID d) (d_ToolName d))) s;
                s = writeSSE E (BlockDelta (blockIndex s) (InputJsonD (d_ToolInput d))) s
            in stop_or s))
      else if Type e = EventInvalidState \<or> Type e = EventException then
        (if \<not> started s then (s, True)
         else
           (let errType = (if Type e = EventException then ''api_error'' else ''invalid_state'') in
            (WriteError E errType (d_ErrorMessage d) s, True)))
      else (s, False))"

section \<open>Tool search blocks and the accessors\<close>

definition WriteServerToolUse :: "writer_env \<Rightarrow> string \<Rightarrow> string \<Rightarrow> string \<Rightarrow> SSEWriter \<Rightarrow> SSEWriter" where
  "WriteServerToolUse E i name inp s =
     writeBlock E (ServerToolUseBlock i name) (Some (InputJsonD inp)) (fireVisibleOutput (ensureStarted E s))"

definition WriteToolSearchResult :: "writer_env \<Rightarrow> string \<Rightarrow> string list \<Rightarrow> SSEWriter \<Rightarrow> SSEWriter" where
  "WriteToolSearchResult E i refs s = writeBlock E (ToolSearchResultBlock i refs) None s"

definition WriteToolSearchError :: "writer_env \<Rightarrow> string \<Rightarrow> string \<Rightarrow> SSEWriter \<Rightarrow> SSEWriter" where
  "WriteToolSearchError E i errorCode s = writeBlock E (ToolSearchErrorBlock i errorCode) None s"

definition ResetAccumulator :: "int \<Rightarrow> string list \<Rightarrow> int \<Rightarrow> int \<Rightarrow> SSEWriter \<Rightarrow> SSEWriter" where
  "ResetAccumulator contextWindowSize stopSeqs maxTokens preCounted s =
     (let a = w_acc s in
      s\<lparr>w_acc := (newAccumulator contextWindowSize stopSeqs maxTokens preCounted)
           \<lparr>DropToolName := DropToolName a, toolNameMap := toolNameMap a, toolInputValidator := toolInputValidator a,
            a_UsageAdjuster := a_UsageAdjuster a\<rparr>,
        activeType := ''''\<rparr>)"

definition RawUsage :: "SSEWriter \<Rightarrow> int \<times> int" where
  "RawUsage s =
     (let a = w_acc s in
      if FinalUsage a \<noteq> None \<or> RawInputTokens a > 0 \<or> RawOutputTokens a > 0
      then (RawInputTokens a, RawOutputTokens a) else rawResolvedUsage a)"

definition RawCacheReadInputTokens :: "SSEWriter \<Rightarrow> int" where
  "RawCacheReadInputTokens s =
     (let a = w_acc s in
      if FinalUsage a \<noteq> None \<or> RawCacheReadTokens a > 0 then RawCacheReadTokens a else a_CacheReadInputTokens a)"

definition RawCacheWriteInputTokens :: "SSEWriter \<Rightarrow> int" where
  "RawCacheWriteInputTokens s =
     (let a = w_acc s in
      if FinalUsage a \<noteq> None \<or> RawCacheWriteTokens a > 0 then RawCacheWriteTokens a else a_CacheWriteInputTokens a)"

definition FinalCacheReadInputTokens :: "SSEWriter \<Rightarrow> int" where
  "FinalCacheReadInputTokens s =
     (case FinalUsage (w_acc s) of Some u \<Rightarrow> u_CacheReadInputTokens u | None \<Rightarrow> a_CacheReadInputTokens (w_acc s))"

definition FinalCacheWriteInputTokens :: "SSEWriter \<Rightarrow> int" where
  "FinalCacheWriteInputTokens s =
     (case FinalUsage (w_acc s) of Some u \<Rightarrow> u_CacheWriteInputTokens u | None \<Rightarrow> a_CacheWriteInputTokens (w_acc s))"

end
