(* ===== verification/Sse_Protocol.thy ===== *)
theory Sse_Protocol
  imports Sse_Writer
begin

text \<open>
  The output of the stream writer conforms to the event protocol of the Messages API, for every
  sequence of upstream events and tool searches.
\<close>

section \<open>The protocol\<close>

text \<open>
  The event protocol of the Messages API as an automaton: \<open>message_start\<close>, then content blocks with
  consecutive indices, each opened, filled with deltas of its kind and closed before the next, then
  \<open>message_delta\<close> and \<open>message_stop\<close>; or an error between blocks.
\<close>

datatype phase = Before | Between int | Inside int block | Ending | Done | Aborted

fun fits :: "block \<Rightarrow> block_delta \<Rightarrow> bool" where
  "fits TextBlock (TextD _) = True"
| "fits (ThinkingBlock _) (ThinkingD _) = True"
| "fits (ThinkingBlock _) (SignatureD _) = True"
| "fits (ToolUseBlock _ _) (InputJsonD _) = True"
| "fits (ServerToolUseBlock _ _) (InputJsonD _) = True"
| "fits _ _ = False"

fun sse_step :: "sse \<Rightarrow> phase \<Rightarrow> phase option" where
  "sse_step (MessageStart _ _ _) Before = Some (Between 0)"
| "sse_step (BlockStart i b) (Between n) = (if i = n then Some (Inside n b) else None)"
| "sse_step (BlockDelta i d) (Inside n b) = (if i = n \<and> fits b d then Some (Inside n b) else None)"
| "sse_step (BlockStop i) (Inside n b) = (if i = n then Some (Between (n + 1)) else None)"
| "sse_step (MessageDelta _ _ _) (Between n) = Some Ending"
| "sse_step MessageStop Ending = Some Done"
| "sse_step (ErrorEvent _ _) (Between n) = Some Aborted"
| "sse_step _ _ = None"

fun sse_run :: "sse list \<Rightarrow> phase \<Rightarrow> phase option" where
  "sse_run [] p = Some p"
| "sse_run (ev # evs) p = (case sse_step ev p of None \<Rightarrow> None | Some p' \<Rightarrow> sse_run evs p')"

definition sent :: "SSEWriter \<Rightarrow> sse list" where
  "sent s = concat (map (\<lambda>x. case x of Sent ev \<Rightarrow> [ev] | VisibleOutput \<Rightarrow> []) (w_out s))"

lemma sse_run_append: "sse_run (xs @ ys) p = (case sse_run xs p of None \<Rightarrow> None | Some p' \<Rightarrow> sse_run ys p')"
  by (induction xs arbitrary: p) (auto split: option.splits)

text \<open>
  \<open>in_phase s p\<close>: what was sent conforms, and unless a write failed the protocol is in phase \<open>p\<close>.
\<close>

definition in_phase :: "SSEWriter \<Rightarrow> phase \<Rightarrow> bool" where
  "in_phase s p \<longleftrightarrow> (\<exists>q. sse_run (sent s) Before = Some q \<and> (writeErr s \<or> q = p))"

fun block_type :: "block \<Rightarrow> string" where
  "block_type TextBlock = BlockTypeText"
| "block_type (ThinkingBlock _) = BlockTypeThinking"
| "block_type (ToolUseBlock _ _) = BlockTypeToolUse"
| "block_type (RedactedBlock _) = BlockTypeRedactedThinking"
| "block_type _ = ''other''"

text \<open>The phase a writer's fields stand for.\<close>

definition stands_for :: "SSEWriter \<Rightarrow> phase \<Rightarrow> bool" where
  "stands_for s p \<longleftrightarrow>
     (if \<not> started s then p = Before \<and> activeType s = '''' \<and> blockIndex s = -1
      else if activeType s = '''' then p = Between (blockIndex s + 1)
      else \<exists>b. p = Inside (blockIndex s) b \<and> block_type b = activeType s)"

definition writer_ok :: "SSEWriter \<Rightarrow> bool" where
  "writer_ok s \<longleftrightarrow> (\<exists>p. in_phase s p \<and> stands_for s p)"

lemma sent_updates [simp]:
  "sent (s\<lparr>w_acc := a\<rparr>) = sent s" "sent (s\<lparr>started := b\<rparr>) = sent s" "sent (s\<lparr>activeType := t\<rparr>) = sent s"
  "sent (s\<lparr>blockIndex := i\<rparr>) = sent s" "sent (s\<lparr>signatureSent := b\<rparr>) = sent s"
  "sent (s\<lparr>blockIndex := i, activeType := t\<rparr>) = sent s" "sent (fireVisibleOutput s) = sent s"
  by (simp_all add: sent_def fireVisibleOutput_def)

lemma writeRaw_fields [simp]:
  "started (writeRawSSE E ev s) = started s" "activeType (writeRawSSE E ev s) = activeType s"
  "blockIndex (writeRawSSE E ev s) = blockIndex s" "w_acc (writeRawSSE E ev s) = w_acc s"
  "signatureSent (writeRawSSE E ev s) = signatureSent s"
  by (simp_all add: writeRawSSE_def)

lemma write_fields [simp]:
  "started (writeSSE E ev s) = started s" "activeType (writeSSE E ev s) = activeType s"
  "blockIndex (writeSSE E ev s) = blockIndex s" "w_acc (writeSSE E ev s) = w_acc s"
  "signatureSent (writeSSE E ev s) = signatureSent s"
  by (simp_all add: writeSSE_def)

lemma visible_fields [simp]:
  "started (fireVisibleOutput s) = started s" "activeType (fireVisibleOutput s) = activeType s"
  "blockIndex (fireVisibleOutput s) = blockIndex s" "w_acc (fireVisibleOutput s) = w_acc s"
  "writeErr (fireVisibleOutput s) = writeErr s"
  by (simp_all add: fireVisibleOutput_def)

lemma in_phase_updates [simp]:
  "in_phase (s\<lparr>w_acc := a\<rparr>) p = in_phase s p" "in_phase (s\<lparr>started := b\<rparr>) p = in_phase s p" "in_phase (s\<lparr>activeType := t\<rparr>) p = in_phase s p"
  "in_phase (s\<lparr>blockIndex := i\<rparr>) p = in_phase s p" "in_phase (s\<lparr>signatureSent := b\<rparr>) p = in_phase s p" "in_phase (fireVisibleOutput s) p = in_phase s p"
  by (simp_all add: in_phase_def)

lemma in_phase_writeRaw: "in_phase s p \<Longrightarrow> sse_step ev p = Some p' \<Longrightarrow> in_phase (writeRawSSE E ev s) p'"
  by (auto simp: in_phase_def writeRawSSE_def sent_def sse_run_append)

lemma in_phase_write: "marshals E ev \<Longrightarrow> in_phase s p \<Longrightarrow> sse_step ev p = Some p' \<Longrightarrow> in_phase (writeSSE E ev s) p'"
  using in_phase_writeRaw [of s p ev p' E] by (auto simp: writeSSE_def in_phase_def)

lemma ensureStarted_ok:
  assumes "\<And>ev. marshals E ev" "writer_ok s"
  shows "writer_ok (ensureStarted E s)" "started (ensureStarted E s)"
proof -
  obtain p where p: "in_phase s p" "stands_for s p" using assms(2) by (auto simp: writer_ok_def)
  show "started (ensureStarted E s)" by (simp add: ensureStarted_def Let_def)
  show "writer_ok (ensureStarted E s)"
  proof (cases "started s")
    case True
    then show ?thesis using assms(2) by (simp add: ensureStarted_def)
  next
    case False
    then have b: "p = Before" "activeType s = ''''" "blockIndex s = -1" using p(2) by (simp_all add: stands_for_def)
    let ?ev = "MessageStart (w_msgID s) (w_model s) (UsageMap 0 0 (w_acc s))"
    have "in_phase (writeSSE E ?ev (s\<lparr>started := True\<rparr>)) (Between 0)"
      using p(1) b(1) by (intro in_phase_write [OF assms(1), where p = Before]) simp_all
    with False b show ?thesis
      by (auto simp: ensureStarted_def writer_ok_def stands_for_def intro!: exI [of _ "Between 0"])
  qed
qed

lemma ensureStarted_fields [simp]:
  "activeType (ensureStarted E s) = activeType s" "w_acc (ensureStarted E s) = w_acc s"
  "signatureSent (ensureStarted E s) = signatureSent s"
  by (simp_all add: ensureStarted_def Let_def)

lemma closeActive_ok:
  assumes "writer_ok s" "started s"
  shows "writer_ok (closeActiveBlock E s)" "started (closeActiveBlock E s)" "activeType (closeActiveBlock E s) = ''''"
    "in_phase (closeActiveBlock E s) (Between (blockIndex (closeActiveBlock E s) + 1))"
proof -
  obtain p where p: "in_phase s p" "stands_for s p" using assms(1) by (auto simp: writer_ok_def)
  show st: "started (closeActiveBlock E s)" and ty: "activeType (closeActiveBlock E s) = ''''"
    using assms(2) by (simp_all add: closeActiveBlock_def)
  show here: "in_phase (closeActiveBlock E s) (Between (blockIndex (closeActiveBlock E s) + 1))"
  proof (cases "activeType s = ''''")
    case True
    with p assms(2) show ?thesis by (simp add: closeActiveBlock_def stands_for_def)
  next
    case False
    then obtain b where "p = Inside (blockIndex s) b" using p(2) assms(2) by (auto simp: stands_for_def)
    with p(1) False show ?thesis
      by (simp add: closeActiveBlock_def in_phase_writeRaw [where p = "Inside (blockIndex s) b"])
  qed
  from here st ty show "writer_ok (closeActiveBlock E s)" by (auto simp: writer_ok_def stands_for_def)
qed

lemma closeActive_fields [simp]:
  "blockIndex (closeActiveBlock E s) = blockIndex s" "w_acc (closeActiveBlock E s) = w_acc s"
  "signatureSent (closeActiveBlock E s) = signatureSent s"
  by (simp_all add: closeActiveBlock_def)

text \<open>Opening a block after the previous one is closed.\<close>

lemma open_ok:
  assumes "marshals E (BlockStart (blockIndex s) b)" "in_phase s (Between (blockIndex s))" "started s"
    "activeType s = block_type b" "block_type b \<noteq> ''''"
  shows "writer_ok (writeSSE E (BlockStart (blockIndex s) b) s)"
  using in_phase_write [OF assms(1,2)] assms(3-5) by (auto simp: writer_ok_def stands_for_def)

lemma delta_ok:
  assumes "writer_ok s" "started s" "activeType s = t" "t \<noteq> ''''" "\<And>b. block_type b = t \<Longrightarrow> fits b d"
  shows "writer_ok (writeRawSSE E (BlockDelta (blockIndex s) d) s)"
    "marshals E (BlockDelta (blockIndex s) d) \<Longrightarrow> writer_ok (writeSSE E (BlockDelta (blockIndex s) d) s)"
proof -
  obtain b where b: "in_phase s (Inside (blockIndex s) b)" "block_type b = t"
    using assms(1-4) by (auto simp: writer_ok_def stands_for_def)
  have "sse_step (BlockDelta (blockIndex s) d) (Inside (blockIndex s) b) = Some (Inside (blockIndex s) b)"
    using assms(5) [OF b(2)] by simp
  note raw = in_phase_writeRaw [OF b(1) this, of E] and enc = in_phase_write [OF _ b(1) this, of E]
  show "writer_ok (writeRawSSE E (BlockDelta (blockIndex s) d) s)"
    using raw b(2) assms(2-4) by (auto simp: writer_ok_def stands_for_def)
  show "marshals E (BlockDelta (blockIndex s) d) \<Longrightarrow> writer_ok (writeSSE E (BlockDelta (blockIndex s) d) s)"
    using enc b(2) assms(2-4) by (auto simp: writer_ok_def stands_for_def)
qed

lemma block_type_kinds:
  "block_type b = BlockTypeText \<Longrightarrow> fits b (TextD t)"
  "block_type b = BlockTypeThinking \<Longrightarrow> fits b (ThinkingD t)"
  "block_type b = BlockTypeThinking \<Longrightarrow> fits b (SignatureD t)"
  "block_type b = BlockTypeToolUse \<Longrightarrow> fits b (InputJsonD t)"
  by (cases b; simp add: block_types)+

lemma block_types_nonempty [simp]:
  "BlockTypeText \<noteq> ''''" "BlockTypeThinking \<noteq> ''''" "BlockTypeToolUse \<noteq> ''''" "BlockTypeRedactedThinking \<noteq> ''''"
  by (simp_all add: block_types)

lemma switchBlock_ok:
  assumes "\<And>ev. marshals E ev" "writer_ok s" "started s" "t = BlockTypeText \<or> t = BlockTypeThinking"
  shows "writer_ok (switchBlock E t s)" "started (switchBlock E t s)" "activeType (switchBlock E t s) = t"
proof -
  let ?c = "closeActiveBlock E s"
  note c = closeActive_ok [OF assms(2,3), of E]
  define b where "b = (if t = BlockTypeThinking
     then (if a_Signature (w_acc s) \<noteq> '''' then ThinkingBlock (Some (a_Signature (w_acc s))) else ThinkingBlock None) else TextBlock)"
  have bt: "block_type b = t" using assms(4) by (auto simp: b_def)
  have tn: "t \<noteq> ''''" using assms(4) block_types_nonempty by metis
  define s1 where "s1 = ?c\<lparr>blockIndex := blockIndex s + 1, activeType := t\<rparr>"
  define s2 where "s2 = (if t = BlockTypeThinking \<and> a_Signature (w_acc s) \<noteq> '''' then s1\<lparr>signatureSent := True\<rparr> else s1)"
  have s2: "in_phase s2 (Between (blockIndex s2))" "started s2" "activeType s2 = t"
    using c by (simp_all add: s2_def s1_def)
  have sw: "activeType s \<noteq> t \<Longrightarrow> switchBlock E t s = writeSSE E (BlockStart (blockIndex s2) b) s2"
    using assms(4) by (auto simp: switchBlock_def Let_def s2_def s1_def b_def)
  show "started (switchBlock E t s)" "activeType (switchBlock E t s) = t"
    using sw s2 assms(3) by (cases "activeType s = t"; simp add: switchBlock_def)+
  show "writer_ok (switchBlock E t s)"
  proof (cases "activeType s = t")
    case True
    with assms(2) show ?thesis by (simp add: switchBlock_def)
  next
    case False
    with sw open_ok [OF assms(1) s2(1,2), of b] s2(3) bt tn show ?thesis by simp
  qed
qed

lemma visible_ok [simp]: "writer_ok (fireVisibleOutput s) = writer_ok s"
  by (simp add: writer_ok_def stands_for_def)

lemma acc_ok [simp]: "writer_ok (s\<lparr>w_acc := a\<rparr>) = writer_ok s"
  by (simp add: writer_ok_def stands_for_def)

lemma signatureSent_ok [simp]: "writer_ok (s\<lparr>signatureSent := b\<rparr>) = writer_ok s"
  by (simp add: writer_ok_def stands_for_def)

lemma thinking_ok:
  assumes "\<And>ev. marshals E ev" "writer_ok s"
  shows "writer_ok (writeThinkingDelta E t s)" "started (writeThinkingDelta E t s)"
proof -
  note e = ensureStarted_ok [OF assms]
  note w = switchBlock_ok [OF assms(1) e disjI2 [OF refl]]
  show "writer_ok (writeThinkingDelta E t s)"
    unfolding writeThinkingDelta_def writeDelta_def by (rule delta_ok(1) [OF w]) (simp_all add: block_type_kinds)
  show "started (writeThinkingDelta E t s)" using w by (simp add: writeThinkingDelta_def writeDelta_def)
qed

lemma text_ok:
  assumes "\<And>ev. marshals E ev" "writer_ok s" "started s"
  shows "writer_ok (writeTextDelta E t s)" "started (writeTextDelta E t s)"
proof -
  have "writer_ok (fireVisibleOutput s)" "started (fireVisibleOutput s)" using assms by simp_all
  note w = switchBlock_ok [OF assms(1) this disjI1 [OF refl]]
  show "writer_ok (writeTextDelta E t s)"
    unfolding writeTextDelta_def writeDelta_def by (rule delta_ok(1) [OF w]) (simp_all add: block_type_kinds)
  show "started (writeTextDelta E t s)" using w by (simp add: writeTextDelta_def writeDelta_def)
qed

lemma signature_ok:
  assumes "\<And>ev. marshals E ev" "writer_ok s"
  shows "writer_ok (writeSignatureDelta E g s)"
proof -
  note e = ensureStarted_ok [OF assms]
  let ?s = "ensureStarted E s"
  have "writer_ok ((writeSSE E (BlockDelta (blockIndex ?s) (SignatureD g)) ?s)\<lparr>signatureSent := True\<rparr>)"
    if "activeType ?s = BlockTypeThinking"
    using delta_ok(2) [OF e that _ _ assms(1), of "SignatureD g"] block_type_kinds(3) by simp
  with e assms(2) show ?thesis by (simp add: writeSignatureDelta_def Let_def)
qed

lemma Finish_ok:
  assumes "\<And>ev. marshals E ev" "writer_ok s"
  shows "in_phase (Finish E s) Done"
proof -
  let ?s0 = "ensureStarted E s"
  obtain a td th res where f: "finalizeResult (w_acc s) = (a, td, th, res)" by (metis prod.collapse)
  define s1 where "s1 = ?s0\<lparr>w_acc := discardInvalidToolCallWarning a\<rparr>"
  define s2 where "s2 = (if th \<noteq> '''' then writeThinkingDelta E th s1 else s1)"
  define s3 where "s3 = (if td \<noteq> '''' then writeTextDelta E td s2 else s2)"
  have s1: "writer_ok s1" "started s1" using ensureStarted_ok [OF assms] by (simp_all add: s1_def)
  have s2: "writer_ok s2" "started s2" using s1 thinking_ok [OF assms(1) s1(1)] by (simp_all add: s2_def)
  have s3: "writer_ok s3" "started s3" using s2 text_ok [OF assms(1) s2] by (simp_all add: s3_def)
  let ?md = "MessageDelta (r_StopReason res) (r_StopSequence res) (r_Usage res)"
  have "in_phase (writeSSE E ?md (closeActiveBlock E s3)) Ending"
    by (rule in_phase_write [OF assms(1) closeActive_ok(4) [OF s3]]) simp
  then have "in_phase (writeSSE E MessageStop (writeSSE E ?md (closeActiveBlock E s3))) Done"
    by (rule in_phase_write [OF assms(1)]) simp
  moreover have "Finish E s = writeSSE E MessageStop (writeSSE E ?md (closeActiveBlock E s3))"
    unfolding Finish_def Let_def ensureStarted_fields f prod.case s3_def s2_def s1_def ..
  ultimately show ?thesis by simp
qed

lemma WriteError_ok:
  assumes "\<And>ev. marshals E ev" "writer_ok s" "started s"
  shows "in_phase (WriteError E t m s) Aborted"
  unfolding WriteError_def by (rule in_phase_write [OF assms(1) closeActive_ok(4) [OF assms(2,3)]]) simp

lemma writeBlock_ok:
  assumes "\<And>ev. marshals E ev" "writer_ok s" "started s" "\<And>d. delta = Some d \<Longrightarrow> fits b d"
  shows "writer_ok (writeBlock E b delta s)" "started (writeBlock E b delta s)"
proof -
  note c = closeActive_ok [OF assms(2,3), of E]
  define s1 where "s1 = (closeActiveBlock E s)\<lparr>blockIndex := blockIndex s + 1\<rparr>"
  define s2 where "s2 = writeSSE E (BlockStart (blockIndex s1) b) s1"
  define s3 where "s3 = (case delta of Some d \<Rightarrow> writeSSE E (BlockDelta (blockIndex s2) d) s2 | None \<Rightarrow> s2)"
  have f: "blockIndex s2 = blockIndex s1" "blockIndex s3 = blockIndex s1" "started s3" "activeType s3 = ''''"
    using c by (simp_all add: s3_def s2_def s1_def split: option.split)
  have "in_phase s2 (Inside (blockIndex s1) b)" unfolding s2_def
    by (rule in_phase_write [OF assms(1), where p = "Between (blockIndex s1)"]) (use c in \<open>simp_all add: s1_def\<close>)
  then have "in_phase s3 (Inside (blockIndex s1) b)"
    using assms(4) by (auto simp: s3_def f intro: in_phase_write [OF assms(1)] split: option.split)
  then have "in_phase (writeRawSSE E (BlockStop (blockIndex s3)) s3) (Between (blockIndex s1 + 1))"
    by (rule in_phase_writeRaw) (simp add: f)
  then show "writer_ok (writeBlock E b delta s)" "started (writeBlock E b delta s)"
    using f by (simp_all add: writeBlock_def Let_def s3_def s2_def s1_def writer_ok_def stands_for_def cong: option.case_cong)
qed

lemma redacted_ok:
  assumes "\<And>ev. marshals E ev" "writer_ok s" "started s" "block_type b = t" "t \<noteq> ''''"
  shows "writer_ok (let s = closeActiveBlock E s; s = s\<lparr>blockIndex := blockIndex s + 1, activeType := t\<rparr>
    in writeSSE E (BlockStart (blockIndex s) b) s)"
  using closeActive_ok [OF assms(2,3), of E] assms(4,5)
    open_ok [OF assms(1), where s = "(closeActiveBlock E s)\<lparr>blockIndex := blockIndex s + 1, activeType := t\<rparr>" and b = b]
  by (simp add: Let_def)

lemma HandleEvent_ok:
  assumes m: "\<And>ev. marshals E ev" and ok: "writer_ok s" and h: "HandleEvent E e s = (s', stop)"
  shows "if stop then in_phase s' Done \<or> in_phase s' Aborted \<or> in_phase s' Before \<and> \<not> started s' else writer_ok s'"
proof -
  obtain a d where pe: "ProcessEvent (env_lib E) e (w_acc s) = (a, d)" by fastforce
  let ?s = "s\<lparr>w_acc := a\<rparr>"
  have ok1: "writer_ok ?s" using ok by simp
  have stop_or: "(if StopSignal d then (Finish E t, True) else (t, False)) = (s', stop) \<Longrightarrow> writer_ok t \<Longrightarrow> ?thesis" for t
    using Finish_ok [OF m] by (auto split: if_splits)
  consider (reply) "Type e = EventAssistantResponse" | (think) "Type e = EventReasoningContent" | (tool) "Type e = EventToolUse"
    | (err) "Type e = EventInvalidState \<or> Type e = EventException"
    | (other) "Type e \<notin> {EventAssistantResponse, EventReasoningContent, EventToolUse, EventInvalidState, EventException}" by blast
  then show ?thesis
  proof cases
    case reply
    let ?t = "if ThinkingDelta d \<noteq> '''' then writeThinkingDelta E (ThinkingDelta d) ?s else ?s"
    have "writer_ok ?t" using ok1 thinking_ok [OF m ok1] by simp
    note e = ensureStarted_ok [OF m this]
    have "writer_ok (if TextDelta d \<noteq> '''' then writeTextDelta E (TextDelta d) (ensureStarted E ?t) else ?t)"
      using text_ok [OF m e] \<open>writer_ok ?t\<close> by simp
    then show ?thesis by (rule stop_or [rotated]) (use h pe reply in \<open>simp add: HandleEvent_def Let_def\<close>)
  next
    case think
    note e = ensureStarted_ok [OF m ok1]
    show ?thesis
    proof (cases "d_RedactedContent d = ''''")
      case False
      note r = redacted_ok [OF m e, of "RedactedBlock (d_RedactedContent d)" BlockTypeRedactedThinking]
      let ?r = "let s = closeActiveBlock E (ensureStarted E ?s); s = s\<lparr>blockIndex := blockIndex s + 1, activeType := BlockTypeRedactedThinking\<rparr>
        in writeSSE E (BlockStart (blockIndex s) (RedactedBlock (d_RedactedContent d))) s"
      have "started ?r" using closeActive_ok(2) [OF e] by (simp add: Let_def)
      then have "writer_ok (closeActiveBlock E ?r)" using closeActive_ok(1) [OF r] by simp
      with False h pe think show ?thesis by (simp add: HandleEvent_def Let_def event_types)
    next
      case True
      show ?thesis
      proof (cases "ThinkingDelta d = ''''")
        case True
        with \<open>d_RedactedContent d = ''''\<close> h pe think signature_ok [OF m ok1] ok1 show ?thesis
          by (auto simp: HandleEvent_def Let_def event_types split: if_splits)
      next
        case False
        let ?t = "writeThinkingDelta E (ThinkingDelta d) ?s"
        have "writer_ok (if SignatureDelta d \<noteq> '''' then writeSignatureDelta E (SignatureDelta d) ?t else ?t)"
          using thinking_ok [OF m ok1] signature_ok [OF m] by simp
        then show ?thesis
          by (rule stop_or [rotated]) (use False True h pe think in \<open>simp add: HandleEvent_def Let_def event_types\<close>)
      qed
    qed
  next
    case tool
    note e = ensureStarted_ok [OF m ok1]
    let ?v = "fireVisibleOutput (ensureStarted E ?s)"
    let ?o = "let s = closeActiveBlock E ?v; s = s\<lparr>blockIndex := blockIndex s + 1, activeType := BlockTypeToolUse\<rparr>
        in writeSSE E (BlockStart (blockIndex s) (ToolUseBlock (d_ToolUseID d) (d_ToolName d))) s"
    have v: "writer_ok ?v" "started ?v" using e by simp_all
    note o = redacted_ok [OF m v, of "ToolUseBlock (d_ToolUseID d) (d_ToolName d)" BlockTypeToolUse]
    have o2: "writer_ok ?o" "started ?o" "activeType ?o = BlockTypeToolUse"
      using o closeActive_ok(2) [OF v, of E] by (simp_all add: Let_def)
    have "writer_ok (writeSSE E (BlockDelta (blockIndex ?o) (InputJsonD (d_ToolInput d))) ?o)"
      by (rule delta_ok(2) [OF o2]) (simp_all add: block_type_kinds m)
    note all = stop_or [OF _ this] stop_or [OF _ thinking_ok(1) [OF m ok1]]
    show ?thesis
      using h pe tool ok1 all by (auto simp: HandleEvent_def Let_def event_types split: if_splits)
  next
    case err
    show ?thesis
    proof (cases "started s")
      case True
      with ok1 have "in_phase (WriteError E t mm ?s) Aborted" for t mm by (intro WriteError_ok [OF m]) simp_all
      with True err h pe show ?thesis by (auto simp: HandleEvent_def Let_def event_types)
    next
      case False
      then have "in_phase s Before" using ok by (auto simp: writer_ok_def stands_for_def)
      with False err h pe show ?thesis by (auto simp: HandleEvent_def Let_def event_types)
    qed
  next
    case other
    with h pe ok1 show ?thesis by (auto simp: HandleEvent_def Let_def)
  qed
qed

text \<open>
  A response as the callers write it: events are handled until one ends the stream, with the blocks
  of a tool search in between, and \<open>Finish\<close> closes a stream that was not ended.
\<close>

datatype writer_op = Handle event | ToolSearch string string string "string + string list"

fun write_response :: "writer_env \<Rightarrow> writer_op list \<Rightarrow> SSEWriter \<Rightarrow> SSEWriter" where
  "write_response E [] s = Finish E s"
| "write_response E (Handle e # ops) s =
     (let (s, stop) = HandleEvent E e s in if stop then s else write_response E ops s)"
| "write_response E (ToolSearch i name inp res # ops) s =
     (let s = WriteServerToolUse E i name inp s;
          s = (case res of Inl code \<Rightarrow> WriteToolSearchError E i code s | Inr refs \<Rightarrow> WriteToolSearchResult E i refs s)
      in write_response E ops s)"

lemma new_writer_ok: "writer_ok (NewSSEWriter uuid model cw seqs mt pre)"
  by (simp add: writer_ok_def in_phase_def stands_for_def NewSSEWriter_def sent_def)

text \<open>
  C2. The stream conforms to the protocol: whatever events upstream sends, in any order, with or
  without tool searches, what is sent to the client starts with \<open>message_start\<close>, opens and closes
  content blocks one at a time with consecutive indices from 0, sends each delta inside a block of
  its kind, and ends with \<open>message_delta\<close> and \<open>message_stop\<close>, or with an error between blocks, or
  sends nothing when upstream fails before anything was sent; a failing write leaves a conforming
  beginning of such a stream.
\<close>

theorem sse_protocol:
  assumes "\<And>ev. marshals E ev" and "s = write_response E ops (NewSSEWriter uuid model cw seqs mt pre)"
  shows "\<exists>p. sse_run (sent s) Before = Some p \<and> (writeErr s \<or> p = Done \<or> p = Aborted \<or> p = Before)"
proof -
  have "in_phase (write_response E ops s) Done \<or> in_phase (write_response E ops s) Aborted \<or>
      in_phase (write_response E ops s) Before" if "writer_ok s" for s
    using that
  proof (induction ops arbitrary: s)
    case Nil
    then show ?case using Finish_ok [OF assms(1)] by simp
  next
    case (Cons op ops)
    show ?case
    proof (cases op)
      case (Handle e)
      obtain s' stop where h: "HandleEvent E e s = (s', stop)" by fastforce
      from HandleEvent_ok [OF assms(1) Cons.prems h] Cons.IH [of s'] Handle h show ?thesis
        by (cases stop) auto
    next
      case (ToolSearch i name inp res)
      have v: "writer_ok (fireVisibleOutput (ensureStarted E s))" "started (fireVisibleOutput (ensureStarted E s))"
        using ensureStarted_ok [OF assms(1) Cons.prems] by simp_all
      have w: "writer_ok (WriteServerToolUse E i name inp s)" "started (WriteServerToolUse E i name inp s)"
        unfolding WriteServerToolUse_def by (rule writeBlock_ok [OF assms(1) v]; simp)+
      have "writer_ok (writeBlock E b None (WriteServerToolUse E i name inp s))" for b
        by (rule writeBlock_ok(1) [OF assms(1) w]) simp
      with Cons.IH ToolSearch show ?thesis
        by (cases res) (simp_all add: WriteToolSearchError_def WriteToolSearchResult_def)
    qed
  qed
  from this [OF new_writer_ok, of uuid model cw seqs mt pre, folded assms(2)] show ?thesis
    unfolding in_phase_def by blast
qed

text \<open>An environment in which no write fails and every event can be encoded.\<close>

definition plain_env :: writer_env where
  "plain_env = \<lparr>env_lib = \<lparr>rl_parse = (\<lambda>_. None), rl_thought = (\<lambda>_. None), rl_valid = (\<lambda>_. True), rl_normal = (\<lambda>s. s)\<rparr>,
     write_fails = (\<lambda>_. False), marshals = (\<lambda>_. True)\<rparr>"

theorem sse_protocol_witness:
  "\<exists>p. sse_run (sent (write_response plain_env
      [Handle (zero_event\<lparr>Type := EventAssistantResponse, Content := ''hello''\<rparr>), ToolSearch ''1'' ''search'' ''{}'' (Inr [''Read'']),
       Handle (zero_event\<lparr>Type := EventToolUse, ToolStop := True, ToolUseID := ''t'', ToolName := ''Read'', ToolInput := ''{}''\<rparr>)]
      (NewSSEWriter ''u'' ''m'' 0 [] 0 0))) Before = Some p \<and>
    (writeErr (write_response plain_env
      [Handle (zero_event\<lparr>Type := EventAssistantResponse, Content := ''hello''\<rparr>), ToolSearch ''1'' ''search'' ''{}'' (Inr [''Read'']),
       Handle (zero_event\<lparr>Type := EventToolUse, ToolStop := True, ToolUseID := ''t'', ToolName := ''Read'', ToolInput := ''{}''\<rparr>)]
      (NewSSEWriter ''u'' ''m'' 0 [] 0 0)) \<or> p = Done \<or> p = Aborted \<or> p = Before)"
  by (rule sse_protocol [OF _ refl]) (simp add: plain_env_def)

text \<open>
  \<open>ResetAccumulator\<close>, which starts another round of the thinking tool on the same stream, forgets an
  open block without closing it: the next block is opened inside it, which the protocol forbids.
\<close>

lemma reset_leaves_block_open:
  "let s = fst (HandleEvent plain_env (zero_event\<lparr>Type := EventAssistantResponse, Content := ''a''\<rparr>) (NewSSEWriter ''u'' ''m'' 0 [] 0 0));
       s = ResetAccumulator 0 [] 0 0 s;
       s = fst (HandleEvent plain_env (zero_event\<lparr>Type := EventAssistantResponse, Content := ''b''\<rparr>) s)
   in sse_run (sent s) Before = None"
  by code_simp

end
