(* ===== verification/Gate_Writer.thy ===== *)
theory Gate_Writer
  imports Sse_Protocol
begin

text \<open>
  \<open>internal/app/messages/gate_writer.go\<close>: the writer between the stream and the client. It holds back
  what is written until visible output promotes it, so that a retry can discard it. What is written
  is a list of items (bytes, or the events they encode).
\<close>

section \<open>Model\<close>

text \<open>The underlying \<open>http.ResponseWriter\<close>: what it got, its status codes, and the flushes by position.\<close>

record 'a client =
  c_body :: "'a list"
  c_status :: "int list"
  c_flushes :: "nat list"

record 'a GateWriter =
  g_w :: "'a client"
  g_buf :: "'a list"
  g_promoted :: bool
  g_statusCode :: int

definition NewGateWriter :: "'a client \<Rightarrow> 'a GateWriter" where
  "NewGateWriter w = \<lparr>g_w = w, g_buf = [], g_promoted = False, g_statusCode = 0\<rparr>"

definition client_write :: "'a list \<Rightarrow> 'a client \<Rightarrow> 'a client" where
  "client_write p w = w\<lparr>c_body := c_body w @ p\<rparr>"

definition client_flush :: "'a client \<Rightarrow> 'a client" where
  "client_flush w = w\<lparr>c_flushes := c_flushes w @ [length (c_body w)]\<rparr>"

definition WriteHeader :: "int \<Rightarrow> 'a GateWriter \<Rightarrow> 'a GateWriter" where
  "WriteHeader code g =
     (if g_promoted g then g\<lparr>g_w := (g_w g)\<lparr>c_status := c_status (g_w g) @ [code]\<rparr>\<rparr>
      else g\<lparr>g_statusCode := code\<rparr>)"

definition gate_Write :: "'a list \<Rightarrow> 'a GateWriter \<Rightarrow> 'a GateWriter" where
  "gate_Write p g =
     (if g_promoted g then g\<lparr>g_w := client_write p (g_w g)\<rparr> else g\<lparr>g_buf := g_buf g @ p\<rparr>)"

definition gate_Flush :: "'a GateWriter \<Rightarrow> 'a GateWriter" where
  "gate_Flush g = (if \<not> g_promoted g then g else g\<lparr>g_w := client_flush (g_w g)\<rparr>)"

definition Promote :: "'a GateWriter \<Rightarrow> 'a GateWriter" where
  "Promote g =
     (if g_promoted g then g
      else
        (let g = g\<lparr>g_promoted := True\<rparr>;
             g = (if g_statusCode g \<noteq> 0 then g\<lparr>g_w := (g_w g)\<lparr>c_status := c_status (g_w g) @ [g_statusCode g]\<rparr>\<rparr> else g);
             g = (if length (g_buf g) > 0 then g\<lparr>g_w := client_write (g_buf g) (g_w g), g_buf := []\<rparr> else g)
         in g\<lparr>g_w := client_flush (g_w g)\<rparr>))"

definition Discard :: "'a GateWriter \<Rightarrow> 'a GateWriter" where
  "Discard g = g\<lparr>g_buf := [], g_statusCode := 0\<rparr>"

definition IsPromoted :: "'a GateWriter \<Rightarrow> bool" where "IsPromoted g = g_promoted g"

section \<open>What the client sees\<close>

datatype 'a gate_op = GWrite "'a list" | GHeader int | GFlush | GPromote | GDiscard

fun gate_step :: "'a gate_op \<Rightarrow> 'a GateWriter \<Rightarrow> 'a GateWriter" where
  "gate_step (GWrite p) g = gate_Write p g"
| "gate_step (GHeader c) g = WriteHeader c g"
| "gate_step GFlush g = gate_Flush g"
| "gate_step GPromote g = Promote g"
| "gate_step GDiscard g = Discard g"

definition gate_run :: "'a gate_op list \<Rightarrow> 'a GateWriter \<Rightarrow> 'a GateWriter" where
  "gate_run ops g = fold gate_step ops g"

text \<open>
  The specification: the writes up to the first promotion that no later discard before it dropped,
  followed by all writes after it; nothing without a promotion.
\<close>

fun writes_of :: "'a gate_op list \<Rightarrow> 'a list" where
  "writes_of [] = []"
| "writes_of (GWrite p # ops) = p @ writes_of ops"
| "writes_of (_ # ops) = writes_of ops"

fun delivered :: "'a list \<Rightarrow> 'a gate_op list \<Rightarrow> 'a list" where
  "delivered held [] = []"
| "delivered held (GWrite p # ops) = delivered (held @ p) ops"
| "delivered held (GDiscard # ops) = delivered [] ops"
| "delivered held (GPromote # ops) = held @ writes_of ops"
| "delivered held (_ # ops) = delivered held ops"

lemma promoted_run: "g_promoted g \<Longrightarrow> c_body (g_w (gate_run ops g)) = c_body (g_w g) @ writes_of ops"
proof (induction ops arbitrary: g)
  case (Cons op ops)
  then show ?case
    by (cases op) (auto simp: gate_run_def gate_Write_def WriteHeader_def gate_Flush_def Promote_def Discard_def
        client_write_def client_flush_def)
qed (simp add: gate_run_def)

text \<open>
  The gate is all or nothing up to the promotion: whatever the order of writes, headers,
  flushes, discards and promotions, the client gets nothing before the first promotion, then
  everything written since the last discard before it, in order, and from then on every write.
\<close>

theorem gate_delivers:
  "c_body (g_w (gate_run ops (NewGateWriter w))) = c_body w @ delivered [] ops"
proof -
  have "c_body (g_w (gate_run ops g)) = c_body (g_w g) @ delivered (g_buf g) ops" if "\<not> g_promoted g" for g :: "'a GateWriter"
    using that
  proof (induction ops arbitrary: g)
    case (Cons op ops)
    show ?case
    proof (cases "op = GPromote")
      case True
      have "g_promoted (Promote g)" "c_body (g_w (Promote g)) = c_body (g_w g) @ g_buf g"
        using Cons.prems by (simp_all add: Promote_def Let_def client_write_def client_flush_def)
      with promoted_run [of "Promote g" ops] True show ?thesis by (simp add: gate_run_def)
    next
      case False
      with Cons show ?thesis
        by (cases op) (auto simp: gate_run_def gate_Write_def WriteHeader_def gate_Flush_def Discard_def)
    qed
  qed (simp add: gate_run_def)
  from this [of "NewGateWriter w"] show ?thesis by (simp add: NewGateWriter_def)
qed

section \<open>The stream through the gate\<close>

text \<open>The writer's output as operations on the gate: visible output promotes it.\<close>

definition gate_ops :: "out_item list \<Rightarrow> sse gate_op list" where
  "gate_ops out = map (\<lambda>x. case x of Sent ev \<Rightarrow> GWrite [ev] | VisibleOutput \<Rightarrow> GPromote) out"

text \<open>
  When an invalid tool call makes the orchestrators discard the buffered stream and try again on the
  same writer, the writer still believes \<open>message_start\<close> was sent: what the client then gets does not
  begin with it.
\<close>

lemma retry_loses_message_start:
  "let s1 = fst (HandleEvent plain_env (zero_event\<lparr>Type := EventReasoningContent, ThinkingText := ''hm''\<rparr>) (NewSSEWriter ''u'' ''m'' 0 [] 0 0));
       s2 = ResetAccumulator 0 [] 0 0 s1;
       s3 = Finish plain_env (fst (HandleEvent plain_env (zero_event\<lparr>Type := EventAssistantResponse, Content := ''ok''\<rparr>) s2));
       retry = drop (length (w_out s1)) (w_out s3)
   in sse_run (delivered [] (gate_ops (w_out s1) @ [GDiscard] @ gate_ops retry)) Before = None"
  by code_simp

end
