(* ===== verification/Nonstreaming.thy ===== *)
theory Nonstreaming
  imports Sse_Protocol
begin

text \<open>
  \<open>internal/respconv/nonstreaming.go\<close>: the complete response built from the accumulator, and the proof
  that the stream and the complete response carry the same content.
\<close>

section \<open>Model\<close>

record NonStreamingStats =
  st_InputTokens :: int
  st_OutputTokens :: int
  st_CacheReadInputTokens :: int
  st_CacheWriteInputTokens :: int
  st_RawInputTokens :: int
  st_RawOutputTokens :: int
  st_RawCacheReadTokens :: int
  st_RawCacheWriteTokens :: int
  st_HasContextUsage :: bool
  st_ContextUsagePercentage :: float64

text \<open>The content blocks of a response; the last three are those of a tool search.\<close>

datatype content =
    CThinking string "string option"
  | CText string
  | CToolUse string string json
  | CServerToolUse string string jmap
  | CToolSearchResult string "string list"
  | CToolSearchError string string

record response =
  resp_id :: string
  resp_content :: "content list"
  resp_model :: string
  resp_stop_reason :: string
  resp_stop_sequence :: "string option"
  resp_usage :: usage_map

text \<open>\<open>decode\<close> is \<open>json.Unmarshal\<close> of a tool input into an \<open>any\<close>; a failure gives the empty object.\<close>

definition buildResponseFromAcc :: "resp_lib \<Rightarrow> (string \<Rightarrow> json option) \<Rightarrow> string \<Rightarrow> responseAccumulator \<Rightarrow> string
    \<Rightarrow> response \<times> NonStreamingStats" where
  "buildResponseFromAcc L decode uuid acc model =
     (let (acc, _, _, res) = finalizeResult acc;
          acc = discardInvalidToolCallWarning acc;
          toolCalls = DeduplicateToolCalls (rl_normal L) (ToolCalls acc);
          content =
            (if ThinkingBuf acc \<noteq> ''''
             then [CThinking (ThinkingBuf acc) (if a_Signature acc \<noteq> '''' then Some (a_Signature acc) else None)] else []) @
            (if TextBuf acc \<noteq> '''' then [CText (TextBuf acc)] else []) @
            map (\<lambda>tc. CToolUse (tc_ID tc) (tc_Name tc) (case decode (tc_Input tc) of Some v \<Rightarrow> v | None \<Rightarrow> JObj [])) toolCalls
      in (\<lparr>resp_id = ''msg_'' @ take 24 uuid, resp_content = content, resp_model = model,
           resp_stop_reason = r_StopReason res, resp_stop_sequence = r_StopSequence res, resp_usage = r_Usage res\<rparr>,
          \<lparr>st_InputTokens = r_InputTokens res, st_OutputTokens = r_OutputTokens res,
           st_CacheReadInputTokens =
             (case FinalUsage acc of Some u \<Rightarrow> u_CacheReadInputTokens u | None \<Rightarrow> a_CacheReadInputTokens acc),
           st_CacheWriteInputTokens =
             (case FinalUsage acc of Some u \<Rightarrow> u_CacheWriteInputTokens u | None \<Rightarrow> a_CacheWriteInputTokens acc),
           st_RawInputTokens = r_RawInputTokens res, st_RawOutputTokens = r_RawOutputTokens res,
           st_RawCacheReadTokens = r_RawCacheReadTokens res, st_RawCacheWriteTokens = r_RawCacheWriteTokens res,
           st_HasContextUsage = HasContextUsage acc, st_ContextUsagePercentage = a_ContextUsagePercentage acc\<rparr>))"

definition process_events :: "resp_lib \<Rightarrow> event list \<Rightarrow> responseAccumulator \<Rightarrow> responseAccumulator" where
  "process_events L events acc = fold (\<lambda>e a. fst (ProcessEvent L e a)) events acc"

definition BuildNonStreamingResponse :: "resp_lib \<Rightarrow> (string \<Rightarrow> json option) \<Rightarrow> string \<Rightarrow> event list \<Rightarrow> string
    \<Rightarrow> int \<Rightarrow> string list \<Rightarrow> int \<Rightarrow> int \<Rightarrow> response \<times> NonStreamingStats" where
  "BuildNonStreamingResponse L decode uuid events model contextWindowSize stopSeqs maxTokens preCounted =
     buildResponseFromAcc L decode uuid
       (process_events L events (newAccumulator contextWindowSize stopSeqs maxTokens preCounted)) model"

section \<open>The buffers hold what was delivered\<close>

lemma budget_keeps:
  "TextBuf (fst (applyMaxTokensBudget d a)) = TextBuf a" "ThinkingBuf (fst (applyMaxTokensBudget d a)) = ThinkingBuf a"
  by (simp_all add: applyMaxTokensBudget_def Let_def)

lemma filter_keeps:
  "TextBuf (fst (applyStopSequenceFilter d a)) = TextBuf a" "ThinkingBuf (fst (applyStopSequenceFilter d a)) = ThinkingBuf a"
  by (simp_all add: applyStopSequenceFilter_def Let_def split: option.split prod.split)

lemma tags_keep:
  "TextBuf (fst (parseThinkingTags d a)) = TextBuf a" "ThinkingBuf (fst (parseThinkingTags d a)) = ThinkingBuf a"
  "TextBuf (fst (finalizeThinkingTags a)) = TextBuf a" "ThinkingBuf (fst (finalizeThinkingTags a)) = ThinkingBuf a"
  by (simp_all add: parseThinkingTags_def finalizeThinkingTags_def Let_def)

lemma thinking_bufs:
  "accumulateThinking t d a = (a', d') \<Longrightarrow> ThinkingDelta d = '''' \<Longrightarrow>
   TextBuf a' = TextBuf a \<and> ThinkingBuf a' = ThinkingBuf a @ ThinkingDelta d' \<and> TextDelta d' = TextDelta d \<and>
   d_ToolStop d' = d_ToolStop d \<and> d_RedactedContent d' = d_RedactedContent d \<and> SignatureDelta d' = SignatureDelta d"
  using budget_keeps [of t a]
  by (cases "applyMaxTokensBudget t a") (auto simp: accumulateThinking_def split: if_splits)

lemma text_bufs:
  "accumulate_text t a = (a', out) \<Longrightarrow> TextBuf a' = TextBuf a @ out \<and> ThinkingBuf a' = ThinkingBuf a"
proof -
  assume h: "accumulate_text t a = (a', out)"
  define a0 where "a0 = a\<lparr>HasText := True\<rparr>"
  obtain a1 t1 where 1: "(if stopSequences a0 \<noteq> [] then applyStopSequenceFilter t a0 else (a0, t)) = (a1, t1)" by fastforce
  obtain a2 t2 where 2: "(if t1 \<noteq> '''' \<and> \<not> LocalStop a1 then applyMaxTokensBudget t1 a1 else (a1, t1)) = (a2, t2)" by fastforce
  have "TextBuf a1 = TextBuf a \<and> ThinkingBuf a1 = ThinkingBuf a"
    using 1 filter_keeps [of t a0] by (auto simp: a0_def split: if_splits)
  moreover have "TextBuf a2 = TextBuf a1 \<and> ThinkingBuf a2 = ThinkingBuf a1"
    using 2 budget_keeps [of t1 a1] by (auto split: if_splits)
  moreover have "(if t2 \<noteq> '''' then (a2\<lparr>TextBuf := TextBuf a2 @ t2\<rparr>, t2) else (a2, '''')) = (a', out)"
    using h 1 2 unfolding accumulate_text_def Let_def a0_def by simp
  ultimately show ?thesis by (auto split: if_splits)
qed

lemma record_tool_bufs:
  "record_tool L e n i d a = (a', d') \<Longrightarrow>
   TextBuf a' = TextBuf a \<and> ThinkingBuf a' = ThinkingBuf a \<and> TextDelta d' = TextDelta d \<and> ThinkingDelta d' = ThinkingDelta d"
  by (auto simp: record_tool_def Let_def split: if_splits)

lemma tool_bufs:
  assumes "processToolUseEvent L e zero_delta a = (a', d')"
  shows "TextBuf a' = TextBuf a \<and> ThinkingBuf a' = ThinkingBuf a @ ThinkingDelta d' \<and> TextDelta d' = ''''"
proof -
  have z: "ThinkingDelta zero_delta = ''''" "TextDelta zero_delta = ''''" by (simp_all add: zero_delta_def)
  show ?thesis
    using assms thinking_bufs [of _ zero_delta a a' d'] record_tool_bufs [of L e _ _ zero_delta a a' d'] z
    by (auto simp: processToolUseEvent_def Let_def split: if_splits option.splits sum.splits)
qed

lemma ProcessEvent_bufs:
  assumes "ProcessEvent L e a = (a', d)"
  shows "TextBuf a' = TextBuf a @ TextDelta d \<and> ThinkingBuf a' = ThinkingBuf a @ ThinkingDelta d \<and>
    (TextDelta d = '''' \<or> Type e = EventAssistantResponse) \<and>
    (ThinkingDelta d = '''' \<or> Type e = EventAssistantResponse \<or> Type e = EventReasoningContent \<and> d_RedactedContent d = '''' \<or> Type e = EventToolUse)"
proof -
  have z: "ThinkingDelta zero_delta = ''''" "TextDelta zero_delta = ''''" "d_RedactedContent zero_delta = ''''" by (simp_all add: zero_delta_def)
  consider (reply) "Type e = EventAssistantResponse" | (think) "Type e = EventReasoningContent" | (tool) "Type e = EventToolUse"
    | (other) "Type e \<notin> {EventAssistantResponse, EventReasoningContent, EventToolUse}" by blast
  then show ?thesis
  proof cases
    case reply
    let ?a = "a\<lparr>lastContent := Content e\<rparr>" and ?delta = "compute_delta (Content e) (lastContent a)"
    show ?thesis
    proof (cases "?delta \<noteq> '''' \<and> \<not> LocalStop a")
      case False
      with assms reply z show ?thesis by (auto simp: ProcessEvent_def Let_def)
    next
      case True
      obtain a1 t k where p: "parseThinkingTags ?delta ?a = (a1, t, k)" by (metis prod.collapse)
      have 1: "TextBuf a1 = TextBuf a" "ThinkingBuf a1 = ThinkingBuf a" using tags_keep(1,2) [of ?delta ?a] p by simp_all
      obtain a2 d2 where 2: "(if k \<noteq> '''' then accumulateThinking k zero_delta a1 else (a1, zero_delta)) = (a2, d2)" by fastforce
      have b2: "TextBuf a2 = TextBuf a" "ThinkingBuf a2 = ThinkingBuf a @ ThinkingDelta d2" "TextDelta d2 = ''''"
        using 2 thinking_bufs [of k zero_delta a1 a2 d2] 1 z by (auto split: if_splits)
      obtain a3 d3 where 3: "(if t \<noteq> '''' then (let (a, out) = accumulate_text t a2 in
          (a, if out \<noteq> '''' then d2\<lparr>TextDelta := out\<rparr> else d2)) else (a2, d2)) = (a3, d3)" by fastforce
      have b3: "TextBuf a3 = TextBuf a @ TextDelta d3" "ThinkingBuf a3 = ThinkingBuf a @ ThinkingDelta d3"
        using 3 b2 text_bufs [of t a2] by (auto simp: Let_def split: if_splits prod.splits)
      have "(a', d) = (if LocalStop a3 then (a3, d3\<lparr>StopSignal := True, d_StopReason := StopReason a3, d_StopSequence := StopSequence a3\<rparr>) else (a3, d3))"
        using assms reply True p 2 3 by (simp add: ProcessEvent_def Let_def)
      with b3 reply show ?thesis by (auto split: if_splits)
    qed
  next
    case think
    then show ?thesis using assms z thinking_bufs
      by (auto simp: ProcessEvent_def Let_def event_types split: if_splits)
  next
    case tool
    with assms tool_bufs [of L e a a' d] show ?thesis by (simp add: ProcessEvent_def event_types)
  next
    case other
    with assms z show ?thesis by (auto simp: ProcessEvent_def Let_def split: if_splits)
  qed
qed

lemma FinalizeStream_bufs:
  assumes "FinalizeStream a = (a', t, k)"
  shows "TextBuf a' = TextBuf a @ t \<and> ThinkingBuf a' = ThinkingBuf a @ k"
proof -
  have z: "ThinkingDelta zero_delta = ''''" by (simp add: zero_delta_def)
  obtain a1 t1 k1 where 1: "finalizeThinkingTags a = (a1, t1, k1)" by (metis prod.collapse)
  have b1: "TextBuf a1 = TextBuf a" "ThinkingBuf a1 = ThinkingBuf a" using tags_keep(3,4) [of a] 1 by simp_all
  obtain a2 k2 where 2: "(if k1 \<noteq> '''' then (let (a, d) = accumulateThinking k1 zero_delta a1 in (a, ThinkingDelta d)) else (a1, '''')) = (a2, k2)"
    by fastforce
  have b2: "TextBuf a2 = TextBuf a" "ThinkingBuf a2 = ThinkingBuf a @ k2"
    using 2 b1 thinking_bufs [OF _ z] by (auto simp: Let_def split: if_splits prod.splits)
  obtain a3 t3 where 3: "(if t1 \<noteq> '''' then accumulate_text t1 a2 else (a2, '''')) = (a3, t3)" by fastforce
  have b3: "TextBuf a3 = TextBuf a @ t3" "ThinkingBuf a3 = ThinkingBuf a @ k2"
    using 3 b2 text_bufs [of t1 a2] by (auto split: if_splits)
  show ?thesis
    using assms 1 2 3 b3 budget_keeps [of "stopSeqPending a3" "a3\<lparr>stopSeqPending := ''''\<rparr>"]
    by (auto simp: FinalizeStream_def flushStopSeqPending_def Let_def split: if_splits prod.splits)
qed

section \<open>What the stream carries\<close>

definition texts :: "sse list \<Rightarrow> string" where
  "texts evs = concat (map (\<lambda>ev. case ev of BlockDelta _ (TextD t) \<Rightarrow> t | _ \<Rightarrow> '''') evs)"

definition thinkings :: "sse list \<Rightarrow> string" where
  "thinkings evs = concat (map (\<lambda>ev. case ev of BlockDelta _ (ThinkingD t) \<Rightarrow> t | _ \<Rightarrow> '''') evs)"

lemma texts_append [simp]: "texts (xs @ ys) = texts xs @ texts ys" "thinkings (xs @ ys) = thinkings xs @ thinkings ys"
  by (simp_all add: texts_def thinkings_def)

text \<open>A client that takes every write, and events that can all be encoded.\<close>

definition reliable :: "writer_env \<Rightarrow> bool" where
  "reliable E \<longleftrightarrow> (\<forall>n. \<not> write_fails E n) \<and> (\<forall>ev. marshals E ev)"

definition carried :: "SSEWriter \<Rightarrow> string \<times> string" where
  "carried s = (texts (sent s), thinkings (sent s))"

definition adds :: "sse \<Rightarrow> string \<times> string" where
  "adds ev = (texts [ev], thinkings [ev])"

lemma carried_raw: "reliable E \<Longrightarrow> \<not> writeErr s \<Longrightarrow>
  carried (writeRawSSE E ev s) = (fst (carried s) @ fst (adds ev), snd (carried s) @ snd (adds ev)) \<and> \<not> writeErr (writeRawSSE E ev s)"
  by (simp add: carried_def adds_def writeRawSSE_def sent_def reliable_def)

lemma carried_enc: "reliable E \<Longrightarrow> \<not> writeErr s \<Longrightarrow>
  carried (writeSSE E ev s) = (fst (carried s) @ fst (adds ev), snd (carried s) @ snd (adds ev)) \<and> \<not> writeErr (writeSSE E ev s)"
  using carried_raw [of E s ev] by (simp add: writeSSE_def reliable_def)

lemma adds_simps [simp]:
  "adds (MessageStart i m u) = ('''', '''')" "adds (BlockStart n b) = ('''', '''')" "adds (BlockStop n) = ('''', '''')"
  "adds (MessageDelta r q u) = ('''', '''')" "adds MessageStop = ('''', '''')" "adds (ErrorEvent t m) = ('''', '''')"
  "adds (BlockDelta n (TextD t)) = (t, '''')" "adds (BlockDelta n (ThinkingD t)) = ('''', t)"
  "adds (BlockDelta n (SignatureD t)) = ('''', '''')" "adds (BlockDelta n (InputJsonD t)) = ('''', '''')"
  by (simp_all add: adds_def texts_def thinkings_def)

lemma carried_updates [simp]:
  "carried (s\<lparr>w_acc := a\<rparr>) = carried s" "carried (s\<lparr>started := b\<rparr>) = carried s" "carried (s\<lparr>activeType := t\<rparr>) = carried s"
  "carried (s\<lparr>blockIndex := i\<rparr>) = carried s" "carried (s\<lparr>signatureSent := b\<rparr>) = carried s"
  "carried (fireVisibleOutput s) = carried s"
  by (simp_all add: carried_def)

text \<open>How the writing operations extend what the stream carries.\<close>

definition extends :: "string \<Rightarrow> string \<Rightarrow> SSEWriter \<Rightarrow> SSEWriter \<Rightarrow> bool" where
  "extends t k s s' \<longleftrightarrow> carried s' = (fst (carried s) @ t, snd (carried s) @ k) \<and> \<not> writeErr s' \<and> w_acc s' = w_acc s"

lemma extends_trans: "extends t k s s' \<Longrightarrow> extends t' k' s' s'' \<Longrightarrow> extends (t @ t') (k @ k') s s''"
  by (simp add: extends_def)

lemma extends_refl: "\<not> writeErr s \<Longrightarrow> extends '''' '''' s s"
  by (simp add: extends_def)


lemma ext_started: "reliable E \<Longrightarrow> \<not> writeErr s \<Longrightarrow> extends [] [] s (ensureStarted E s)"
  using carried_enc [of E "s\<lparr>started := True\<rparr>"] by (simp add: extends_def ensureStarted_def Let_def)

lemma ext_close: "reliable E \<Longrightarrow> \<not> writeErr s \<Longrightarrow> extends [] [] s (closeActiveBlock E s)"
  using carried_raw [of E s] by (simp add: extends_def closeActiveBlock_def)

lemma ext_switch:
  assumes "reliable E" "\<not> writeErr s"
  shows "extends [] [] s (switchBlock E t s)"
proof -
  have c: "extends [] [] s (closeActiveBlock E s)" by (rule ext_close [OF assms])
  have "extends [] [] s (writeSSE E ev ((closeActiveBlock E s)\<lparr>blockIndex := i, activeType := t\<rparr>))"
    "extends [] [] s (writeSSE E ev ((closeActiveBlock E s)\<lparr>blockIndex := i, activeType := t, signatureSent := True\<rparr>))"
    if "adds ev = ([], [])" for ev i
    using c that carried_enc [OF assms(1), of "(closeActiveBlock E s)\<lparr>blockIndex := i, activeType := t\<rparr>" ev]
      carried_enc [OF assms(1), of "(closeActiveBlock E s)\<lparr>blockIndex := i, activeType := t, signatureSent := True\<rparr>" ev]
    by (simp_all add: extends_def)
  then show ?thesis using extends_refl [OF assms(2)] by (auto simp: switchBlock_def Let_def)
qed

lemma extends_ok: "extends t k s s' \<Longrightarrow> \<not> writeErr s'"
  by (simp add: extends_def)

lemma ext_delta:
  "reliable E \<Longrightarrow> \<not> writeErr s \<Longrightarrow> extends (fst (adds (BlockDelta 0 d))) (snd (adds (BlockDelta 0 d))) s (writeDelta E d s)"
  using carried_raw [of E s "BlockDelta (blockIndex s) d"]
  by (cases d) (simp_all add: extends_def writeDelta_def)

lemma ext_thinking:
  assumes "reliable E" "\<not> writeErr s"
  shows "extends [] k s (writeThinkingDelta E k s)"
proof -
  note a = ext_started [OF assms]
  note b = ext_switch [OF assms(1) extends_ok [OF a], of BlockTypeThinking]
  note c = ext_delta [OF assms(1) extends_ok [OF b], of "ThinkingD k"]
  from extends_trans [OF extends_trans [OF a b] c] show ?thesis by (simp add: writeThinkingDelta_def)
qed

lemma ext_text:
  assumes "reliable E" "\<not> writeErr s"
  shows "extends t [] s (writeTextDelta E t s)"
proof -
  have a: "extends [] [] s (fireVisibleOutput s)" using assms(2) by (simp add: extends_def)
  note b = ext_switch [OF assms(1) extends_ok [OF a], of BlockTypeText]
  note c = ext_delta [OF assms(1) extends_ok [OF b], of "TextD t"]
  from extends_trans [OF extends_trans [OF a b] c] show ?thesis by (simp add: writeTextDelta_def)
qed

lemma ext_signature:
  assumes "reliable E" "\<not> writeErr s"
  shows "extends [] [] s (writeSignatureDelta E g s)"
proof -
  note a = ext_started [OF assms]
  have "extends [] [] (ensureStarted E s) ((writeSSE E (BlockDelta i (SignatureD g)) (ensureStarted E s))\<lparr>signatureSent := True\<rparr>)" for i
    using carried_enc [OF assms(1) extends_ok [OF a]] by (simp add: extends_def)
  with extends_trans [OF a] a extends_refl [OF assms(2)] show ?thesis by (fastforce simp: writeSignatureDelta_def Let_def)
qed

lemma ext_open:
  assumes "reliable E" "\<not> writeErr s"
  shows "extends [] [] s (let s = closeActiveBlock E s; s = s\<lparr>blockIndex := blockIndex s + 1, activeType := t\<rparr>
    in writeSSE E (BlockStart (blockIndex s) b) s)"
  using ext_close [OF assms] carried_enc [OF assms(1), of "(closeActiveBlock E s)\<lparr>blockIndex := blockIndex s + 1, activeType := t\<rparr>"]
  by (simp add: extends_def Let_def)

text \<open>
  A writer is faithful when the stream carries exactly the accumulated text and thinking.
\<close>

definition faithful :: "SSEWriter \<Rightarrow> bool" where
  "faithful s \<longleftrightarrow> \<not> writeErr s \<and> carried s = (TextBuf (w_acc s), ThinkingBuf (w_acc s))"

lemma faithful_ext:
  "extends t k (s\<lparr>w_acc := a\<rparr>) s' \<Longrightarrow> faithful s \<Longrightarrow> TextBuf a = TextBuf (w_acc s) @ t \<Longrightarrow>
   ThinkingBuf a = ThinkingBuf (w_acc s) @ k \<Longrightarrow> faithful s' \<and> w_acc s' = a"
  by (simp add: faithful_def extends_def)

lemma finalize_bufs:
  "finalizeResult a = (a', t, k, res) \<Longrightarrow> TextBuf a' = TextBuf a @ t \<and> ThinkingBuf a' = ThinkingBuf a @ k"
  using FinalizeStream_bufs [of a]
  by (auto simp: finalizeResult_def Let_def split: prod.splits option.splits)

lemma Finish_faithful:
  assumes E: "reliable E" and s: "faithful s"
  shows "faithful (Finish E s) \<and> w_acc (Finish E s) = discardInvalidToolCallWarning (fst (finalizeResult (w_acc s)))"
proof -
  obtain a td th res where f: "finalizeResult (w_acc s) = (a, td, th, res)" by (metis prod.collapse)
  let ?a = "discardInvalidToolCallWarning a"
  have w: "\<not> writeErr s" using s by (simp add: faithful_def)
  define s1 where "s1 = (ensureStarted E s)\<lparr>w_acc := ?a\<rparr>"
  have s1: "extends [] [] (s\<lparr>w_acc := ?a\<rparr>) s1" using ext_started [OF E w] by (simp add: s1_def extends_def)
  define s2 where "s2 = (if th \<noteq> [] then writeThinkingDelta E th s1 else s1)"
  have s2: "extends [] th s1 s2"
    using ext_thinking [OF E extends_ok [OF s1], of th] extends_refl [OF extends_ok [OF s1]] by (simp add: s2_def)
  define s3 where "s3 = (if td \<noteq> [] then writeTextDelta E td s2 else s2)"
  have s3: "extends td [] s2 s3"
    using ext_text [OF E extends_ok [OF s2], of td] extends_refl [OF extends_ok [OF s2]] by (simp add: s3_def)
  note s4 = ext_close [OF E extends_ok [OF s3]]
  let ?md = "MessageDelta (r_StopReason res) (r_StopSequence res) (r_Usage res)"
  let ?f = "writeSSE E MessageStop (writeSSE E ?md (closeActiveBlock E s3))"
  have "extends [] [] (closeActiveBlock E s3) ?f"
    using carried_enc [OF E extends_ok [OF s4], of ?md] carried_enc [OF E, of "writeSSE E ?md (closeActiveBlock E s3)" MessageStop]
    by (simp add: extends_def)
  from extends_trans [OF extends_trans [OF extends_trans [OF extends_trans [OF s1 s2] s3] s4] this]
  have "extends td th (s\<lparr>w_acc := ?a\<rparr>) ?f" by simp
  moreover have "Finish E s = ?f"
    unfolding Finish_def Let_def ensureStarted_fields f prod.case s3_def s2_def s1_def ..
  moreover have "TextBuf ?a = TextBuf (w_acc s) @ td" "ThinkingBuf ?a = ThinkingBuf (w_acc s) @ th"
    using finalize_bufs [OF f] by (simp_all add: discardInvalidToolCallWarning_def)
  ultimately show ?thesis using faithful_ext [of td th ?a s ?f] s f by simp
qed

lemma sent_write: "reliable E \<Longrightarrow> \<not> writeErr s \<Longrightarrow> sent (writeSSE E ev s) = sent s @ [ev]"
  by (simp add: writeSSE_def writeRawSSE_def sent_def reliable_def)

lemma thinking_signal: "accumulateThinking t d a = (a', d') \<Longrightarrow> StopSignal d' \<Longrightarrow> StopSignal d \<or> LocalStop a'"
  by (auto simp: accumulateThinking_def Let_def split: if_splits prod.splits)

lemma text_keeps_stop: "accumulate_text t a = (a', out) \<Longrightarrow> LocalStop a \<Longrightarrow> LocalStop a'"
  by (auto simp: accumulate_text_def applyStopSequenceFilter_def Let_def split: if_splits prod.splits option.splits)

lemma ProcessEvent_signal:
  assumes "ProcessEvent L e a = (a', d)" "StopSignal d"
  shows "LocalStop a'"
proof -
  have z: "\<not> StopSignal zero_delta" by (simp add: zero_delta_def)
  have proc: "LocalStop a'" if "processToolUseEvent L e zero_delta a = (a', d)"
    using that assms(2) z thinking_signal [of _ zero_delta a a' d]
    by (auto simp: processToolUseEvent_def record_tool_def Let_def split: if_splits option.splits sum.splits)
  consider (reply) "Type e = EventAssistantResponse" | (think) "Type e = EventReasoningContent" | (tool) "Type e = EventToolUse"
    | (other) "Type e \<notin> {EventAssistantResponse, EventReasoningContent, EventToolUse}" by blast
  then show ?thesis
  proof cases
    case reply
    then show ?thesis
      using assms z thinking_signal [of _ zero_delta] text_keeps_stop
      by (auto simp: ProcessEvent_def Let_def split: if_splits prod.splits)
  next
    case think
    have z': "\<not> StopSignal (zero_delta\<lparr>SignatureDelta := x\<rparr>)" for x by (simp add: zero_delta_def)
    from think show ?thesis
      using assms z z' thinking_signal [of _ zero_delta _ a' d] thinking_signal [of _ "zero_delta\<lparr>SignatureDelta := Signature e\<rparr>" _ a' d]
      by (auto simp: ProcessEvent_def Let_def event_types split: if_splits)
  next
    case tool
    with assms proc show ?thesis by (simp add: ProcessEvent_def event_types)
  next
    case other
    with assms z show ?thesis by (auto simp: ProcessEvent_def Let_def zero_delta_def split: if_splits)
  qed
qed

text \<open>An event that is not an error is either handled and the writer stays faithful, or ends the stream.\<close>

lemma HandleEvent_faithful:
  assumes E: "reliable E" and s: "faithful s" and ne: "Type e \<noteq> EventInvalidState" "Type e \<noteq> EventException"
    and h: "HandleEvent E e s = (s', stop)" and pe: "ProcessEvent (env_lib E) e (w_acc s) = (a, d)"
  shows "if stop then LocalStop a \<and> (\<exists>t. faithful t \<and> w_acc t = a \<and> s' = Finish E t) else faithful s' \<and> w_acc s' = a"
proof -
  let ?s = "s\<lparr>w_acc := a\<rparr>"
  note B = ProcessEvent_bufs [OF pe]
  have w: "\<not> writeErr ?s" using s by (simp add: faithful_def)
  have stop_or: "?thesis" if "(if StopSignal d then (Finish E t, True) else (t, False)) = (s', stop)"
    "extends (TextDelta d) (ThinkingDelta d) ?s t" for t
    using that faithful_ext [OF that(2) s] B ProcessEvent_signal [OF pe] by (auto split: if_splits)
  have keep: "faithful t \<and> w_acc t = a" if "extends [] [] ?s t" "TextDelta d = []" "ThinkingDelta d = []" for t
    using faithful_ext [OF that(1) s] B that by simp
  note st = ext_started [OF E w]
  consider (reply) "Type e = EventAssistantResponse" | (think) "Type e = EventReasoningContent" | (tool) "Type e = EventToolUse"
    | (other) "Type e \<notin> {EventAssistantResponse, EventReasoningContent, EventToolUse, EventInvalidState, EventException}"
    using ne by blast
  then show ?thesis
  proof cases
    case reply
    let ?t = "if ThinkingDelta d \<noteq> '''' then writeThinkingDelta E (ThinkingDelta d) ?s else ?s"
    have t: "extends [] (ThinkingDelta d) ?s ?t" using ext_thinking [OF E w] extends_refl [OF w] by simp
    note t1 = ext_started [OF E extends_ok [OF t]]
    let ?u = "if TextDelta d \<noteq> '''' then writeTextDelta E (TextDelta d) (ensureStarted E ?t) else ?t"
    have "extends (TextDelta d) [] ?t ?u"
      using extends_trans [OF t1 ext_text [OF E extends_ok [OF t1]]] extends_refl [OF extends_ok [OF t]] by simp
    from extends_trans [OF t this] have "extends (TextDelta d) (ThinkingDelta d) ?s ?u" by simp
    then show ?thesis by (rule stop_or [rotated]) (use h pe reply in \<open>simp add: HandleEvent_def Let_def\<close>)
  next
    case think
    then have T: "TextDelta d = []" using B by (auto simp: event_types)
    show ?thesis
    proof (cases "d_RedactedContent d = '''' \<and> ThinkingDelta d \<noteq> ''''")
      case True
      let ?t = "writeThinkingDelta E (ThinkingDelta d) ?s"
      have t: "extends [] (ThinkingDelta d) ?s ?t" by (rule ext_thinking [OF E w])
      let ?u = "if SignatureDelta d \<noteq> '''' then writeSignatureDelta E (SignatureDelta d) ?t else ?t"
      have "extends [] [] ?t ?u" using ext_signature [OF E extends_ok [OF t]] extends_refl [OF extends_ok [OF t]] by simp
      from extends_trans [OF t this] T have "extends (TextDelta d) (ThinkingDelta d) ?s ?u" by simp
      then show ?thesis by (rule stop_or [rotated]) (use h pe think True in \<open>simp add: HandleEvent_def Let_def event_types\<close>)
    next
      case False
      then have K: "ThinkingDelta d = []" using B think by (auto simp: event_types)
      let ?r = "let s = closeActiveBlock E (ensureStarted E ?s); s = s\<lparr>blockIndex := blockIndex s + 1, activeType := BlockTypeRedactedThinking\<rparr>
        in writeSSE E (BlockStart (blockIndex s) (RedactedBlock (d_RedactedContent d))) s"
      note r = extends_trans [OF st ext_open [OF E extends_ok [OF st], of BlockTypeRedactedThinking "RedactedBlock (d_RedactedContent d)"]]
      have "extends [] [] ?s (closeActiveBlock E ?r)" using extends_trans [OF r ext_close [OF E extends_ok [OF r]]] by simp
      with keep [OF _ T K] ext_signature [OF E w] extends_refl [OF w] h pe think K show ?thesis
        by (auto simp: HandleEvent_def Let_def event_types split: if_splits)
    qed
  next
    case tool
    then have T: "TextDelta d = []" using B by (auto simp: event_types)
    let ?v = "fireVisibleOutput (ensureStarted E ?s)"
    have v: "extends [] [] ?s ?v" using st by (simp add: extends_def)
    let ?o = "let s = closeActiveBlock E ?v; s = s\<lparr>blockIndex := blockIndex s + 1, activeType := BlockTypeToolUse\<rparr>
        in writeSSE E (BlockStart (blockIndex s) (ToolUseBlock (d_ToolUseID d) (d_ToolName d))) s"
    note o = extends_trans [OF v ext_open [OF E extends_ok [OF v], of BlockTypeToolUse "ToolUseBlock (d_ToolUseID d) (d_ToolName d)"]]
    let ?i = "writeSSE E (BlockDelta (blockIndex ?o) (InputJsonD (d_ToolInput d))) ?o"
    have "extends [] [] ?o ?i" using carried_enc [OF E extends_ok [OF o]] by (simp add: extends_def)
    with extends_trans [OF o this] have i: "extends [] [] ?s ?i" by simp
    have k: "extends [] (ThinkingDelta d) ?s (writeThinkingDelta E (ThinkingDelta d) ?s)" by (rule ext_thinking [OF E w])
    show ?thesis
    proof (cases "ThinkingDelta d = ''''")
      case True
      with keep [OF extends_refl [OF w] T] stop_or [of ?i] i T h pe tool show ?thesis
        by (auto simp: HandleEvent_def Let_def event_types split: if_splits)
    next
      case False
      with stop_or [of "writeThinkingDelta E (ThinkingDelta d) ?s"] k T h pe tool show ?thesis
        by (simp add: HandleEvent_def Let_def event_types)
    qed
  next
    case other
    then have "TextDelta d = []" "ThinkingDelta d = []" using B by auto
    with keep [OF extends_refl [OF w]] other h pe show ?thesis by (auto simp: HandleEvent_def Let_def)
  qed
qed

section \<open>After a stop\<close>

text \<open>
  Once a stop is raised, an event changes nothing but the fields reset here: the chunks last seen,
  the signature, usage and conversation metadata.
\<close>

definition strip :: "responseAccumulator \<Rightarrow> responseAccumulator" where
  "strip a = a\<lparr>lastContent := '''', lastThinking := '''', a_Signature := '''', HasMetadata := False, a_InputTokens := 0,
     a_OutputTokens := 0, a_CacheReadInputTokens := 0, a_CacheWriteInputTokens := 0, HasContextUsage := False,
     a_ContextUsagePercentage := 0, a_ConversationID := ''''\<rparr>"

lemma strip_fields [simp]:
  "TextBuf (strip a) = TextBuf a" "ThinkingBuf (strip a) = ThinkingBuf a" "LocalStop (strip a) = LocalStop a"
  "StopReason (strip a) = StopReason a" "StopSequence (strip a) = StopSequence a" "HasToolUse (strip a) = HasToolUse a"
  by (simp_all add: strip_def)

lemma stopped_event: "LocalStop a \<Longrightarrow> strip (fst (ProcessEvent L e a)) = strip a"
proof -
  assume l: "LocalStop a"
  consider (reply) "Type e = EventAssistantResponse" | (think) "Type e = EventReasoningContent" | (tool) "Type e = EventToolUse"
    | (other) "Type e \<notin> {EventAssistantResponse, EventReasoningContent, EventToolUse}" by blast
  then show ?thesis
  proof cases
    case reply
    with l show ?thesis by (simp add: ProcessEvent_def Let_def) (simp add: strip_def)
  next
    case think
    with l show ?thesis
      by (simp add: ProcessEvent_def Let_def event_types case_prod_unfold) (simp add: strip_def)
  next
    case tool
    with l show ?thesis by (simp add: ProcessEvent_def processToolUseEvent_def event_types)
  next
    case other
    then have eq: "fst (ProcessEvent L e a) \<in> {a, a\<lparr>a_ConversationID := ConversationID e\<rparr>,
        a\<lparr>a_InputTokens := InputTokens e, a_OutputTokens := OutputTokens e\<rparr>,
        a\<lparr>HasContextUsage := True, a_ContextUsagePercentage := ContextUsagePercentage e\<rparr>,
        a\<lparr>HasMetadata := True, a_InputTokens := InputTokens e, a_OutputTokens := OutputTokens e,
          a_CacheReadInputTokens := CacheReadInputTokens e, a_CacheWriteInputTokens := CacheWriteInputTokens e\<rparr>}"
      by (simp add: ProcessEvent_def Let_def)
    then show ?thesis by (elim insertE emptyE) (simp_all add: strip_def)
  qed
qed

lemma strip_budget: "applyMaxTokensBudget d (strip a) = map_prod strip id (applyMaxTokensBudget d a)"
  by (simp add: applyMaxTokensBudget_def strip_def Let_def)

lemma strip_filter: "applyStopSequenceFilter d (strip a) = map_prod strip id (applyStopSequenceFilter d a)"
  by (simp add: applyStopSequenceFilter_def strip_def Let_def split: option.split prod.split)

lemma strip_thinking: "accumulateThinking t d (strip a) = map_prod strip id (accumulateThinking t d a)"
  by (cases "applyMaxTokensBudget t a") (simp add: accumulateThinking_def strip_budget, simp add: strip_def)

lemma strip_text: "accumulate_text t (strip a) = map_prod strip id (accumulate_text t a)"
proof -
  have up: "(strip x)\<lparr>HasText := True\<rparr> = strip (x\<lparr>HasText := True\<rparr>)" "(strip x)\<lparr>TextBuf := u\<rparr> = strip (x\<lparr>TextBuf := u\<rparr>)"
    "stopSequences (strip x) = stopSequences x" for x u by (simp_all add: strip_def)
  show ?thesis
    unfolding accumulate_text_def Let_def up
    by (simp add: strip_filter strip_budget case_prod_unfold up)
qed

lemma strip_finalize: "FinalizeStream (strip a) = map_prod strip id (FinalizeStream a)"
proof -
  have tags: "finalizeThinkingTags (strip x) = map_prod strip id (finalizeThinkingTags x)" for x
    by (simp add: finalizeThinkingTags_def strip_def)
  have flush: "flushStopSeqPending (strip x) = map_prod strip id (flushStopSeqPending x)" for x
    by (simp add: flushStopSeqPending_def strip_def)
  have up: "(strip x)\<lparr>TextBuf := u\<rparr> = strip (x\<lparr>TextBuf := u\<rparr>)" for x u by (simp add: strip_def)
  show ?thesis
    unfolding FinalizeStream_def Let_def
    by (simp add: tags flush strip_thinking strip_text strip_budget case_prod_unfold up)
qed

definition outcome :: "responseAccumulator \<Rightarrow> string \<times> string \<times> string \<times> string option" where
  "outcome a = (let (a, _, _, res) = finalizeResult a in (TextBuf a, ThinkingBuf a, r_StopReason res, r_StopSequence res))"

lemma outcome_finalize: "outcome a = (let a' = fst (FinalizeStream a) in (TextBuf a', ThinkingBuf a', resolveStopReason a'))"
  by (simp add: outcome_def finalizeResult_def Let_def resolveStopReason_def case_prod_unfold split: option.split)

lemma outcome_strip: "outcome (strip a) = outcome a"
  by (simp add: outcome_finalize strip_finalize resolveStopReason_def Let_def)

lemma stopped_events: "LocalStop a \<Longrightarrow> outcome (process_events L es a) = outcome a"
proof (induction es arbitrary: a)
  case (Cons e es)
  let ?a = "fst (ProcessEvent L e a)"
  have s: "strip ?a = strip a" by (rule stopped_event [OF Cons.prems])
  then have "LocalStop ?a" "outcome ?a = outcome a" using Cons.prems strip_fields(3) outcome_strip by metis+
  with Cons.IH show ?case by (simp add: process_events_def)
qed (simp add: process_events_def)

section \<open>Streaming and non-streaming agree\<close>

text \<open>The parts of a complete response that both paths produce.\<close>

definition response_text :: "response \<Rightarrow> string" where
  "response_text r = concat (map (\<lambda>c. case c of CText t \<Rightarrow> t | _ \<Rightarrow> '''') (resp_content r))"

definition response_thinking :: "response \<Rightarrow> string" where
  "response_thinking r = concat (map (\<lambda>c. case c of CThinking t _ \<Rightarrow> t | _ \<Rightarrow> '''') (resp_content r))"

lemma build_outcome:
  "(response_text r, response_thinking r, resp_stop_reason r, resp_stop_sequence r) = outcome acc"
  if "buildResponseFromAcc L decode uuid acc model = (r, st)"
proof -
  obtain a t k res where f: "finalizeResult acc = (a, t, k, res)" by (metis prod.collapse)
  have tools: "concat (map (\<lambda>c. case c of CText t \<Rightarrow> t | _ \<Rightarrow> '''') (map (\<lambda>tc. CToolUse (i tc) (n tc) (v tc)) tcs)) = ''''"
    "concat (map (\<lambda>c. case c of CThinking t _ \<Rightarrow> t | _ \<Rightarrow> '''') (map (\<lambda>tc. CToolUse (i tc) (n tc) (v tc)) tcs)) = ''''"
    for i n v and tcs :: "ToolCall list" by (induction tcs) simp_all
  from that f show ?thesis
    by (auto simp: buildResponseFromAcc_def outcome_def response_text_def response_thinking_def Let_def
        discardInvalidToolCallWarning_def map_map [symmetric] tools simp del: map_map)
qed

lemma stream_outcome:
  assumes E: "reliable E" and s: "faithful s" and ne: "\<forall>e \<in> set es. Type e \<noteq> EventInvalidState \<and> Type e \<noteq> EventException"
  shows "\<exists>t. faithful t \<and> write_response E (map Handle es) s = Finish E t \<and>
    outcome (w_acc t) = outcome (process_events (env_lib E) es (w_acc s))"
  using s ne
proof (induction es arbitrary: s)
  case Nil
  then show ?case by (auto simp: process_events_def)
next
  case (Cons e es)
  obtain a d where pe: "ProcessEvent (env_lib E) e (w_acc s) = (a, d)" by fastforce
  obtain s' stop where h: "HandleEvent E e s = (s', stop)" by fastforce
  have e: "Type e \<noteq> EventInvalidState" "Type e \<noteq> EventException" using Cons.prems(2) by simp_all
  note step = HandleEvent_faithful [OF E Cons.prems(1) e h pe]
  have pr: "process_events (env_lib E) (e # es) (w_acc s) = process_events (env_lib E) es a"
    by (simp add: process_events_def pe)
  show ?case
  proof (cases stop)
    case True
    with step obtain t where t: "LocalStop a" "faithful t" "w_acc t = a" "s' = Finish E t" by auto
    with True h pr stopped_events [OF t(1)] show ?thesis by auto
  next
    case False
    with step have "faithful s'" "w_acc s' = a" by simp_all
    with False h pr Cons.IH [of s'] Cons.prems(2) show ?thesis by simp
  qed
qed

lemma Finish_carries:
  assumes "reliable E" "faithful t"
  shows "(texts (sent (Finish E t)), thinkings (sent (Finish E t))) = (fst (outcome (w_acc t)), fst (snd (outcome (w_acc t))))"
  using Finish_faithful [OF assms]
  by (auto simp: faithful_def carried_def outcome_def discardInvalidToolCallWarning_def case_prod_unfold Let_def)

lemma Finish_stop:
  assumes E: "reliable E" and t: "faithful t" and o: "outcome (w_acc t) = (x, y, sr, sq)"
  shows "\<exists>u. MessageDelta sr sq u \<in> set (sent (Finish E t))"
proof -
  obtain a td th res where f: "finalizeResult (w_acc t) = (a, td, th, res)" by (metis prod.collapse)
  let ?md = "MessageDelta (r_StopReason res) (r_StopSequence res) (r_Usage res)"
  define s0 where "s0 = (ensureStarted E t)\<lparr>w_acc := discardInvalidToolCallWarning a\<rparr>"
  define s1 where "s1 = (if th \<noteq> [] then writeThinkingDelta E th s0 else s0)"
  define s2 where "s2 = closeActiveBlock E (if td \<noteq> [] then writeTextDelta E td s1 else s1)"
  have fin: "Finish E t = writeSSE E MessageStop (writeSSE E ?md s2)"
    unfolding Finish_def Let_def ensureStarted_fields f prod.case s2_def s1_def s0_def ..
  have "\<not> writeErr t" using t by (simp add: faithful_def)
  from extends_ok [OF ext_started [OF E this]] have "\<not> writeErr s0" by (simp add: s0_def)
  then have "\<not> writeErr s1" using extends_ok [OF ext_thinking [OF E]] by (simp add: s1_def)
  then have "\<not> writeErr s2" using extends_ok [OF ext_text [OF E]] extends_ok [OF ext_close [OF E]] by (simp add: s2_def)
  then have "?md \<in> set (sent (Finish E t))"
    unfolding fin using sent_write [OF E, of s2 ?md] carried_enc [OF E, of s2 ?md] sent_write [OF E, of "writeSSE E ?md s2" MessageStop] by simp
  moreover have "sr = r_StopReason res" "sq = r_StopSequence res" using o f by (simp_all add: outcome_def)
  ultimately show ?thesis by blast
qed

lemma add_stops_bufs:
  "TextBuf (add_stops ss a) = TextBuf a" "ThinkingBuf (add_stops ss a) = ThinkingBuf a"
  by (induction ss arbitrary: a) (simp_all add: Let_def)

text \<open>
  C3. Streaming and non-streaming agree: for the same upstream events (no error among them), the
  text deltas and the thinking deltas of the stream, joined, are the text and the thinking of the
  non-streaming response, also when a stop sequence or the token limit ends the stream early while
  the non-streaming path reads on; and both name the same stop reason.
\<close>

theorem stream_equals_response:
  assumes "reliable E" "\<forall>e \<in> set es. Type e \<noteq> EventInvalidState \<and> Type e \<noteq> EventException"
    and "s = write_response E (map Handle es) (NewSSEWriter uuid model cw seqs mt pre)"
    and "(r, st) = BuildNonStreamingResponse (env_lib E) decode uuid es model cw seqs mt pre"
  shows "texts (sent s) = response_text r \<and> thinkings (sent s) = response_thinking r \<and>
    (\<exists>u. MessageDelta (resp_stop_reason r) (resp_stop_sequence r) u \<in> set (sent s))"
proof -
  let ?n = "NewSSEWriter uuid model cw seqs mt pre"
  have "faithful ?n"
    by (simp add: faithful_def carried_def sent_def texts_def thinkings_def NewSSEWriter_def newAccumulator_def
        initStopSequences_def add_stops_bufs zero_accumulator_def)
  from stream_outcome [OF assms(1) this assms(2)] obtain t where t: "faithful t" "s = Finish E t"
    and o: "outcome (w_acc t) = outcome (process_events (env_lib E) es (newAccumulator cw seqs mt pre))"
    using assms(3) by (auto simp: NewSSEWriter_def)
  have r: "(response_text r, response_thinking r, resp_stop_reason r, resp_stop_sequence r) = outcome (w_acc t)"
    unfolding o by (rule build_outcome [OF assms(4) [symmetric, unfolded BuildNonStreamingResponse_def]])
  from Finish_carries [OF assms(1) t(1)] r
  have "texts (sent s) = response_text r \<and> thinkings (sent s) = response_thinking r"
    unfolding t(2) by (metis fst_conv snd_conv prod.inject)
  moreover have "\<exists>u. MessageDelta (resp_stop_reason r) (resp_stop_sequence r) u \<in> set (sent (Finish E t))"
    using Finish_stop [OF assms(1) t(1)] r by metis
  ultimately show ?thesis using t(2) by simp
qed

theorem stream_equals_response_witness:
  "let es = [zero_event\<lparr>Type := EventAssistantResponse, Content := ''one END two''\<rparr>, zero_event\<lparr>Type := EventMetering, InputTokens := 7\<rparr>];
       s = write_response plain_env (map Handle es) (NewSSEWriter ''u'' ''m'' 0 [''END''] 0 0);
       r = fst (BuildNonStreamingResponse (env_lib plain_env) (\<lambda>_. None) ''u'' es ''m'' 0 [''END''] 0 0)
   in texts (sent s) = response_text r \<and> thinkings (sent s) = response_thinking r \<and>
      (\<exists>u. MessageDelta (resp_stop_reason r) (resp_stop_sequence r) u \<in> set (sent s))"
  unfolding Let_def
  by (rule stream_equals_response [OF _ _ refl prod.collapse])
    (simp_all add: plain_env_def reliable_def event_types)

end
