(* ===== verification/Upstream_Client.thy ===== *)
theory Upstream_Client
  imports Event_Stream Go_Strconv Go_Strings
begin

text \<open>
  internal/kiroclient: the request to the Kiro API with its retries (\<open>client.go\<close>), the classification
  of AWS errors (\<open>aws_error.go\<close>) and the delays (\<open>backoff.go\<close>). The transport, the timers, the random
  numbers, the token refresher and the parsers of \<open>mime\<close>, \<open>http.ParseTime\<close> and the JSON library are
  fields of the environment, indexed by the attempt they belong to.
\<close>

section \<open>Errors\<close>

record UpstreamError =
  ue_Status :: int
  ue_ContentType :: string
  ue_Exception :: string
  ue_Body :: string
  ue_RetryAfter :: duration

datatype client_error =
    MarshalPayload
  | CreateRequest
  | ContextDone
  | DoRequest string
  | Upstream UpstreamError
  | MaxRetriesExceeded

record http_response =
  hr_StatusCode :: int
  hr_Header :: "string \<Rightarrow> string"
  hr_Body :: reader

text \<open>\<open>ce_exception_fields\<close> are the members \<open>__type\<close>, \<open>type\<close> and \<open>code\<close> of a JSON error body.\<close>

record client_env =
  ce_marshals :: bool
  ce_valid_endpoint :: bool
  ce_do :: "nat \<Rightarrow> string \<Rightarrow> string + http_response"
  ce_wait_cancelled :: "nat \<Rightarrow> bool"
  ce_random :: "nat \<Rightarrow> int \<Rightarrow> int"
  ce_refresh :: "(nat \<Rightarrow> string option) option"
  ce_now :: "nat \<Rightarrow> gotime"
  ce_exception_fields :: "string \<Rightarrow> (string \<times> string \<times> string) option"
  ce_media_type :: "string \<Rightarrow> string option"
  ce_http_time :: "string \<Rightarrow> gotime option"

definition maxRetries :: nat where "maxRetries = 3"
definition baseRetryDelay :: duration where "baseRetryDelay = second"
definition upstreamBodyLimit :: nat where "upstreamBodyLimit = 8192"

section \<open>Classification\<close>

text \<open>\<open>time.Time.Sub\<close> saturates.\<close>

definition time_sub :: "gotime \<Rightarrow> gotime \<Rightarrow> duration" where
  "time_sub t u = max (- (2 ^ 63)) (min (2 ^ 63 - 1) (t - u))"

definition parseRetryAfter :: "client_env \<Rightarrow> string \<Rightarrow> gotime \<Rightarrow> duration" where
  "parseRetryAfter E raw now =
     (let raw = TrimSpace raw in
      if raw = '''' then 0
      else case ParseInt raw of
        (seconds, None) \<Rightarrow> if seconds \<le> 0 then 0 else wrap64 (seconds * second)
      | (_, Some _) \<Rightarrow>
          (case ce_http_time E raw of
             None \<Rightarrow> 0
           | Some t \<Rightarrow> if \<not> t > now then 0 else time_sub t now))"

text \<open>After the last \<open>#\<close>, before the first colon.\<close>

fun after_last :: "char \<Rightarrow> string \<Rightarrow> string option" where
  "after_last c [] = None"
| "after_last c (x # s) = (case after_last c s of Some r \<Rightarrow> Some r | None \<Rightarrow> if x = c then Some s else None)"

definition normalizeAWSExceptionType :: "string \<Rightarrow> string" where
  "normalizeAWSExceptionType raw =
     (if raw = '''' then ''''
      else
        (let raw = (case after_last (CHR ''#'') raw of Some r \<Rightarrow> r | None \<Rightarrow> raw)
         in takeWhile (\<lambda>c. c \<noteq> CHR '':'') raw))"

definition parseAWSExceptionType :: "client_env \<Rightarrow> string \<Rightarrow> string" where
  "parseAWSExceptionType E body =
     (if body = '''' then ''''
      else case ce_exception_fields E body of
        None \<Rightarrow> ''''
      | Some (type1, type2, code) \<Rightarrow>
          (let t = type1; t = (if t = '''' then type2 else t); t = (if t = '''' then code else t)
           in normalizeAWSExceptionType t))"

definition isRetryableAWSException :: "string \<Rightarrow> bool" where
  "isRetryableAWSException exType \<longleftrightarrow>
     exType \<in> {''ThrottlingException'', ''TooManyRequestsException'', ''ServiceUnavailableException'',
       ''InternalServerException'', ''InternalFailureException'', ''InternalServerError''}"

definition resolveAWSException :: "client_env \<Rightarrow> string \<Rightarrow> (string \<Rightarrow> string) \<Rightarrow> string" where
  "resolveAWSException E body header =
     (let exType = parseAWSExceptionType E body
      in if exType \<noteq> '''' then exType else normalizeAWSExceptionType (header ''X-Amzn-ErrorType''))"

text \<open>\<open>strings.EqualFold\<close> on a media type, which consists of ASCII token characters.\<close>

definition fold_char :: "char \<Rightarrow> char" where
  "fold_char c = (if 65 \<le> (of_char c :: nat) \<and> (of_char c :: nat) \<le> 90 then char_of (of_char c + 32 :: nat) else c)"

definition eventstream_type :: string where
  "eventstream_type = ''application/vnd.amazon.eventstream''"

definition isEventStreamContentType :: "client_env \<Rightarrow> string \<Rightarrow> bool" where
  "isEventStreamContentType E ct =
     (case ce_media_type E ct of None \<Rightarrow> False | Some mt \<Rightarrow> map fold_char mt = eventstream_type)"

section \<open>Requests\<close>

definition backoffDelay :: "client_env \<Rightarrow> nat \<Rightarrow> duration" where
  "backoffDelay E attempt =
     (let base = baseRetryDelay * 2 ^ attempt;
          jitter = ce_random E attempt (base div 2) - base div 4
      in base + jitter)"

definition readLimitedBody :: "reader \<Rightarrow> string" where
  "readLimitedBody r = take upstreamBodyLimit (pending_bytes r)"

text \<open>The error value made of a response: with its body, or without for a 403.\<close>

definition upstream_error :: "client_env \<Rightarrow> nat \<Rightarrow> http_response \<Rightarrow> UpstreamError" where
  "upstream_error E attempt resp =
     (let errBody = readLimitedBody (hr_Body resp) in
      \<lparr>ue_Status = hr_StatusCode resp, ue_ContentType = hr_Header resp ''Content-Type'',
       ue_Exception = resolveAWSException E errBody (hr_Header resp), ue_Body = errBody,
       ue_RetryAfter = parseRetryAfter E (hr_Header resp ''Retry-After'') (ce_now E attempt)\<rparr>)"

definition forbidden_error :: "client_env \<Rightarrow> nat \<Rightarrow> http_response \<Rightarrow> UpstreamError" where
  "forbidden_error E attempt resp =
     \<lparr>ue_Status = hr_StatusCode resp, ue_ContentType = hr_Header resp ''Content-Type'', ue_Exception = '''', ue_Body = '''',
      ue_RetryAfter = parseRetryAfter E (hr_Header resp ''Retry-After'') (ce_now E attempt)\<rparr>"

datatype attempt_result =
    Settled "client_error + http_response"
  | RetryAfterDelay
  | RetryWithToken string

text \<open>The body of the loop: what one attempt decides. A response with status 200 is returned with its stream.\<close>

definition attempt_once :: "client_env \<Rightarrow> nat \<Rightarrow> string \<Rightarrow> attempt_result" where
  "attempt_once E attempt token =
     (if \<not> ce_valid_endpoint E then Settled (Inl CreateRequest)
      else case ce_do E attempt token of
        Inl err \<Rightarrow> if attempt < maxRetries then RetryAfterDelay else Settled (Inl (DoRequest err))
      | Inr resp \<Rightarrow>
          if hr_StatusCode resp = 200 then
            (if \<not> isEventStreamContentType E (hr_Header resp ''Content-Type'')
             then
               (if attempt < maxRetries \<and> isRetryableAWSException (resolveAWSException E (readLimitedBody (hr_Body resp)) (hr_Header resp))
                then RetryAfterDelay else Settled (Inl (Upstream (upstream_error E attempt resp))))
             else Settled (Inr resp))
          else if hr_StatusCode resp = 403 then
            (case (if attempt < maxRetries then ce_refresh E else None) of
               None \<Rightarrow> Settled (Inl (Upstream (forbidden_error E attempt resp)))
             | Some refresh \<Rightarrow>
                 (case refresh attempt of
                    None \<Rightarrow> Settled (Inl (Upstream (forbidden_error E attempt resp)))
                  | Some newToken \<Rightarrow> RetryWithToken newToken))
          else if hr_StatusCode resp = 429 \<or> hr_StatusCode resp \<ge> 500 then
            (if attempt < maxRetries then RetryAfterDelay else Settled (Inl (Upstream (upstream_error E attempt resp))))
          else Settled (Inl (Upstream (upstream_error E attempt resp))))"

text \<open>The loop, with the tokens of the requests it sent and the delays it waited.\<close>

fun attempt_loop :: "client_env \<Rightarrow> nat list \<Rightarrow> string \<Rightarrow> string list \<Rightarrow> duration list
    \<Rightarrow> (client_error + http_response) \<times> string list \<times> duration list" where
  "attempt_loop E [] token used delays = (Inl MaxRetriesExceeded, used, delays)"
| "attempt_loop E (attempt # rest) token used delays =
     (let used = (if ce_valid_endpoint E then used @ [token] else used) in
      case attempt_once E attempt token of
        Settled r \<Rightarrow> (r, used, delays)
      | RetryWithToken newToken \<Rightarrow> attempt_loop E rest newToken used delays
      | RetryAfterDelay \<Rightarrow>
          (let delays = delays @ [backoffDelay E attempt]
           in if ce_wait_cancelled E attempt then (Inl ContextDone, used, delays)
              else attempt_loop E rest token used delays))"

definition GenerateAssistantResponse :: "client_env \<Rightarrow> string \<Rightarrow> (client_error + http_response) \<times> string list \<times> duration list" where
  "GenerateAssistantResponse E token =
     (if \<not> ce_marshals E then (Inl MarshalPayload, [], [])
      else attempt_loop E [0..<Suc maxRetries] token [] [])"

section \<open>Retries are bounded\<close>

definition fair_random :: "client_env \<Rightarrow> bool" where
  "fair_random E \<longleftrightarrow> (\<forall>k n. 0 < n \<longrightarrow> 0 \<le> ce_random E k n \<and> ce_random E k n < n)"

lemma backoffDelay_bounds:
  assumes "fair_random E"
  shows "3 * (second * 2 ^ k) \<le> 4 * backoffDelay E k" "4 * backoffDelay E k < 5 * (second * 2 ^ k)"
proof -
  have m: "(second * 2 ^ k) div 2 = 500000000 * 2 ^ k" "(second * 2 ^ k) div 4 = 250000000 * (2 :: int) ^ k"
    by (simp_all add: second_def)
  have "0 \<le> ce_random E k (500000000 * 2 ^ k) \<and> ce_random E k (500000000 * 2 ^ k) < 500000000 * 2 ^ k"
    using assms by (simp add: fair_random_def)
  then show "3 * (second * 2 ^ k) \<le> 4 * backoffDelay E k" "4 * backoffDelay E k < 5 * (second * 2 ^ k)"
    by (simp_all add: backoffDelay_def Let_def baseRetryDelay_def m) (simp_all add: second_def)
qed

lemma last_settles: "\<exists>r. attempt_once E 3 token = Settled r \<and> r \<noteq> Inl MaxRetriesExceeded"
  by (auto simp: attempt_once_def maxRetries_def split: sum.splits)

lemma attempts: "[0..<Suc maxRetries] = [0, 1, 2, 3]"
  by (simp add: maxRetries_def upt_rec numeral_eq_Suc)

lemma client_loop: "ce_marshals E \<Longrightarrow> GenerateAssistantResponse E token = attempt_loop E [0, 1, 2, 3] token [] []"
  by (simp only: GenerateAssistantResponse_def attempts not_True_eq_False if_False)

lemma refreshed_token: "attempt_once E k token = RetryWithToken t \<Longrightarrow> \<exists>refresh k. ce_refresh E = Some refresh \<and> refresh k = Some t"
  by (auto simp: attempt_once_def split: sum.splits if_splits option.splits)

definition known_tokens :: "client_env \<Rightarrow> string \<Rightarrow> string set" where
  "known_tokens E token = insert token {t. \<exists>refresh k. ce_refresh E = Some refresh \<and> refresh k = Some t}"

lemma known_tokens_step: "t \<in> known_tokens E token \<Longrightarrow> attempt_once E k t = RetryWithToken t' \<Longrightarrow> t' \<in> known_tokens E token"
  using refreshed_token by (auto simp: known_tokens_def)

lemma loop_tokens:
  "t \<in> known_tokens E token \<Longrightarrow> set used \<subseteq> known_tokens E token \<Longrightarrow>
   set (fst (snd (attempt_loop E ks t used ds))) \<subseteq> known_tokens E token"
proof (induction ks arbitrary: t used ds)
  case (Cons k ks)
  let ?used = "if ce_valid_endpoint E then used @ [t] else used"
  have s: "set ?used \<subseteq> known_tokens E token" using Cons.prems by simp
  show ?case
  proof (cases "attempt_once E k t")
    case (Settled r)
    with s show ?thesis by simp
  next
    case RetryAfterDelay
    with s Cons.IH [OF Cons.prems(1) s] show ?thesis by (simp add: Let_def)
  next
    case (RetryWithToken t')
    with s Cons.IH [OF known_tokens_step [OF Cons.prems(1) RetryWithToken] s] show ?thesis by simp
  qed
qed simp

definition delay_base :: "nat \<Rightarrow> duration" where
  "delay_base k = (if k < maxRetries then second * 2 ^ k else 0)"

lemma delay_only_before_last: "attempt_once E k token = RetryAfterDelay \<Longrightarrow> delay_base k = second * 2 ^ k"
  by (auto simp: attempt_once_def delay_base_def split: sum.splits if_splits option.splits)

lemma loop_delays:
  assumes "fair_random E"
  shows "\<exists>more. snd (snd (attempt_loop E ks token used ds)) = ds @ more \<and> (\<forall>d \<in> set more. 0 < d) \<and>
    length more \<le> length ks \<and> 4 * sum_list more \<le> 5 * sum_list (map delay_base ks)"
proof (induction ks arbitrary: token used ds)
  case (Cons k ks)
  let ?used = "if ce_valid_endpoint E then used @ [token] else used"
  have b: "0 < second * (2 :: int) ^ k" "0 \<le> delay_base k" by (simp_all add: second_def delay_base_def)
  have d: "0 < backoffDelay E k" "4 * backoffDelay E k < 5 * (second * 2 ^ k)" using backoffDelay_bounds [OF assms, of k] b(1) by linarith+
  have nn: "0 \<le> sum_list (map delay_base ks)" by (rule sum_list_nonneg) (auto simp: delay_base_def second_def)
  show ?case
  proof (cases "attempt_once E k token")
    case (Settled r)
    with nn b show ?thesis by simp
  next
    case RetryAfterDelay
    obtain more where m: "snd (snd (attempt_loop E ks token ?used (ds @ [backoffDelay E k]))) = (ds @ [backoffDelay E k]) @ more"
      "\<forall>d \<in> set more. 0 < d" "length more \<le> length ks" "4 * sum_list more \<le> 5 * sum_list (map delay_base ks)"
      using Cons.IH by blast
    show ?thesis
    proof (cases "ce_wait_cancelled E k")
      case True
      with RetryAfterDelay delay_only_before_last [OF RetryAfterDelay] d nn show ?thesis by (intro exI [of _ "[backoffDelay E k]"]) (simp add: Let_def)
    next
      case False
      with RetryAfterDelay delay_only_before_last [OF RetryAfterDelay] m d show ?thesis by (intro exI [of _ "backoffDelay E k # more"]) (simp add: Let_def)
    qed
  next
    case (RetryWithToken t)
    obtain more where m: "snd (snd (attempt_loop E ks t ?used ds)) = ds @ more"
      "\<forall>d \<in> set more. 0 < d" "length more \<le> length ks" "4 * sum_list more \<le> 5 * sum_list (map delay_base ks)"
      using Cons.IH by blast
    with RetryWithToken b show ?thesis by (intro exI [of _ more]) simp
  qed
qed simp


lemma loop_last: "attempt_once E k token = Settled r \<Longrightarrow> attempt_loop E (k # ks) token used ds =
    (r, if ce_valid_endpoint E then used @ [token] else used, ds)"
  by (simp add: Let_def)

lemma loop_ends:
  "ks \<noteq> [] \<Longrightarrow> last ks = 3 \<Longrightarrow>
   fst (attempt_loop E ks token used ds) \<noteq> Inl MaxRetriesExceeded \<and>
   length (fst (snd (attempt_loop E ks token used ds))) \<le> length used + length ks \<and>
   length (snd (snd (attempt_loop E ks token used ds))) < length ds + length ks"
proof (induction ks arbitrary: token used ds)
  case (Cons k ks)
  show ?case
  proof (cases "ks = []")
    case True
    with Cons.prems obtain r where "attempt_once E k token = Settled r" "r \<noteq> Inl MaxRetriesExceeded" using last_settles [of E token] by auto
    with True show ?thesis by (simp add: Let_def)
  next
    case False
    with Cons.prems have ks: "ks \<noteq> []" "last ks = 3" by auto
    let ?used = "if ce_valid_endpoint E then used @ [token] else used"
    have l: "length ?used \<le> Suc (length used)" by simp
    show ?thesis
    proof (cases "attempt_once E k token")
      case (Settled r)
      then have "r \<noteq> Inl MaxRetriesExceeded" by (auto simp: attempt_once_def split: sum.splits if_splits option.splits)
      with Settled show ?thesis by simp
    next
      case RetryAfterDelay
      then have "attempt_loop E (k # ks) token used ds =
          (if ce_wait_cancelled E k then (Inl ContextDone, ?used, ds @ [backoffDelay E k])
           else attempt_loop E ks token ?used (ds @ [backoffDelay E k]))"
        by (simp add: Let_def)
      moreover have "0 < length ks" using ks(1) by simp
      ultimately show ?thesis using Cons.IH [OF ks, of token ?used "ds @ [backoffDelay E k]"] l
        by (cases "ce_wait_cancelled E k") simp_all
    next
      case (RetryWithToken t)
      with Cons.IH [OF ks, of t ?used ds] l show ?thesis by (auto simp: Let_def)
    qed
  qed
qed simp

text \<open>
  C33. A request to the Kiro API ends: it is sent at most four times, with the given token or one the
  refresher returned, with at most three positive delays of together at most 8.75 seconds, and the
  result is a response or the error of the last attempt, never the exhausted loop.
\<close>

theorem client_bounded:
  assumes "fair_random E" "GenerateAssistantResponse E token = (r, used, delays)"
  shows "r \<noteq> Inl MaxRetriesExceeded \<and> length used \<le> 4 \<and> set used \<subseteq> known_tokens E token \<and>
    length delays \<le> 3 \<and> (\<forall>d \<in> set delays. 0 < d) \<and> 4 * sum_list delays \<le> 35 * second"
proof (cases "ce_marshals E")
  case False
  with assms(2) show ?thesis by (auto simp: GenerateAssistantResponse_def second_def)
next
  case True
  have r: "(r, used, delays) = attempt_loop E [0, 1, 2, 3] token [] []" using client_loop [OF True] assms(2) by simp
  have e: "r \<noteq> Inl MaxRetriesExceeded" "length used \<le> 4" "length delays \<le> 3"
    using loop_ends [of "[0, 1, 2, 3]" E token "[]" "[]"] unfolding r [symmetric] by auto
  have "set used \<subseteq> known_tokens E token"
    using loop_tokens [of token E token "[]" "[0, 1, 2, 3]" "[]"] unfolding r [symmetric] by (simp add: known_tokens_def)
  moreover have "(\<forall>d \<in> set delays. 0 < d) \<and> 4 * sum_list delays \<le> 35 * second"
    using loop_delays [OF assms(1), of "[0, 1, 2, 3]" token "[]" "[]"] unfolding r [symmetric]
    by (auto simp: delay_base_def maxRetries_def)
  ultimately show ?thesis using e by blast
qed

text \<open>When every attempt is throttled, the error is that of the fourth response, with its \<open>Retry-After\<close>.\<close>

lemma throttled_attempt:
  "ce_valid_endpoint E \<Longrightarrow> ce_do E k token = Inr resp \<Longrightarrow> hr_StatusCode resp = 429 \<Longrightarrow>
   attempt_once E k token = (if k < 3 then RetryAfterDelay else Settled (Inl (Upstream (upstream_error E k resp))))"
  by (simp add: attempt_once_def maxRetries_def)

lemma throttled_client:
  assumes "ce_marshals E" "ce_valid_endpoint E" "\<And>k. \<not> ce_wait_cancelled E k"
    and "\<And>k. ce_do E k token = Inr (resp k) \<and> hr_StatusCode (resp k) = 429"
  shows "fst (GenerateAssistantResponse E token) = Inl (Upstream (upstream_error E 3 (resp 3)))"
proof -
  have "attempt_once E k token = (if k < 3 then RetryAfterDelay else Settled (Inl (Upstream (upstream_error E k (resp k)))))" for k
    using throttled_attempt assms(2,4) by blast
  then show ?thesis using assms(1-3) by (simp add: client_loop Let_def)
qed

definition quiet_client :: "int \<Rightarrow> client_env" where
  "quiet_client status = \<lparr>ce_marshals = True, ce_valid_endpoint = True,
     ce_do = (\<lambda>k t. Inr \<lparr>hr_StatusCode = status, hr_Header = (\<lambda>h. ''''), hr_Body = \<lparr>pending_bytes = [], read_error = None\<rparr>\<rparr>),
     ce_wait_cancelled = (\<lambda>_. False), ce_random = (\<lambda>k n. 0), ce_refresh = None, ce_now = (\<lambda>_. 0),
     ce_exception_fields = (\<lambda>_. None), ce_media_type = (\<lambda>_. None), ce_http_time = (\<lambda>_. None)\<rparr>"

theorem client_bounded_witness:
  "\<exists>r used delays. GenerateAssistantResponse (quiet_client 503) ''t'' = (r, used, delays) \<and>
    length used \<le> 4 \<and> length delays \<le> 3 \<and> r \<noteq> Inl MaxRetriesExceeded"
proof -
  obtain r used delays where g: "GenerateAssistantResponse (quiet_client 503) ''t'' = (r, used, delays)" by (rule prod_cases3)
  have "fair_random (quiet_client 503)" by (simp add: fair_random_def quiet_client_def)
  from client_bounded [OF this g] g show ?thesis by blast
qed

end
