(* ===== verification/Go_Float.thy ===== *)
theory Go_Float
  imports Prelude
begin

text \<open>
  Go \<open>float64\<close> arithmetic. A finite float is a rational number; conversion and the four operations
  round, so they are a parameter of whatever uses them, and what is proved holds for any rounding.
  Comparisons are exact. NaN and the infinities do not occur: the numbers come from JSON documents,
  which cannot write them, and from the constants of the code.
\<close>

record float_ops =
  f_int :: "int \<Rightarrow> float64"
  f_add :: "float64 \<Rightarrow> float64 \<Rightarrow> float64"
  f_sub :: "float64 \<Rightarrow> float64 \<Rightarrow> float64"
  f_mul :: "float64 \<Rightarrow> float64 \<Rightarrow> float64"
  f_div :: "float64 \<Rightarrow> float64 \<Rightarrow> float64"

definition exact_float :: float_ops where
  "exact_float = \<lparr>f_int = of_int, f_add = (+), f_sub = (-), f_mul = (*), f_div = (/)\<rparr>"

text \<open>\<open>math.Round\<close> rounds half away from zero; \<open>int(x)\<close> truncates.\<close>

definition Round :: "float64 \<Rightarrow> int" where
  "Round x = (if 0 \<le> x then \<lfloor>x + 1 / 2\<rfloor> else - \<lfloor>1 / 2 - x\<rfloor>)"

definition trunc :: "float64 \<Rightarrow> int" where
  "trunc x = (if 0 \<le> x then \<lfloor>x\<rfloor> else - \<lfloor>- x\<rfloor>)"

definition minFloat :: "float64 \<Rightarrow> float64 \<Rightarrow> float64" where
  "minFloat a b = (if a < b then a else b)"

definition maxFloat :: "float64 \<Rightarrow> float64 \<Rightarrow> float64" where
  "maxFloat a b = (if a > b then a else b)"

definition clampFloat :: "float64 \<Rightarrow> float64 \<Rightarrow> float64 \<Rightarrow> float64" where
  "clampFloat v low high = minFloat (maxFloat v low) high"

lemma clampFloat_bounds: "low \<le> high \<Longrightarrow> low \<le> clampFloat v low high \<and> clampFloat v low high \<le> high"
  by (simp add: clampFloat_def minFloat_def maxFloat_def)

lemma clampFloat_id: "low \<le> v \<Longrightarrow> v \<le> high \<Longrightarrow> clampFloat v low high = v"
  by (simp add: clampFloat_def minFloat_def maxFloat_def)

end
