(* ===== verification/Response_Handler.thy ===== *)
theory Response_Handler
  imports Gate_Writer Nonstreaming Upstream_Client Go_Float
begin

text \<open>
  \<open>internal/app/messages/response.go\<close> and \<open>errors.go\<close> with \<open>internal/httpx/error.go\<close>: how one upstream
  response is turned into the answer to the client, as a stream through the gate writer or as one
  JSON document, and when the caller is told to try again instead. The client is the record of
  \<open>gate_writer.go\<close>; what it receives are server-sent events or JSON documents.
\<close>

section \<open>Answers\<close>

text \<open>
  \<open>BrokenJSON\<close> and \<open>BrokenEvent\<close> are what a response or an event that cannot be encoded leaves on
  the wire.
\<close>

datatype answer =
    StreamEvent sse
  | ErrorJSON string string
  | ResponseJSON response
  | BrokenJSON response
  | BrokenEvent sse

definition ErrTypeInvalidRequest :: string where "ErrTypeInvalidRequest = ''invalid_request_error''"
definition ErrTypeAPI :: string where "ErrTypeAPI = ''api_error''"
definition ErrTypeStream :: string where "ErrTypeStream = ''stream_error''"

definition httpx_WriteError :: "int \<Rightarrow> string \<Rightarrow> string \<Rightarrow> answer client \<Rightarrow> answer client" where
  "httpx_WriteError status errType message w =
     client_write [ErrorJSON errType message] (w\<lparr>c_status := c_status w @ [status]\<rparr>)"

definition retryReasonEmptyVisibleEndTurn :: string where "retryReasonEmptyVisibleEndTurn = ''empty_visible_end_turn''"
definition retryReasonInvalidToolUse :: string where "retryReasonInvalidToolUse = ''invalid_tool_use''"

record retryOutcome =
  Reason :: string
  ro_InvalidToolCalls :: "InvalidToolCall list"
  TerminalErr :: "client_error option"

definition no_outcome :: retryOutcome where
  "no_outcome = \<lparr>Reason = '''', ro_InvalidToolCalls = [], TerminalErr = None\<rparr>"

definition retryableInvalidStateReasons :: "string list" where
  "retryableInvalidStateReasons =
     [''CONTENT_LENGTH_EXCEEDS_THRESHOLD'', ''INVALID_CONVERSATION_STATE'', ''STALE_CONVERSATION'']"

definition handleUpstreamError :: "bool \<Rightarrow> string \<Rightarrow> answer client \<Rightarrow> answer client \<times> string" where
  "handleUpstreamError isException invalidReason w =
     (if isException then (httpx_WriteError 502 ErrTypeAPI ''upstream exception'' w, '''')
      else if invalidReason \<in> set retryableInvalidStateReasons then (w, invalidReason)
      else (httpx_WriteError 400 ErrTypeInvalidRequest ''invalid state: request rejected by upstream'' w, ''''))"

section \<open>Usage\<close>

text \<open>What \<open>setUsageDetailed\<close> stores in the metrics writer.\<close>

record usage_report =
  m_inputTokens :: int
  m_outputTokens :: int
  m_cacheReadTokens :: int
  m_cacheWriteTokens :: int
  m_rawInputTokens :: int
  m_rawOutputTokens :: int
  m_rawCacheReadTokens :: int
  m_rawCacheWriteTokens :: int
  m_contextPct :: float64

definition resolveContextPercent :: "float_ops \<Rightarrow> float64 \<Rightarrow> bool \<Rightarrow> int \<Rightarrow> int \<Rightarrow> float64" where
  "resolveContextPercent F reported hasContextUsage inputTokens windowSize =
     (if hasContextUsage \<or> windowSize = 0 then reported
      else f_div F (f_mul F (f_int F inputTokens) 100) (f_int F windowSize))"

section \<open>The environment of a response\<close>

text \<open>
  The environment of one upstream response: the writer's (its failures are those of the gate), the
  JSON library, the context and the identifiers.
\<close>

record handler_env =
  h_writer :: writer_env
  h_json :: json_lib
  h_cancelled :: "nat \<Rightarrow> bool"
  h_uuids :: "nat \<Rightarrow> string"
  h_msg_uuid :: string
  h_decode :: "string \<Rightarrow> json option"
  h_encodes :: "response \<Rightarrow> bool"
  h_floats :: float_ops

record handler_args =
  ha_model :: string
  ha_contextWindowSize :: int
  ha_stopSequences :: "string list"
  ha_maxTokens :: int
  ha_preCounted :: int
  ha_toolNameMap :: "string \<rightharpoonup> string"
  ha_tools :: "(string \<times> jmap) list"
  ha_usageAdjuster :: "UsageAdjuster option"

text \<open>The result: the outcome, the client, and the usage recorded with the commit of the prompt cache.\<close>

record handled =
  hd_out :: retryOutcome
  hd_w :: "answer client"
  hd_usage :: "usage_report option"

definition set_hooks :: "handler_args \<Rightarrow> responseAccumulator \<Rightarrow> responseAccumulator" where
  "set_hooks A a =
     a\<lparr>toolNameMap := ha_toolNameMap A, toolInputValidator := NewToolInputValidator (ha_tools A),
       a_UsageAdjuster := ha_usageAdjuster A\<rparr>"

section \<open>Streaming\<close>

record stream_state =
  ss_sw :: SSEWriter
  streamErr :: bool
  localStop :: bool
  invalidReason :: string
  isException :: bool

definition stream_writer :: "handler_env \<Rightarrow> handler_args \<Rightarrow> SSEWriter" where
  "stream_writer H A =
     (let sw = NewSSEWriter (h_msg_uuid H) (ha_model A) (ha_contextWindowSize A) (ha_stopSequences A) (ha_maxTokens A) (ha_preCounted A)
      in sw\<lparr>w_acc := set_hooks A (w_acc sw)\<rparr>)"

definition stream_callback :: "writer_env \<Rightarrow> stream_state callback" where
  "stream_callback E e st =
     (if streamErr st \<or> localStop st then (st, True)
      else if writeErr (ss_sw st) then (st\<lparr>streamErr := True\<rparr>, True)
      else
        (let st = (if Type e = EventInvalidState then st\<lparr>invalidReason := InvalidStateReason e\<rparr> else st);
             st = (if Type e = EventException then st\<lparr>isException := True\<rparr> else st);
             (sw, shouldStop) = HandleEvent E e (ss_sw st);
             st = st\<lparr>ss_sw := sw\<rparr>
         in if writeErr sw then (st\<lparr>streamErr := True\<rparr>, True)
            else if \<not> shouldStop then (st, False)
            else if LocalStop (w_acc sw) then (st\<lparr>localStop := True\<rparr>, True)
            else (st\<lparr>streamErr := True\<rparr>, True)))"

text \<open>The gate in front of the client after all the writer wrote and flushed, with its promotions in place.\<close>

definition stream_ops :: "out_item list \<Rightarrow> answer gate_op list" where
  "stream_ops out = concat (map (\<lambda>x. case x of Sent ev \<Rightarrow> [GWrite [StreamEvent ev], GFlush] | VisibleOutput \<Rightarrow> [GPromote]) out)"

definition gate :: "answer client \<Rightarrow> SSEWriter \<Rightarrow> answer GateWriter" where
  "gate w sw = gate_run (stream_ops (w_out sw)) (NewGateWriter w)"

definition writeStreamingOrJSONError :: "writer_env \<Rightarrow> answer client \<Rightarrow> SSEWriter \<Rightarrow> int \<Rightarrow> string \<Rightarrow> string \<Rightarrow> answer client" where
  "writeStreamingOrJSONError E w sw status errType message =
     (let gw = gate w sw in
      if started sw \<and> IsPromoted gw then g_w (gate w (WriteError E errType message sw))
      else
        (let gw = (if \<not> IsPromoted gw then Discard gw else gw)
         in httpx_WriteError status errType message (g_w gw)))"

definition upstream_failed :: "stream_state \<Rightarrow> answer client \<Rightarrow> handled" where
  "upstream_failed st w =
     (let (w, reason) = handleUpstreamError (isException st) (invalidReason st) w
      in \<lparr>hd_out = no_outcome\<lparr>Reason := reason\<rparr>, hd_w = w, hd_usage = None\<rparr>)"

definition stream_usage :: "handler_env \<Rightarrow> handler_args \<Rightarrow> SSEWriter \<Rightarrow> usage_report" where
  "stream_usage H A sw =
     (let acc = w_acc sw;
          (inputTokens, outputTokens) = resolvedUsage acc;
          (rawInputTokens, rawOutputTokens) = RawUsage sw
      in \<lparr>m_inputTokens = inputTokens, m_outputTokens = outputTokens, m_cacheReadTokens = FinalCacheReadInputTokens sw,
          m_cacheWriteTokens = FinalCacheWriteInputTokens sw, m_rawInputTokens = rawInputTokens, m_rawOutputTokens = rawOutputTokens,
          m_rawCacheReadTokens = RawCacheReadInputTokens sw, m_rawCacheWriteTokens = RawCacheWriteInputTokens sw,
          m_contextPct = resolveContextPercent (h_floats H) (a_ContextUsagePercentage acc) (HasContextUsage acc) inputTokens
            (ha_contextWindowSize A)\<rparr>)"

text \<open>The part after the stream was parsed.\<close>

definition finish_stream :: "handler_env \<Rightarrow> handler_args \<Rightarrow> stream_end \<Rightarrow> stream_state \<Rightarrow> answer client \<Rightarrow> handled" where
  "finish_stream H A err st w =
     (let E = h_writer H; sw = ss_sw st; gw = gate w sw in
      if streamErr st \<and> \<not> started sw then upstream_failed st (g_w gw)
      else if streamErr st \<and> started sw \<and> \<not> IsPromoted gw then upstream_failed st (g_w (Discard gw))
      else if err \<noteq> Finished then
        \<lparr>hd_out = no_outcome, hd_w = writeStreamingOrJSONError E w sw 502 ErrTypeStream ''upstream stream error'', hd_usage = None\<rparr>
      else if InvalidToolCalls (w_acc sw) \<noteq> [] \<and> \<not> IsPromoted gw then
        \<lparr>hd_out = no_outcome\<lparr>Reason := retryReasonInvalidToolUse, ro_InvalidToolCalls := InvalidToolCalls (w_acc sw)\<rparr>,
         hd_w = g_w (Discard gw), hd_usage = None\<rparr>
      else
        (let sw = (if \<not> streamErr st \<and> \<not> localStop st then Finish E sw else sw); gw = gate w sw in
         if \<not> streamErr st \<and> \<not> localStop st \<and> IsEmptyVisibleEndTurn (w_acc sw) \<and> \<not> IsPromoted gw then
           \<lparr>hd_out = no_outcome\<lparr>Reason := retryReasonEmptyVisibleEndTurn\<rparr>, hd_w = g_w (Discard gw), hd_usage = None\<rparr>
         else
           \<lparr>hd_out = no_outcome, hd_w = g_w gw, hd_usage = if streamErr st then None else Some (stream_usage H A sw)\<rparr>))"

definition handleStreamingResponse :: "handler_env \<Rightarrow> handler_args \<Rightarrow> reader \<Rightarrow> answer client \<Rightarrow> handled" where
  "handleStreamingResponse H A body w =
     (let st = \<lparr>ss_sw = stream_writer H A, streamErr = False, localStop = False, invalidReason = '''', isException = False\<rparr>;
          (err, st) = ParseStream (h_json H) (h_cancelled H) (h_uuids H) (stream_callback (h_writer H)) body st
      in finish_stream H A err st w)"

section \<open>Non-streaming\<close>

record buffer_state =
  bs_acc :: responseAccumulator
  bs_hasError :: bool
  bs_invalidReason :: string
  bs_isException :: bool

definition buffer_callback :: "resp_lib \<Rightarrow> buffer_state callback" where
  "buffer_callback L e st =
     (let (acc, d) = ProcessEvent L e (bs_acc st); st = st\<lparr>bs_acc := acc\<rparr> in
      if IsError d then
        (let st = st\<lparr>bs_hasError := True\<rparr>;
             st = (if Type e = EventException then st\<lparr>bs_isException := True\<rparr>
                   else if Type e = EventInvalidState then st\<lparr>bs_invalidReason := InvalidStateReason e\<rparr> else st)
         in (st, True))
      else (st, False))"

definition buffered_usage :: "handler_env \<Rightarrow> handler_args \<Rightarrow> NonStreamingStats \<Rightarrow> usage_report" where
  "buffered_usage H A stats =
     \<lparr>m_inputTokens = st_InputTokens stats, m_outputTokens = st_OutputTokens stats,
      m_cacheReadTokens = st_CacheReadInputTokens stats, m_cacheWriteTokens = st_CacheWriteInputTokens stats,
      m_rawInputTokens = st_RawInputTokens stats, m_rawOutputTokens = st_RawOutputTokens stats,
      m_rawCacheReadTokens = st_RawCacheReadTokens stats, m_rawCacheWriteTokens = st_RawCacheWriteTokens stats,
      m_contextPct = resolveContextPercent (h_floats H) (st_ContextUsagePercentage stats) (st_HasContextUsage stats)
        (st_InputTokens stats) (ha_contextWindowSize A)\<rparr>"

definition finish_buffer :: "handler_env \<Rightarrow> handler_args \<Rightarrow> stream_end \<Rightarrow> buffer_state \<Rightarrow> answer client \<Rightarrow> handled" where
  "finish_buffer H A err st w =
     (let acc = bs_acc st; L = env_lib (h_writer H) in
      if err \<noteq> Finished then
        \<lparr>hd_out = no_outcome, hd_w = httpx_WriteError 502 ErrTypeAPI ''upstream stream error'' w, hd_usage = None\<rparr>
      else if bs_hasError st then
        (let (w, reason) = handleUpstreamError (bs_isException st) (bs_invalidReason st) w
         in \<lparr>hd_out = no_outcome\<lparr>Reason := reason\<rparr>, hd_w = w, hd_usage = None\<rparr>)
      else if InvalidToolCalls acc \<noteq> [] then
        \<lparr>hd_out = no_outcome\<lparr>Reason := retryReasonInvalidToolUse, ro_InvalidToolCalls := InvalidToolCalls acc\<rparr>, hd_w = w, hd_usage = None\<rparr>
      else
        (let (resp, stats) = buildResponseFromAcc L (h_decode H) (h_msg_uuid H) acc (ha_model A) in
         if IsEmptyVisibleEndTurn (fst (finalizeResult acc)) then
           \<lparr>hd_out = no_outcome\<lparr>Reason := retryReasonEmptyVisibleEndTurn\<rparr>, hd_w = w, hd_usage = None\<rparr>
         else if \<not> h_encodes H resp then \<lparr>hd_out = no_outcome, hd_w = client_write [BrokenJSON resp] w, hd_usage = None\<rparr>
         else \<lparr>hd_out = no_outcome, hd_w = client_write [ResponseJSON resp] w, hd_usage = Some (buffered_usage H A stats)\<rparr>))"

definition handleNonStreamingResponse :: "handler_env \<Rightarrow> handler_args \<Rightarrow> reader \<Rightarrow> answer client \<Rightarrow> handled" where
  "handleNonStreamingResponse H A body w =
     (let acc = newAccumulator (ha_contextWindowSize A) (ha_stopSequences A) (ha_maxTokens A) (ha_preCounted A);
          st = \<lparr>bs_acc = set_hooks A acc, bs_hasError = False, bs_invalidReason = '''', bs_isException = False\<rparr>;
          (err, st) = ParseStream (h_json H) (h_cancelled H) (h_uuids H) (buffer_callback (env_lib (h_writer H))) body st
      in finish_buffer H A err st w)"


section \<open>The parser keeps what its callback keeps\<close>

text \<open>
  What a client of the parser promises of its callback: from a state with \<open>P\<close> it answers false in a state with \<open>P\<close> and true in a
  state with \<open>Q\<close>. Then a stream that fails leaves \<open>P\<close>, and one that ends \<open>P\<close> or \<open>Q\<close>.
\<close>

locale callback_contract =
  fixes P Q :: "'c \<Rightarrow> bool" and cb :: "'c callback"
  assumes keeps: "P st \<Longrightarrow> cb e st = (st', b) \<Longrightarrow> if b then Q st' else P st'"
begin

lemma keeps_cases: "P st \<Longrightarrow> P (fst (cb e st)) \<or> Q (fst (cb e st))"
  using keeps [of st e "fst (cb e st)" "snd (cb e st)"] by (auto split: if_splits)

lemma keeps_ContainsFunc:
  "P st \<Longrightarrow> ContainsFunc es cb st = (st', b) \<Longrightarrow> if b then Q st' else P st'"
proof (induction es arbitrary: st)
  case (Cons e es)
  obtain s1 b1 where c: "cb e st = (s1, b1)" by fastforce
  have "if b1 then Q s1 else P s1" by (rule keeps [OF Cons.prems(1) c])
  with Cons c show ?case by (auto split: if_splits)
qed simp

lemma keeps_handle_event:
  assumes "P st" "handle_event J u cb et p acc st = Inr (acc', st', b)"
  shows "if b then Q st' else P st'"
  using assms(2) keeps [OF assms(1), of _ st' b] assms(1) keeps_ContainsFunc [OF assms(1), of _ st' b]
  unfolding handle_event_def Let_def
  by (fastforce split: if_splits option.splits prod.splits)

lemma ParseStream_keeps:
  assumes "P st" "ParseStream J cancelled uuids cb br st = (err, st')"
  shows "P st' \<or> err = Finished \<and> Q st'"
proof -
  define ok where "ok = (\<lambda>(err, st'). P st' \<or> err = Finished \<and> Q st')"
  have fin: "P st \<Longrightarrow> ok (Finished, fst (cb e st))" for e st using keeps_cases by (simp add: ok_def)
  have "P st \<Longrightarrow> ok (parse_loop J cancelled uuids cb k br acc st)" for k acc
  proof (induction "length (pending_bytes br)" arbitrary: br k acc st rule: less_induct)
    case less
    note simps = parse_loop.simps [of J cancelled uuids cb k br acc st]
    have same: "ok (r, st)" for r using less.prems by (simp add: ok_def)
    show ?case
    proof (cases "readFrame br")
      case FrameEOF
      then show ?thesis unfolding simps using same fin [OF less.prems] by (simp split: option.split)
    next
      case (FrameErr e)
      then show ?thesis unfolding simps using same by simp
    next
      case (Frame h p br')
      obtain mt et where hd: "extractFrameHeaders h = (mt, et)" by fastforce
      show ?thesis
      proof (cases "cancelled k \<or> mt = ''exception''")
        case True
        then show ?thesis unfolding simps Frame by (auto simp: hd same fin less.prems)
      next
        case False
        show ?thesis
        proof (cases "handle_event J (uuids k) cb et p acc st")
          case (Inl err)
          with False same show ?thesis unfolding simps Frame by (simp add: hd)
        next
          case (Inr r)
          obtain acc' st1 stop where r: "r = (acc', st1, stop)" by (cases r)
          have k: "if stop then Q st1 else P st1" using keeps_handle_event [OF less.prems Inr [unfolded r]] .
          show ?thesis
          proof (cases stop)
            case True
            with k False Inr r show ?thesis unfolding simps Frame by (simp add: hd ok_def)
          next
            case nostop: False
            with k less.hyps [OF readFrame_shorter [OF Frame], of st1 "Suc k" acc'] False Inr r show ?thesis
              unfolding simps Frame by (simp add: hd)
          qed
        qed
      qed
    qed
  qed
  from this [OF assms(1), of 0 zero_acc] assms(2) show ?thesis by (simp add: ParseStream_def ok_def)
qed

end

section \<open>The gate and the stream\<close>

definition visible :: "SSEWriter \<Rightarrow> bool" where "visible s \<longleftrightarrow> VisibleOutput \<in> set (w_out s)"

lemma stream_ops_Cons [simp]:
  "stream_ops [] = []" "stream_ops (Sent ev # out) = [GWrite [StreamEvent ev], GFlush] @ stream_ops out"
  "stream_ops (VisibleOutput # out) = GPromote # stream_ops out"
  by (simp_all add: stream_ops_def)

definition events_of :: "out_item list \<Rightarrow> sse list" where
  "events_of out = concat (map (\<lambda>x. case x of Sent ev \<Rightarrow> [ev] | VisibleOutput \<Rightarrow> []) out)"

lemma events_of_simps [simp]:
  "events_of [] = []" "events_of (Sent ev # out) = ev # events_of out" "events_of (VisibleOutput # out) = events_of out"
  by (simp_all add: events_of_def)

lemma writes_of_stream: "writes_of (stream_ops out) = map StreamEvent (events_of out)"
proof (induction out)
  case (Cons x out)
  then show ?case by (cases x) simp_all
qed simp

lemma delivered_stream:
  "delivered held (stream_ops out) = (if VisibleOutput \<in> set out then held @ map StreamEvent (events_of out) else [])"
proof (induction out arbitrary: held)
  case (Cons x out)
  then show ?case by (cases x) (auto simp: writes_of_stream)
qed simp

lemma gate_body: "c_body (g_w (gate w s)) = c_body w @ (if visible s then map StreamEvent (sent s) else [])"
  by (simp add: gate_def gate_delivers delivered_stream visible_def events_of_def sent_def)

text \<open>Without visible output the client is untouched.\<close>

lemma gate_shut:
  "VisibleOutput \<notin> set out \<Longrightarrow> \<not> g_promoted g \<Longrightarrow>
   g_w (gate_run (stream_ops out) g) = g_w g \<and> \<not> g_promoted (gate_run (stream_ops out) g)"
proof (induction out arbitrary: g)
  case (Cons x out)
  then show ?case by (cases x) (simp_all add: gate_run_def gate_Write_def gate_Flush_def)
qed (simp add: gate_run_def)

lemma gate_open: "g_promoted g \<Longrightarrow> g_promoted (gate_run ops g)"
proof (induction ops arbitrary: g)
  case (Cons x ops)
  then show ?case by (cases x) (simp_all add: gate_run_def gate_Write_def gate_Flush_def WriteHeader_def Promote_def Discard_def)
qed (simp add: gate_run_def)

lemma gate_untouched: "\<not> g_promoted (gate_run ops g) \<Longrightarrow> g_w (gate_run ops g) = g_w g"
proof (induction ops arbitrary: g)
  case (Cons x ops)
  have p: "\<not> g_promoted (gate_step x g)" using Cons.prems gate_open [of "gate_step x g" ops] by (auto simp: gate_run_def)
  then have "g_w (gate_step x g) = g_w g"
    by (cases x) (auto simp: gate_Write_def gate_Flush_def WriteHeader_def Promote_def Discard_def Let_def split: if_splits)
  with Cons.IH [of "gate_step x g"] Cons.prems show ?case by (simp add: gate_run_def)
qed (simp add: gate_run_def)

lemma gate_promoted: "VisibleOutput \<in> set out \<Longrightarrow> g_promoted (gate_run (stream_ops out) g)"
proof (induction out arbitrary: g)
  case (Cons x out)
  show ?case
  proof (cases x)
    case (Sent ev)
    with Cons show ?thesis by (simp add: gate_run_def)
  next
    case VisibleOutput
    have "g_promoted (Promote g)" by (simp add: Promote_def Let_def)
    from gate_open [OF this] VisibleOutput show ?thesis by (simp add: gate_run_def)
  qed
qed simp

lemma IsPromoted_gate [simp]: "IsPromoted (gate w s) = visible s"
  using gate_shut [of "w_out s" "NewGateWriter w"] gate_promoted [of "w_out s" "NewGateWriter w"]
  by (auto simp: IsPromoted_def gate_def visible_def NewGateWriter_def)

lemma gate_shut_client: "\<not> visible s \<Longrightarrow> g_w (gate w s) = w" "\<not> visible s \<Longrightarrow> g_w (Discard (gate w s)) = w"
  using gate_shut [of "w_out s" "NewGateWriter w"] by (simp_all add: gate_def visible_def NewGateWriter_def Discard_def)

section \<open>Soundness of the writer's flags\<close>

text \<open>Visible output only after the start, and no failure without a failing write.\<close>

definition sound :: "writer_env \<Rightarrow> SSEWriter \<Rightarrow> bool" where
  "sound E s \<longleftrightarrow> (visible s \<longrightarrow> started s) \<and> (writeErr s \<longrightarrow> (\<exists>n. write_fails E n))"

lemma sound_updates [simp]:
  "sound E (s\<lparr>w_acc := a\<rparr>) = sound E s" "sound E (s\<lparr>activeType := t\<rparr>) = sound E s"
  "sound E (s\<lparr>blockIndex := i\<rparr>) = sound E s" "sound E (s\<lparr>signatureSent := b\<rparr>) = sound E s"
  "sound E (s\<lparr>blockIndex := i, activeType := t\<rparr>) = sound E s"
  "sound E s \<Longrightarrow> sound E (s\<lparr>started := True\<rparr>)"
  by (auto simp: sound_def visible_def)

lemma sound_raw [simp]: "sound E s \<Longrightarrow> sound E (writeRawSSE E ev s)"
  by (auto simp: sound_def visible_def writeRawSSE_def)

lemma sound_write [simp]: "sound E s \<Longrightarrow> sound E (writeSSE E ev s)"
  by (simp add: writeSSE_def)

lemma sound_started [simp]: "sound E s \<Longrightarrow> sound E (ensureStarted E s)" "started (ensureStarted E s)"
  by (simp_all add: ensureStarted_def Let_def)

lemma sound_fire [simp]: "sound E s \<Longrightarrow> started s \<Longrightarrow> sound E (fireVisibleOutput s)"
  by (auto simp: sound_def visible_def fireVisibleOutput_def)

lemma sound_close [simp]: "sound E s \<Longrightarrow> sound E (closeActiveBlock E s)" "started (closeActiveBlock E s) = started s"
  by (simp_all add: closeActiveBlock_def)

lemma sound_switch [simp]: "sound E s \<Longrightarrow> sound E (switchBlock E t s)" "started (switchBlock E t s) = started s"
  by (simp_all add: switchBlock_def Let_def)

lemma sound_thinking [simp]: "sound E s \<Longrightarrow> sound E (writeThinkingDelta E t s)" "started (writeThinkingDelta E t s)"
  by (simp_all add: writeThinkingDelta_def writeDelta_def)

lemma sound_signature [simp]: "sound E s \<Longrightarrow> sound E (writeSignatureDelta E t s)"
  by (simp add: writeSignatureDelta_def Let_def)

lemma sound_text [simp]: "sound E s \<Longrightarrow> started s \<Longrightarrow> sound E (writeTextDelta E t s)"
  by (simp add: writeTextDelta_def writeDelta_def)

lemma sound_error [simp]: "sound E s \<Longrightarrow> sound E (WriteError E t m s)"
  by (simp add: WriteError_def)

lemma sound_Finish [simp]: "sound E s \<Longrightarrow> sound E (Finish E s)"
  by (simp add: Finish_def Let_def split: prod.split)

lemma sound_HandleEvent: "sound E s \<Longrightarrow> sound E (fst (HandleEvent E e s))"
  by (simp add: HandleEvent_def Let_def split: prod.split)

section \<open>The stream's answer\<close>

definition running :: "writer_env \<Rightarrow> stream_state \<Rightarrow> bool" where
  "running E st \<longleftrightarrow> (\<forall>ev. marshals E ev) \<and> \<not> streamErr st \<and> \<not> localStop st \<and> writer_ok (ss_sw st) \<and> sound E (ss_sw st)"

definition ended :: "SSEWriter \<Rightarrow> bool" where
  "ended s \<longleftrightarrow> (\<exists>q. sse_run (sent s) Before = Some q \<and> (writeErr s \<or> q = Done \<or> q = Aborted \<or> \<not> started s))"

definition halted :: "writer_env \<Rightarrow> stream_state \<Rightarrow> bool" where
  "halted E st \<longleftrightarrow> (streamErr st \<or> localStop st) \<and> sound E (ss_sw st) \<and> ended (ss_sw st)"

lemma in_phase_ended: "in_phase s Done \<or> in_phase s Aborted \<or> in_phase s Before \<and> \<not> started s \<Longrightarrow> ended s"
  unfolding in_phase_def ended_def by blast

lemma stream_callback_keeps:
  assumes r: "running E st" and c: "stream_callback E e st = (st', b)"
  shows "if b then halted E st' else running E st'"
proof -
  have m: "marshals E ev" for ev using r by (simp add: running_def)
  obtain s' stop where h: "HandleEvent E e (ss_sw st) = (s', stop)" by fastforce
  have s: "sound E s'" using sound_HandleEvent [of E "ss_sw st" e] r h by (simp add: running_def)
  have w: "if stop then ended s' else writer_ok s'"
    using HandleEvent_ok [OF m _ h] r in_phase_ended [of s'] by (simp add: running_def split: if_splits)
  have f: "ended s'" if "writeErr s'"
    using w that by (cases stop) (auto simp: writer_ok_def in_phase_def ended_def)
  have "ended (ss_sw st)" if "writeErr (ss_sw st)"
    using r that by (auto simp: running_def writer_ok_def in_phase_def ended_def)
  with r s w f h c show ?thesis by (auto simp: stream_callback_def Let_def running_def halted_def split: if_splits)
qed

interpretation stream: callback_contract "running E" "halted E" "stream_callback E" for E
  by unfold_locales (rule stream_callback_keeps)

lemma sound_new: "sound E (NewSSEWriter uuid model cw seqs mt pre)"
  by (simp add: sound_def visible_def NewSSEWriter_def)

lemma stream_writer_running:
  "(\<And>ev. marshals E ev) \<Longrightarrow> running E \<lparr>ss_sw = stream_writer H A, streamErr = False, localStop = False, invalidReason = r, isException = x\<rparr>"
  by (simp add: running_def stream_writer_def Let_def sound_new new_writer_ok)

text \<open>One answer: nothing, one error document, or a conforming stream.\<close>

definition one_answer :: "writer_env \<Rightarrow> answer list \<Rightarrow> bool" where
  "one_answer E d \<longleftrightarrow> d = [] \<or> (\<exists>t m. d = [ErrorJSON t m]) \<or> (\<exists>r. d = [ResponseJSON r] \<or> d = [BrokenJSON r]) \<or>
     (\<exists>evs q. d = map StreamEvent evs \<and> sse_run evs Before = Some q \<and> ((\<forall>n. \<not> write_fails E n) \<longrightarrow> q = Done \<or> q = Aborted))"

definition settles :: "writer_env \<Rightarrow> answer client \<Rightarrow> handled \<Rightarrow> bool" where
  "settles E w r \<longleftrightarrow> TerminalErr (hd_out r) = None \<and>
     (Reason (hd_out r) \<noteq> '''' \<longrightarrow> hd_w r = w) \<and> (\<exists>d. c_body (hd_w r) = c_body w @ d \<and> one_answer E d)"

lemma one_error [simp]: "one_answer E [ErrorJSON t m]" "one_answer E []" "one_answer E [ResponseJSON r]" "one_answer E [BrokenJSON r]"
  by (simp_all add: one_answer_def)

lemma ended_answer: "sound E s \<Longrightarrow> ended s \<Longrightarrow> visible s \<Longrightarrow> one_answer E (map StreamEvent (sent s))"
  unfolding one_answer_def ended_def sound_def by blast

lemma gate_answer: "sound E s \<Longrightarrow> ended s \<Longrightarrow> \<exists>d. c_body (g_w (gate w s)) = c_body w @ d \<and> one_answer E d"
  using ended_answer [of E s] by (cases "visible s") (simp_all add: gate_body)

lemma error_body [simp]: "c_body (httpx_WriteError st t m w) = c_body w @ [ErrorJSON t m]"
  by (simp add: httpx_WriteError_def client_write_def)

lemma upstream_failed_settles: "settles E w (upstream_failed st w)"
  by (auto simp: settles_def upstream_failed_def handleUpstreamError_def no_outcome_def)

lemma stream_error_answer:
  assumes m: "\<And>ev. marshals E ev" and ok: "writer_ok s" "sound E s"
  shows "\<exists>d. c_body (writeStreamingOrJSONError E w s st t mm) = c_body w @ d \<and> one_answer E d"
proof (cases "started s \<and> visible s")
  case True
  then have "ended (WriteError E t mm s)" using WriteError_ok [OF m ok(1)] in_phase_ended by blast
  from gate_answer [OF sound_error [OF ok(2)] this, of w] True show ?thesis by (simp add: writeStreamingOrJSONError_def)
next
  case False
  then have "\<not> visible s" using ok(2) by (auto simp: sound_def)
  with gate_shut_client [of s w] show ?thesis by (auto simp: writeStreamingOrJSONError_def Let_def)
qed

lemma finish_stream_settles:
  assumes m: "\<And>ev. marshals (h_writer H) ev" and st: "running (h_writer H) st \<or> err = Finished \<and> halted (h_writer H) st"
  shows "settles (h_writer H) w (finish_stream H A err st w)"
proof -
  let ?E = "h_writer H" and ?s = "ss_sw st"
  have snd: "sound ?E ?s" using st by (auto simp: running_def halted_def)
  then have vis: "visible ?s \<Longrightarrow> started ?s" by (simp add: sound_def)
  note shut = gate_shut_client [of ?s w]
  consider (early) "streamErr st" "\<not> visible ?s" | (broken) "err \<noteq> Finished" "running ?E st"
    | (run) "err = Finished" "running ?E st" | (stop) "err = Finished" "halted ?E st" "streamErr st \<longrightarrow> visible ?s"
    using st by blast
  then show ?thesis
  proof cases
    case early
    with shut upstream_failed_settles show ?thesis by (simp add: finish_stream_def Let_def)
  next
    case broken
    with stream_error_answer [OF m, of ?s w] show ?thesis
      by (auto simp: finish_stream_def Let_def running_def settles_def no_outcome_def)
  next
    case run
    let ?f = "Finish ?E ?s"
    have f: "sound ?E ?f" "ended ?f" using snd Finish_ok [OF m, of ?s] run(2) in_phase_ended by (auto simp: running_def)
    from run shut gate_answer [OF f, of w] gate_shut_client [of ?f w] show ?thesis
      by (auto simp: finish_stream_def Let_def running_def settles_def no_outcome_def)
  next
    case stop
    then have e: "ended ?s" by (simp add: halted_def)
    from stop shut gate_answer [OF snd e, of w] vis show ?thesis
      by (auto simp: finish_stream_def Let_def halted_def settles_def no_outcome_def)
  qed
qed

lemma streaming_settles:
  assumes "\<And>ev. marshals (h_writer H) ev"
  shows "settles (h_writer H) w (handleStreamingResponse H A body w)"
proof -
  let ?st = "\<lparr>ss_sw = stream_writer H A, streamErr = False, localStop = False, invalidReason = '''', isException = False\<rparr>"
  obtain err st where p: "ParseStream (h_json H) (h_cancelled H) (h_uuids H) (stream_callback (h_writer H)) body ?st = (err, st)"
    by fastforce
  from stream.ParseStream_keeps [OF stream_writer_running [OF assms] p]
  show ?thesis unfolding handleStreamingResponse_def Let_def p prod.case by (rule finish_stream_settles [OF assms])
qed

lemma nonstreaming_settles: "settles E w (handleNonStreamingResponse H A body w)"
proof -
  have "settles E w (finish_buffer H A err st w)" for err st
    by (auto simp: finish_buffer_def Let_def settles_def no_outcome_def handleUpstreamError_def client_write_def split: prod.split)
  then show ?thesis by (simp add: handleNonStreamingResponse_def Let_def split: prod.split)
qed


text \<open>
  A stream that ends without any event is answered with nothing at all: the events of the empty
  message stay in the gate, which nothing promotes, and no retry is asked for.
\<close>

lemma empty_accumulator:
  fixes A seqs cw mt pre
  defines "a0 \<equiv> set_hooks A (newAccumulator cw seqs mt pre)"
  shows "InvalidToolCalls a0 = []" "fst (snd (finalizeResult a0)) = ''''" "fst (snd (snd (finalizeResult a0))) = ''''"
    "ThinkingBuf (fst (finalizeResult a0)) = ''''"
proof -
  define z where "z = zero_accumulator\<lparr>ContextWindowSize := cw, maxTokensBudget := mt, PreCountedInputTokens := pre\<rparr>"
  have "thinkingTagBuf (add_stops ss a) = thinkingTagBuf a \<and> stopSeqPending (add_stops ss a) = stopSeqPending a \<and>
      ThinkingBuf (add_stops ss a) = ThinkingBuf a \<and> InvalidToolCalls (add_stops ss a) = InvalidToolCalls a" for ss a
    by (induction ss a rule: add_stops.induct) (auto simp: Let_def)
  then have "thinkingTagBuf a0 = '''' \<and> stopSeqPending a0 = '''' \<and> ThinkingBuf a0 = '''' \<and> InvalidToolCalls a0 = []"
    by (simp add: a0_def set_hooks_def newAccumulator_def initStopSequences_def zero_accumulator_def)
  then show "InvalidToolCalls a0 = []" "fst (snd (finalizeResult a0)) = ''''" "fst (snd (snd (finalizeResult a0))) = ''''"
    "ThinkingBuf (fst (finalizeResult a0)) = ''''"
    by (simp_all add: finalizeResult_def FinalizeStream_def finalizeThinkingTags_def flushStopSeqPending_def Let_def split: prod.split)
qed

lemma visible_writes [simp]:
  "visible (s\<lparr>w_acc := a\<rparr>) = visible s" "visible (writeSSE E ev s) = visible s" "visible (ensureStarted E s) = visible s"
  "visible (closeActiveBlock E s) = visible s"
  by (auto simp: visible_def writeSSE_def writeRawSSE_def ensureStarted_def closeActiveBlock_def Let_def)

lemma empty_stream_unanswered:
  assumes "\<not> h_cancelled H 0"
  shows "hd_w (handleStreamingResponse H A \<lparr>pending_bytes = [], read_error = None\<rparr> w) = w \<and>
    Reason (hd_out (handleStreamingResponse H A \<lparr>pending_bytes = [], read_error = None\<rparr> w)) = ''''"
proof -
  let ?E = "h_writer H" and ?sw = "stream_writer H A"
  let ?st = "\<lparr>ss_sw = ?sw, streamErr = False, localStop = False, invalidReason = '''', isException = False\<rparr>"
  have p: "ParseStream (h_json H) (h_cancelled H) (h_uuids H) (stream_callback ?E) \<lparr>pending_bytes = [], read_error = None\<rparr> ?st = (Finished, ?st)"
    using assms by (simp add: ParseStream_def parse_loop.simps [of _ _ _ _ 0] readFrame_def acc_flush_def buildAndReset_def zero_acc_def)
  have acc: "w_acc ?sw = set_hooks A (newAccumulator (ha_contextWindowSize A) (ha_stopSequences A) (ha_maxTokens A) (ha_preCounted A))"
    by (simp add: stream_writer_def Let_def NewSSEWriter_def)
  note f = empty_accumulator [of A "ha_contextWindowSize A" "ha_stopSequences A" "ha_maxTokens A" "ha_preCounted A", folded acc]
  have n: "\<not> visible ?sw" by (simp add: visible_def stream_writer_def Let_def NewSSEWriter_def)
  have nv: "\<not> visible (Finish ?E ?sw)" "ThinkingBuf (w_acc (Finish ?E ?sw)) = ''''"
    using n f by (auto simp: Finish_def Let_def discardInvalidToolCallWarning_def split: prod.split)
  show ?thesis unfolding handleStreamingResponse_def Let_def p prod.case finish_stream_def
    using nv n f gate_shut_client [OF nv(1), of w] by (simp add: IsEmptyVisibleEndTurn_def no_outcome_def)
qed


text \<open>The reason for a retry names invalid tool calls only when there are some.\<close>

lemma upstream_reason: "snd (handleUpstreamError x reason w) \<noteq> retryReasonInvalidToolUse"
  by (auto simp: handleUpstreamError_def retryableInvalidStateReasons_def retryReasonInvalidToolUse_def)

lemma stream_invalid_calls:
  "Reason (hd_out (handleStreamingResponse H A body w)) = retryReasonInvalidToolUse \<Longrightarrow>
   ro_InvalidToolCalls (hd_out (handleStreamingResponse H A body w)) \<noteq> []"
proof -
  have "Reason (hd_out (finish_stream H A err st w)) = retryReasonInvalidToolUse \<Longrightarrow>
      ro_InvalidToolCalls (hd_out (finish_stream H A err st w)) \<noteq> []" for err st
    using upstream_reason [of "isException st" "invalidReason st"]
    by (auto simp: finish_stream_def Let_def upstream_failed_def no_outcome_def retryReasonEmptyVisibleEndTurn_def
        retryReasonInvalidToolUse_def case_prod_unfold split: if_splits)
  then show "Reason (hd_out (handleStreamingResponse H A body w)) = retryReasonInvalidToolUse \<Longrightarrow>
     ro_InvalidToolCalls (hd_out (handleStreamingResponse H A body w)) \<noteq> []"
    by (simp add: handleStreamingResponse_def Let_def case_prod_unfold)
qed

lemma buffer_invalid_calls:
  "Reason (hd_out (handleNonStreamingResponse H A body w)) = retryReasonInvalidToolUse \<Longrightarrow>
   ro_InvalidToolCalls (hd_out (handleNonStreamingResponse H A body w)) \<noteq> []"
proof -
  have "Reason (hd_out (finish_buffer H A err st w)) = retryReasonInvalidToolUse \<Longrightarrow>
      ro_InvalidToolCalls (hd_out (finish_buffer H A err st w)) \<noteq> []" for err st
    using upstream_reason [of "bs_isException st" "bs_invalidReason st"]
    by (auto simp: finish_buffer_def Let_def no_outcome_def retryReasonEmptyVisibleEndTurn_def
        retryReasonInvalidToolUse_def case_prod_unfold split: if_splits)
  then show "Reason (hd_out (handleNonStreamingResponse H A body w)) = retryReasonInvalidToolUse \<Longrightarrow>
     ro_InvalidToolCalls (hd_out (handleNonStreamingResponse H A body w)) \<noteq> []"
    by (simp add: handleNonStreamingResponse_def Let_def case_prod_unfold)
qed

text \<open>A stream that breaks before its first event is answered with an error, and reported as no error.\<close>

lemma broken_stream_reported_as_done:
  assumes "\<not> h_cancelled H 0"
  shows "hd_w (handleStreamingResponse H A \<lparr>pending_bytes = [], read_error = Some e\<rparr> w) =
      httpx_WriteError 502 ErrTypeStream ''upstream stream error'' w \<and>
    hd_out (handleStreamingResponse H A \<lparr>pending_bytes = [], read_error = Some e\<rparr> w) = no_outcome"
proof -
  let ?E = "h_writer H" and ?sw = "stream_writer H A"
  let ?st = "\<lparr>ss_sw = ?sw, streamErr = False, localStop = False, invalidReason = '''', isException = False\<rparr>"
  have p: "\<exists>err. ParseStream (h_json H) (h_cancelled H) (h_uuids H) (stream_callback ?E) \<lparr>pending_bytes = [], read_error = Some e\<rparr> ?st =
      (stream_end.Failed err, ?st)"
    using assms by (simp add: ParseStream_def parse_loop.simps [of _ _ _ _ 0] readFrame_def)
  have n: "\<not> visible ?sw" by (simp add: visible_def stream_writer_def Let_def NewSSEWriter_def)
  from p gate_shut_client [OF n] n show ?thesis
    by (auto simp: handleStreamingResponse_def Let_def finish_stream_def writeStreamingOrJSONError_def)
qed

end
