(* ===== verification/Messages.thy ===== *)
theory Messages
  imports Api_Constants Schema_Sanitize Go_Strings Go_Strconv
begin

text \<open>
  The request types of internal/anthropic/types.go and the payload types of
  internal/kiroproto/types.go. A \<open>MessageContent\<close> is a string when its block slice is \<open>nil\<close>
  (\<open>None\<close>), which is different from a slice without elements (\<open>Some []\<close>). Decoded JSON is \<open>json\<close>;
  the encoders of the types are not modelled.
\<close>

record CacheControl =
  cc_Type :: string
  cc_TTL :: json

record ImageSource =
  src_Type :: string
  src_MediaType :: string
  src_Data :: string

datatype ContentBlock = ContentBlock
    (cb_Type: string) (cb_Text: string) (cb_Thinking: string) (cb_Signature: string)
    (cb_ID: string) (cb_Name: string) (cb_Input: jmap)
    (cb_ToolUseID: string) (cb_Content: MessageContent) (cb_IsError: bool)
    (cb_Source: "ImageSource option") (cb_ToolName: string)
    (cb_ToolReferences: "ContentBlock list") (cb_CacheControl: "CacheControl option")
and MessageContent = MessageContent (mc_Text: string) (mc_Blocks: "ContentBlock list option")

record Message =
  m_Role :: string
  m_Content :: MessageContent

record SystemBlock =
  sb_Type :: string
  sb_Text :: string
  sb_CacheControl :: "CacheControl option"

record SystemPrompt =
  sp_Text :: string
  sp_Blocks :: "SystemBlock list"

record Tool =
  t_Type :: string
  t_Name :: string
  t_Description :: string
  t_InputSchema :: jmap
  t_CacheControl :: "CacheControl option"
  t_DeferLoading :: bool

record ThinkingConfig =
  th_Type :: string
  th_BudgetTokens :: int

record Request =
  rq_Model :: string
  rq_Messages :: "Message list"
  rq_System :: SystemPrompt
  rq_Tools :: "Tool list"
  rq_MaxTokens :: int
  rq_StopSequences :: "string list"
  rq_Stream :: bool
  rq_Thinking :: "ThinkingConfig option"
  rq_Effort :: "string option"

definition IsString :: "MessageContent \<Rightarrow> bool" where
  "IsString mc \<longleftrightarrow> mc_Blocks mc = None"

definition content_blocks :: "MessageContent \<Rightarrow> ContentBlock list" where
  "content_blocks mc = (case mc_Blocks mc of None \<Rightarrow> [] | Some bs \<Rightarrow> bs)"

definition IsToolUse :: "ContentBlock \<Rightarrow> bool" where
  "IsToolUse b \<longleftrightarrow> cb_Type b = BlockTypeToolUse \<or> cb_Type b = BlockTypeServerToolUse"

definition IsToolResult :: "ContentBlock \<Rightarrow> bool" where
  "IsToolResult b \<longleftrightarrow> cb_Type b = BlockTypeToolResult \<or> cb_Type b = BlockTypeToolSearchToolResult"

definition IsToolSearchTool :: "Tool \<Rightarrow> bool" where
  "IsToolSearchTool t \<longleftrightarrow> t_Type t = ToolTypeSearchRegex \<or> t_Type t = ToolTypeSearchBM25"

definition IsWebSearchTool :: "Tool \<Rightarrow> bool" where
  "IsWebSearchTool t \<longleftrightarrow> t_Type t = ToolTypeWebSearch"

definition IsThinkingEnabled :: "Request \<Rightarrow> bool" where
  "IsThinkingEnabled r \<longleftrightarrow>
     (case rq_Thinking r of None \<Rightarrow> False | Some th \<Rightarrow> th_Type th = ''enabled'' \<or> th_Type th = ''adaptive'')"

definition Effort :: "Request \<Rightarrow> string" where
  "Effort r = (case rq_Effort r of None \<Rightarrow> '''' | Some e \<Rightarrow> e)"

definition sp_IsEmpty :: "SystemPrompt \<Rightarrow> bool" where
  "sp_IsEmpty sp \<longleftrightarrow> sp_Text sp = '''' \<and> sp_Blocks sp = []"

text \<open>Composite literals that leave the other fields at their zero values.\<close>

definition text_content :: "string \<Rightarrow> MessageContent" where
  "text_content t = MessageContent t None"

definition text_block :: "string \<Rightarrow> ContentBlock" where
  "text_block t = ContentBlock BlockTypeText t '''' '''' '''' '''' [] '''' (text_content '''') False None '''' [] None"

text \<open>A slice built by \<open>append\<close> from \<open>nil\<close> stays \<open>nil\<close> when nothing was appended.\<close>

definition appended_blocks :: "ContentBlock list \<Rightarrow> MessageContent" where
  "appended_blocks bs = MessageContent '''' (if bs = [] then None else Some bs)"

lemma content_blocks_simps [simp]:
  "content_blocks (text_content t) = []" "content_blocks (appended_blocks bs) = bs"
  "IsString (text_content t)" "IsString (appended_blocks bs) \<longleftrightarrow> bs = []"
  by (simp_all add: content_blocks_def text_content_def appended_blocks_def IsString_def)

lemma text_block_simps [simp]:
  "cb_Type (text_block t) = BlockTypeText" "cb_Text (text_block t) = t"
  "\<not> IsToolUse (text_block t)" "\<not> IsToolResult (text_block t)"
  by (simp_all add: text_block_def IsToolUse_def IsToolResult_def block_types)

text \<open>strings.Join.\<close>

fun str_join :: "string \<Rightarrow> string list \<Rightarrow> string" where
  "str_join sep [] = ''''"
| "str_join sep [s] = s"
| "str_join sep (s # ss) = s @ sep @ str_join sep ss"

text \<open>The payload types of the Kiro API; \<open>CachePoint\<close> is never set.\<close>

record ToolSpecification =
  ts_Name :: string
  ts_Description :: string
  ts_InputSchema :: jmap

record ToolResult =
  tr_ToolUseID :: string
  tr_Status :: string
  tr_Content :: "jmap list"

record Image =
  img_Format :: string
  img_Bytes :: string

record UserInputMessageContext =
  uc_Tools :: "ToolSpecification list"
  uc_ToolResults :: "ToolResult list"

record UserInputMessage =
  ui_Content :: string
  ui_ModelID :: string
  ui_Origin :: string
  ui_Context :: "UserInputMessageContext option"
  ui_Images :: "Image list"

record HistoryToolUse =
  htu_ToolUseID :: string
  htu_Name :: string
  htu_Input :: jmap

record AssistantResponseMessage =
  ar_MessageID :: string
  ar_Content :: string
  ar_ToolUses :: "HistoryToolUse list"
  ar_Reasoning :: "(string \<times> string) option"

record HistoryUserInputMessage =
  hu_Content :: string
  hu_Origin :: string
  hu_Context :: "UserInputMessageContext option"

datatype HistoryEntry = HistUser HistoryUserInputMessage | HistAssistant AssistantResponseMessage

record ConversationState =
  cs_ConversationID :: string
  cs_ChatTriggerType :: string
  cs_AgentTaskType :: string
  cs_CurrentMessage :: UserInputMessage
  cs_History :: "HistoryEntry list"

record Payload =
  p_ConversationState :: ConversationState
  p_ProfileARN :: string

end
