(* ===== verification/Content_Text.thy ===== *)
theory Content_Text
  imports Messages "HOL-Library.Multiset"
begin

text \<open>
  internal/reqconv/content_text.go, tool_results.go, content_scan.go, images.go and
  tool_reference.go: what is taken out of the content of a message. Warnings that are only logged
  have no counterpart.
\<close>

definition newline :: string where "newline = [CHR 0x0A]"

section \<open>Text\<close>

definition textualizeUnknownBlock :: "ContentBlock \<Rightarrow> string" where
  "textualizeUnknownBlock b =
     (let identifier = cb_ToolName b;
          identifier = (if identifier = '''' then cb_Name b else identifier);
          identifier = (if identifier = '''' then cb_ID b else identifier)
      in if identifier \<noteq> '''' then ''['' @ cb_Type b @ '': '' @ identifier @ '']''
         else ''['' @ cb_Type b @ '']'')"

definition text_parts :: "ContentBlock \<Rightarrow> string list" where
  "text_parts b =
     (if cb_Type b = BlockTypeText then [cb_Text b]
      else if cb_Type b \<in> {BlockTypeThinking, BlockTypeToolUse, BlockTypeToolResult, BlockTypeImage, BlockTypeToolReference,
                           BlockTypeServerToolUse, BlockTypeToolSearchToolResult} then []
      else [textualizeUnknownBlock b])"

definition ExtractTextContent :: "MessageContent \<Rightarrow> string" where
  "ExtractTextContent content =
     (if IsString content then mc_Text content else str_join '' '' (concat (map text_parts (content_blocks content))))"

definition cleanSystemPromptText :: "string \<Rightarrow> string" where
  "cleanSystemPromptText t = (if has_prefix (TrimSpace t) ''x-anthropic-billing-header:'' then '''' else t)"

definition system_part :: "SystemBlock \<Rightarrow> string list" where
  "system_part b =
     (if sb_Type b = BlockTypeText \<and> sb_Text b \<noteq> ''''
      then (let cleaned = cleanSystemPromptText (sb_Text b) in if cleaned \<noteq> '''' then [cleaned] else [])
      else [])"

definition ExtractSystemPrompt :: "SystemPrompt \<Rightarrow> string" where
  "ExtractSystemPrompt sys =
     (if sp_IsEmpty sys then ''''
      else if sp_Text sys \<noteq> '''' then cleanSystemPromptText (sp_Text sys)
      else str_join newline (concat (map system_part (sp_Blocks sys))))"

definition reminderOpen :: string where "reminderOpen = ''<system-reminder>''"
definition reminderClose :: string where "reminderClose = ''</system-reminder>''"

lemma reminder_shorter:
  assumes "str_index t reminderOpen = Some start"
  shows "length (drop (start + length reminderOpen + k) t) < length t"
    "length (dropWhile P (drop (start + length reminderOpen + k) t)) < length t"
proof -
  show *: "length (drop (start + length reminderOpen + k) t) < length t"
    using str_index_bound [OF assms] by (simp add: reminderOpen_def)
  show "length (dropWhile P (drop (start + length reminderOpen + k) t)) < length t"
    by (rule le_less_trans [OF length_dropWhile_le *])
qed

function cleanCurrentText :: "string \<Rightarrow> string" where
  "cleanCurrentText t =
     (case str_index t reminderOpen of
        None \<Rightarrow> t
      | Some start \<Rightarrow>
          (let rest = drop (start + length reminderOpen) t in
           case str_index rest reminderClose of
             None \<Rightarrow> t
           | Some endRel \<Rightarrow>
               (let end1 = start + length reminderOpen + endRel + length reminderClose;
                    blockBody = take endRel rest
                in if has_prefix (TrimSpace blockBody) ''# MCP Server Instructions''
                   then take start t @ cleanCurrentText (dropWhile (\<lambda>c. c \<in> set ('' '' @ newline @ [CHR 0x09])) (drop end1 t))
                   else take end1 t @ cleanCurrentText (drop end1 t))))"
  by pat_completeness auto
termination
  using reminder_shorter by (relation "measure length") (simp_all add: add.assoc)

declare cleanCurrentText.simps [simp del]

section \<open>Tool results and tool uses\<close>

definition result_parts :: "ContentBlock \<Rightarrow> string list" where
  "result_parts cb =
     (if cb_Type cb = BlockTypeText then [cb_Text cb]
      else if cb_Type cb = BlockTypeToolSearchSearchResult \<or> cb_ToolReferences cb \<noteq> []
      then map (\<lambda>ref. ''tool_reference: '' @ cb_ToolName ref) (filter (\<lambda>ref. cb_ToolName ref \<noteq> '''') (cb_ToolReferences cb))
      else [])"

definition extractToolResultContentText :: "ContentBlock \<Rightarrow> string" where
  "extractToolResultContentText b =
     (if IsString (cb_Content b) then mc_Text (cb_Content b)
      else str_join newline (concat (map result_parts (content_blocks (cb_Content b)))))"

definition kiro_result :: "ContentBlock \<Rightarrow> ToolResult" where
  "kiro_result b =
     (let status = (if cb_IsError b then ToolResultStatusError else ToolResultStatusSuccess);
          exitStatus = (if cb_IsError b then ''1'' else ''0'');
          t = extractToolResultContentText b;
          t = (if t = '''' then ''(empty result)'' else t)
      in \<lparr>tr_ToolUseID = cb_ToolUseID b, tr_Status = status,
          tr_Content = [[(''exit_status'', JStr exitStatus), (''stdout'', JStr t), (''stderr'', JStr '''')]]\<rparr>)"

definition ExtractToolResults :: "MessageContent \<Rightarrow> ToolResult list" where
  "ExtractToolResults content =
     (if IsString content then [] else map kiro_result (filter IsToolResult (content_blocks content)))"

definition ExtractToolUses :: "MessageContent \<Rightarrow> HistoryToolUse list" where
  "ExtractToolUses content =
     (if IsString content then []
      else map (\<lambda>b. \<lparr>htu_ToolUseID = cb_ID b, htu_Name = cb_Name b, htu_Input = cb_Input b\<rparr>)
             (filter IsToolUse (content_blocks content)))"

text \<open>The Go map \<open>index\<close> keeps the last result of an identifier, \<open>used\<close> is a set.\<close>

definition index_results :: "ToolResult list \<Rightarrow> string \<rightharpoonup> ToolResult" where
  "index_results results = fold (\<lambda>r m. m(tr_ToolUseID r \<mapsto> r)) results Map.empty"

fun order_results :: "(string \<rightharpoonup> ToolResult) \<Rightarrow> string list \<Rightarrow> ToolResult list \<times> string list" where
  "order_results index [] = ([], [])"
| "order_results index (i # ids) =
     (let (ordered, used) = order_results index ids in
      case index i of Some r \<Rightarrow> (r # ordered, i # used) | None \<Rightarrow> (ordered, used))"

definition ReorderToolResults :: "ToolResult list \<Rightarrow> string list \<Rightarrow> ToolResult list" where
  "ReorderToolResults results toolUseIDs =
     (if length results \<le> 1 \<or> toolUseIDs = [] then results
      else
        (let (ordered, used) = order_results (index_results results) toolUseIDs
         in ordered @ filter (\<lambda>r. tr_ToolUseID r \<notin> set used) results))"

definition last_segment :: "string \<Rightarrow> string" where
  "last_segment format = (if CHR ''/'' \<in> set format then rev (takeWhile (\<lambda>c. c \<noteq> CHR ''/'') (rev format)) else format)"

definition kiro_image :: "ContentBlock \<Rightarrow> Image list" where
  "kiro_image b =
     (case cb_Source b of
        None \<Rightarrow> []
      | Some src \<Rightarrow>
          if cb_Type b \<noteq> BlockTypeImage \<or> src_Type src \<noteq> ''base64'' then []
          else [\<lparr>img_Format = last_segment (src_MediaType src), img_Bytes = src_Data src\<rparr>])"

definition ExtractImages :: "MessageContent \<Rightarrow> Image list" where
  "ExtractImages content = (if IsString content then [] else concat (map kiro_image (content_blocks content)))"

text \<open>The single pass of \<open>scanCurrentMessage\<close>.\<close>

fun scan_blocks :: "ContentBlock list \<Rightarrow> ToolResult list \<Rightarrow> Image list \<Rightarrow> ToolResult list \<times> Image list" where
  "scan_blocks [] toolResults images = (toolResults, images)"
| "scan_blocks (b # bs) toolResults images =
     (if IsToolResult b then scan_blocks bs (toolResults @ [kiro_result b]) images
      else scan_blocks bs toolResults (images @ kiro_image b))"

definition scanCurrentMessage :: "MessageContent \<Rightarrow> ToolResult list \<times> Image list" where
  "scanCurrentMessage content = (if IsString content then ([], []) else scan_blocks (content_blocks content) [] [])"

text \<open>The signed thinking block of an assistant message: the first one with text and signature.\<close>

definition ExtractReasoningContent :: "MessageContent \<Rightarrow> (string \<times> string) option" where
  "ExtractReasoningContent content =
     (if IsString content then None
      else map_option (\<lambda>b. (cb_Thinking b, cb_Signature b))
             (find (\<lambda>b. cb_Type b = BlockTypeThinking \<and> cb_Thinking b \<noteq> '''' \<and> cb_Signature b \<noteq> '''') (content_blocks content)))"

definition extractToolUseIDs :: "Message \<Rightarrow> string list" where
  "extractToolUseIDs msg =
     (if IsString (m_Content msg) then [] else map cb_ID (filter IsToolUse (content_blocks (m_Content msg))))"

text \<open>The thinking blocks as tool uses; the \<open>k\<close>-th identifier comes from \<open>uuid.New\<close>.\<close>

definition ExtractThinkingToolUses :: "(nat \<Rightarrow> string) \<Rightarrow> MessageContent \<Rightarrow> HistoryToolUse list" where
  "ExtractThinkingToolUses uuids content =
     (if IsString content then []
      else map (\<lambda>(k, b). \<lparr>htu_ToolUseID = ''thinking_'' @ take 8 (uuids k), htu_Name = ThinkingToolName,
                          htu_Input = [(''thought'', JStr (cb_Thinking b))]\<rparr>)
             (enumerate 0 (filter (\<lambda>b. cb_Type b = BlockTypeThinking \<and> cb_Thinking b \<noteq> '''') (content_blocks content))))"

section \<open>Tool references\<close>

definition add_name :: "string \<Rightarrow> string list \<Rightarrow> string list" where
  "add_name name names = (if name = '''' \<or> name \<in> set names then names else names @ [name])"

definition block_references :: "ContentBlock \<Rightarrow> string list" where
  "block_references b =
     (if cb_Type b = BlockTypeToolReference then [cb_ToolName b]
      else if cb_Type b = BlockTypeToolSearchToolResult
      then concat (map (\<lambda>inner. (if cb_Type inner = BlockTypeToolReference then [cb_ToolName inner] else []) @
                              map cb_ToolName (cb_ToolReferences inner)) (content_blocks (cb_Content b)))
      else if cb_Type b = BlockTypeToolResult
      then concat (map (\<lambda>inner. if cb_Type inner = BlockTypeToolReference then [cb_ToolName inner] else [])
                     (content_blocks (cb_Content b)))
      else [])"

definition ExtractToolReferences :: "Message list \<Rightarrow> string list" where
  "ExtractToolReferences messages =
     fold add_name
       (concat (map (\<lambda>msg. if IsString (m_Content msg) then [] else concat (map block_references (content_blocks (m_Content msg))))
          messages)) []"

section \<open>Lemmas\<close>

lemma scanCurrentMessage_split:
  "scanCurrentMessage content = (ExtractToolResults content, ExtractImages content)"
proof -
  have img: "IsToolResult b \<Longrightarrow> kiro_image b = []" for b
    by (auto simp: kiro_image_def IsToolResult_def block_types split: option.split)
  have "scan_blocks bs trs imgs = (trs @ map kiro_result (filter IsToolResult bs), imgs @ concat (map kiro_image bs))" for bs trs imgs
    by (induction bs trs imgs rule: scan_blocks.induct) (auto simp: img)
  then show ?thesis by (simp add: scanCurrentMessage_def ExtractToolResults_def ExtractImages_def)
qed

lemma kiro_result_ID [simp]: "tr_ToolUseID (kiro_result b) = cb_ToolUseID b"
  by (simp add: kiro_result_def Let_def)

lemma index_results_distinct:
  assumes "distinct (map tr_ToolUseID rs)"
  shows "index_results rs i = Some r \<longleftrightarrow> r \<in> set rs \<and> tr_ToolUseID r = i"
proof -
  have "fold (\<lambda>r m. m(tr_ToolUseID r \<mapsto> r)) rs m i = Some r \<longleftrightarrow>
      (r \<in> set rs \<and> tr_ToolUseID r = i) \<or> (i \<notin> tr_ToolUseID ` set rs \<and> m i = Some r)" for m
    using assms by (induction rs arbitrary: m) auto
  then show ?thesis by (simp add: index_results_def)
qed

lemma order_results_ids: "snd (order_results index ids) = filter (\<lambda>i. index i \<noteq> None) ids"
  by (induction ids) (auto simp: Let_def split: prod.splits option.splits)

lemma order_results_map: "map Some (fst (order_results index ids)) = filter (\<lambda>x. x \<noteq> None) (map index ids)"
  by (induction ids) (auto simp: Let_def split: prod.splits option.splits)

lemma order_results_fst:
  assumes "distinct (map tr_ToolUseID rs)"
  shows "map tr_ToolUseID (fst (order_results (index_results rs) ids)) = filter (\<lambda>i. i \<in> tr_ToolUseID ` set rs) ids \<and>
    set (fst (order_results (index_results rs) ids)) = {r \<in> set rs. tr_ToolUseID r \<in> set ids}"
proof (induction ids)
  case (Cons i ids)
  show ?case
  proof (cases "index_results rs i")
    case None
    then have "i \<notin> tr_ToolUseID ` set rs" using index_results_distinct [OF assms, of i] by auto
    with None Cons show ?thesis by (auto simp: Let_def split: prod.splits)
  next
    case (Some r)
    then have r: "r \<in> set rs" "tr_ToolUseID r = i" using index_results_distinct [OF assms, of i] by auto
    then have "tr_ToolUseID s = i \<longleftrightarrow> s = r" if "s \<in> set rs" for s
      using that assms inj_onD [of tr_ToolUseID "set rs" s r] unfolding distinct_map by metis
    with r have "{s \<in> set rs. tr_ToolUseID s \<in> set (i # ids)} = insert r {s \<in> set rs. tr_ToolUseID s \<in> set ids}" by auto
    moreover have "fst (order_results (index_results rs) (i # ids)) = r # fst (order_results (index_results rs) ids)"
      using Some by (simp add: Let_def split: prod.split)
    ultimately show ?thesis using Cons r by (auto simp del: order_results.simps)
  qed
qed simp

text \<open>
  Tool results are reordered, not changed: when no identifier repeats among the results nor among
  the tool uses of the preceding assistant message, the reordered results are the given ones, first
  those that answer a tool use, in the order of the tool uses, then the others in their own order.
\<close>

theorem ReorderToolResults_sorted:
  assumes "distinct (map tr_ToolUseID rs)" "distinct ids"
  shows "map tr_ToolUseID (ReorderToolResults rs ids) =
      filter (\<lambda>i. i \<in> tr_ToolUseID ` set rs) ids @ filter (\<lambda>i. i \<notin> set ids) (map tr_ToolUseID rs) \<and>
    mset (ReorderToolResults rs ids) = mset rs"
proof (cases "length rs \<le> 1 \<or> ids = []")
  case True
  then consider "rs = []" | r where "rs = [r]" | "ids = []" by (cases rs) auto
  then show ?thesis
  proof cases
    case 2
    then have "filter (\<lambda>i. i = tr_ToolUseID r) ids = (if tr_ToolUseID r \<in> set ids then [tr_ToolUseID r] else [])"
      using assms(2) by (induction ids) auto
    with 2 show ?thesis by (auto simp: ReorderToolResults_def eq_commute)
  qed (auto simp: ReorderToolResults_def)
next
  case False
  let ?o = "fst (order_results (index_results rs) ids)"
  note o = order_results_fst [OF assms(1), of ids]
  have used: "set (snd (order_results (index_results rs) ids)) = tr_ToolUseID ` set rs \<inter> set ids"
    unfolding order_results_ids using index_results_distinct [OF assms(1)] by auto
  have r: "ReorderToolResults rs ids = ?o @ filter (\<lambda>r. tr_ToolUseID r \<notin> set ids) rs"
    using False used by (auto simp: ReorderToolResults_def split: prod.splits intro!: filter_cong)
  have "distinct (map tr_ToolUseID ?o)" using o assms(2) by simp
  then have "distinct ?o" by (simp add: distinct_map)
  then have "mset ?o = mset (filter (\<lambda>r. tr_ToolUseID r \<in> set ids) rs)"
    using o assms(1) by (intro set_eq_iff_mset_eq_distinct [THEN iffD1]) (auto simp: distinct_map)
  then have "mset (ReorderToolResults rs ids) = mset rs" unfolding r by simp
  moreover have "map tr_ToolUseID (filter (\<lambda>r. tr_ToolUseID r \<notin> set ids) rs) = filter (\<lambda>i. i \<notin> set ids) (map tr_ToolUseID rs)"
    by (simp add: filter_map comp_def)
  ultimately show ?thesis using o unfolding r by simp
qed

definition result_of :: "string \<Rightarrow> ToolResult" where
  "result_of i = \<lparr>tr_ToolUseID = i, tr_Status = ToolResultStatusSuccess, tr_Content = []\<rparr>"

theorem ReorderToolResults_sorted_witness:
  "map tr_ToolUseID (ReorderToolResults [result_of ''b'', result_of ''x'', result_of ''a''] [''a'', ''b'', ''c'']) = [''a'', ''b'', ''x'']"
  using ReorderToolResults_sorted [of "[result_of ''b'', result_of ''x'', result_of ''a'']" "[''a'', ''b'', ''c'']"]
  by (simp add: result_of_def)

text \<open>When two results answer the same tool use, the first is lost.\<close>

lemma repeated_result_dropped:
  "ReorderToolResults [(result_of ''a'')\<lparr>tr_Status := ToolResultStatusError\<rparr>, result_of ''a''] [''a''] = [result_of ''a'']"
  by (simp add: ReorderToolResults_def index_results_def result_of_def)

end
