(* ===== verification/Normalizer.thy ===== *)
theory Normalizer
  imports Content_Text
begin

text \<open>
  internal/reqconv/message_normalizer.go: the pipeline that gives the messages of a request the shape
  the Kiro API accepts. \<open>marshal\<close> is \<open>json.Marshal\<close> on a tool input. The result alternates between
  user and assistant, starts with the user, and has no tool result without its tool use.
\<close>

section \<open>The pipeline\<close>

definition syntheticEmpty :: string where "syntheticEmpty = ''(empty)''"

definition tool_result_text :: "ContentBlock \<Rightarrow> ContentBlock" where
  "tool_result_text b =
     text_block (''[Tool Result ('' @ cb_ToolUseID b @ '')]'' @ newline @ extractToolResultContentText b)"

definition textualize_block :: "(jmap \<Rightarrow> string) \<Rightarrow> ContentBlock \<Rightarrow> ContentBlock" where
  "textualize_block marshal b =
     (if IsToolUse b then text_block (''[Tool: '' @ cb_Name b @ '' ('' @ cb_ID b @ '')]'' @ newline @ marshal (cb_Input b))
      else if IsToolResult b then tool_result_text b
      else b)"

definition textualizeAllToolContent :: "(jmap \<Rightarrow> string) \<Rightarrow> Message list \<Rightarrow> Message list" where
  "textualizeAllToolContent marshal msgs =
     map (\<lambda>msg. if IsString (m_Content msg) then msg
                else \<lparr>m_Role = m_Role msg, m_Content = appended_blocks (map (textualize_block marshal) (content_blocks (m_Content msg)))\<rparr>)
       msgs"

text \<open>The identifiers of the tool uses of the preceding message, if that is the assistant's.\<close>

definition assistantToolIDs :: "Message option \<Rightarrow> string list" where
  "assistantToolIDs prev =
     (case prev of
        None \<Rightarrow> []
      | Some p \<Rightarrow> if m_Role p = ''assistant'' \<and> \<not> IsString (m_Content p)
                  then map cb_ID (filter IsToolUse (content_blocks (m_Content p))) else [])"

fun orphan_loop :: "Message option \<Rightarrow> Message list \<Rightarrow> Message list" where
  "orphan_loop prev [] = []"
| "orphan_loop prev (msg # msgs) =
     (if m_Role msg \<noteq> ''user'' \<or> IsString (m_Content msg) then msg
      else \<lparr>m_Role = m_Role msg,
            m_Content = appended_blocks
              (map (\<lambda>b. if IsToolResult b \<and> cb_ToolUseID b \<notin> set (assistantToolIDs prev) then tool_result_text b else b)
                 (content_blocks (m_Content msg)))\<rparr>) # orphan_loop (Some msg) msgs"

definition textualizeOrphanToolResults :: "Message list \<Rightarrow> Message list" where
  "textualizeOrphanToolResults msgs = orphan_loop None msgs"

definition textualizeToolContent :: "(jmap \<Rightarrow> string) \<Rightarrow> bool \<Rightarrow> Message list \<Rightarrow> Message list" where
  "textualizeToolContent marshal hasTools msgs =
     (if \<not> hasTools then textualizeAllToolContent marshal msgs else textualizeOrphanToolResults msgs)"

definition normalizeRoles :: "Message list \<Rightarrow> Message list" where
  "normalizeRoles msgs =
     map (\<lambda>msg. if m_Role msg \<noteq> ''user'' \<and> m_Role msg \<noteq> ''assistant'' then msg\<lparr>m_Role := ''user''\<rparr> else msg) msgs"

definition isPlainTextContent :: "MessageContent \<Rightarrow> bool" where
  "isPlainTextContent content \<longleftrightarrow> IsString content \<or> (\<forall>b \<in> set (content_blocks content). cb_Type b = BlockTypeText)"

definition mergeable :: "Message \<Rightarrow> Message \<Rightarrow> bool" where
  "mergeable m n \<longleftrightarrow> m_Role n = m_Role m \<and> isPlainTextContent (m_Content n)"

function mergeAdjacentSameRole :: "Message list \<Rightarrow> Message list" where
  "mergeAdjacentSameRole [] = []"
| "mergeAdjacentSameRole (m # ms) =
     (let run = (if isPlainTextContent (m_Content m) then takeWhile (mergeable m) ms else []) in
      (if run = [] then m
       else \<lparr>m_Role = m_Role m,
             m_Content = text_content (str_join newline (map (\<lambda>n. ExtractTextContent (m_Content n)) (m # run)))\<rparr>)
      # mergeAdjacentSameRole (drop (length run) ms))"
  by pat_completeness auto
termination
  by (relation "measure length") auto

definition ensureStartsWithUser :: "Message list \<Rightarrow> Message list" where
  "ensureStartsWithUser msgs =
     (case msgs of
        [] \<Rightarrow> msgs
      | m # _ \<Rightarrow> if m_Role m = ''user'' then msgs
                 else \<lparr>m_Role = ''user'', m_Content = text_content syntheticEmpty\<rparr> # msgs)"

fun alternate_loop :: "string \<Rightarrow> Message list \<Rightarrow> Message list" where
  "alternate_loop prevRole [] = []"
| "alternate_loop prevRole (m # ms) =
     (if m_Role m = prevRole
      then [\<lparr>m_Role = (if m_Role m = ''assistant'' then ''user'' else ''assistant''), m_Content = text_content syntheticEmpty\<rparr>]
      else []) @ m # alternate_loop (m_Role m) ms"

definition ensureAlternatingRoles :: "Message list \<Rightarrow> Message list" where
  "ensureAlternatingRoles msgs =
     (case msgs of [] \<Rightarrow> msgs | m # ms \<Rightarrow> m # alternate_loop (m_Role m) ms)"

definition Normalize :: "(jmap \<Rightarrow> string) \<Rightarrow> bool \<Rightarrow> Message list \<Rightarrow> Message list" where
  "Normalize marshal hasTools msgs =
     ensureAlternatingRoles (ensureStartsWithUser (mergeAdjacentSameRole (normalizeRoles (textualizeToolContent marshal hasTools msgs))))"

section \<open>Roles\<close>

definition known_roles :: "Message list \<Rightarrow> bool" where
  "known_roles ms \<longleftrightarrow> (\<forall>m \<in> set ms. m_Role m = ''user'' \<or> m_Role m = ''assistant'')"

definition alternating :: "Message list \<Rightarrow> bool" where
  "alternating ms \<longleftrightarrow> successively (\<lambda>m n. m_Role m \<noteq> m_Role n) ms"

lemma known_normalizeRoles: "known_roles (normalizeRoles ms)"
  by (auto simp: known_roles_def normalizeRoles_def)

lemma normalizeRoles_known: "known_roles ms \<Longrightarrow> normalizeRoles ms = ms"
  unfolding normalizeRoles_def known_roles_def by (rule map_idI) auto

lemma merge_simps [simp]: "mergeAdjacentSameRole ms = [] \<longleftrightarrow> ms = []"
  by (cases ms) (auto simp: Let_def)

lemma known_merge: "known_roles ms \<Longrightarrow> known_roles (mergeAdjacentSameRole ms)"
proof (induction ms rule: mergeAdjacentSameRole.induct)
  case (2 m ms)
  have "known_roles (drop k ms)" for k using 2(2) by (auto simp: known_roles_def dest: in_set_dropD)
  with 2 show ?case by (auto simp: Let_def known_roles_def)
qed simp

lemma known_start: "known_roles ms \<Longrightarrow> known_roles (ensureStartsWithUser ms)"
  by (auto simp: known_roles_def ensureStartsWithUser_def split: list.split)

lemma start_user: "ms \<noteq> [] \<Longrightarrow> \<exists>m ms'. ensureStartsWithUser ms = m # ms' \<and> m_Role m = ''user''"
  by (auto simp: ensureStartsWithUser_def split: list.split)

lemma known_alternate: "known_roles ms \<Longrightarrow> known_roles (alternate_loop r ms)"
  by (induction r ms rule: alternate_loop.induct) (auto simp: known_roles_def)

lemma alternating_loop: "known_roles (m # ms) \<Longrightarrow> alternating (m # alternate_loop (m_Role m) ms)"
proof (induction ms arbitrary: m)
  case (Cons n ms)
  then have "alternating (n # alternate_loop (m_Role n) ms)" by (simp add: known_roles_def)
  with Cons.prems show ?case by (auto simp: alternating_def known_roles_def)
qed (simp add: alternating_def)
section \<open>Tool results and their tool uses\<close>

text \<open>Every tool result of a user message answers a tool use of the assistant message right before it.\<close>

fun answered :: "Message option \<Rightarrow> Message list \<Rightarrow> bool" where
  "answered prev [] = True"
| "answered prev (m # ms) =
     ((m_Role m = ''user'' \<longrightarrow>
        (\<forall>b \<in> set (content_blocks (m_Content m)). IsToolResult b \<longrightarrow> cb_ToolUseID b \<in> set (assistantToolIDs prev))) \<and>
      answered (Some m) ms)"

definition tool_uses :: "Message list \<Rightarrow> ContentBlock list" where
  "tool_uses ms = concat (map (\<lambda>m. filter IsToolUse (content_blocks (m_Content m))) ms)"

lemma answered_cong: "assistantToolIDs p = assistantToolIDs q \<Longrightarrow> answered p ms = answered q ms"
  by (cases ms) auto

lemma assistantToolIDs_simps [simp]:
  "assistantToolIDs None = []" "m_Role m = ''user'' \<Longrightarrow> assistantToolIDs (Some m) = []"
  "assistantToolIDs (Some \<lparr>m_Role = r, m_Content = text_content t\<rparr>) = []"
  by (auto simp: assistantToolIDs_def)

lemma answered_orphan_loop: "answered (Some m) (orphan_loop (Some m) ms)" "answered None (orphan_loop None ms)"
proof -
  have step: "answered p (orphan_loop q ms)" if "assistantToolIDs p = assistantToolIDs q" for p q
    using that
  proof (induction ms arbitrary: p q)
    case (Cons n ms)
    show ?case
    proof (cases "m_Role n \<noteq> ''user'' \<or> IsString (m_Content n)")
      case True
      then show ?thesis using Cons by (auto simp: IsString_def content_blocks_def tool_result_text_def)
    next
      case False
      then show ?thesis using Cons.prems by (auto simp: tool_result_text_def intro!: Cons.IH)
    qed
  qed simp
  show "answered (Some m) (orphan_loop (Some m) ms)" "answered None (orphan_loop None ms)" by (simp_all add: step)
qed

lemma plain_no_tools:
  "isPlainTextContent c \<Longrightarrow> b \<in> set (content_blocks c) \<Longrightarrow> \<not> IsToolUse b \<and> \<not> IsToolResult b"
  by (auto simp: isPlainTextContent_def IsString_def content_blocks_def IsToolUse_def IsToolResult_def block_types)

lemma plain_ids: "isPlainTextContent (m_Content m) \<Longrightarrow> assistantToolIDs (Some m) = []"
  using plain_no_tools by (auto simp: assistantToolIDs_def filter_empty_conv)

lemma answered_drop_plain:
  "(\<forall>m \<in> set (take k ms). isPlainTextContent (m_Content m)) \<Longrightarrow> assistantToolIDs p = [] \<Longrightarrow> answered p ms \<Longrightarrow>
   assistantToolIDs q = [] \<Longrightarrow> answered q (drop k ms)"
proof (induction k arbitrary: p ms)
  case 0
  then show ?case using answered_cong [of p q] by simp
next
  case (Suc k)
  show ?case
  proof (cases ms)
    case (Cons m ms')
    with Suc.prems show ?thesis by (auto intro!: Suc.IH [of ms' "Some m"] plain_ids)
  qed simp
qed

lemma run_plain:
  "isPlainTextContent (m_Content m) \<Longrightarrow> \<forall>n \<in> set (take (length (takeWhile (mergeable m) ms)) ms). isPlainTextContent (m_Content n)"
  by (auto simp: takeWhile_eq_take [symmetric] mergeable_def dest: set_takeWhileD)

lemma answered_merge: "answered p ms \<Longrightarrow> answered p (mergeAdjacentSameRole ms)"
proof (induction ms arbitrary: p rule: mergeAdjacentSameRole.induct)
  case (2 m ms)
  show ?case
  proof (cases "isPlainTextContent (m_Content m) \<and> takeWhile (mergeable m) ms \<noteq> []")
    case True
    let ?k = "length (takeWhile (mergeable m) ms)"
    have rest: "answered q (drop ?k ms)" if "assistantToolIDs q = []" for q
      using answered_drop_plain [of ?k ms "Some m" q] run_plain [of m ms] True 2(2) that plain_ids by auto
    have "answered q (mergeAdjacentSameRole (drop ?k ms))" if "assistantToolIDs q = []" for q
      using 2(1) [OF refl] rest [OF that] True by simp
    with True show ?thesis by (simp add: Let_def)
  next
    case False
    then have "(if isPlainTextContent (m_Content m) then takeWhile (mergeable m) ms else []) = []" by auto
    with 2(1) [OF refl, of "Some m"] 2(2) show ?thesis by (auto simp: Let_def)
  qed
qed simp

lemma answered_start: "answered None ms \<Longrightarrow> answered None (ensureStartsWithUser ms)"
  using answered_cong [of None "Some \<lparr>m_Role = ''user'', m_Content = text_content syntheticEmpty\<rparr>" ms]
  by (auto simp: ensureStartsWithUser_def split: list.split)

lemma answered_alternate: "m_Role l = r \<Longrightarrow> answered (Some l) ms \<Longrightarrow> answered (Some l) (alternate_loop r ms)"
proof (induction ms arbitrary: l r)
  case (Cons m ms)
  then have "answered (Some m) (alternate_loop (m_Role m) ms)" by simp
  with Cons.prems show ?case by auto
qed simp
lemma tool_uses_append: "tool_uses (xs @ ys) = tool_uses xs @ tool_uses ys"
  by (simp add: tool_uses_def)

lemma tool_uses_merge: "tool_uses (mergeAdjacentSameRole ms) = tool_uses ms"
proof (induction ms rule: mergeAdjacentSameRole.induct)
  case (2 m ms)
  have plain: "isPlainTextContent (m_Content n) \<Longrightarrow> filter IsToolUse (content_blocks (m_Content n)) = []" for n
    using plain_no_tools by (auto simp: filter_empty_conv)
  have run: "tool_uses ms = tool_uses (drop (length (takeWhile (mergeable m) ms)) ms)"
  proof -
    have "isPlainTextContent (m_Content n)" if "n \<in> set (takeWhile (mergeable m) ms)" for n
      using set_takeWhileD [OF that] by (simp add: mergeable_def)
    then have "tool_uses (takeWhile (mergeable m) ms) = []" using plain by (auto simp: tool_uses_def)
    then show ?thesis
      by (metis append_Nil dropWhile_eq_drop takeWhile_dropWhile_id tool_uses_append)
  qed
  show ?case
  proof (cases "isPlainTextContent (m_Content m)")
    case True
    with 2 [OF refl] run plain [OF True] show ?thesis by (simp add: Let_def tool_uses_def)
  qed (use 2 [OF refl] in \<open>simp add: Let_def tool_uses_def\<close>)
qed simp

lemma tool_uses_alternate: "tool_uses (alternate_loop r ms) = tool_uses ms"
  by (induction r ms rule: alternate_loop.induct) (auto simp: tool_uses_def)

lemma tool_uses_start: "tool_uses (ensureStartsWithUser ms) = tool_uses ms"
  by (auto simp: tool_uses_def ensureStartsWithUser_def split: list.split)

lemma tool_uses_orphan: "tool_uses (orphan_loop p ms) = tool_uses ms"
proof -
  have "filter IsToolUse (map (\<lambda>b. if IsToolResult b \<and> P b then tool_result_text b else b) bs) = filter IsToolUse bs" for P bs
    by (induction bs) (auto simp: tool_result_text_def IsToolResult_def IsToolUse_def block_types)
  then show ?thesis by (induction p ms rule: orphan_loop.induct) (auto simp: tool_uses_def)
qed

lemma known_orphan: "known_roles ms \<Longrightarrow> known_roles (orphan_loop p ms)"
  by (induction p ms rule: orphan_loop.induct) (auto simp: known_roles_def)

lemma Normalize_shape:
  assumes "msgs \<noteq> []"
  shows "\<exists>m ms. Normalize marshal hasTools msgs = m # ms \<and> m_Role m = ''user'' \<and> alternating (m # ms) \<and> known_roles (m # ms)"
proof -
  let ?t = "normalizeRoles (textualizeToolContent marshal hasTools msgs)"
  have ne: "?t \<noteq> []" using assms
    by (cases msgs) (auto simp: normalizeRoles_def textualizeToolContent_def textualizeAllToolContent_def textualizeOrphanToolResults_def)
  then obtain m ms where s: "ensureStartsWithUser (mergeAdjacentSameRole ?t) = m # ms" "m_Role m = ''user''"
    using start_user [of "mergeAdjacentSameRole ?t"] by auto
  have k: "known_roles (m # ms)"
    using known_start [OF known_merge [OF known_normalizeRoles]] s(1) by metis
  moreover have "known_roles (alternate_loop (m_Role m) ms)"
    by (rule known_alternate) (use k in \<open>simp add: known_roles_def\<close>)
  ultimately show ?thesis
    using s alternating_loop [OF k] by (simp add: Normalize_def ensureAlternatingRoles_def known_roles_def)
qed

lemma tool_uses_Normalize:
  assumes "known_roles msgs"
  shows "tool_uses (Normalize marshal True msgs) = tool_uses msgs"
proof -
  let ?s = "ensureStartsWithUser (mergeAdjacentSameRole (orphan_loop None msgs))"
  have "Normalize marshal True msgs = ensureAlternatingRoles ?s"
    using known_orphan [OF assms]
    by (simp add: Normalize_def textualizeToolContent_def textualizeOrphanToolResults_def normalizeRoles_known)
  moreover have "tool_uses (m # alternate_loop r ms) = tool_uses (m # ms)" for m r ms
    using tool_uses_alternate [of r ms] by (simp add: tool_uses_def)
  then have "tool_uses (ensureAlternatingRoles ms) = tool_uses ms" for ms
    by (simp add: ensureAlternatingRoles_def split: list.split)
  ultimately show ?thesis by (simp add: tool_uses_start tool_uses_merge tool_uses_orphan)
qed

text \<open>
  The normalised conversation has the shape the Kiro API accepts. Whatever the roles and however
  the messages follow each other, the result alternates between user and assistant and starts with
  the user. When the request has tools and only these two roles, every tool result left in it answers
  a tool use of the assistant message right before it, and no tool use is lost or moved.
\<close>

theorem Normalize_wellformed:
  assumes "msgs \<noteq> []" "known_roles msgs"
  shows "alternating (Normalize marshal True msgs) \<and> m_Role (hd (Normalize marshal True msgs)) = ''user'' \<and>
    answered None (Normalize marshal True msgs) \<and> tool_uses (Normalize marshal True msgs) = tool_uses msgs"
proof -
  let ?o = "orphan_loop None msgs"
  have n: "Normalize marshal True msgs = ensureAlternatingRoles (ensureStartsWithUser (mergeAdjacentSameRole ?o))"
    using known_orphan [OF assms(2)]
    by (simp add: Normalize_def textualizeToolContent_def textualizeOrphanToolResults_def normalizeRoles_known)
  have o: "?o \<noteq> []" using assms(1) by (cases msgs) auto
  then obtain m ms where s: "ensureStartsWithUser (mergeAdjacentSameRole ?o) = m # ms" using start_user [of "mergeAdjacentSameRole ?o"] by auto
  have "answered None (m # ms)"
    using answered_start [OF answered_merge [OF answered_orphan_loop(2)]] s by metis
  then have "answered None (m # alternate_loop (m_Role m) ms)" using answered_alternate by simp
  then show ?thesis
    using Normalize_shape [OF assms(1), of marshal True] tool_uses_Normalize [OF assms(2), of marshal]
    unfolding n s ensureAlternatingRoles_def list.case by (metis list.sel(1))
qed

definition use_block :: "string \<Rightarrow> ContentBlock" where
  "use_block i = ContentBlock BlockTypeToolUse '''' '''' '''' i ''Read'' [] '''' (text_content '''') False None '''' [] None"

definition result_block :: "string \<Rightarrow> ContentBlock" where
  "result_block i = ContentBlock BlockTypeToolResult '''' '''' '''' '''' '''' [] i (text_content ''ok'') False None '''' [] None"

definition blocks_message :: "string \<Rightarrow> ContentBlock list \<Rightarrow> Message" where
  "blocks_message r bs = \<lparr>m_Role = r, m_Content = MessageContent '''' (Some bs)\<rparr>"

theorem Normalize_wellformed_witness:
  "answered None (Normalize marshal True
     [blocks_message ''assistant'' [use_block ''a''], blocks_message ''user'' [result_block ''a'', result_block ''b''],
      blocks_message ''user'' [result_block ''a'']])"
  using Normalize_wellformed [of "[blocks_message ''assistant'' [use_block ''a''],
     blocks_message ''user'' [result_block ''a'', result_block ''b''], blocks_message ''user'' [result_block ''a'']]" marshal]
  by (simp add: known_roles_def blocks_message_def)

text \<open>
  The tool results of a message with another role are not looked at, and the role then becomes
  \<open>user\<close>: the result has no tool use before it.
\<close>

lemma developer_orphan_kept:
  "\<not> answered None (Normalize marshal True [blocks_message ''developer'' [result_block ''a'']])"
  by (simp add: Normalize_def textualizeToolContent_def textualizeOrphanToolResults_def normalizeRoles_def
      blocks_message_def isPlainTextContent_def ensureStartsWithUser_def ensureAlternatingRoles_def
      result_block_def content_blocks_def IsString_def IsToolResult_def block_types)

end
