(* ===== verification/Tool_Names.thy ===== *)
theory Tool_Names
  imports Content_Text
begin

text \<open>
  internal/reqconv/tool_name_map.go and tool_convert.go: tool names longer than 64 bytes are shortened
  on the way to the Kiro API and restored in the response. \<open>sha\<close> is the hexadecimal form of SHA-256.
\<close>

definition maxToolNameLen :: nat where "maxToolNameLen = 64"

record ToolNameMap =
  toShort :: "string \<rightharpoonup> string"
  toOriginal :: "string \<rightharpoonup> string"

definition NewToolNameMap :: ToolNameMap where
  "NewToolNameMap = \<lparr>toShort = Map.empty, toOriginal = Map.empty\<rparr>"

definition short_name :: "(string \<Rightarrow> string) \<Rightarrow> string \<Rightarrow> string" where
  "short_name sha name = take 50 name @ ''_'' @ take 13 (sha name)"

definition Shorten :: "(string \<Rightarrow> string) \<Rightarrow> string \<Rightarrow> ToolNameMap \<Rightarrow> ToolNameMap \<times> string" where
  "Shorten sha name m =
     (if length name \<le> maxToolNameLen then (m, name)
      else case toShort m name of
        Some short \<Rightarrow> (m, short)
      | None \<Rightarrow>
          (let short = short_name sha name in
           (m\<lparr>toShort := (toShort m)(name \<mapsto> short), toOriginal := (toOriginal m)(short \<mapsto> name)\<rparr>, short)))"

definition Restore :: "string \<Rightarrow> ToolNameMap \<Rightarrow> string" where
  "Restore name m = (case toOriginal m name of Some orig \<Rightarrow> orig | None \<Rightarrow> name)"

definition ReverseMap :: "ToolNameMap \<Rightarrow> string \<rightharpoonup> string" where
  "ReverseMap m = toOriginal m"

fun shorten_all :: "(string \<Rightarrow> string) \<Rightarrow> string list \<Rightarrow> ToolNameMap \<Rightarrow> ToolNameMap \<times> string list" where
  "shorten_all sha [] m = (m, [])"
| "shorten_all sha (n # ns) m =
     (let (m, s) = Shorten sha n m; (m, ss) = shorten_all sha ns m in (m, s # ss))"

section \<open>Tool definitions\<close>

definition webSearchInputSchema :: jmap where
  "webSearchInputSchema =
     [(''type'', JStr ''object''),
      (''properties'', JObj [(''query'', JObj [(''type'', JStr ''string''), (''description'', JStr ''Search query.'')])]),
      (''required'', JArr [JStr ''query''])]"

definition tool_name :: "Tool \<Rightarrow> string" where
  "tool_name t = (if t_Name t = '''' \<and> IsWebSearchTool t then ''web_search'' else t_Name t)"

definition convert_tool :: "Tool \<Rightarrow> string \<Rightarrow> ToolSpecification" where
  "convert_tool t name =
     (let desc = (if t_Description t = ''''
                  then (if IsWebSearchTool t then ''Search the public web for current information.'' else ''Tool: '' @ t_Name t)
                  else t_Description t);
          inputSchema = (if IsWebSearchTool t then webSearchInputSchema else t_InputSchema t)
      in \<lparr>ts_Name = name, ts_Description = desc, ts_InputSchema = SanitizeJSONSchema inputSchema\<rparr>)"

fun ConvertTools :: "(string \<Rightarrow> string) \<Rightarrow> Tool list \<Rightarrow> ToolNameMap \<Rightarrow> ToolNameMap \<times> ToolSpecification list" where
  "ConvertTools sha [] nameMap = (nameMap, [])"
| "ConvertTools sha (t # ts) nameMap =
     (let (nameMap, name) = Shorten sha (tool_name t) nameMap;
          (nameMap, entries) = ConvertTools sha ts nameMap
      in (nameMap, convert_tool t name # entries))"

section \<open>Shortening and restoring\<close>

text \<open>What a map contains that was filled by \<open>Shorten\<close> alone.\<close>

definition names_ok :: "(string \<Rightarrow> string) \<Rightarrow> ToolNameMap \<Rightarrow> bool" where
  "names_ok sha m \<longleftrightarrow>
     (\<forall>n s. toShort m n = Some s \<longrightarrow> maxToolNameLen < length n \<and> s = short_name sha n) \<and>
     (\<forall>s n. toOriginal m s = Some n \<longrightarrow> toShort m n = Some s) \<and>
     (\<forall>n s. toShort m n = Some s \<longrightarrow> toOriginal m s \<noteq> None)"

definition sent_name :: "(string \<Rightarrow> string) \<Rightarrow> string \<Rightarrow> string" where
  "sent_name sha n = (if length n \<le> maxToolNameLen then n else short_name sha n)"

lemma names_ok_new [simp]: "names_ok sha NewToolNameMap"
  by (simp add: names_ok_def NewToolNameMap_def)

lemma Shorten_name: "names_ok sha m \<Longrightarrow> snd (Shorten sha n m) = sent_name sha n"
  by (auto simp: Shorten_def sent_name_def names_ok_def Let_def split: option.split)
text \<open>The keys a sequence of \<open>Shorten\<close> calls leaves in the map.\<close>

lemma Shorten_toShort:
  "names_ok sha m \<Longrightarrow> toShort (fst (Shorten sha n m)) =
     (if length n \<le> maxToolNameLen then toShort m else (toShort m)(n \<mapsto> short_name sha n))"
  by (auto simp: Shorten_def names_ok_def Let_def split: option.split)

text \<open>
  No two long names of the request may have the same shortened form; SHA-256 makes that so in
  practice.
\<close>

definition no_collision :: "(string \<Rightarrow> string) \<Rightarrow> string set \<Rightarrow> bool" where
  "no_collision sha ns \<longleftrightarrow> inj_on (short_name sha) {n \<in> ns. maxToolNameLen < length n}"

lemma Shorten_ok:
  assumes "names_ok sha m" "no_collision sha (insert n (dom (toShort m)))"
  shows "names_ok sha (fst (Shorten sha n m))"
proof (cases "length n \<le> maxToolNameLen \<or> toShort m n \<noteq> None")
  case True
  with assms(1) show ?thesis by (auto simp: Shorten_def split: option.split)
next
  case False
  let ?s = "short_name sha n"
  have long: "maxToolNameLen < length k \<and> s = short_name sha k" if "toShort m k = Some s" for k s
    using assms(1) that by (auto simp: names_ok_def)
  have fresh: "toShort m k \<noteq> Some ?s" for k
  proof
    assume k: "toShort m k = Some ?s"
    then have "short_name sha n = short_name sha k" "maxToolNameLen < length k" using long by auto
    moreover have "k \<in> dom (toShort m)" using k by auto
    ultimately have "n = k" using assms(2) False unfolding no_collision_def by (auto dest!: inj_onD)
    with k False show False by simp
  qed
  then have "toOriginal m ?s = None" using assms(1) unfolding names_ok_def by (metis option.exhaust)
  with assms(1) False fresh show ?thesis
    by (auto simp: Shorten_def names_ok_def Let_def)
qed

lemma shorten_all_ok:
  assumes "names_ok sha m" "no_collision sha (set ns \<union> dom (toShort m))" "shorten_all sha ns m = (m', ss)"
  shows "names_ok sha m' \<and> ss = map (sent_name sha) ns \<and>
    dom (toShort m') = dom (toShort m) \<union> {n \<in> set ns. maxToolNameLen < length n}"
  using assms
proof (induction ns arbitrary: m ss)
  case (Cons n ns)
  obtain m1 s1 where s: "Shorten sha n m = (m1, s1)" by fastforce
  obtain ss1 where ss: "shorten_all sha ns m1 = (m', ss1)" "ss = s1 # ss1"
    using Cons.prems(3) s by (auto simp: Let_def split: prod.splits)
  have d: "dom (toShort m1) = dom (toShort m) \<union> (if length n \<le> maxToolNameLen then {} else {n})"
    using Shorten_toShort [OF Cons.prems(1), of n] s by auto
  have "no_collision sha (insert n (dom (toShort m)))" "no_collision sha (set ns \<union> dom (toShort m1))"
    using Cons.prems(2) d unfolding no_collision_def by (auto elim!: inj_on_subset split: if_splits)
  from Shorten_ok [OF Cons.prems(1) this(1)] Cons.IH [OF _ this(2) ss(1)] s
  have "names_ok sha m' \<and> ss1 = map (sent_name sha) ns \<and>
      dom (toShort m') = dom (toShort m1) \<union> {k \<in> set ns. maxToolNameLen < length k}" by simp
  then show ?case using d ss(2) Shorten_name [OF Cons.prems(1), of n] s by auto
qed simp

lemma names_ok_original:
  assumes "names_ok sha m"
  shows "toOriginal m s = Some n \<Longrightarrow> n \<in> dom (toShort m) \<and> s = short_name sha n"
    "n \<in> dom (toShort m) \<Longrightarrow> toOriginal m (short_name sha n) \<noteq> None"
  using assms by (auto simp: names_ok_def)

lemma Restore_sent:
  assumes "names_ok sha m" "no_collision sha (insert n (dom (toShort m)))"
    and "length n \<le> maxToolNameLen \<Longrightarrow> n \<notin> short_name sha ` dom (toShort m)"
    and "maxToolNameLen < length n \<Longrightarrow> n \<in> dom (toShort m)"
  shows "Restore (sent_name sha n) m = n"
proof (cases "length n \<le> maxToolNameLen")
  case True
  then have "toOriginal m n = None"
    using names_ok_original(1) [OF assms(1), of n] assms(3) by (cases "toOriginal m n") auto
  with True show ?thesis by (simp add: Restore_def sent_name_def)
next
  case False
  then obtain k where k: "toOriginal m (short_name sha n) = Some k"
    using names_ok_original(2) [OF assms(1), of n] assms(4) by auto
  then have kd: "k \<in> dom (toShort m)" "short_name sha k = short_name sha n"
    using names_ok_original(1) [OF assms(1) k] by auto
  then have "maxToolNameLen < length k" using assms(1) by (auto simp: names_ok_def)
  with kd False have "k = n"
    using assms(2) unfolding no_collision_def by (auto dest!: inj_onD)
  with k False show ?thesis by (simp add: Restore_def sent_name_def)
qed

lemma short_name_length: "maxToolNameLen < length n \<Longrightarrow> 13 \<le> length (sha n) \<Longrightarrow> length (short_name sha n) = maxToolNameLen"
  by (simp add: short_name_def maxToolNameLen_def)

lemma ConvertTools_shorten:
  "ConvertTools sha ts m = (m', es) \<Longrightarrow>
   \<exists>ss. shorten_all sha (map tool_name ts) m = (m', ss) \<and> es = map2 convert_tool ts ss \<and> length ss = length ts"
proof (induction ts arbitrary: m es)
  case (Cons t ts)
  obtain m1 s1 where s: "Shorten sha (tool_name t) m = (m1, s1)" by fastforce
  obtain es1 where e: "ConvertTools sha ts m1 = (m', es1)" "es = convert_tool t s1 # es1"
    using Cons.prems s by (auto simp: Let_def split: prod.splits)
  from Cons.IH [OF e(1)] e(2) s show ?case by auto
qed simp

end
