(* ===== verification/Go_Maps.thy ===== *)
theory Go_Maps
  imports Prelude "HOL-Library.Multiset"
begin

text \<open>
  Go maps whose iteration order matters: the list of the entries in the order an iteration visits
  them, with distinct keys. Assignment keeps the place of an existing key.
\<close>

fun put_entry :: "'k \<Rightarrow> 'v \<Rightarrow> ('k \<times> 'v) list \<Rightarrow> ('k \<times> 'v) list" where
  "put_entry k v [] = [(k, v)]"
| "put_entry k v ((k', v') # m) = (if k = k' then (k, v) # m else (k', v') # put_entry k v m)"

definition del_entry :: "'k \<Rightarrow> ('k \<times> 'v) list \<Rightarrow> ('k \<times> 'v) list" where
  "del_entry k m = filter (\<lambda>(k', v). k' \<noteq> k) m"

lemma map_of_put_entry [simp]: "map_of (put_entry k v m) = (map_of m)(k \<mapsto> v)"
  by (induction k v m rule: put_entry.induct) (auto simp: fun_eq_iff)

lemma fst_put_entry: "fst ` set (put_entry k v m) = insert k (fst ` set m)"
  by (induction k v m rule: put_entry.induct) auto

lemma distinct_put_entry: "distinct (map fst m) \<Longrightarrow> distinct (map fst (put_entry k v m))"
  by (induction k v m rule: put_entry.induct) (simp_all add: fst_put_entry)

lemma set_put_entry: "set (put_entry k v m) \<subseteq> insert (k, v) (set m)"
  by (induction k v m rule: put_entry.induct) auto

lemma distinct_del_entry: "distinct (map fst m) \<Longrightarrow> distinct (map fst (del_entry k m))"
  unfolding del_entry_def by (rule distinct_map_filter)

lemma map_of_del_entry [simp]: "map_of (del_entry k m) = (map_of m)(k := None)"
  by (induction m) (auto simp: del_entry_def fun_eq_iff)

lemma del_entry_Cons: "del_entry k (e # m) = (if fst e = k then del_entry k m else e # del_entry k m)"
  by (cases e) (simp add: del_entry_def)

lemma del_entry_absent: "k \<notin> fst ` set m \<Longrightarrow> del_entry k m = m"
  by (force simp: del_entry_def filter_id_conv)

lemma set_del_entry: "set (del_entry k m) \<subseteq> set m"
  by (auto simp: del_entry_def)

lemma del_entry_mset:
  "distinct (map fst m) \<Longrightarrow> map_of m k = Some v \<Longrightarrow> mset (map snd m) = add_mset v (mset (map snd (del_entry k m)))"
proof (induction m)
  case (Cons e m)
  then show ?case using del_entry_absent [of k m] by (cases e) (auto simp: del_entry_Cons split: if_splits)
qed simp

end
