(* ===== verification/Tool_Search.thy ===== *)
theory Tool_Search
  imports Content_Text Go_Maps
begin

text \<open>
  internal/toolsearch: the tools a request defers, the search over them and their promotion. Regular
  expressions, the Unicode lower-case mapping and the logarithm are parameters. A Go map of tools is
  the list of its entries in iteration order, so equal scores keep an arbitrary order, as they do in
  the code, which sorts the entries of a map with an unstable sort.
\<close>

section \<open>Context\<close>

record Context =
  ctx_SearchType :: string
  ctx_SearchToolName :: string
  ctx_DeferredTools :: "(string \<times> Tool) list"
  ctx_ActiveTools :: "Tool list"

definition SearchTypeRegex :: string where "SearchTypeRegex = ''regex''"
definition SearchTypeBM25 :: string where "SearchTypeBM25 = ''bm25''"

fun partition_tools :: "Tool list \<Rightarrow> Context \<Rightarrow> Context" where
  "partition_tools [] c = c"
| "partition_tools (t # ts) c =
     (if IsToolSearchTool t then partition_tools ts c
      else if t_DeferLoading t
      then partition_tools ts (c\<lparr>ctx_DeferredTools := put_entry (t_Name t) t (ctx_DeferredTools c)\<rparr>)
      else partition_tools ts (c\<lparr>ctx_ActiveTools := ctx_ActiveTools c @ [t]\<rparr>))"

definition NewContext :: "Tool list \<Rightarrow> Context option" where
  "NewContext tools =
     (case find IsToolSearchTool tools of
        None \<Rightarrow> None
      | Some t \<Rightarrow>
          Some (partition_tools tools
            \<lparr>ctx_SearchType = (if t_Type t = ToolTypeSearchBM25 then SearchTypeBM25 else SearchTypeRegex),
             ctx_SearchToolName = t_Name t, ctx_DeferredTools = [], ctx_ActiveTools = []\<rparr>))"

fun PromoteTools :: "string list \<Rightarrow> Context \<Rightarrow> Context" where
  "PromoteTools [] c = c"
| "PromoteTools (name # names) c =
     (case map_of (ctx_DeferredTools c) name of
        Some t \<Rightarrow>
          PromoteTools names (c\<lparr>ctx_ActiveTools := ctx_ActiveTools c @ [t],
            ctx_DeferredTools := del_entry name (ctx_DeferredTools c)\<rparr>)
      | None \<Rightarrow> PromoteTools names c)"

definition ToolRefMaps :: "string list \<Rightarrow> jmap list" where
  "ToolRefMaps names = map (\<lambda>name. [(''type'', JStr BlockTypeToolReference), (''tool_name'', JStr name)]) names"

definition KiroToolSearchName :: string where "KiroToolSearchName = ''ToolSearch''"

definition toolSearchDescription :: string where
  \<open>toolSearchDescription =
     ''Fetches full schema definitions for deferred tools so they can be called.'' @
     newline @
     newline @
     ''Deferred tools appear by name in <available-deferred-tools> messages. Until fetched, only the name is '' @
     ''known '' @
     map char_of [0xE2 :: nat, 0x80, 0x94] @
     '' there is no parameter schema, so the tool cannot be invoked. This tool takes a query, matches it '' @
     ''against the deferred tool list, and returns the matched tools' complete JSONSchema definitions inside a '' @
     ''<functions> block. Once a tool's schema appears in that result, it is callable exactly like any tool '' @
     ''defined at the top of the prompt.'' @
     newline @
     newline @
     ''Result format: each matched tool appears as one <function>{"description": "...", "name": "...", '' @
     ''"parameters": {...}}</function> line inside the <functions> block '' @
     map char_of [0xE2 :: nat, 0x80, 0x94] @
     '' the same encoding as the tool list at the top of this prompt.'' @
     newline @
     newline @
     ''Query forms:'' @
     newline @
     ''- "select:Read,Edit,Grep" '' @
     map char_of [0xE2 :: nat, 0x80, 0x94] @
     '' fetch these exact tools by name'' @
     newline @
     ''- "notebook jupyter" '' @
     map char_of [0xE2 :: nat, 0x80, 0x94] @
     '' keyword search, up to max_results best matches''\<close>

definition KiroToolSearchEntry :: ToolSpecification where
  \<open>KiroToolSearchEntry =
     \<lparr>ts_Name = KiroToolSearchName, ts_Description = toolSearchDescription,
      ts_InputSchema =
        [(''type'', JStr ''object''), (''required'', JArr [JStr ''query'']),
         (''properties'', JObj
            [(''query'', JObj
                [(''type'', JStr ''string''),
                 (''description'', JStr (''Query to find deferred tools. Use "select:<tool_name>" for direct selection, '' @
                                         ''or keywords to search.''))]),
             (''max_results'', JObj
                [(''type'', JStr ''integer''),
                 (''description'', JStr ''Maximum number of results to return (default: 5)'')])])]\<rparr>\<close>

section \<open>Search\<close>

datatype search_error = ErrInvalidPattern | ErrPatternTooLong | ErrInvalidInput

definition ErrorCode :: "search_error option \<Rightarrow> string" where
  "ErrorCode err =
     (case err of
        Some ErrInvalidPattern \<Rightarrow> ''invalid_pattern''
      | Some ErrPatternTooLong \<Rightarrow> ''pattern_too_long''
      | Some ErrInvalidInput \<Rightarrow> ''invalid_input''
      | None \<Rightarrow> ''unavailable'')"

record search_lib =
  sl_compile :: "string \<Rightarrow> (string \<Rightarrow> bool) option"
  sl_quote :: "string \<Rightarrow> string"
  sl_lower :: "string \<Rightarrow> string"
  sl_log :: "float64 \<Rightarrow> float64"

definition defaultMaxResults :: int where "defaultMaxResults = 5"
definition MaxResults :: int where "MaxResults = 20"

definition clampMaxResults :: "int \<Rightarrow> int" where
  "clampMaxResults n = (if n \<le> 0 then defaultMaxResults else min n MaxResults)"

definition topNames :: "(string \<times> float64) list \<Rightarrow> int \<Rightarrow> string list" where
  "topNames results maxResults =
     map fst (take (nat (min maxResults (int (length results)))) (sort_key (\<lambda>s. - snd s) results))"

text \<open>\<open>strings.Fields\<close>: the maximal runs without space.\<close>

function word_len :: "bytes \<Rightarrow> nat" where
  "word_len s = (if s = [] \<or> is_space_rune (fst (decode_rune s)) then 0 else rune_size s + word_len (drop (rune_size s) s))"
  by pat_completeness auto
termination
  by (relation "measure length") (auto simp: rune_size_pos)

lemma trim_left_le: "length (trim_left s) \<le> length s"
proof (induction s rule: trim_left.induct)
  case (1 s)
  then show ?case by (subst trim_left.simps) auto
qed

lemma trim_left_stops: "trim_left s \<noteq> [] \<Longrightarrow> \<not> is_space_rune (fst (decode_rune (trim_left s)))"
proof (induction s rule: trim_left.induct)
  case (1 s)
  then show ?case using trim_left.simps [of s] by (auto split: if_splits)
qed

declare word_len.simps [simp del]

function Fields :: "bytes \<Rightarrow> string list" where
  "Fields s =
     (let t = trim_left s in if t = [] then [] else take (word_len t) t # Fields (drop (word_len t) t))"
  by pat_completeness auto
termination
proof (relation "measure length", simp)
  fix s t assume t: "t = trim_left s" "t \<noteq> []"
  have "0 < word_len t"
    using trim_left_stops [of s] t rune_size_pos [of t] by (subst word_len.simps) auto
  then have "length (drop (word_len t) t) < length t" using t(2) by simp
  with t(1) trim_left_le [of s] show "(drop (word_len t) t, s) \<in> measure length" by simp
qed

declare Fields.simps [simp del]

definition tokenize :: "search_lib \<Rightarrow> string \<Rightarrow> string list" where
  "tokenize L s = Fields (map (\<lambda>c. if c = CHR ''_'' then CHR '' '' else c) (sl_lower L s))"

definition regex_score :: "string \<Rightarrow> (string \<Rightarrow> bool) \<Rightarrow> (string \<Rightarrow> bool) option \<Rightarrow> string \<times> Tool \<Rightarrow> (string \<times> float64) list" where
  "regex_score pattern re wordRe entry =
     (let (name, t) = entry in
      if name = pattern then [(name, 3)]
      else if re name then [(name, 2)]
      else if re (t_Description t) then [(name, 1)]
      else case wordRe of
        Some w \<Rightarrow> if w name \<or> w (t_Description t) then [(name, 1)] else []
      | None \<Rightarrow> [])"

definition searchRegex :: "search_lib \<Rightarrow> string \<Rightarrow> (string \<times> Tool) list \<Rightarrow> int \<Rightarrow> search_error + string list" where
  "searchRegex L pattern tools maxResults =
     (if length pattern > 200 then Inl ErrPatternTooLong
      else case sl_compile L (''(?i)'' @ pattern) of
        None \<Rightarrow> Inl ErrInvalidPattern
      | Some re \<Rightarrow>
          (let ws = Fields (sl_lower L pattern);
               wordRe = (if length ws > 1
                         then sl_compile L (''(?i)('' @ str_join ''|'' (map (sl_quote L) ws) @ '')'') else None)
           in Inr (topNames (concat (map (regex_score pattern re wordRe) tools)) maxResults)))"

definition bm25_score :: "search_lib \<Rightarrow> string list \<Rightarrow> (string \<Rightarrow> nat) \<Rightarrow> nat \<Rightarrow> float64 \<Rightarrow> string list \<Rightarrow> float64" where
  "bm25_score L queryTokens df n avgDL tokens =
     (let k1 = 12 / 10; b = 75 / 100; dl = of_nat (length tokens) in
      fold (\<lambda>qt score.
          let f = of_nat (count_list tokens qt) in
          if f = 0 then score
          else (let idf = sl_log L ((of_nat n - of_nat (df qt) + 5 / 10) / (of_nat (df qt) + 5 / 10) + 1)
                in score + idf * (f * (k1 + 1)) / (f + k1 * (1 - b + b * dl / avgDL))))
        queryTokens 0)"

definition searchBM25 :: "search_lib \<Rightarrow> string \<Rightarrow> (string \<times> Tool) list \<Rightarrow> int \<Rightarrow> string list" where
  "searchBM25 L query tools maxResults =
     (let queryTokens = tokenize L query;
          docs = map (\<lambda>(name, t). (name, tokenize L (name @ '' '' @ t_Description t))) tools;
          totalLen = sum_list (map (\<lambda>(name, toks). of_nat (length toks)) docs);
          df = (\<lambda>qt. length (filter (\<lambda>(name, toks). qt \<in> set toks) docs));
          avgDL = totalLen / of_nat (length docs)
      in if queryTokens = [] \<or> docs = [] then []
         else topNames
           (filter (\<lambda>s. snd s > 0) (map (\<lambda>(name, toks). (name, bm25_score L queryTokens df (length docs) avgDL toks)) docs))
           maxResults)"

fun split_comma :: "string \<Rightarrow> string list" where
  "split_comma [] = [[]]"
| "split_comma (c # s) =
     (if c = CHR '','' then [] # split_comma s
      else case split_comma s of p # ps \<Rightarrow> (c # p) # ps | [] \<Rightarrow> [[c]])"

definition Search :: "search_lib \<Rightarrow> string \<Rightarrow> (string \<times> Tool) list \<Rightarrow> string \<Rightarrow> int \<Rightarrow> search_error + string list" where
  "Search L query tools searchType maxResults =
     (let query = TrimSpace query; maxResults = clampMaxResults maxResults in
      if query = '''' then Inl ErrInvalidInput
      else if has_prefix query ''select:''
      then Inr (filter (\<lambda>name. map_of tools name \<noteq> None \<and> name \<noteq> '''') (map TrimSpace (split_comma (drop 7 query))))
      else if searchType = SearchTypeBM25 then Inr (searchBM25 L query tools maxResults)
      else searchRegex L query tools maxResults)"

section \<open>Lemmas\<close>

lemma set_topNames: "set (topNames rs k) \<subseteq> fst ` set rs"
  unfolding topNames_def using set_take_subset [of _ "sort_key (\<lambda>s. - snd s) rs"] by fastforce

lemma distinct_topNames: "distinct (map fst rs) \<Longrightarrow> distinct (topNames rs k)"
proof -
  assume "distinct (map fst rs)"
  then have "distinct (map fst (sort_key (\<lambda>s. - snd s) rs))" by (simp add: distinct_map)
  then show ?thesis unfolding topNames_def by (metis distinct_take take_map)
qed

lemma length_topNames: "0 \<le> k \<Longrightarrow> int (length (topNames rs k)) \<le> k"
  by (simp add: topNames_def)

lemma topNames_best:
  assumes "(n, s) \<in> set rs" "\<forall>(n', s') \<in> set rs. n' \<noteq> n \<longrightarrow> s' < s" "distinct (map fst rs)" "0 < k"
  shows "hd (topNames rs k) = n \<and> topNames rs k \<noteq> []"
proof -
  let ?s = "sort_key (\<lambda>s. - snd s) rs"
  obtain x xs where x: "?s = x # xs" using assms(1) by (metis list.exhaust list.set(1) empty_iff set_sort)
  have "\<forall>y \<in> set xs. - snd x \<le> - snd y" using sorted_sort_key [of "\<lambda>s. - snd s" rs] x by simp
  moreover have ns: "(n, s) \<in> set (x # xs)" using assms(1) set_sort [of "\<lambda>s. - snd s" rs] x by simp
  moreover have "x \<in> set rs" using set_sort [of "\<lambda>s. - snd s" rs] x by auto
  ultimately have "fst x = n" using assms(2) by fastforce
  moreover obtain j where "nat (min k (int (length rs))) = Suc j"
    using assms(1,4) by (cases "nat (min k (int (length rs)))") (auto simp: min_def split: if_splits)
  ultimately show ?thesis using x by (simp add: topNames_def)
qed

lemma regex_results:
  assumes "distinct (map fst tools)"
  shows "distinct (map fst (concat (map (regex_score p re w) tools)))"
    "fst ` set (concat (map (regex_score p re w) tools)) \<subseteq> fst ` set tools"
proof -
  have sub: "fst ` set (regex_score p re w e) \<subseteq> {fst e}" "distinct (map fst (regex_score p re w e))" for e
    by (auto simp: regex_score_def Let_def split: prod.splits option.splits if_splits)
  show s: "fst ` set (concat (map (regex_score p re w) tools)) \<subseteq> fst ` set tools" for tools
  proof (induction tools)
    case (Cons e tools)
    with sub(1) [of e] show ?case unfolding concat.simps list.map set_append image_Un list.set image_insert by blast
  qed simp
  show "distinct (map fst (concat (map (regex_score p re w) tools)))"
    using assms
  proof (induction tools)
    case (Cons e tools)
    have "fst ` set (regex_score p re w e) \<inter> fst ` set (concat (map (regex_score p re w) tools)) = {}"
    proof -
      have "{fst e} \<inter> fst ` set tools = {}" using Cons.prems by simp
      then show ?thesis using Int_mono [OF sub(1) [of e] s [of tools]] by (metis subset_empty)
    qed
    with Cons sub(2) [of e] show ?case by (simp only: concat.simps list.map map_append distinct_append set_map) simp
  qed simp
qed

lemma bm25_results:
  assumes "distinct (map fst tools)" "0 \<le> k"
  shows "distinct (searchBM25 L q tools k)" "set (searchBM25 L q tools k) \<subseteq> fst ` set tools"
    "int (length (searchBM25 L q tools k)) \<le> k"
proof -
  let ?r = "\<lambda>f. filter (\<lambda>s. snd s > 0) (map (\<lambda>(name, toks). (name, f toks))
    (map (\<lambda>(name, t). (name, tokenize L (name @ '' '' @ t_Description t))) tools))"
  have d: "distinct (map fst (?r f))" for f :: "string list \<Rightarrow> float64"
    using assms(1) by (intro distinct_map_filter) (simp add: comp_def case_prod_beta)
  have s: "fst ` set (?r f) \<subseteq> fst ` set tools" for f :: "string list \<Rightarrow> float64" by force
  show "distinct (searchBM25 L q tools k)" using d by (simp add: searchBM25_def Let_def distinct_topNames)
  show "set (searchBM25 L q tools k) \<subseteq> fst ` set tools"
    using subset_trans [OF set_topNames s] by (auto simp: searchBM25_def Let_def)
  show "int (length (searchBM25 L q tools k)) \<le> k"
    using length_topNames [OF assms(2)] assms(2) by (simp add: searchBM25_def Let_def)
qed

definition some_tool :: "string \<Rightarrow> Tool" where
  "some_tool n = \<lparr>t_Type = '''', t_Name = n, t_Description = '''', t_InputSchema = [], t_CacheControl = None, t_DeferLoading = True\<rparr>"

definition literal_lib :: search_lib where
  "literal_lib = \<lparr>sl_compile = (\<lambda>p. Some (\<lambda>s. str_contains s (drop 4 p))), sl_quote = id, sl_lower = id, sl_log = id\<rparr>"


section \<open>Promotion\<close>

definition named_entry :: "string \<times> Tool \<Rightarrow> bool" where
  "named_entry e \<longleftrightarrow> t_Name (snd e) = fst e"

definition ctx_ok :: "Context \<Rightarrow> bool" where
  "ctx_ok c \<longleftrightarrow> distinct (map fst (ctx_DeferredTools c)) \<and> list_all named_entry (ctx_DeferredTools c)"

definition all_tools :: "Context \<Rightarrow> Tool multiset" where
  "all_tools c = mset (ctx_ActiveTools c) + mset (map snd (ctx_DeferredTools c))"

lemma put_entry_named: "list_all named_entry m \<Longrightarrow> list_all named_entry (put_entry (t_Name t) t m)"
  using set_put_entry [of "t_Name t" t m] unfolding list_all_iff named_entry_def by (metis fst_conv insertE snd_conv subsetD)

lemma partition_ok: "ctx_ok c \<Longrightarrow> ctx_ok (partition_tools ts c)"
  by (induction ts c rule: partition_tools.induct) (simp_all add: ctx_ok_def distinct_put_entry put_entry_named)

lemma ctx_ok_new: "ctx_ok \<lparr>ctx_SearchType = st, ctx_SearchToolName = n, ctx_DeferredTools = [], ctx_ActiveTools = ts\<rparr>"
  by (simp add: ctx_ok_def)

lemma NewContext_ok: "NewContext tools = Some c \<Longrightarrow> ctx_ok c"
  by (auto simp: NewContext_def ctx_ok_new split: option.splits intro!: partition_ok)

text \<open>Promotion moves tools, it neither loses nor doubles one, and every named tool is active after it.\<close>

lemma PromoteTools_correct:
  assumes "ctx_ok c"
  shows "ctx_ok (PromoteTools names c) \<and> all_tools (PromoteTools names c) = all_tools c \<and>
    map_of (ctx_DeferredTools (PromoteTools names c)) = (map_of (ctx_DeferredTools c)) |` (- set names)"
  using assms
proof (induction names c rule: PromoteTools.induct)
  case (2 name names c)
  show ?case
  proof (cases "map_of (ctx_DeferredTools c) name")
    case None
    with 2 show ?thesis by (auto simp: restrict_map_def)
  next
    case (Some t)
    let ?c = "c\<lparr>ctx_ActiveTools := ctx_ActiveTools c @ [t], ctx_DeferredTools := del_entry name (ctx_DeferredTools c)\<rparr>"
    have ok: "ctx_ok ?c" using "2.prems" set_del_entry [of name "ctx_DeferredTools c"]
      by (auto simp: ctx_ok_def distinct_del_entry list_all_iff)
    have "all_tools ?c = all_tools c"
      using del_entry_mset [OF _ Some] "2.prems" by (simp add: all_tools_def ctx_ok_def)
    then show ?thesis using "2.IH"(2) [OF Some ok] Some by (auto simp: restrict_map_def)
  qed
qed (simp add: restrict_map_def)

end
