(* ===== verification/Request_Payload.thy ===== *)
theory Request_Payload
  imports Normalizer Tool_Names Tool_Search
begin

text \<open>
  internal/reqconv/build_payload.go and history.go: an Anthropic request becomes a Kiro payload, the
  normalised messages but the last as history, the last as the current message. The library is a
  record: the environment variables, \<open>json.Marshal\<close>, SHA-256 and the name-based UUID.
\<close>

record req_lib =
  q_getenv :: "string \<Rightarrow> string"
  q_marshal :: "jmap \<Rightarrow> string"
  q_sha :: "string \<Rightarrow> string"
  q_uuid5 :: "string \<Rightarrow> string"

definition syntheticContinue :: string where "syntheticContinue = ''Continue''"
definition EffortMax :: string where "EffortMax = ''max''"
definition EffortXHigh :: string where "EffortXHigh = ''xhigh''"
definition EffortHigh :: string where "EffortHigh = ''high''"
definition EffortMedium :: string where "EffortMedium = ''medium''"
definition EffortLow :: string where "EffortLow = ''low''"
definition ThinkingBudgetMedium :: int where "ThinkingBudgetMedium = 10000"

definition thinkingToolDescription :: string where
  \<open>thinkingToolDescription =
     ''Thinking is an internal reasoning mechanism improving the quality of complex tasks by breaking their '' @
     ''atomic actions down; use it specifically for multi-step problems requiring step-by-step dependencies, '' @
     ''reasoning through multiple constraints, synthesizing results from previous tool calls, planning '' @
     ''intricate sequences of actions, troubleshooting complex errors, or making decisions involving multiple '' @
     ''trade-offs. Avoid using it for straightforward tasks, basic information retrieval, summaries, always '' @
     ''clearly define the reasoning challenge, structure thoughts explicitly, consider multiple perspectives, '' @
     ''and summarize key insights before important decisions or complex tool interactions.''\<close>

definition thinkingToolThoughtDescription :: string where
  \<open>thinkingToolThoughtDescription =
     ''A reflective note or intermediate reasoning step such as "The user needs to prepare their application '' @
     ''for production. I need to complete three major asks including 1: building their code from source, 2: '' @
     ''bundling their release artifacts together, and 3: signing the application bundle."''\<close>

definition syntheticAck :: string where
  \<open>syntheticAck =
     ''I will fully incorporate this information when generating my responses, and explicitly acknowledge '' @
     ''relevant parts of the summary when answering questions.''\<close>

definition natural_prompt :: string where
  \<open>natural_prompt =
     ''Use maximum internal reasoning effort for this request. Carefully check constraints and edge cases '' @
     ''before answering. Do not reveal chain-of-thought; output only the final answer requested by the user.''\<close>

definition cnmax_prompt :: string where
  \<open>cnmax_prompt =
     map char_of [0xE5 :: nat, 0x90, 0xAF, 0xE5, 0x8A, 0xA8, 0xE6, 0x9C, 0x80, 0xE5, 0xA4, 0xA7, 0xE5, 0x8C, 0x96, 0xE6, 0x80, 0x9D, 0xE8, 0x80, 0x83, 0xE3, 0x80, 0x82, 0xE5, 0x85, 0x88, 0xE5, 0x9C, 0xA8, 0xE5, 0x86, 0x85, 0xE9, 0x83, 0xA8, 0xE5, 0xAE, 0x8C, 0xE6, 0x95, 0xB4, 0xE6, 0xA3, 0x80, 0xE6, 0x9F, 0xA5, 0xE6, 0x89, 0x80, 0xE6, 0x9C, 0x89, 0xE7, 0xBA, 0xA6, 0xE6, 0x9D, 0x9F, 0xE3, 0x80, 0x81, 0xE6, 0x9E, 0x9A, 0xE4, 0xB8, 0xBE, 0xE5, 0x85, 0xB3, 0xE9, 0x94, 0xAE, 0xE5, 0x8F, 0xAF, 0xE8, 0xA1, 0x8C, 0xE6, 0x96, 0xB9, 0xE6, 0xA1, 0x88, 0xE5, 0xB9, 0xB6, 0xE9, 0xAA, 0x8C, 0xE8, 0xAF, 0x81, 0xE6, 0x9C, 0x80, 0xE4, 0xBC, 0x98, 0xE6, 0x80, 0xA7, 0xEF, 0xBC, 0x9B, 0xE4, 0xB8, 0x8D, 0xE8, 0xA6, 0x81, 0xE5, 0xB1, 0x95, 0xE7, 0xA4, 0xBA, 0xE6, 0x80, 0x9D, 0xE8, 0x80, 0x83, 0xE8, 0xBF, 0x87, 0xE7, 0xA8, 0x8B, 0xE3, 0x80, 0x82, 0xE6, 0x9C, 0x80, 0xE7, 0xBB, 0x88, 0xE5, 0x8F, 0xAA, 0xE8, 0xBE, 0x93, 0xE5, 0x87, 0xBA, 0xE7, 0x94, 0xA8, 0xE6, 0x88, 0xB7, 0xE8, 0xA6, 0x81, 0xE6, 0xB1, 0x82, 0xE7, 0x9A, 0x84, 0xE6, 0x9C, 0x80, 0xE7, 0xBB, 0x88, 0xE7, 0xAD, 0x94, 0xE6, 0xA1, 0x88, 0xEF, 0xBC, 0x8C, 0xE4, 0xB8, 0x8D, 0xE8, 0xA6, 0x81, 0xE4, 0xBB, 0xA3, 0xE7, 0xA0, 0x81, 0xE5, 0x9D, 0x97, 0xEF, 0xBC, 0x8C, 0xE4, 0xB8, 0x8D, 0xE8, 0xA6, 0x81, 0xE5, 0xA4, 0x9A, 0xE4, 0xBD, 0x99, 0xE8, 0xA7, 0xA3, 0xE9, 0x87, 0x8A, 0xE3, 0x80, 0x82]\<close>

record BuildOptions =
  bo_ProfileARN :: string
  bo_ModelID :: string
  bo_ConversationID :: string
  bo_Thinking :: bool
  bo_ThinkingBudget :: int
  bo_ThinkingEffort :: string
  bo_ToolSearchCtx :: "Context option"
  bo_PreserveToolBlocks :: bool

section \<open>History\<close>

definition upstreamOrigin :: "req_lib \<Rightarrow> string" where
  "upstreamOrigin L =
     (if q_getenv L ''KIROCC_UPSTREAM_ORIGIN'' = OriginAIEditor then OriginAIEditor else OriginKiroCLI)"

definition results_context :: "ToolResult list \<Rightarrow> UserInputMessageContext option" where
  "results_context toolResults = (if toolResults \<noteq> [] then Some \<lparr>uc_Tools = [], uc_ToolResults = toolResults\<rparr> else None)"

definition history_user :: "req_lib \<Rightarrow> Message option \<Rightarrow> Message \<Rightarrow> HistoryEntry" where
  "history_user L prev msg =
     (let content = cleanCurrentText (ExtractTextContent (m_Content msg));
          toolResults = ExtractToolResults (m_Content msg);
          toolResults =
            (case prev of
               Some p \<Rightarrow> if length toolResults > 1 \<and> m_Role p = ''assistant''
                         then ReorderToolResults toolResults (extractToolUseIDs p) else toolResults
             | None \<Rightarrow> toolResults)
      in HistUser \<lparr>hu_Content = content, hu_Origin = upstreamOrigin L, hu_Context = results_context toolResults\<rparr>)"

definition shorten_uses :: "(string \<Rightarrow> string) \<Rightarrow> HistoryToolUse list \<Rightarrow> ToolNameMap \<Rightarrow> ToolNameMap \<times> HistoryToolUse list" where
  "shorten_uses sha uses nameMap =
     (let (nameMap, names) = shorten_all sha (map htu_Name uses) nameMap
      in (nameMap, map2 (\<lambda>u n. u\<lparr>htu_Name := n\<rparr>) uses names))"

definition history_assistant :: "req_lib \<Rightarrow> Message \<Rightarrow> ToolNameMap \<Rightarrow> ToolNameMap \<times> HistoryEntry" where
  "history_assistant L msg nameMap =
     (let content = ExtractTextContent (m_Content msg);
          (nameMap, allToolUses) = shorten_uses (q_sha L) (ExtractToolUses (m_Content msg)) nameMap;
          idSeed = ''assistant-msg:'' @ content @ concat (map (\<lambda>tu. '':'' @ htu_ToolUseID tu) allToolUses)
      in (nameMap, HistAssistant \<lparr>ar_MessageID = q_uuid5 L idSeed, ar_Content = content, ar_ToolUses = allToolUses,
                                  ar_Reasoning = ExtractReasoningContent (m_Content msg)\<rparr>))"

fun history_loop :: "req_lib \<Rightarrow> Message option \<Rightarrow> Message list \<Rightarrow> ToolNameMap \<Rightarrow> ToolNameMap \<times> HistoryEntry list" where
  "history_loop L prev [] nameMap = (nameMap, [])"
| "history_loop L prev (msg # msgs) nameMap =
     (if m_Role msg = ''user'' then
        (let (nameMap, history) = history_loop L (Some msg) msgs nameMap in (nameMap, history_user L prev msg # history))
      else if m_Role msg = ''assistant'' then
        (let (nameMap, e) = history_assistant L msg nameMap;
             (nameMap, history) = history_loop L (Some msg) msgs nameMap
         in (nameMap, e # history))
      else history_loop L (Some msg) msgs nameMap)"

definition buildHistory :: "req_lib \<Rightarrow> Message list \<Rightarrow> ToolNameMap \<Rightarrow> ToolNameMap \<times> HistoryEntry list" where
  "buildHistory L msgs nameMap = history_loop L None msgs nameMap"

definition splitMessages :: "Message list \<Rightarrow> Message list \<times> Message" where
  "splitMessages msgs =
     (if msgs = [] then ([], \<lparr>m_Role = '''', m_Content = text_content ''''\<rparr>)
      else if m_Role (last msgs) = ''assistant''
      then (msgs, \<lparr>m_Role = ''user'', m_Content = text_content syntheticContinue\<rparr>)
      else (butlast msgs, last msgs))"

definition system_user :: "req_lib \<Rightarrow> string \<Rightarrow> HistoryEntry" where
  "system_user L systemPrompt = HistUser \<lparr>hu_Content = systemPrompt, hu_Origin = upstreamOrigin L, hu_Context = None\<rparr>"

definition placeSystemPrompt :: "req_lib \<Rightarrow> string \<Rightarrow> HistoryEntry list \<Rightarrow> string \<Rightarrow> HistoryEntry list \<times> string" where
  "placeSystemPrompt L systemPrompt history lastContent =
     (let mode = q_getenv L ''KIROCC_EXPERIMENT_SYSTEM_MODE'' in
      if systemPrompt = '''' then (history, lastContent)
      else if mode = ''drop'' then (history, lastContent)
      else if mode = ''current'' then
        (history,
         ''<system_context>'' @ newline @ systemPrompt @ newline @ ''</system_context>'' @
         (if lastContent \<noteq> '''' then newline @ newline @ lastContent else ''''))
      else if mode = ''noack'' then (system_user L systemPrompt # history, lastContent)
      else
        (system_user L systemPrompt #
         HistAssistant \<lparr>ar_MessageID = q_uuid5 L (''synthetic-ack:'' @ syntheticAck), ar_Content = syntheticAck,
                        ar_ToolUses = [], ar_Reasoning = None\<rparr> # history, lastContent))"

section \<open>The current message\<close>

text \<open>The decimal value is accumulated in a 64-bit \<open>int\<close>.\<close>

fun parse_floor :: "string \<Rightarrow> int \<Rightarrow> int option" where
  "parse_floor [] budget = Some budget"
| "parse_floor (c # cs) budget =
     (if is_digit c then parse_floor cs (wrap64 (budget * 10 + int (digit_val c))) else None)"

definition validThinkingBudgetFloor :: "req_lib \<Rightarrow> bool" where
  "validThinkingBudgetFloor L =
     (let v = q_getenv L ''KIROCC_FORCE_THINKING_BUDGET'' in
      v \<noteq> '''' \<and> (case parse_floor v 0 of None \<Rightarrow> False | Some budget \<Rightarrow> budget > 0))"

definition shouldInjectThinkingPrefix :: "req_lib \<Rightarrow> string \<Rightarrow> bool" where
  "shouldInjectThinkingPrefix L explicitEffort \<longleftrightarrow>
     validThinkingBudgetFloor L \<or> explicitEffort = EffortMax \<or> explicitEffort = EffortXHigh"

definition legacy_contract :: string where
  "legacy_contract =
     ''<thinking_output_contract>Reason internally at the requested effort. If any draft, plan, self-talk, or analysis is '' @
     ''written before the final answer, wrap it inside <thinking>...</thinking>. Visible output must contain only the final '' @
     ''answer or tool call requested by the user; never expose scratchpad text as normal prose.</thinking_output_contract>''"

definition thinkingPromptPrefix :: "string \<Rightarrow> string \<Rightarrow> int \<Rightarrow> string" where
  "thinkingPromptPrefix mode effort budget =
     (let enabled = ''<thinking_mode>enabled</thinking_mode>'' @ newline @
                    ''<max_thinking_length>'' @ show_int budget @ ''</max_thinking_length>'' in
      if mode = ''off'' then ''''
      else if mode = ''legacy'' then
        ''<thinking_mode>adaptive</thinking_mode>'' @ newline @ ''<thinking_effort>'' @ effort @ ''</thinking_effort>'' @ newline @
        legacy_contract
      else if mode = ''minimal'' then enabled
      else if mode = ''natural'' then natural_prompt
      else if mode = ''cnmax'' then cnmax_prompt
      else enabled @ newline @ ''Use the requested internal thinking budget without exposing scratchpad text.'')"

definition resolveThinkingEffort :: "string \<Rightarrow> int \<Rightarrow> string" where
  "resolveThinkingEffort explicit budget =
     (if explicit \<in> {EffortMax, EffortXHigh, EffortHigh, EffortMedium, EffortLow} then explicit
      else if budget \<ge> 60000 then EffortMax
      else if budget \<ge> 40000 then EffortHigh
      else if budget \<ge> 10000 then EffortMedium
      else EffortLow)"

definition ThinkingToolEntry :: ToolSpecification where
  "ThinkingToolEntry =
     \<lparr>ts_Name = ThinkingToolName, ts_Description = thinkingToolDescription,
      ts_InputSchema =
        [(''type'', JStr ''object''), (''required'', JArr [JStr ''thought'']),
         (''properties'', JObj [(''thought'', JObj
            [(''type'', JStr ''string''), (''description'', JStr thinkingToolThoughtDescription)])])]\<rparr>"

definition useThinkingTool :: "req_lib \<Rightarrow> bool \<Rightarrow> bool" where
  "useThinkingTool L thinking \<longleftrightarrow> thinking \<and> q_getenv L ''KIROCC_EXPERIMENT_THINKING_PROMPT'' = ''tool''"

definition buildCurrentMessage :: "req_lib \<Rightarrow> Message \<Rightarrow> string \<Rightarrow> string \<Rightarrow> ToolSpecification list \<Rightarrow> bool \<Rightarrow> int \<Rightarrow> string
    \<Rightarrow> string list \<Rightarrow> UserInputMessage" where
  "buildCurrentMessage L lastMsg lastContent modelID toolEntries thinking thinkingBudget thinkingEffort precedingToolUseIDs =
     (let toolEntries = (if useThinkingTool L thinking then ThinkingToolEntry # toolEntries else toolEntries);
          (toolResults, images) = scanCurrentMessage (m_Content lastMsg);
          toolResults = ReorderToolResults toolResults precedingToolUseIDs;
          ctx = (if toolEntries \<noteq> [] \<or> toolResults \<noteq> []
                 then Some \<lparr>uc_Tools = toolEntries, uc_ToolResults = toolResults\<rparr> else None);
          content = (if lastContent = '''' \<and> toolResults = [] then syntheticContinue else lastContent);
          content =
            (if thinking \<and> \<not> useThinkingTool L thinking \<and> shouldInjectThinkingPrefix L thinkingEffort \<and>
                (content \<noteq> '''' \<or> toolResults = [])
             then
               (let budget = (if thinkingBudget \<le> 0 then ThinkingBudgetMedium else thinkingBudget);
                    effort = resolveThinkingEffort thinkingEffort budget;
                    pre = thinkingPromptPrefix (q_getenv L ''KIROCC_EXPERIMENT_THINKING_PROMPT'') effort budget
                in if content \<noteq> '''' \<and> pre \<noteq> '''' then pre @ newline @ newline @ content
                   else if pre \<noteq> '''' then pre else content)
             else content)
      in \<lparr>ui_Content = content, ui_ModelID = modelID, ui_Origin = upstreamOrigin L, ui_Context = ctx, ui_Images = images\<rparr>)"

section \<open>The payload\<close>

definition buildSystemAndTools :: "req_lib \<Rightarrow> Request \<Rightarrow> Context option \<Rightarrow> ToolNameMap
    \<Rightarrow> ToolNameMap \<times> string \<times> ToolSpecification list" where
  "buildSystemAndTools L req tsCtx nameMap =
     (let systemPrompt = ExtractSystemPrompt (rq_System req) in
      case tsCtx of
        Some c \<Rightarrow>
          (let (nameMap, entries) = ConvertTools (q_sha L) (ctx_ActiveTools c) nameMap
           in (nameMap, systemPrompt, entries @ [KiroToolSearchEntry]))
      | None \<Rightarrow>
          if rq_Tools req \<noteq> []
          then (let (nameMap, entries) = ConvertTools (q_sha L) (rq_Tools req) nameMap in (nameMap, systemPrompt, entries))
          else (nameMap, systemPrompt, []))"

definition has_tools :: "req_lib \<Rightarrow> Request \<Rightarrow> BuildOptions \<Rightarrow> bool" where
  "has_tools L req opts \<longleftrightarrow>
     rq_Tools req \<noteq> [] \<or> useThinkingTool L (bo_Thinking opts) \<or> bo_PreserveToolBlocks opts \<or> bo_ToolSearchCtx opts \<noteq> None"

definition BuildPayload :: "req_lib \<Rightarrow> Request \<Rightarrow> BuildOptions \<Rightarrow> Payload \<times> ToolNameMap" where
  "BuildPayload L req opts =
     (let (nameMap, systemPrompt, toolEntries) = buildSystemAndTools L req (bo_ToolSearchCtx opts) NewToolNameMap;
          msgs = Normalize (q_marshal L) (has_tools L req opts) (rq_Messages req);
          (historyMsgs, lastMsg) = splitMessages msgs;
          (nameMap, history) = buildHistory L historyMsgs nameMap;
          (history, lastContent) =
            placeSystemPrompt L systemPrompt history (cleanCurrentText (ExtractTextContent (m_Content lastMsg)));
          precedingToolUseIDs = (if historyMsgs \<noteq> [] then extractToolUseIDs (last historyMsgs) else []);
          userInputMessage = buildCurrentMessage L lastMsg lastContent (bo_ModelID opts) toolEntries (bo_Thinking opts)
            (bo_ThinkingBudget opts) (bo_ThinkingEffort opts) precedingToolUseIDs
      in (\<lparr>p_ConversationState =
             \<lparr>cs_ConversationID = bo_ConversationID opts, cs_ChatTriggerType = ChatTriggerTypeManual,
              cs_AgentTaskType = AgentTaskTypeVibe, cs_CurrentMessage = userInputMessage, cs_History = history\<rparr>,
           p_ProfileARN = bo_ProfileARN opts\<rparr>, nameMap))"

section \<open>The shape of the payload\<close>

definition is_user :: "HistoryEntry \<Rightarrow> bool" where
  "is_user e = (case e of HistUser _ \<Rightarrow> True | HistAssistant _ \<Rightarrow> False)"

definition context_results :: "UserInputMessageContext option \<Rightarrow> string list" where
  "context_results c = (case c of None \<Rightarrow> [] | Some c \<Rightarrow> map tr_ToolUseID (uc_ToolResults c))"

definition entry_results :: "HistoryEntry \<Rightarrow> string list" where
  "entry_results e = (case e of HistUser u \<Rightarrow> context_results (hu_Context u) | HistAssistant _ \<Rightarrow> [])"

definition entry_uses :: "HistoryEntry option \<Rightarrow> string list" where
  "entry_uses e = (case e of Some (HistAssistant a) \<Rightarrow> map htu_ToolUseID (ar_ToolUses a) | _ \<Rightarrow> [])"

text \<open>Every tool result answers a tool use of the entry right before it.\<close>

fun history_answered :: "HistoryEntry option \<Rightarrow> HistoryEntry list \<Rightarrow> bool" where
  "history_answered prev [] = True"
| "history_answered prev (e # es) = (set (entry_results e) \<subseteq> set (entry_uses prev) \<and> history_answered (Some e) es)"

lemma set_ReorderToolResults: "set (ReorderToolResults rs ids) \<subseteq> set rs"
proof -
  have "fold (\<lambda>r m. m(tr_ToolUseID r \<mapsto> r)) rs m i = Some r \<Longrightarrow> r \<in> set rs \<or> m i = Some r" for m i r
  proof (induction rs arbitrary: m)
    case (Cons a rs)
    from Cons.IH [of "m(tr_ToolUseID a \<mapsto> a)"] Cons.prems show ?case by (auto split: if_splits)
  qed simp
  then have idx: "index_results rs i = Some r \<Longrightarrow> r \<in> set rs" for i r by (force simp: index_results_def)
  have "set (fst (order_results (index_results rs) ids)) \<subseteq> set rs"
    by (induction ids) (auto simp: Let_def idx split: prod.splits option.splits)
  then show ?thesis by (auto simp: ReorderToolResults_def case_prod_beta Let_def)
qed

lemma length_shorten_all: "shorten_all sha ns m = (m', ss) \<Longrightarrow> length ss = length ns"
  by (induction ns arbitrary: m ss) (auto simp: Let_def split: prod.splits)

lemma shorten_uses_ids: "map htu_ToolUseID (snd (shorten_uses sha uses m)) = map htu_ToolUseID uses"
proof -
  obtain m' ns where n: "shorten_all sha (map htu_Name uses) m = (m', ns)" by fastforce
  have "length ns = length uses \<Longrightarrow> map htu_ToolUseID (map2 (\<lambda>u n. u\<lparr>htu_Name := n\<rparr>) uses ns) = map htu_ToolUseID uses"
    by (induction uses ns rule: list_induct2') auto
  with length_shorten_all [OF n] show ?thesis by (simp add: shorten_uses_def n)
qed

lemma history_user_results:
  "set (entry_results (history_user L p m)) \<subseteq> cb_ToolUseID ` {b \<in> set (content_blocks (m_Content m)). IsToolResult b}"
proof -
  have "set (ExtractToolResults (m_Content m)) \<subseteq> kiro_result ` {b \<in> set (content_blocks (m_Content m)). IsToolResult b}"
    by (auto simp: ExtractToolResults_def)
  then show ?thesis
    using set_ReorderToolResults [of "ExtractToolResults (m_Content m)"]
    by (fastforce simp: history_user_def Let_def entry_results_def results_context_def context_results_def split: option.splits if_splits)
qed

lemma history_assistant_uses:
  "entry_uses (Some (snd (history_assistant L m nm))) = extractToolUseIDs m"
  using shorten_uses_ids [of "q_sha L" "ExtractToolUses (m_Content m)" nm]
  by (auto simp: history_assistant_def Let_def entry_uses_def extractToolUseIDs_def ExtractToolUses_def comp_def split: prod.splits)

lemma is_user_simps [simp]:
  "is_user (history_user L p m)" "\<not> is_user (snd (history_assistant L m nm))" "is_user (system_user L sp)"
  "entry_uses (Some (history_user L p m)) = []" "entry_results (snd (history_assistant L m nm)) = []"
  "entry_results (system_user L sp) = []" "entry_uses (Some (system_user L sp)) = []" "entry_uses None = []"
  by (auto simp: is_user_def history_user_def history_assistant_def system_user_def entry_uses_def entry_results_def
      context_results_def Let_def split: prod.splits)

lemma assistantToolIDs_extract: "m_Role m = ''assistant'' \<Longrightarrow> assistantToolIDs (Some m) = extractToolUseIDs m"
  by (simp add: assistantToolIDs_def extractToolUseIDs_def)

lemma history_loop_users: "known_roles ms \<Longrightarrow> map is_user (snd (history_loop L p ms nm)) = map (\<lambda>m. m_Role m = ''user'') ms"
proof (induction ms arbitrary: p nm)
  case (Cons m ms)
  obtain nm1 e where a: "history_assistant L m nm = (nm1, e)" by fastforce
  then have "\<not> is_user e" by (metis is_user_simps(2) snd_conv)
  with Cons a show ?case
    by (auto simp: known_roles_def Let_def case_prod_beta)
qed simp

lemma history_loop_answered:
  assumes "answered p ms" "known_roles ms" "entry_uses pe = assistantToolIDs p"
  shows "history_answered pe (snd (history_loop L p ms nm)) \<and>
    (ms \<noteq> [] \<longrightarrow> entry_uses (Some (last (snd (history_loop L p ms nm)))) = assistantToolIDs (Some (last ms)))"
  using assms
proof (induction ms arbitrary: p pe nm)
  case (Cons m ms)
  obtain e es nm1 where e: "snd (history_loop L p (m # ms) nm) = e # es" "es = snd (history_loop L (Some m) ms nm1)"
    "entry_uses (Some e) = assistantToolIDs (Some m)" "set (entry_results e) \<subseteq> set (entry_uses pe)"
  proof (cases "m_Role m = ''user''")
    case True
    show thesis
      by (rule that [of "history_user L p m" _ nm])
        (use True Cons.prems(1,3) history_user_results [of L p m] in \<open>auto simp: Let_def case_prod_beta\<close>)
  next
    case False
    then have a: "m_Role m = ''assistant''" using Cons.prems(2) by (simp add: known_roles_def)
    show thesis
      by (rule that [of "snd (history_assistant L m nm)" _ "fst (history_assistant L m nm)"])
        (use a False history_assistant_uses [of L m nm] assistantToolIDs_extract [OF a] in \<open>auto simp: Let_def case_prod_beta\<close>)
  qed
  have "answered (Some m) ms" "known_roles ms" using Cons.prems by (simp_all add: known_roles_def)
  from Cons.IH [OF this e(3), of nm1] e(2)
  have IH: "history_answered (Some e) es" "ms \<noteq> [] \<Longrightarrow> entry_uses (Some (last es)) = assistantToolIDs (Some (last ms))" by auto
  have "length es = length ms"
    using arg_cong [OF history_loop_users [OF \<open>known_roles ms\<close>, of L "Some m" nm1], of length] e(2) by simp
  then have "es = [] \<longleftrightarrow> ms = []" by auto
  with IH e show ?case by (simp del: history_loop.simps)
qed simp
lemma answered_no_results:
  "\<forall>m \<in> set ms. \<forall>b \<in> set (content_blocks (m_Content m)). \<not> IsToolResult b \<Longrightarrow> answered p ms"
  by (induction ms arbitrary: p) auto

lemma answered_Normalize:
  assumes "hasTools \<Longrightarrow> known_roles msgs" "msgs \<noteq> []"
  shows "answered None (Normalize marshal hasTools msgs)"
proof -
  let ?t = "normalizeRoles (textualizeToolContent marshal hasTools msgs)"
  have "answered None ?t"
  proof (cases hasTools)
    case True
    then show ?thesis
      using normalizeRoles_known [OF known_orphan [OF assms(1) [OF True]]] answered_orphan_loop(2)
      by (simp add: textualizeToolContent_def textualizeOrphanToolResults_def)
  next
    case False
    have "\<not> IsToolResult (textualize_block marshal b)" for b
      by (auto simp: textualize_block_def tool_result_text_def)
    moreover have "IsString c \<Longrightarrow> content_blocks c = []" for c by (simp add: IsString_def content_blocks_def)
    ultimately show ?thesis using False
      by (intro answered_no_results)
        (auto simp: textualizeToolContent_def textualizeAllToolContent_def normalizeRoles_def split: if_split_asm)
  qed
  moreover have "?t \<noteq> []" using assms(2)
    by (cases msgs) (auto simp: normalizeRoles_def textualizeToolContent_def textualizeAllToolContent_def textualizeOrphanToolResults_def)
  moreover from this obtain m ms where s: "ensureStartsWithUser (mergeAdjacentSameRole ?t) = m # ms"
    using start_user [of "mergeAdjacentSameRole ?t"] by auto
  ultimately have "answered None (m # ms)" using answered_start [OF answered_merge] by metis
  then have "answered None (m # alternate_loop (m_Role m) ms)" using answered_alternate by simp
  then show ?thesis by (simp add: Normalize_def s ensureAlternatingRoles_def)
qed

lemma alternating_even:
  assumes "alternating ms" "known_roles ms" "ms \<noteq> [] \<Longrightarrow> m_Role (hd ms) = r" "r = ''user'' \<or> r = ''assistant''" "i < length ms"
  shows "m_Role (ms ! i) = r \<longleftrightarrow> even i"
  using assms
proof (induction ms arbitrary: r i)
  case (Cons m ms)
  let ?r = "if r = ''user'' then ''assistant'' else ''user''"
  show ?case
  proof (cases i)
    case (Suc j)
    have "alternating ms" "known_roles ms" using Cons.prems(1,2) by (auto simp: alternating_def known_roles_def successively_Cons)
    moreover have "ms \<noteq> [] \<Longrightarrow> m_Role (hd ms) = ?r"
      using Cons.prems(1-4) by (cases ms) (auto simp: alternating_def known_roles_def)
    ultimately have "m_Role (ms ! j) = ?r \<longleftrightarrow> even j" using Cons.IH [of ?r j] Cons.prems(5) Suc by simp
    moreover have "m_Role (ms ! j) = ''user'' \<or> m_Role (ms ! j) = ''assistant''"
      using Cons.prems(2,5) Suc by (auto simp: known_roles_def)
    ultimately show ?thesis using Suc Cons.prems(4) by (auto split: if_splits)
  qed (use Cons.prems in simp)
qed simp

lemma answered_append: "answered p (xs @ [y]) \<longleftrightarrow> answered p xs \<and> answered (if xs = [] then p else Some (last xs)) [y]"
  by (induction xs arbitrary: p) auto

lemma splitMessages_shape:
  assumes "alternating ms" "known_roles ms" "ms \<noteq> [] \<Longrightarrow> m_Role (hd ms) = ''user''" "answered None ms" "splitMessages ms = (hs, l)"
  shows "(\<forall>i < length hs. m_Role (hs ! i) = ''user'' \<longleftrightarrow> even i) \<and> even (length hs) \<and> known_roles hs \<and> answered None hs \<and>
    cb_ToolUseID ` {b \<in> set (content_blocks (m_Content l)). IsToolResult b} \<subseteq>
      (if hs = [] then {} else set (assistantToolIDs (Some (last hs))))"
proof (cases "ms = [] \<or> m_Role (last ms) = ''assistant''")
  case True
  have "even (length ms)" if "ms \<noteq> []"
    using alternating_even [OF assms(1,2,3), of "length ms - 1"] that True by (auto simp: last_conv_nth)
  then have "even (length ms)" by (cases "ms = []") auto
  moreover have "(\<forall>i < length ms. m_Role (ms ! i) = ''user'' \<longleftrightarrow> even i)" using alternating_even [OF assms(1-3)] by simp
  ultimately show ?thesis using True assms(2,4,5) by (auto simp: splitMessages_def split: if_splits)
next
  case False
  then have hl: "ms = hs @ [l]" "m_Role l = ''user''"
    using assms(2,5) by (auto simp: splitMessages_def known_roles_def split: if_splits)
  have even: "m_Role ((hs @ [l]) ! i) = ''user'' \<longleftrightarrow> even i" if "i < Suc (length hs)" for i
    using alternating_even [OF assms(1-3), of i] that hl(1) by simp
  have "m_Role (hs ! i) = ''user'' \<longleftrightarrow> even i" if "i < length hs" for i
    using even [of i] that by (simp add: nth_append)
  moreover have "even (length hs)" using even [of "length hs"] hl(2) by simp
  moreover have "answered None hs" "answered (if hs = [] then None else Some (last hs)) [l]"
    using assms(4) hl(1) answered_append by auto
  ultimately show ?thesis using hl assms(2) by (auto simp: known_roles_def)
qed

lemma Normalize_Nil: "Normalize marshal hasTools [] = []"
  by (simp add: Normalize_def textualizeToolContent_def textualizeAllToolContent_def textualizeOrphanToolResults_def
      normalizeRoles_def ensureStartsWithUser_def ensureAlternatingRoles_def)

lemma history_answered_append:
  "history_answered p (xs @ ys) \<longleftrightarrow> history_answered p xs \<and> history_answered (if xs = [] then p else Some (last xs)) ys"
  by (induction xs arbitrary: p) auto

lemma history_answered_cong: "entry_uses p = entry_uses q \<Longrightarrow> history_answered p es = history_answered q es"
  by (cases es) auto

definition even_users :: "HistoryEntry list \<Rightarrow> bool" where
  "even_users h \<longleftrightarrow> (\<forall>i < length h. is_user (h ! i) = even i) \<and> even (length h)"

lemma placeSystemPrompt_shape:
  assumes "q_getenv L ''KIROCC_EXPERIMENT_SYSTEM_MODE'' \<noteq> ''noack''" "even_users h" "history_answered None h"
    and "placeSystemPrompt L sp h c = (h', c')"
  shows "even_users h' \<and> history_answered None h' \<and>
    (if h = [] then h' = [] \<or> entry_uses (Some (last h')) = [] else h' \<noteq> [] \<and> last h' = last h)"
proof -
  let ?a = "HistAssistant \<lparr>ar_MessageID = q_uuid5 L (''synthetic-ack:'' @ syntheticAck), ar_Content = syntheticAck,
      ar_ToolUses = [], ar_Reasoning = None\<rparr>"
  have a: "\<not> is_user ?a" "entry_uses (Some ?a) = []" "entry_results ?a = []"
    by (simp_all add: is_user_def entry_uses_def entry_results_def)
  have "even_users (system_user L sp # ?a # h)"
    using assms(2) a(1) by (auto simp: even_users_def nth_Cons split: nat.split)
  moreover have "history_answered (Some ?a) h" using assms(3) history_answered_cong [of None "Some ?a" h] a(2) by simp
  moreover have "h' = h \<or> h' = system_user L sp # ?a # h"
    using assms(1,4) by (auto simp: placeSystemPrompt_def Let_def split: if_splits)
  ultimately show ?thesis using assms(2,3) a by auto
qed

definition plain_req_lib :: req_lib where
  "plain_req_lib = \<lparr>q_getenv = (\<lambda>_. ''''), q_marshal = (\<lambda>_. ''{}''), q_sha = (\<lambda>n. replicate 13 (last n)), q_uuid5 = id\<rparr>"

definition plain_tool :: "string \<Rightarrow> Tool" where
  "plain_tool n = \<lparr>t_Type = '''', t_Name = n, t_Description = '''', t_InputSchema = [], t_CacheControl = None, t_DeferLoading = False\<rparr>"

definition sample_request :: "Tool list \<Rightarrow> Request" where
  "sample_request ts =
     \<lparr>rq_Model = ''m'',
      rq_Messages = [blocks_message ''assistant'' [use_block ''a'', use_block ''b''],
                     blocks_message ''user'' [result_block ''b'', result_block ''a'', result_block ''c'']],
      rq_System = \<lparr>sp_Text = ''Be brief.'', sp_Blocks = []\<rparr>, rq_Tools = ts, rq_MaxTokens = 10, rq_StopSequences = [],
      rq_Stream = True, rq_Thinking = None, rq_Effort = None\<rparr>"

definition sample_options :: BuildOptions where
  "sample_options = \<lparr>bo_ProfileARN = '''', bo_ModelID = ''m'', bo_ConversationID = ''c'', bo_Thinking = False, bo_ThinkingBudget = 0,
     bo_ThinkingEffort = '''', bo_ToolSearchCtx = None, bo_PreserveToolBlocks = False\<rparr>"


text \<open>With \<open>noack\<close> two user entries follow each other.\<close>

lemma noack_not_alternating:
  "\<not> even_users (fst (placeSystemPrompt (plain_req_lib\<lparr>q_getenv := (\<lambda>_. ''noack'')\<rparr>) ''Be brief.'' [] ''hi''))"
  by (simp add: placeSystemPrompt_def even_users_def Let_def)

section \<open>Tool names of a request\<close>

definition history_names :: "Message list \<Rightarrow> string list" where
  "history_names ms =
     concat (map (\<lambda>m. if m_Role m = ''assistant'' then map htu_Name (ExtractToolUses (m_Content m)) else []) ms)"

lemma shorten_all_append:
  "fst (shorten_all sha (xs @ ys) m) = fst (shorten_all sha ys (fst (shorten_all sha xs m)))"
  by (induction xs arbitrary: m) (auto simp: Let_def case_prod_beta)

lemma history_loop_names: "fst (history_loop L p ms nm) = fst (shorten_all (q_sha L) (history_names ms) nm)"
proof (induction ms arbitrary: p nm)
  case (Cons m ms)
  have "fst (history_assistant L m nm) = fst (shorten_all (q_sha L) (map htu_Name (ExtractToolUses (m_Content m))) nm)"
    by (simp add: history_assistant_def shorten_uses_def Let_def case_prod_beta)
  with Cons show ?case
    by (auto simp: history_names_def Let_def case_prod_beta shorten_all_append)
qed (simp add: history_names_def)

lemma history_names_subset: "set (history_names ms) \<subseteq> cb_Name ` set (tool_uses ms)"
  by (auto simp: history_names_def tool_uses_def ExtractToolUses_def split: if_splits intro!: imageI bexI)

lemma set_splitMessages: "splitMessages ms = (hs, l) \<Longrightarrow> set hs \<subseteq> set ms"
  by (auto simp: splitMessages_def dest: in_set_butlastD split: if_splits)

definition current_tools :: "UserInputMessage \<Rightarrow> ToolSpecification list" where
  "current_tools u = (case ui_Context u of None \<Rightarrow> [] | Some c \<Rightarrow> uc_Tools c)"

lemma current_tools_build:
  "current_tools (buildCurrentMessage L l lc mid te th tb eff ids) = (if useThinkingTool L th then ThinkingToolEntry # te else te)"
  by (auto simp: current_tools_def buildCurrentMessage_def Let_def split: prod.split)

text \<open>The names that \<open>BuildPayload\<close> sends, and the map it returns.\<close>

lemma BuildPayload_names:
  assumes "BuildPayload L req opts = (p, names)" "bo_ToolSearchCtx opts = None" "known_roles (rq_Messages req)" "rq_Tools req \<noteq> []"
  shows "\<exists>hn. set hn \<subseteq> cb_Name ` set (tool_uses (rq_Messages req)) \<and>
    names = fst (shorten_all (q_sha L) (map tool_name (rq_Tools req) @ hn) NewToolNameMap) \<and>
    (\<exists>ss. length ss = length (rq_Tools req) \<and>
       ss = snd (shorten_all (q_sha L) (map tool_name (rq_Tools req)) NewToolNameMap) \<and>
       set ss \<subseteq> ts_Name ` set (current_tools (cs_CurrentMessage (p_ConversationState p))))"
proof -
  let ?ms = "Normalize (q_marshal L) True (rq_Messages req)"
  obtain nm es where c: "ConvertTools (q_sha L) (rq_Tools req) NewToolNameMap = (nm, es)" by fastforce
  obtain ss where ss: "shorten_all (q_sha L) (map tool_name (rq_Tools req)) NewToolNameMap = (nm, ss)"
    "es = map2 convert_tool (rq_Tools req) ss" "length ss = length (rq_Tools req)"
    using ConvertTools_shorten [OF c] by auto
  obtain hs l where sm: "splitMessages ?ms = (hs, l)" by fastforce
  have h: "has_tools L req opts" using assms(4) by (simp add: has_tools_def)
  obtain nm2 h0 where h0: "buildHistory L hs nm = (nm2, h0)" by fastforce
  have b: "buildSystemAndTools L req (bo_ToolSearchCtx opts) NewToolNameMap = (nm, ExtractSystemPrompt (rq_System req), es)"
    using assms(2,4) c by (simp add: buildSystemAndTools_def)
  have n: "names = nm2" and te: "set es \<subseteq> set (current_tools (cs_CurrentMessage (p_ConversationState p)))"
    using assms(1) sm h0 b h by (auto simp: BuildPayload_def Let_def current_tools_build split: prod.splits)
  have "names = fst (shorten_all (q_sha L) (map tool_name (rq_Tools req) @ history_names hs) NewToolNameMap)"
    using n h0 ss(1) history_loop_names [of L None hs nm] by (simp add: buildHistory_def shorten_all_append)
  moreover have "set (history_names hs) \<subseteq> cb_Name ` set (tool_uses (rq_Messages req))"
  proof -
    have "set (tool_uses hs) \<subseteq> set (tool_uses ?ms)" using set_splitMessages [OF sm] by (auto simp: tool_uses_def)
    then show ?thesis using history_names_subset [of hs] tool_uses_Normalize [OF assms(3)] by fastforce
  qed
  moreover have "set ss \<subseteq> ts_Name ` set es"
    using ss(2,3) by (auto simp: set_zip in_set_conv_nth convert_tool_def Let_def image_iff)
  moreover have "set ss \<subseteq> ts_Name ` set (current_tools (cs_CurrentMessage (p_ConversationState p)))"
    using \<open>set ss \<subseteq> ts_Name ` set es\<close> te by blast
  ultimately show ?thesis using ss(1,3) by (metis snd_conv)
qed

end
