(* ===== verification/Request_Execute.thy ===== *)
theory Request_Execute
  imports Response_Handler Request_Payload Scheduling
begin

text \<open>
  The execution of one message request in \<open>internal/app/messages\<close>: the upstream call with its answer
  (\<open>execute.go\<close>), the second attempt after invalid tool calls (\<open>invalid_tool_retry.go\<close>) and its last
  resort (\<open>invalid_tool_fallback.go\<close>), and what the result means for the account (\<open>pool_outcome.go\<close>).
  The theorems: at most two upstream calls, one answer, and a throttled request cools its account.
\<close>

section \<open>Invocation\<close>

text \<open>
  The fields the execution reads. The region is part of the client's transport, the account and the
  report profile of the prompt cache's adjuster.
\<close>

record invocation =
  inv_req :: Request
  inv_payload :: Payload
  inv_AccessToken :: string
  inv_ProfileARN :: string
  inv_model :: string
  inv_responseModel :: string
  inv_contextWindowSize :: int
  inv_thinking :: bool
  inv_thinkingBudget :: int
  inv_toolNameMap :: "string \<rightharpoonup> string"
  inv_tools :: "Tool list"

text \<open>
  What the environment gives, per attempt (1 or 2): the client's transport for a payload, the token
  count of a payload, the environment of the response and the usage adjuster of the prompt cache;
  then JSON decoding of a tool input into a map (\<open>null\<close> decodes to the nil map), \<open>strconv.Quote\<close>,
  \<open>uuid.New\<close>, and the encoders.
\<close>

record exec_env =
  x_lib :: req_lib
  x_client :: "nat \<Rightarrow> Payload \<Rightarrow> client_env"
  x_promptTokens :: "Payload \<Rightarrow> int"
  x_handler :: "nat \<Rightarrow> handler_env"
  x_adjuster :: "nat \<Rightarrow> int \<Rightarrow> UsageAdjuster option"
  x_object :: "string \<Rightarrow> jmap option option"
  x_quote :: "string \<Rightarrow> string"
  x_uuid :: string

definition handler_args :: "exec_env \<Rightarrow> nat \<Rightarrow> invocation \<Rightarrow> handler_args" where
  "handler_args X attempt iv =
     (let promptTokens = x_promptTokens X (inv_payload iv) in
      \<lparr>ha_model = inv_responseModel iv, ha_contextWindowSize = inv_contextWindowSize iv,
       ha_stopSequences = rq_StopSequences (inv_req iv), ha_maxTokens = rq_MaxTokens (inv_req iv),
       ha_preCounted = promptTokens, ha_toolNameMap = inv_toolNameMap iv,
       ha_tools = map (\<lambda>t. (t_Name t, t_InputSchema t)) (inv_tools iv), ha_usageAdjuster = x_adjuster X attempt promptTokens\<rparr>)"

definition callAndHandle :: "exec_env \<Rightarrow> nat \<Rightarrow> invocation \<Rightarrow> answer client \<Rightarrow> handled" where
  "callAndHandle X attempt iv w =
     (case fst (GenerateAssistantResponse (x_client X attempt (inv_payload iv)) (inv_AccessToken iv)) of
        Inl err \<Rightarrow>
          \<lparr>hd_out = no_outcome\<lparr>TerminalErr := Some err\<rparr>, hd_w = httpx_WriteError 502 ErrTypeAPI ''upstream API error'' w, hd_usage = None\<rparr>
      | Inr apiResp \<Rightarrow>
          if rq_Stream (inv_req iv)
          then handleStreamingResponse (x_handler X attempt) (handler_args X attempt iv) (hr_Body apiResp) w
          else handleNonStreamingResponse (x_handler X attempt) (handler_args X attempt iv) (hr_Body apiResp) w)"

section \<open>The second attempt after invalid tool calls\<close>

definition maxInvalidToolInputBytes :: nat where "maxInvalidToolInputBytes = 1024"

definition parseInvalidToolInput :: "exec_env \<Rightarrow> string \<Rightarrow> jmap" where
  "parseInvalidToolInput X raw =
     (if raw = '''' then []
      else if length raw > maxInvalidToolInputBytes then
        [(''_invalid_input_omitted'', JBool True), (''reason'', JStr ''invalid tool input exceeded retry history limit'')]
      else case x_object X raw of
        Some (Some obj) \<Rightarrow> obj
      | _ \<Rightarrow> [(''_raw_invalid_input'', JStr raw)])"

definition invalid_id :: "nat \<Rightarrow> InvalidToolCall \<Rightarrow> string" where
  "invalid_id i call = (if itc_ID call = '''' then ''toolu_invalid_'' @ show_nat (i + 1) else itc_ID call)"

text \<open>The messages the validator formats.\<close>

fun join_strings :: "string \<Rightarrow> string list \<Rightarrow> string" where
  "join_strings sep [] = ''''"
| "join_strings sep [s] = s"
| "join_strings sep (s # ss) = s @ sep @ join_strings sep ss"

fun reason_text :: "exec_env \<Rightarrow> reject_reason \<Rightarrow> string" where
  "reason_text X InvalidJSONInput = ''invalid JSON input''"
| "reason_text X (MissingRequired missing) = ''missing required field(s): '' @ join_strings '', '' missing"
| "reason_text X (WrongFieldType name expected actual) =
     ''field '' @ x_quote X name @ '' expected '' @ join_strings '' or '' expected @ '' but got '' @ actual"

definition tool_use_block :: "string \<Rightarrow> string \<Rightarrow> jmap \<Rightarrow> ContentBlock" where
  "tool_use_block i name inp = ContentBlock BlockTypeToolUse '''' '''' '''' i name inp '''' (MessageContent '''' None) False None '''' [] None"

definition tool_result_block :: "string \<Rightarrow> string \<Rightarrow> ContentBlock" where
  "tool_result_block i txt = ContentBlock BlockTypeToolResult '''' '''' '''' '''' '''' [] i (MessageContent txt None) True None '''' [] None"

definition invalid_text :: "exec_env \<Rightarrow> InvalidToolCall \<Rightarrow> string" where
  "invalid_text X call =
     ''Tool call '' @ x_quote X (itc_Name call) @ '' was invalid and was not executed: '' @ reason_text X (itc_Reason call) @
     ''. Retry with complete valid JSON arguments matching the tool schema. If a different tool is more appropriate, use it now.''"

definition appendInvalidToolRetryMessages :: "exec_env \<Rightarrow> Message list \<Rightarrow> InvalidToolCall list \<Rightarrow> Message list" where
  "appendInvalidToolRetryMessages X msgs calls =
     (let indexed = zip [0..<length calls] calls;
          assistantBlocks = map (\<lambda>(i, call). tool_use_block (invalid_id i call) (itc_Name call) (parseInvalidToolInput X (itc_Input call))) indexed;
          resultBlocks = map (\<lambda>(i, call). tool_result_block (invalid_id i call) (invalid_text X call)) indexed
      in msgs @
         [\<lparr>m_Role = ''assistant'', m_Content = MessageContent '''' (Some assistantBlocks)\<rparr>,
          \<lparr>m_Role = ''user'', m_Content = MessageContent '''' (Some resultBlocks)\<rparr>])"

text \<open>\<open>BuildPayload\<close> returns no error, so neither does this.\<close>

definition prepareInvalidToolUseRetry :: "exec_env \<Rightarrow> InvalidToolCall list \<Rightarrow> invocation \<Rightarrow> invocation" where
  "prepareInvalidToolUseRetry X calls iv =
     (if calls = [] then iv
      else
        (let req = (inv_req iv)\<lparr>rq_Messages := appendInvalidToolRetryMessages X (rq_Messages (inv_req iv)) calls\<rparr>;
             (payload, nameMap) = BuildPayload (x_lib X) req
               \<lparr>bo_ProfileARN = inv_ProfileARN iv, bo_ModelID = inv_model iv, bo_ConversationID = '''', bo_Thinking = inv_thinking iv,
                bo_ThinkingBudget = inv_thinkingBudget iv, bo_ThinkingEffort = Effort req, bo_ToolSearchCtx = None,
                bo_PreserveToolBlocks = False\<rparr>
         in iv\<lparr>inv_req := req, inv_payload := payload, inv_toolNameMap := ReverseMap nameMap\<rparr>))"

section \<open>The last resort\<close>

definition zeroUsage :: usage_map where
  "zeroUsage = [(''input_tokens'', 0), (''output_tokens'', 0), (''cache_read_input_tokens'', 0), (''cache_creation_input_tokens'', 0)]"

definition invalidToolUseBlocks :: "exec_env \<Rightarrow> InvalidToolCall list \<Rightarrow> (string \<times> string \<times> jmap) list" where
  "invalidToolUseBlocks X calls =
     map (\<lambda>(i, call). (invalid_id i call, if itc_Name call = '''' then ''invalid_tool'' else itc_Name call,
            parseInvalidToolInput X (itc_Input call))) (zip [0..<length calls] calls)"

definition writeInvalidToolUseFallbackJSON :: "exec_env \<Rightarrow> string \<Rightarrow> InvalidToolCall list \<Rightarrow> answer client \<Rightarrow> answer client" where
  "writeInvalidToolUseFallbackJSON X model calls w =
     (let resp = \<lparr>resp_id = ''msg_'' @ take 24 (x_uuid X),
            resp_content = map (\<lambda>(i, name, inp). CToolUse i name (JObj inp)) (invalidToolUseBlocks X calls),
            resp_model = model, resp_stop_reason = ''tool_use'', resp_stop_sequence = None, resp_usage = zeroUsage\<rparr>
      in client_write [if h_encodes (x_handler X 2) resp then ResponseJSON resp else BrokenJSON resp] w)"

definition writeSSEEvent :: "writer_env \<Rightarrow> sse \<Rightarrow> answer client \<Rightarrow> answer client" where
  "writeSSEEvent E ev w = client_flush (client_write [if marshals E ev then StreamEvent ev else BrokenEvent ev] w)"

definition fallback_events :: "exec_env \<Rightarrow> string \<Rightarrow> InvalidToolCall list \<Rightarrow> sse list" where
  "fallback_events X model calls =
     [MessageStart (''msg_'' @ take 24 (x_uuid X)) model zeroUsage] @
     concat (map (\<lambda>(i, b, name, inp).
         [BlockStart (int i) (ToolUseBlock b name), BlockDelta (int i) (InputJsonD (q_marshal (x_lib X) inp)), BlockStop (int i)])
       (zip [0..<length calls] (invalidToolUseBlocks X calls))) @
     [MessageDelta ''tool_use'' None zeroUsage, MessageStop]"

definition writeInvalidToolUseFallbackSSE :: "exec_env \<Rightarrow> string \<Rightarrow> InvalidToolCall list \<Rightarrow> answer client \<Rightarrow> answer client" where
  "writeInvalidToolUseFallbackSSE X model calls w =
     fold (writeSSEEvent (h_writer (x_handler X 2))) (fallback_events X model calls) w"

definition writeInvalidToolUseFallback :: "exec_env \<Rightarrow> string \<Rightarrow> bool \<Rightarrow> InvalidToolCall list \<Rightarrow> answer client \<Rightarrow> answer client" where
  "writeInvalidToolUseFallback X model stream calls w =
     (if calls = [] then w
      else if stream then writeInvalidToolUseFallbackSSE X model calls w
      else writeInvalidToolUseFallbackJSON X model calls w)"

section \<open>Execution\<close>

datatype exec_error =
    ClientError client_error
  | ServiceError string
  | StreamError stream_error
  | EncodeError

text \<open>The result, with the payloads that were sent upstream.\<close>

record executed =
  xr_w :: "answer client"
  xr_retries :: nat
  xr_err :: "exec_error option"
  xr_usage :: "usage_report option"
  xr_payloads :: "Payload list"

text \<open>
  How the second call ends: \<open>selfHeal\<close> holds after invalid tool calls, when invalid tool calls again lead
  to the fallback; after another reason they are reported like any invalid state.
\<close>

definition second_outcome :: "exec_env \<Rightarrow> bool \<Rightarrow> invocation \<Rightarrow> handled \<Rightarrow> answer client \<times> exec_error option" where
  "second_outcome X selfHeal iv r2 =
     (let out2 = hd_out r2; w = hd_w r2 in
      if Reason out2 = '''' \<and> TerminalErr out2 = None then (w, None)
      else if TerminalErr out2 \<noteq> None then (w, map_option ClientError (TerminalErr out2))
      else if Reason out2 = retryReasonEmptyVisibleEndTurn then
        (httpx_WriteError 502 ErrTypeAPI ''upstream returned empty response'' w, Some (ServiceError ''upstream returned empty response''))
      else if selfHeal \<and> Reason out2 = retryReasonInvalidToolUse then
        (writeInvalidToolUseFallback X (inv_responseModel iv) (rq_Stream (inv_req iv)) (ro_InvalidToolCalls out2) w,
         Some (ServiceError ''invalid_tool_use_persistent''))
      else
        (httpx_WriteError 400 ErrTypeInvalidRequest (''invalid state: '' @ Reason out2) w,
         Some (ServiceError (''invalid state: '' @ Reason out2))))"

definition clear_conversation :: "invocation \<Rightarrow> invocation" where
  "clear_conversation iv =
     iv\<lparr>inv_payload := (inv_payload iv)\<lparr>p_ConversationState := (p_ConversationState (inv_payload iv))\<lparr>cs_ConversationID := ''''\<rparr>\<rparr>\<rparr>"

definition executeWithRetry :: "exec_env \<Rightarrow> invocation \<Rightarrow> answer client \<Rightarrow> executed" where
  "executeWithRetry X iv w =
     (let r1 = callAndHandle X 1 iv w; out = hd_out r1 in
      if Reason out = '''' \<and> TerminalErr out = None then
        \<lparr>xr_w = hd_w r1, xr_retries = 0, xr_err = None, xr_usage = hd_usage r1, xr_payloads = [inv_payload iv]\<rparr>
      else if TerminalErr out \<noteq> None then
        \<lparr>xr_w = hd_w r1, xr_retries = 0, xr_err = map_option ClientError (TerminalErr out), xr_usage = hd_usage r1,
         xr_payloads = [inv_payload iv]\<rparr>
      else
        (let selfHeal = (Reason out = retryReasonInvalidToolUse);
             iv2 = (if selfHeal then prepareInvalidToolUseRetry X (ro_InvalidToolCalls out) iv else clear_conversation iv);
             r2 = callAndHandle X 2 iv2 (hd_w r1);
             (w2, err) = second_outcome X selfHeal iv2 r2
         in \<lparr>xr_w = w2, xr_retries = 1, xr_err = err, xr_usage = hd_usage r2, xr_payloads = [inv_payload iv, inv_payload iv2]\<rparr>))"


section \<open>One answer\<close>

lemma fallback_blocks_run:
  "sse_run (concat (map (\<lambda>(i, b, name, inp).
      [BlockStart (int i) (ToolUseBlock b name), BlockDelta (int i) (InputJsonD (m inp)), BlockStop (int i)]) (zip [k..<k + length bs] bs))) (Between (int k)) =
   Some (Between (int (k + length bs)))"
proof (induction bs arbitrary: k)
  case (Cons b bs)
  obtain i name inp where b: "b = (i, name, inp)" by (cases b)
  have "[k..<k + length (b # bs)] = k # [Suc k..<Suc k + length bs]" by (simp add: upt_rec)
  with Cons.IH [of "Suc k"] b show ?case by (simp add: add.commute)
qed simp

lemma fallback_conforms: "sse_run (fallback_events X model calls) Before = Some Done"
  using fallback_blocks_run [of "q_marshal (x_lib X)" 0 "invalidToolUseBlocks X calls"]
  by (simp add: fallback_events_def sse_run_append invalidToolUseBlocks_def)

definition answered :: "exec_env \<Rightarrow> answer list \<Rightarrow> bool" where
  "answered X d \<longleftrightarrow> one_answer (h_writer (x_handler X 1)) d \<or> one_answer (h_writer (x_handler X 2)) d"

lemma fold_writeSSEEvent:
  "(\<And>ev. marshals E ev) \<Longrightarrow> c_body (fold (writeSSEEvent E) evs w) = c_body w @ map StreamEvent evs"
  by (induction evs arbitrary: w) (simp_all add: writeSSEEvent_def client_write_def client_flush_def)

lemma fallback_answer:
  assumes "\<And>k ev. marshals (h_writer (x_handler X k)) ev" "calls \<noteq> []"
  shows "\<exists>d. c_body (writeInvalidToolUseFallback X model stream calls w) = c_body w @ d \<and> answered X d \<and> d \<noteq> []"
proof (cases stream)
  case True
  have "one_answer (h_writer (x_handler X 1)) (map StreamEvent (fallback_events X model calls))"
    using fallback_conforms unfolding one_answer_def by blast
  moreover have "fallback_events X model calls \<noteq> []" by (simp add: fallback_events_def)
  ultimately show ?thesis using True assms
    by (simp add: writeInvalidToolUseFallback_def writeInvalidToolUseFallbackSSE_def fold_writeSSEEvent answered_def)
next
  case False
  with assms(2) show ?thesis
    by (simp add: writeInvalidToolUseFallback_def writeInvalidToolUseFallbackJSON_def Let_def client_write_def answered_def)
qed

lemma call_settles:
  assumes "\<And>k ev. marshals (h_writer (x_handler X k)) ev" "r = callAndHandle X k iv w"
  shows "if TerminalErr (hd_out r) = None then settles (h_writer (x_handler X k)) w r
    else Reason (hd_out r) = '''' \<and> c_body (hd_w r) = c_body w @ [ErrorJSON ErrTypeAPI ''upstream API error'']"
proof (cases "fst (GenerateAssistantResponse (x_client X k (inv_payload iv)) (inv_AccessToken iv))")
  case (Inl e)
  then show ?thesis by (simp add: assms(2) callAndHandle_def no_outcome_def)
next
  case (Inr resp)
  let ?E = "h_writer (x_handler X k)"
  have "settles ?E w r"
    using Inr streaming_settles [of "x_handler X k", OF assms(1)] nonstreaming_settles [of ?E] by (simp add: assms(2) callAndHandle_def)
  then show ?thesis by (simp add: settles_def)
qed

lemma call_invalid_calls:
  "Reason (hd_out (callAndHandle X k iv w)) = retryReasonInvalidToolUse \<Longrightarrow> ro_InvalidToolCalls (hd_out (callAndHandle X k iv w)) \<noteq> []"
  using stream_invalid_calls buffer_invalid_calls
  by (auto simp: callAndHandle_def no_outcome_def retryReasonInvalidToolUse_def split: sum.splits)

lemma retry_conversation:
  "cs_ConversationID (p_ConversationState (inv_payload (clear_conversation iv))) = ''''"
  "calls \<noteq> [] \<Longrightarrow> cs_ConversationID (p_ConversationState (inv_payload (prepareInvalidToolUseRetry X calls iv))) = ''''"
  by (simp_all add: clear_conversation_def prepareInvalidToolUseRetry_def Let_def BuildPayload_def case_prod_unfold)


lemma settled_answer:
  assumes "settles (h_writer (x_handler X k)) w r" "k \<in> {1, 2}"
  shows "\<exists>d. c_body (hd_w r) = c_body w @ d \<and> answered X d" "Reason (hd_out r) \<noteq> '''' \<Longrightarrow> hd_w r = w"
  using assms by (auto simp: settles_def answered_def)

lemma error_answer: "\<exists>d. c_body (httpx_WriteError st t m w) = c_body w @ d \<and> answered X d \<and> d \<noteq> []"
  by (simp add: answered_def)

lemma second_answer:
  assumes "\<And>k ev. marshals (h_writer (x_handler X k)) ev" "r = callAndHandle X 2 iv w" "second_outcome X selfHeal iv r = (w', err)"
  shows "\<exists>d. c_body w' = c_body w @ d \<and> answered X d \<and> (err \<noteq> None \<longrightarrow> d \<noteq> [])"
proof (cases "TerminalErr (hd_out r)")
  case (Some e)
  with call_settles [OF assms(1,2)] assms(3) show ?thesis by (auto simp: second_outcome_def answered_def)
next
  case None
  then have s: "settles (h_writer (x_handler X 2)) w r" using call_settles [OF assms(1,2)] by simp
  show ?thesis
  proof (cases "Reason (hd_out r) = ''''")
    case True
    with None assms(3) settled_answer(1) [OF s] show ?thesis by (auto simp: second_outcome_def)
  next
    case False
    then have "hd_w r = w" using settled_answer(2) [OF s] by simp
    with False None assms(3) error_answer [of _ _ _ w X] fallback_answer [OF assms(1), of "ro_InvalidToolCalls (hd_out r)"]
      call_invalid_calls [of X 2 iv w, folded assms(2)] show ?thesis
      by (auto simp: second_outcome_def Let_def split: if_splits)
  qed
qed



section \<open>What the result means for the account\<close>

definition StatusSuccess :: string where "StatusSuccess = ''success''"
definition StatusRateLimited :: string where "StatusRateLimited = ''rate_limited''"
definition StatusAuthError :: string where "StatusAuthError = ''auth_error''"
definition StatusUpstreamError :: string where "StatusUpstreamError = ''upstream_error''"

text \<open>\<open>lower\<close> is \<open>strings.ToLower\<close>.\<close>

definition classifyErrorText :: "(string \<Rightarrow> string) \<Rightarrow> string \<Rightarrow> string" where
  "classifyErrorText lower msg =
     (let l = lower msg in
      if list_ex (str_contains l) [''429'', ''rate limit'', ''rate_limited'', ''too many requests'', ''throttl''] then StatusRateLimited
      else if list_ex (str_contains l) [''403'', ''401'', ''auth'', ''banned'', ''unauthorized'', ''forbidden''] then StatusAuthError
      else '''')"

definition isThrottleException :: "string \<Rightarrow> bool" where
  "isThrottleException e \<longleftrightarrow>
     e \<in> {''ThrottlingException'', ''TooManyRequestsException'', ''RequestLimitExceeded'', ''LimitExceededException''}"

definition isAuthException :: "string \<Rightarrow> bool" where
  "isAuthException e \<longleftrightarrow>
     e \<in> {''AccessDeniedException'', ''UnauthorizedException'', ''UnrecognizedClientException'', ''ExpiredTokenException'',
       ''InvalidSignatureException''}"

definition isRateLimitUpstreamError :: "UpstreamError \<Rightarrow> bool" where
  "isRateLimitUpstreamError ue \<longleftrightarrow> ue_Status ue = 429 \<or> isThrottleException (ue_Exception ue)"

definition isAuthUpstreamError :: "(string \<Rightarrow> string) \<Rightarrow> UpstreamError \<Rightarrow> bool" where
  "isAuthUpstreamError lower ue \<longleftrightarrow>
     ue_Status ue = 403 \<or> ue_Status ue = 401 \<or> isAuthException (ue_Exception ue) \<or>
     classifyErrorText lower (ue_Body ue) = StatusAuthError"

text \<open>
  The scheduler's state and backend, the clock readings, \<open>strings.ToLower\<close> and the text of an error
  (partly made by the standard library).
\<close>

record outcome_env =
  oe_lower :: "string \<Rightarrow> string"
  oe_text :: "exec_error \<Rightarrow> string"
  oe_now1 :: gotime
  oe_now2 :: gotime

definition markPoolOutcome :: "outcome_env \<Rightarrow> 's runtime_ops option \<Rightarrow> string \<Rightarrow> string \<Rightarrow> exec_error option
    \<Rightarrow> scheduler \<times> 's \<Rightarrow> scheduler \<times> 's" where
  "markPoolOutcome V rt credID model err st =
     (if credID = '''' then st
      else case err of
        None \<Rightarrow> MarkSuccess rt (oe_now1 V) credID model st
      | Some e \<Rightarrow>
          (case e of
             ClientError (Upstream ue) \<Rightarrow>
               if isRateLimitUpstreamError ue then MarkRateLimit rt (oe_now1 V) (oe_now2 V) credID model (ue_RetryAfter ue) st
               else if isAuthUpstreamError (oe_lower V) ue then MarkAuthError rt (oe_now1 V) credID (oe_text V e) st
               else st
           | _ \<Rightarrow>
               (let c = classifyErrorText (oe_lower V) (oe_text V e) in
                if c = StatusRateLimited then MarkRateLimit rt (oe_now1 V) (oe_now2 V) credID model 0 st
                else if c = StatusAuthError then MarkAuthError rt (oe_now1 V) credID (oe_text V e) st
                else st)))"

definition usageStatusFor :: "outcome_env \<Rightarrow> exec_error option \<Rightarrow> string" where
  "usageStatusFor V err =
     (case err of
        None \<Rightarrow> StatusSuccess
      | Some e \<Rightarrow>
          (case e of
             ClientError (Upstream ue) \<Rightarrow>
               if isRateLimitUpstreamError ue then StatusRateLimited
               else if isAuthUpstreamError (oe_lower V) ue then StatusAuthError
               else StatusUpstreamError
           | _ \<Rightarrow>
               (let s = classifyErrorText (oe_lower V) (oe_text V e)
                in if s \<noteq> '''' then s else StatusUpstreamError)))"

text \<open>An upstream error whose body mentions an author disables the account.\<close>

lemma author_disables_account:
  assumes "lower = (\<lambda>s. s)" "ue = \<lparr>ue_Status = 400, ue_ContentType = '''', ue_Exception = ''ValidationException'',
      ue_Body = ''commit author too long'', ue_RetryAfter = 0\<rparr>"
  shows "\<not> isRateLimitUpstreamError ue \<and> isAuthUpstreamError lower ue"
  unfolding assms by code_simp

section \<open>A throttled request cools its account\<close>

lemma throttled_execute:
  fixes X iv
  defines "E \<equiv> x_client X 1 (inv_payload iv)"
  assumes "ce_marshals E" "ce_valid_endpoint E" "\<And>k. \<not> ce_wait_cancelled E k"
    and "\<And>k. ce_do E k (inv_AccessToken iv) = Inr (resp k) \<and> hr_StatusCode (resp k) = 429"
  shows "executeWithRetry X iv w = \<lparr>xr_w = httpx_WriteError 502 ErrTypeAPI ''upstream API error'' w, xr_retries = 0,
      xr_err = Some (ClientError (Upstream (upstream_error E 3 (resp 3)))), xr_usage = None, xr_payloads = [inv_payload iv]\<rparr>"
proof -
  have "callAndHandle X 1 iv w = \<lparr>hd_out = no_outcome\<lparr>TerminalErr := Some (Upstream (upstream_error E 3 (resp 3)))\<rparr>,
      hd_w = httpx_WriteError 502 ErrTypeAPI ''upstream API error'' w, hd_usage = None\<rparr>"
    using throttled_client [OF assms(2-4), of "inv_AccessToken iv" resp, OF assms(5)]
    unfolding callAndHandle_def E_def [symmetric] by simp
  then show ?thesis unfolding executeWithRetry_def Let_def by (simp only:) (simp add: no_outcome_def)
qed

text \<open>
  C13. A throttled request cools its account: when Kiro answers each of the attempts of a request
  with status 429, the client gets one 502 error, the payload is sent in no second call, the usage
  record says \<open>rate_limited\<close>, and an account that was cooled down \<open>n\<close> times in a row before is in
  cooldown from then for exactly the \<open>Retry-After\<close> of the last response, kept between 30 seconds and
  30 minutes, or without one for 30 seconds times \<open>2 ^ n\<close>, at most 30 minutes; until it ends the
  account is ready for no model and cannot be reserved.
\<close>

theorem throttled_request_cools_account:
  assumes "E = x_client X 1 (inv_payload iv)" "ce_marshals E" "ce_valid_endpoint E" "\<And>k. \<not> ce_wait_cancelled E k"
    and "\<And>k. ce_do E k (inv_AccessToken iv) = Inr (resp k) \<and> hr_StatusCode (resp k) = 429"
    and "i \<noteq> ''''" "Lookup i s = Some c" "BackoffLevel (Quota (heap s c)) = int n" "\<not> DisableCooling (heap s c)"
    and "r = executeWithRetry X iv w"
    and "x = heap (fst (markPoolOutcome V rt i model (xr_err r) (s, \<sigma>))) c"
    and "ra = parseRetryAfter E (hr_Header (resp 3) ''Retry-After'') (ce_now E 3)"
    and "d = (if 0 < ra then min (max ra (30 * second)) (30 * minute) else min (30 * second * 2 ^ n) (30 * minute))"
  shows "xr_w r = httpx_WriteError 502 ErrTypeAPI ''upstream API error'' w \<and> length (xr_payloads r) = 1 \<and>
    usageStatusFor V (xr_err r) = StatusRateLimited \<and>
    (IsInCooldown t x \<longleftrightarrow> t < oe_now1 V + d) \<and>
    (t < oe_now1 V + d \<longrightarrow> \<not> IsReadyFor t t' m x \<and> Reserve t m x = (x, False))"
proof -
  let ?ue = "upstream_error E 3 (resp 3)"
  have ue: "isRateLimitUpstreamError ?ue" "ue_RetryAfter ?ue = ra"
    using assms(5) [of 3] by (simp_all add: isRateLimitUpstreamError_def upstream_error_def Let_def assms(12))
  note ex = throttled_execute [of X iv resp w, folded assms(1), OF assms(2-5), folded assms(10)]
  have "x = heap (fst (MarkRateLimit rt (oe_now1 V) (oe_now2 V) i model ra (s, \<sigma>))) c"
    using ue assms(6) by (simp add: assms(11) ex markPoolOutcome_def)
  from rate_limit_cooldown [OF assms(7,8) this assms(13), where t = t and t' = t' and model = m] assms(9) ue ex show ?thesis
    by (simp add: usageStatusFor_def)
qed

text \<open>A service whose upstream answers every call with the given status and an empty event stream.\<close>

definition plain_handler :: handler_env where
  "plain_handler = \<lparr>h_writer = plain_env, h_json = stream_json, h_cancelled = (\<lambda>_. False), h_uuids = (\<lambda>_. ''u''), h_msg_uuid = ''u'',
     h_decode = (\<lambda>_. None), h_encodes = (\<lambda>_. True), h_floats = exact_float\<rparr>"

definition plain_exec :: "int \<Rightarrow> exec_env" where
  "plain_exec status = \<lparr>x_lib = plain_req_lib,
     x_client = (\<lambda>_ _. (quiet_client status)\<lparr>ce_media_type := (\<lambda>_. Some eventstream_type)\<rparr>),
     x_promptTokens = (\<lambda>_. 1), x_handler = (\<lambda>_. plain_handler), x_adjuster = (\<lambda>_ _. None), x_object = (\<lambda>_. None),
     x_quote = (\<lambda>s. s), x_uuid = ''u''\<rparr>"

definition plain_invocation :: invocation where
  "plain_invocation = \<lparr>inv_req = sample_request [], inv_payload = fst (BuildPayload plain_req_lib (sample_request []) sample_options),
     inv_AccessToken = ''t'', inv_ProfileARN = '''', inv_model = ''m'', inv_responseModel = ''m'', inv_contextWindowSize = 200000,
     inv_thinking = False, inv_thinkingBudget = 0, inv_toolNameMap = Map.empty, inv_tools = []\<rparr>"

definition new_client :: "answer client" where
  "new_client = \<lparr>c_body = [], c_status = [], c_flushes = []\<rparr>"


definition plain_outcome :: outcome_env where
  "plain_outcome = \<lparr>oe_lower = (\<lambda>s. s), oe_text = (\<lambda>_. ''''), oe_now1 = 100, oe_now2 = 100\<rparr>"

theorem throttled_request_cools_account_witness:
  "let s = fst (Add (Some 0) (NewDefaultScheduler (\<lambda>a. zero_credential\<lparr>ID := ''a''\<rparr>)));
       r = executeWithRetry (plain_exec 429) plain_invocation new_client;
       x = heap (fst (markPoolOutcome plain_outcome (None :: unit runtime_ops option) ''a'' ''m'' (xr_err r) (s, ()))) 0
   in c_body (xr_w r) = [ErrorJSON ErrTypeAPI ''upstream API error''] \<and> IsInCooldown (100 + 29 * second) x \<and>
      \<not> IsInCooldown (100 + 30 * second) x"
proof -
  define s where "s = fst (Add (Some 0) (NewDefaultScheduler (\<lambda>a. zero_credential\<lparr>ID := ''a''\<rparr>)))"
  define r where "r = executeWithRetry (plain_exec 429) plain_invocation new_client"
  define x where "x = heap (fst (markPoolOutcome plain_outcome (None :: unit runtime_ops option) ''a'' ''m'' (xr_err r) (s, ()))) 0"
  let ?E = "(quiet_client 429)\<lparr>ce_media_type := (\<lambda>_. Some eventstream_type)\<rparr>"
  let ?resp = "\<lambda>k :: nat. \<lparr>hr_StatusCode = 429, hr_Header = (\<lambda>h. ''''), hr_Body = \<lparr>pending_bytes = [], read_error = None\<rparr>\<rparr>"
  have s: "Lookup ''a'' s = Some 0" "BackoffLevel (Quota (heap s 0)) = int 0" "\<not> DisableCooling (heap s 0)"
    by (simp_all add: s_def Add_def upd_cred_def NewDefaultScheduler_def Lookup_def zero_credential_def zero_quota_def Let_def)
  have E: "?E = x_client (plain_exec 429) 1 (inv_payload plain_invocation)" by (simp add: plain_exec_def)
  have ra: "parseRetryAfter C '''' now = 0" for C now by (simp add: parseRetryAfter_def TrimSpace_def trim_left.simps [of "[]"] trim_right.simps [of "[]"])
  have "xr_w r = httpx_WriteError 502 ErrTypeAPI ''upstream API error'' new_client \<and> length (xr_payloads r) = 1 \<and>
    usageStatusFor plain_outcome (xr_err r) = StatusRateLimited \<and> (IsInCooldown t x \<longleftrightarrow> t < oe_now1 plain_outcome + 30 * second) \<and>
    (t < oe_now1 plain_outcome + 30 * second \<longrightarrow> \<not> IsReadyFor t 0 ''m'' x \<and> Reserve t ''m'' x = (x, False))" for t
    by (rule throttled_request_cools_account [OF E, where resp = ?resp and i = "''a''" and s = s and c = 0 and n = 0 and model = "''m''"
          and \<sigma> = "()" and rt = None])
      (simp_all add: quiet_client_def plain_invocation_def s r_def x_def ra duration_defs, simp)
  note this [of "100 + 29 * second"] this [of "100 + 30 * second"]
  then show ?thesis unfolding Let_def s_def [symmetric] r_def [symmetric] x_def [symmetric]
    by (simp add: plain_outcome_def new_client_def duration_defs)
qed

end
