(* ===== verification/Search_Loop.thy ===== *)
theory Search_Loop
  imports Request_Execute
begin

text \<open>
  \<open>internal/app/messages/toolsearch.go\<close> and \<open>runToolSearch\<close> of \<open>handler.go\<close>: a request with deferred
  tools runs in rounds. When the model calls the search tool, the search is done here, its result is
  written to the client and appended to the conversation, and the next round is sent with the tools
  that were found. The theorem: the rounds are bounded, and they make one answer.
\<close>

section \<open>Search\<close>

definition maxToolSearchRounds :: nat where "maxToolSearchRounds = 3"

text \<open>
  The environment: that of the execution, by round; the search library; the decoding of the search
  tool's input into the members \<open>query\<close> and \<open>max_results\<close>; and the identifiers.
\<close>

record search_env =
  se_exec :: exec_env
  se_lib :: search_lib
  se_input :: "string \<Rightarrow> (string \<times> float64) option"
  se_uuid :: "nat \<Rightarrow> string"
  se_msg_uuid :: string

definition clampToolSearchMaxResults :: "int \<Rightarrow> int" where
  "clampToolSearchMaxResults maxResults = (if maxResults \<le> 0 then 0 else min maxResults MaxResults)"

definition parseToolSearchInput :: "search_env \<Rightarrow> string \<Rightarrow> search_error + (string \<times> int)" where
  "parseToolSearchInput Y input =
     (case se_input Y input of
        None \<Rightarrow> Inl ErrInvalidInput
      | Some (q, mx) \<Rightarrow>
          (let query = TrimSpace q in
           if query = '''' then Inl ErrInvalidInput else Inr (query, clampToolSearchMaxResults (trunc mx))))"

definition buildSearchInput :: "string \<Rightarrow> int \<Rightarrow> jmap" where
  "buildSearchInput query maxResults =
     [(''query'', JStr query)] @ (if maxResults > 0 then [(''max_results'', JNum (of_int maxResults))] else [])"

definition fallbackSearchInput :: "search_env \<Rightarrow> string \<Rightarrow> jmap" where
  "fallbackSearchInput Y input =
     (case x_object (se_exec Y) input of
        Some (Some parsed) \<Rightarrow>
          (case map_of parsed ''query'' of Some (JStr query) \<Rightarrow> [(''query'', JStr (TrimSpace query))] | _ \<Rightarrow> []) @
          (case map_of parsed ''max_results'' of
             Some (JNum rawMax) \<Rightarrow>
               (let maxResults = clampToolSearchMaxResults (trunc rawMax)
                in if maxResults > 0 then [(''max_results'', JNum (of_int maxResults))] else [])
           | _ \<Rightarrow> [])
      | _ \<Rightarrow> [])"

definition executeSearch :: "search_env \<Rightarrow> string \<Rightarrow> int \<Rightarrow> Context \<Rightarrow> Context \<times> (search_error + string list)" where
  "executeSearch Y query maxResults ctx =
     (case Search (se_lib Y) query (ctx_DeferredTools ctx) (ctx_SearchType ctx) maxResults of
        Inr results \<Rightarrow> (PromoteTools results ctx, Inr results)
      | Inl err \<Rightarrow> (ctx, Inl err))"

text \<open>What a call of the search tool leads to: the input that is shown, the tools, and the result.\<close>

definition run_search :: "search_env \<Rightarrow> string \<Rightarrow> Context \<Rightarrow> jmap \<times> Context \<times> (search_error + string list)" where
  "run_search Y input ctx =
     (case parseToolSearchInput Y input of
        Inl err \<Rightarrow> (fallbackSearchInput Y input, ctx, Inl err)
      | Inr (query, maxResults) \<Rightarrow>
          (let (ctx, res) = executeSearch Y query maxResults ctx in (buildSearchInput query maxResults, ctx, res)))"

definition appendSearchMessages :: "search_env \<Rightarrow> Message list \<Rightarrow> string \<Rightarrow> jmap \<Rightarrow> (search_error + string list) \<Rightarrow> ToolNameMap
    \<Rightarrow> Message list" where
  "appendSearchMessages Y msgs srvToolUseID searchInput res nameMap =
     (let (txt, isError) =
            (case res of
               Inl err \<Rightarrow> (''tool search error: '' @ ErrorCode (Some err), True)
             | Inr results \<Rightarrow>
                 (''Found tools: '' @ join_strings '', '' (snd (shorten_all (q_sha (x_lib (se_exec Y))) results nameMap)), False))
      in msgs @
         [\<lparr>m_Role = ''assistant'', m_Content = MessageContent '''' (Some
             [ContentBlock BlockTypeServerToolUse '''' '''' '''' srvToolUseID KiroToolSearchName searchInput ''''
                (MessageContent '''' None) False None '''' [] None])\<rparr>,
          \<lparr>m_Role = ''user'', m_Content = MessageContent '''' (Some
             [ContentBlock BlockTypeToolResult '''' '''' '''' '''' '''' [] srvToolUseID (MessageContent txt None) isError None '''' [] None])\<rparr>])"

section \<open>Streaming rounds\<close>

text \<open>
  The tokens of earlier rounds: input, output, and raw input, output, cache reads and cache writes.
\<close>

type_synonym token_sums = "int \<times> int \<times> int \<times> int \<times> int \<times> int"

text \<open>
  The state between rounds. The gate is kept as the operations up to the last discard and the number
  of the writer's items that went into them.
\<close>

record search_state =
  ts_sw :: SSEWriter
  ts_log :: "answer gate_op list"
  ts_mark :: nat
  ts_msgs :: "Message list"
  ts_ctx :: Context
  ts_opts :: BuildOptions
  ts_retried :: bool
  ts_sums :: token_sums
  ts_payloads :: "Payload list"

record search_done =
  sd_Reason :: string
  sd_err :: "exec_error option"
  sd_w :: "answer client"
  sd_usage :: "usage_report option"
  sd_ctx :: Context
  sd_opts :: BuildOptions
  sd_retried :: bool
  sd_payloads :: "Payload list"

definition round_gate :: "answer client \<Rightarrow> search_state \<Rightarrow> answer GateWriter" where
  "round_gate w s = gate_run (ts_log s @ stream_ops (drop (ts_mark s) (w_out (ts_sw s)))) (NewGateWriter w)"

definition round_done :: "search_state \<Rightarrow> string \<Rightarrow> exec_error option \<Rightarrow> answer client \<Rightarrow> usage_report option \<Rightarrow> search_done" where
  "round_done s reason err w usage =
     \<lparr>sd_Reason = reason, sd_err = err, sd_w = w, sd_usage = usage, sd_ctx = ts_ctx s, sd_opts = ts_opts s,
      sd_retried = ts_retried s, sd_payloads = ts_payloads s\<rparr>"

definition round_error :: "writer_env \<Rightarrow> answer client \<Rightarrow> search_state \<Rightarrow> int \<Rightarrow> string \<Rightarrow> string \<Rightarrow> answer client" where
  "round_error E w s status errType message =
     (let gw = round_gate w s in
      if started (ts_sw s) \<and> IsPromoted gw then g_w (round_gate w (s\<lparr>ts_sw := WriteError E errType message (ts_sw s)\<rparr>))
      else
        (let gw = (if \<not> IsPromoted gw then Discard gw else gw)
         in httpx_WriteError status errType message (g_w gw)))"

definition add_sums :: "SSEWriter \<Rightarrow> token_sums \<Rightarrow> token_sums" where
  "add_sums sw = (\<lambda>(i, u, ri, ru, rr, rw).
     (let (inp, outp) = resolvedUsage (w_acc sw); (rawIn, rawOut) = RawUsage sw
      in (i + inp, u + outp, ri + rawIn, ru + rawOut, rr + RawCacheReadInputTokens sw, rw + RawCacheWriteInputTokens sw)))"

definition round_usage :: "handler_env \<Rightarrow> invocation \<Rightarrow> search_state \<Rightarrow> usage_report" where
  "round_usage H iv s =
     (let sw = ts_sw s; acc = w_acc sw; (i, u, ri, ru, rr, rw) = add_sums sw (ts_sums s)
      in \<lparr>m_inputTokens = i, m_outputTokens = u, m_cacheReadTokens = FinalCacheReadInputTokens sw,
          m_cacheWriteTokens = FinalCacheWriteInputTokens sw, m_rawInputTokens = ri, m_rawOutputTokens = ru,
          m_rawCacheReadTokens = rr, m_rawCacheWriteTokens = rw,
          m_contextPct = resolveContextPercent (h_floats H) (a_ContextUsagePercentage acc) (HasContextUsage acc) i
            (inv_contextWindowSize iv)\<rparr>)"

text \<open>
  The callback: that of a plain stream, but a call of the search tool ends the round. The plain
  callback also notes the kind of an upstream error, which is not used here.
\<close>

record scan_state =
  sc_st :: stream_state
  sc_found :: "string option"

definition search_callback :: "writer_env \<Rightarrow> scan_state callback" where
  "search_callback E e sc =
     (let st = sc_st sc in
      if sc_found sc \<noteq> None then (sc, True)
      else if \<not> streamErr st \<and> \<not> localStop st \<and> \<not> writeErr (ss_sw st) \<and>
        Type e = EventToolUse \<and> ToolStop e \<and> ToolName e = KiroToolSearchName
      then (sc\<lparr>sc_found := Some (ToolInput e)\<rparr>, True)
      else (let (st, b) = stream_callback E e st in (sc\<lparr>sc_st := st\<rparr>, b)))"

text \<open>The end of a round in which the search tool was not called.\<close>

definition end_round :: "search_env \<Rightarrow> invocation \<Rightarrow> answer client \<Rightarrow> handler_env \<Rightarrow> stream_end \<Rightarrow> stream_state \<Rightarrow> search_state
    \<Rightarrow> search_done + search_state" where
  "end_round Y iv w H err st s =
     (let X = se_exec Y; E = h_writer (x_handler X 0); sw = ts_sw s; gw = round_gate w s; calls = InvalidToolCalls (w_acc sw) in
      case err of
        stream_end.Failed e \<Rightarrow>
          Inl (round_done s '''' (Some (StreamError e)) (round_error E w s 502 ErrTypeAPI ''upstream stream error'') None)
      | Finished \<Rightarrow>
          if calls \<noteq> [] \<and> \<not> IsPromoted gw then
            (if ts_retried s
             then Inl (round_done s '''' (Some (ServiceError ''invalid_tool_use_persistent''))
                    (writeInvalidToolUseFallback X (inv_responseModel iv) True calls (g_w (Discard gw))) None)
             else Inr (s\<lparr>ts_log := ts_log s @ stream_ops (drop (ts_mark s) (w_out sw)) @ [GDiscard], ts_mark := length (w_out sw),
                         ts_msgs := appendInvalidToolRetryMessages X (ts_msgs s) calls, ts_retried := True,
                         ts_opts := (ts_opts s)\<lparr>bo_ConversationID := '''', bo_PreserveToolBlocks := True\<rparr>\<rparr>))
          else
            (let s = (if \<not> streamErr st \<and> \<not> localStop st then s\<lparr>ts_sw := Finish E sw\<rparr> else s); gw = round_gate w s in
             if \<not> streamErr st \<and> \<not> localStop st \<and> IsEmptyVisibleEndTurn (w_acc (ts_sw s)) \<and> \<not> IsPromoted gw
             then Inl (round_done s retryReasonEmptyVisibleEndTurn None (g_w (Discard gw)) None)
             else if \<not> streamErr st then Inl (round_done s '''' None (g_w gw) (Some (round_usage H iv s)))
             else Inl (round_done s '''' (Some (ServiceError ''upstream stream error''))
                    (if \<not> IsPromoted gw then httpx_WriteError 502 ErrTypeAPI ''upstream stream error'' (g_w (Discard gw)) else g_w gw) None)))"

text \<open>The end of a round in which the search tool was called.\<close>

definition search_round :: "search_env \<Rightarrow> nat \<Rightarrow> ToolNameMap \<Rightarrow> string \<Rightarrow> search_state \<Rightarrow> search_state" where
  "search_round Y k nameMap input s =
     (let X = se_exec Y; E = h_writer (x_handler X 0);
          srvToolUseID = ''srvtoolu_'' @ take 24 (se_uuid Y k);
          (searchInput, ctx, res) = run_search Y input (ts_ctx s);
          sw = WriteServerToolUse E srvToolUseID (ctx_SearchToolName (ts_ctx s)) (q_marshal (x_lib X) searchInput) (ts_sw s);
          sw = (case res of
                  Inl err \<Rightarrow> WriteToolSearchError E srvToolUseID (ErrorCode (Some err)) sw
                | Inr results \<Rightarrow> WriteToolSearchResult E srvToolUseID results sw)
      in s\<lparr>ts_sw := sw, ts_ctx := ctx, ts_msgs := appendSearchMessages Y (ts_msgs s) srvToolUseID searchInput res nameMap\<rparr>)"

definition stream_round :: "search_env \<Rightarrow> invocation \<Rightarrow> answer client \<Rightarrow> nat \<Rightarrow> search_state \<Rightarrow> search_done + search_state" where
  "stream_round Y iv w k s =
     (let X = se_exec Y; E = h_writer (x_handler X 0); H = x_handler X k; req = inv_req iv;
          (payload, nameMap) = BuildPayload (x_lib X) (req\<lparr>rq_Messages := ts_msgs s\<rparr>) ((ts_opts s)\<lparr>bo_ToolSearchCtx := Some (ts_ctx s)\<rparr>);
          sw = ts_sw s;
          sw = sw\<lparr>w_acc := (w_acc sw)\<lparr>toolNameMap := ReverseMap nameMap,
                 toolInputValidator := NewToolInputValidator (map (\<lambda>t. (t_Name t, t_InputSchema t)) (ctx_ActiveTools (ts_ctx s)))\<rparr>\<rparr>;
          s = s\<lparr>ts_sw := sw, ts_payloads := ts_payloads s @ [payload]\<rparr>
      in case fst (GenerateAssistantResponse (x_client X k payload) (inv_AccessToken iv)) of
           Inl err \<Rightarrow> Inl (round_done s '''' (Some (ClientError err)) (round_error E w s 502 ErrTypeAPI ''upstream API error'') None)
         | Inr apiResp \<Rightarrow>
             (let s = (if k > 0 then s\<lparr>ts_sums := add_sums sw (ts_sums s)\<rparr> else s);
                  promptTokens = x_promptTokens X payload;
                  sw = ResetAccumulator (inv_contextWindowSize iv) (rq_StopSequences req) (rq_MaxTokens req) promptTokens sw;
                  sw = sw\<lparr>w_acc := (w_acc sw)\<lparr>DropToolName := KiroToolSearchName, a_UsageAdjuster := x_adjuster X k promptTokens\<rparr>\<rparr>;
                  sc = \<lparr>sc_st = \<lparr>ss_sw = sw, streamErr = False, localStop = False, invalidReason = '''', isException = False\<rparr>, sc_found = None\<rparr>;
                  (err, sc) = ParseStream (h_json H) (h_cancelled H) (h_uuids H) (search_callback E) (hr_Body apiResp) sc;
                  s = s\<lparr>ts_sw := ss_sw (sc_st sc)\<rparr>
              in case sc_found sc of
                   None \<Rightarrow> end_round Y iv w H err (sc_st sc) s
                 | Some input \<Rightarrow> Inr (search_round Y k nameMap input s)))"

definition max_rounds :: "search_env \<Rightarrow> invocation \<Rightarrow> answer client \<Rightarrow> search_state \<Rightarrow> search_done" where
  "max_rounds Y iv w s =
     (let X = se_exec Y; s = s\<lparr>ts_sw := Finish (h_writer (x_handler X 0)) (ts_sw s)\<rparr>
      in round_done s '''' None (g_w (round_gate w s)) (Some (round_usage (x_handler X 0) iv s)))"

fun stream_rounds :: "search_env \<Rightarrow> invocation \<Rightarrow> answer client \<Rightarrow> nat list \<Rightarrow> search_state \<Rightarrow> search_done" where
  "stream_rounds Y iv w [] s = max_rounds Y iv w s"
| "stream_rounds Y iv w (k # ks) s =
     (case stream_round Y iv w k s of Inl d \<Rightarrow> d | Inr s \<Rightarrow> stream_rounds Y iv w ks s)"

definition search_handleStreaming :: "search_env \<Rightarrow> invocation \<Rightarrow> Context \<Rightarrow> BuildOptions \<Rightarrow> answer client \<Rightarrow> search_done" where
  "search_handleStreaming Y iv ctx opts w =
     (let req = inv_req iv;
          sw = NewSSEWriter (se_msg_uuid Y) (inv_responseModel iv) (inv_contextWindowSize iv) (rq_StopSequences req) (rq_MaxTokens req) 0
      in stream_rounds Y iv w [0..<maxToolSearchRounds]
           \<lparr>ts_sw = sw, ts_log = [], ts_mark = 0, ts_msgs = rq_Messages req, ts_ctx = ctx, ts_opts = opts, ts_retried = False,
            ts_sums = (0, 0, 0, 0, 0, 0), ts_payloads = []\<rparr>)"


section \<open>Non-streaming rounds\<close>

record collect_state =
  cs_acc :: responseAccumulator
  cs_hasError :: bool
  cs_found :: "string option"

definition collect_callback :: "resp_lib \<Rightarrow> collect_state callback" where
  "collect_callback L e st =
     (let (acc, d) = ProcessEvent L e (cs_acc st); st = st\<lparr>cs_acc := acc\<rparr> in
      if IsError d then (st\<lparr>cs_hasError := True\<rparr>, True)
      else if d_ToolStop d \<and> d_ToolName d = KiroToolSearchName then (st\<lparr>cs_found := Some (d_ToolInput d)\<rparr>, False)
      else (st, False))"

text \<open>
  The totals of the rounds: input, output, cache reads and writes, then the same before adjustment.
\<close>

type_synonym token_totals = "int \<times> int \<times> int \<times> int \<times> int \<times> int \<times> int \<times> int"

record buffered_state =
  bf_blocks :: "content list"
  bf_totals :: token_totals
  bf_stop :: "string \<times> string option"
  bf_msgs :: "Message list"
  bf_ctx :: Context
  bf_opts :: BuildOptions
  bf_retried :: bool
  bf_payloads :: "Payload list"

definition buffered_done :: "buffered_state \<Rightarrow> string \<Rightarrow> exec_error option \<Rightarrow> answer client \<Rightarrow> usage_report option \<Rightarrow> search_done" where
  "buffered_done s reason err w usage =
     \<lparr>sd_Reason = reason, sd_err = err, sd_w = w, sd_usage = usage, sd_ctx = bf_ctx s, sd_opts = bf_opts s,
      sd_retried = bf_retried s, sd_payloads = bf_payloads s\<rparr>"

definition reportUsageMap :: "Usage \<Rightarrow> usage_map" where
  "reportUsageMap u =
     [(''input_tokens'', max (u_InputTokens u) 0), (''output_tokens'', max (u_OutputTokens u) 0),
      (''cache_read_input_tokens'', max (u_CacheReadInputTokens u) 0),
      (''cache_creation_input_tokens'', max (u_CacheWriteInputTokens u) 0)] @
     (if u_CacheCreation5mInputTokens u > 0 \<or> u_CacheCreation1hInputTokens u > 0
      then [(''cache_creation_5m_input_tokens'', max (u_CacheCreation5mInputTokens u) 0),
            (''cache_creation_1h_input_tokens'', max (u_CacheCreation1hInputTokens u) 0)] else [])"

definition add_totals :: "NonStreamingStats \<Rightarrow> token_totals \<Rightarrow> token_totals" where
  "add_totals st = (\<lambda>(i, u, r, c, ri, ru, rr, rc).
     (i + st_InputTokens st, u + st_OutputTokens st, r + st_CacheReadInputTokens st, c + st_CacheWriteInputTokens st,
      ri + st_RawInputTokens st, ru + st_RawOutputTokens st, rr + st_RawCacheReadTokens st, rc + st_RawCacheWriteTokens st))"

text \<open>The final response of all rounds.\<close>

definition final_response :: "search_env \<Rightarrow> invocation \<Rightarrow> answer client \<Rightarrow> buffered_state \<Rightarrow> search_done" where
  "final_response Y iv w s =
     (let H = x_handler (se_exec Y) 0;
          (i, u, r, c, ri, ru, rr, rc) = bf_totals s;
          resp = \<lparr>resp_id = ''msg_'' @ take 24 (se_msg_uuid Y), resp_content = bf_blocks s, resp_model = inv_responseModel iv,
            resp_stop_reason = fst (bf_stop s), resp_stop_sequence = snd (bf_stop s),
            resp_usage = reportUsageMap \<lparr>u_InputTokens = i, u_OutputTokens = u, u_CacheReadInputTokens = r, u_CacheWriteInputTokens = c,
              u_CacheCreation5mInputTokens = 0, u_CacheCreation1hInputTokens = 0\<rparr>\<rparr>
      in if \<not> h_encodes H resp then buffered_done s '''' (Some EncodeError) (client_write [BrokenJSON resp] w) None
         else buffered_done s '''' None (client_write [ResponseJSON resp] w)
           (Some \<lparr>m_inputTokens = i, m_outputTokens = u, m_cacheReadTokens = r, m_cacheWriteTokens = c, m_rawInputTokens = ri,
              m_rawOutputTokens = ru, m_rawCacheReadTokens = rr, m_rawCacheWriteTokens = rc,
              m_contextPct = resolveContextPercent (h_floats H) 0 False i (inv_contextWindowSize iv)\<rparr>))"

text \<open>After the stream of a round: an error, a repetition, the end, or a search and the next round.\<close>

definition collected :: "search_env \<Rightarrow> invocation \<Rightarrow> answer client \<Rightarrow> nat \<Rightarrow> ToolNameMap \<Rightarrow> int \<Rightarrow> stream_end \<Rightarrow> collect_state
    \<Rightarrow> buffered_state \<Rightarrow> search_done + buffered_state" where
  "collected Y iv w k nameMap promptTokens err st s =
     (let X = se_exec Y; H = x_handler X k; calls = InvalidToolCalls (cs_acc st) in
      if (err \<noteq> Finished \<or> cs_hasError st) \<and> cs_found st = None then
        Inl (buffered_done s ''''
               (Some (case err of stream_end.Failed e \<Rightarrow> StreamError e | Finished \<Rightarrow> ServiceError ''upstream error''))
               (httpx_WriteError 502 ErrTypeAPI ''upstream error'' w) None)
      else if calls \<noteq> [] \<and> cs_found st = None then
        (if bf_retried s
         then Inl (buffered_done s '''' (Some (ServiceError ''invalid_tool_use_persistent''))
                (writeInvalidToolUseFallback X (inv_responseModel iv) False calls w) None)
         else Inr (s\<lparr>bf_msgs := appendInvalidToolRetryMessages X (bf_msgs s) calls, bf_retried := True,
                     bf_opts := (bf_opts s)\<lparr>bo_ConversationID := '''', bo_PreserveToolBlocks := True\<rparr>\<rparr>))
      else
        (let acc = (if cs_found st = None then (cs_acc st)\<lparr>a_UsageAdjuster := x_adjuster X k promptTokens\<rparr> else cs_acc st);
             (resp, stats) = buildResponseFromAcc (env_lib (h_writer H)) (h_decode H) (h_msg_uuid H) acc (inv_responseModel iv);
             s = s\<lparr>bf_totals := add_totals stats (bf_totals s), bf_stop := (resp_stop_reason resp, resp_stop_sequence resp),
                   bf_blocks := bf_blocks s @ resp_content resp\<rparr>
         in case cs_found st of
              None \<Rightarrow>
                if IsEmptyVisibleEndTurn (fst (finalizeResult acc))
                then Inl (buffered_done s retryReasonEmptyVisibleEndTurn None w None)
                else Inl (final_response Y iv w s)
            | Some input \<Rightarrow>
                (let srvToolUseID = ''srvtoolu_'' @ take 24 (se_uuid Y k);
                     (searchInput, ctx, res) = run_search Y input (bf_ctx s)
                 in Inr (s\<lparr>bf_blocks := bf_blocks s @ [CServerToolUse srvToolUseID (ctx_SearchToolName (bf_ctx s)) searchInput,
                       case res of Inl err \<Rightarrow> CToolSearchError srvToolUseID (ErrorCode (Some err)) | Inr results \<Rightarrow> CToolSearchResult srvToolUseID results],
                     bf_ctx := ctx, bf_msgs := appendSearchMessages Y (bf_msgs s) srvToolUseID searchInput res nameMap\<rparr>))))"

definition buffered_round :: "search_env \<Rightarrow> invocation \<Rightarrow> answer client \<Rightarrow> nat \<Rightarrow> buffered_state \<Rightarrow> search_done + buffered_state" where
  "buffered_round Y iv w k s =
     (let X = se_exec Y; H = x_handler X k; req = inv_req iv;
          (payload, nameMap) = BuildPayload (x_lib X) (req\<lparr>rq_Messages := bf_msgs s\<rparr>) ((bf_opts s)\<lparr>bo_ToolSearchCtx := Some (bf_ctx s)\<rparr>);
          s = s\<lparr>bf_payloads := bf_payloads s @ [payload]\<rparr>
      in case fst (GenerateAssistantResponse (x_client X k payload) (inv_AccessToken iv)) of
           Inl err \<Rightarrow> Inl (buffered_done s '''' (Some (ClientError err)) (httpx_WriteError 502 ErrTypeAPI ''upstream API error'' w) None)
         | Inr apiResp \<Rightarrow>
             (let promptTokens = x_promptTokens X payload;
                  acc = (newAccumulator (inv_contextWindowSize iv) (rq_StopSequences req) (rq_MaxTokens req) promptTokens)
                    \<lparr>DropToolName := KiroToolSearchName, toolNameMap := ReverseMap nameMap,
                     toolInputValidator := NewToolInputValidator (map (\<lambda>t. (t_Name t, t_InputSchema t)) (ctx_ActiveTools (bf_ctx s)))\<rparr>;
                  (err, st) = ParseStream (h_json H) (h_cancelled H) (h_uuids H) (collect_callback (env_lib (h_writer H))) (hr_Body apiResp)
                    \<lparr>cs_acc = acc, cs_hasError = False, cs_found = None\<rparr>
              in collected Y iv w k nameMap promptTokens err st s))"

fun buffered_rounds :: "search_env \<Rightarrow> invocation \<Rightarrow> answer client \<Rightarrow> nat list \<Rightarrow> buffered_state \<Rightarrow> search_done" where
  "buffered_rounds Y iv w [] s = final_response Y iv w s"
| "buffered_rounds Y iv w (k # ks) s =
     (case buffered_round Y iv w k s of Inl d \<Rightarrow> d | Inr s \<Rightarrow> buffered_rounds Y iv w ks s)"

definition search_handleNonStreaming :: "search_env \<Rightarrow> invocation \<Rightarrow> Context \<Rightarrow> BuildOptions \<Rightarrow> answer client \<Rightarrow> search_done" where
  "search_handleNonStreaming Y iv ctx opts w =
     buffered_rounds Y iv w [0..<maxToolSearchRounds]
       \<lparr>bf_blocks = [], bf_totals = (0, 0, 0, 0, 0, 0, 0, 0), bf_stop = ('''', None), bf_msgs = rq_Messages (inv_req iv), bf_ctx = ctx,
        bf_opts = opts, bf_retried = False, bf_payloads = []\<rparr>"

section \<open>The request\<close>

definition search_run :: "search_env \<Rightarrow> invocation \<Rightarrow> Context \<Rightarrow> BuildOptions \<Rightarrow> answer client \<Rightarrow> search_done" where
  "search_run Y iv ctx opts w =
     (if rq_Stream (inv_req iv) then search_handleStreaming Y iv ctx opts w else search_handleNonStreaming Y iv ctx opts w)"

text \<open>
  One more run when the first ended without visible output, on the tools and options the first left
  behind; \<open>Y2\<close> is the environment of the second. The payloads of both are listed.
\<close>

definition runToolSearch :: "search_env \<Rightarrow> search_env \<Rightarrow> invocation \<Rightarrow> Context \<Rightarrow> BuildOptions \<Rightarrow> answer client \<Rightarrow> search_done \<times> nat" where
  "runToolSearch Y1 Y2 iv ctx opts w =
     (let out = search_run Y1 iv ctx opts w in
      if sd_Reason out \<noteq> retryReasonEmptyVisibleEndTurn then (out, 0)
      else
        (let out2 = search_run Y2 iv (sd_ctx out) (sd_opts out) (sd_w out);
             out2 = out2\<lparr>sd_payloads := sd_payloads out @ sd_payloads out2, sd_retried := sd_retried out \<or> sd_retried out2\<rparr>
         in if sd_Reason out2 = retryReasonEmptyVisibleEndTurn
            then (out2\<lparr>sd_w := httpx_WriteError 502 ErrTypeAPI ''upstream returned empty response'' (sd_w out2), sd_Reason := '''',
                       sd_err := Some (ServiceError ''upstream returned empty response'')\<rparr>, 1)
            else (out2, 1)))"


section \<open>Bounded rounds, one answer\<close>

text \<open>No tool is lost or doubled by a search.\<close>

definition same_tools :: "Context \<Rightarrow> Context \<Rightarrow> bool" where
  "same_tools c c' \<longleftrightarrow> ctx_ok c \<longrightarrow> ctx_ok c' \<and> all_tools c' = all_tools c"

lemma same_tools_refl [simp]: "same_tools c c"
  by (simp add: same_tools_def)

lemma same_tools_trans: "same_tools a b \<Longrightarrow> same_tools b c \<Longrightarrow> same_tools a c"
  by (simp add: same_tools_def)

lemma run_search_tools: "run_search Y input c = (i, c', res) \<Longrightarrow> same_tools c c'"
  using PromoteTools_correct [of c]
  by (auto simp: run_search_def executeSearch_def same_tools_def Let_def split: sum.splits prod.splits)

text \<open>The writer during a search.\<close>

lemma block_written [simp]:
  "sound E s \<Longrightarrow> sound E (writeBlock E b d s)" "activeType (writeBlock E b d s) = ''''" "started (writeBlock E b d s) = started s"
  by (simp_all add: writeBlock_def Let_def closeActiveBlock_def split: option.split)

lemma search_blocks:
  assumes "\<And>ev. marshals E ev" "writer_ok s" "sound E s"
  shows "writer_ok (WriteServerToolUse E i n inp s)" "started (WriteServerToolUse E i n inp s)" "sound E (WriteServerToolUse E i n inp s)"
proof -
  have v: "writer_ok (fireVisibleOutput (ensureStarted E s))" "started (fireVisibleOutput (ensureStarted E s))"
    using ensureStarted_ok [OF assms(1,2)] by simp_all
  show "writer_ok (WriteServerToolUse E i n inp s)" "started (WriteServerToolUse E i n inp s)"
    unfolding WriteServerToolUse_def by (rule writeBlock_ok [OF assms(1) v]; simp)+
  show "sound E (WriteServerToolUse E i n inp s)" using assms(3) by (simp add: WriteServerToolUse_def)
qed

lemma search_round_writer:
  assumes "\<And>ev. marshals (h_writer (x_handler (se_exec Y) 0)) ev" "writer_ok (ts_sw s)" "sound (h_writer (x_handler (se_exec Y) 0)) (ts_sw s)"
  shows "writer_ok (ts_sw (search_round Y k nm input s)) \<and> sound (h_writer (x_handler (se_exec Y) 0)) (ts_sw (search_round Y k nm input s)) \<and>
    activeType (ts_sw (search_round Y k nm input s)) = ''''"
proof -
  let ?E = "h_writer (x_handler (se_exec Y) 0)"
  obtain si c res where r: "run_search Y input (ts_ctx s) = (si, c, res)" by (metis prod.collapse)
  let ?sw = "WriteServerToolUse ?E (''srvtoolu_'' @ take 24 (se_uuid Y k)) (ctx_SearchToolName (ts_ctx s)) (q_marshal (x_lib (se_exec Y)) si) (ts_sw s)"
  note b = search_blocks [OF assms]
  have "writer_ok (writeBlock ?E x None ?sw)" for x by (rule writeBlock_ok(1) [OF assms(1) b(1,2)]) simp
  with b(3) r show ?thesis
    by (cases res) (simp_all add: search_round_def Let_def WriteToolSearchError_def WriteToolSearchResult_def)
qed

lemma search_round_fields:
  "ts_log (search_round Y k nm input s) = ts_log s" "ts_mark (search_round Y k nm input s) = ts_mark s"
  "ts_retried (search_round Y k nm input s) = ts_retried s" "ts_payloads (search_round Y k nm input s) = ts_payloads s"
  "same_tools (ts_ctx s) (ts_ctx (search_round Y k nm input s))"
  using run_search_tools [of Y input "ts_ctx s"] by (simp_all add: search_round_def Let_def split: prod.split)

text \<open>The callback of a round.\<close>

definition scanning :: "writer_env \<Rightarrow> scan_state \<Rightarrow> bool" where
  "scanning E sc \<longleftrightarrow> sc_found sc = None \<and> running E (sc_st sc)"

definition scanned :: "writer_env \<Rightarrow> scan_state \<Rightarrow> bool" where
  "scanned E sc \<longleftrightarrow> (if sc_found sc = None then halted E (sc_st sc) else running E (sc_st sc))"

interpretation search: callback_contract "scanning E" "scanned E" "search_callback E" for E
proof unfold_locales
  fix sc e sc' b
  assume s: "scanning E sc" and c: "search_callback E e sc = (sc', b)"
  obtain st' b' where h: "stream_callback E e (sc_st sc) = (st', b')" by fastforce
  from s c h stream.keeps [of E "sc_st sc" e st' b'] show "if b then scanned E sc' else scanning E sc'"
    by (auto simp: scanning_def scanned_def search_callback_def Let_def split: if_splits)
qed

text \<open>The state between rounds, and what a run may end with.\<close>

definition search_inv :: "writer_env \<Rightarrow> Context \<Rightarrow> nat \<Rightarrow> search_state \<Rightarrow> bool" where
  "search_inv E c k s \<longleftrightarrow> length (ts_payloads s) = k \<and> same_tools c (ts_ctx s) \<and>
     (\<not> ts_retried s \<longrightarrow> ts_log s = [] \<and> ts_mark s = 0 \<and> writer_ok (ts_sw s) \<and> sound E (ts_sw s) \<and> activeType (ts_sw s) = '''')"

definition done_ok :: "writer_env \<Rightarrow> Context \<Rightarrow> answer client \<Rightarrow> nat \<Rightarrow> search_done \<Rightarrow> bool" where
  "done_ok E c w n d \<longleftrightarrow> length (sd_payloads d) \<le> n \<and> same_tools c (sd_ctx d) \<and> (sd_Reason d = '''' \<or> sd_Reason d = retryReasonEmptyVisibleEndTurn \<and> sd_w d = w) \<and>
     (\<not> sd_retried d \<longrightarrow> (\<exists>x. c_body (sd_w d) = c_body w @ x \<and> one_answer E x))"

lemma round_gate_plain: "ts_log s = [] \<Longrightarrow> ts_mark s = 0 \<Longrightarrow> round_gate w s = gate w (ts_sw s)"
  by (simp add: round_gate_def gate_def)

lemma round_gate_untouched: "\<not> IsPromoted (round_gate w s) \<Longrightarrow> g_w (Discard (round_gate w s)) = w"
  using gate_untouched [of "ts_log s @ stream_ops (drop (ts_mark s) (w_out (ts_sw s)))" "NewGateWriter w"]
  by (simp add: round_gate_def IsPromoted_def Discard_def NewGateWriter_def)

lemma round_error_plain:
  "ts_log s = [] \<Longrightarrow> ts_mark s = 0 \<Longrightarrow> round_error E w s st t m = writeStreamingOrJSONError E w (ts_sw s) st t m"
  by (simp add: round_error_def writeStreamingOrJSONError_def Let_def round_gate_def gate_def)

lemma end_round_ok:
  assumes m: "\<And>ev. marshals (h_writer (x_handler (se_exec Y) 0)) ev" and E: "E = h_writer (x_handler (se_exec Y) 0)"
    and p: "length (ts_payloads s) \<le> n" "same_tools c (ts_ctx s)"
    and st: "\<not> ts_retried s \<Longrightarrow> ts_log s = [] \<and> ts_mark s = 0 \<and> (running E st \<or> err = Finished \<and> halted E st) \<and> ts_sw s = ss_sw st"
  shows "case end_round Y iv w H err st s of Inl d \<Rightarrow> done_ok E c w n d
    | Inr s' \<Rightarrow> ts_retried s' \<and> ts_payloads s' = ts_payloads s \<and> ts_ctx s' = ts_ctx s"
proof (cases "ts_retried s")
  case True
  with p round_gate_untouched show ?thesis
    by (auto simp: end_round_def Let_def done_ok_def round_done_def split: stream_end.split)
next
  case False
  let ?s = "ss_sw st"
  have s: "ts_log s = []" "ts_mark s = 0" "ts_sw s = ?s" and r: "running E st \<or> err = Finished \<and> halted E st" using st [OF False] by auto
  have snd: "sound E ?s" using r by (auto simp: running_def halted_def)
  have mE: "marshals E ev" for ev using m by (simp add: E)
  note plain = round_gate_plain [OF s(1,2), of w] round_gate_plain [of "s\<lparr>ts_sw := Finish E ?s\<rparr>" w]
  show ?thesis
  proof (cases err)
    case (Failed e)
    with r have "writer_ok ?s" by (auto simp: running_def)
    from stream_error_answer [OF mE this snd] Failed p s show ?thesis
      by (simp add: end_round_def Let_def done_ok_def round_done_def round_error_plain E [symmetric])
  next
    case Finished
    consider (run) "running E st" | (stop) "halted E st" using r by blast
    then show ?thesis
    proof cases
      case run
      have f: "sound E (Finish E ?s)" "ended (Finish E ?s)" using snd Finish_ok [OF mE, of ?s] run in_phase_ended by (auto simp: running_def)
      from run Finished p s plain gate_answer [OF f, of w] gate_shut_client [of "Finish E ?s" w] False show ?thesis
        by (auto simp: end_round_def Let_def done_ok_def round_done_def running_def E [symmetric])
    next
      case stop
      then have e: "ended ?s" by (simp add: halted_def)
      from stop Finished p s plain gate_answer [OF snd e, of w] gate_shut_client [of ?s w] False show ?thesis
        by (auto simp: end_round_def Let_def done_ok_def round_done_def halted_def E [symmetric])
    qed
  qed
qed

lemma reset_ok:
  assumes "writer_ok s" "sound E s" "activeType s = ''''"
  shows "writer_ok (ResetAccumulator cw ss mt pre s)" "sound E (ResetAccumulator cw ss mt pre s)"
  using assms by (auto simp: ResetAccumulator_def Let_def writer_ok_def stands_for_def split: if_splits)

lemma stream_round_ok:
  assumes m: "\<And>ev. marshals (h_writer (x_handler (se_exec Y) 0)) ev" and E: "E = h_writer (x_handler (se_exec Y) 0)"
    and inv: "search_inv E c k s"
  shows "case stream_round Y iv w k s of Inl d \<Rightarrow> done_ok E c w (Suc k) d | Inr s' \<Rightarrow> search_inv E c (Suc k) s'"
proof -
  let ?X = "se_exec Y" and ?H = "x_handler (se_exec Y) k" and ?req = "inv_req iv"
  have mE: "marshals E ev" for ev using m by (simp add: E)
  obtain payload nm where b: "BuildPayload (x_lib ?X) (?req\<lparr>rq_Messages := ts_msgs s\<rparr>) ((ts_opts s)\<lparr>bo_ToolSearchCtx := Some (ts_ctx s)\<rparr>) = (payload, nm)"
    by fastforce
  define sw where "sw = (ts_sw s)\<lparr>w_acc := (w_acc (ts_sw s))\<lparr>toolNameMap := ReverseMap nm,
      toolInputValidator := NewToolInputValidator (map (\<lambda>t. (t_Name t, t_InputSchema t)) (ctx_ActiveTools (ts_ctx s)))\<rparr>\<rparr>"
  define s1 where "s1 = s\<lparr>ts_sw := sw, ts_payloads := ts_payloads s @ [payload]\<rparr>"
  have s1: "length (ts_payloads s1) = Suc k" "same_tools c (ts_ctx s1)" "ts_retried s1 = ts_retried s"
    "\<not> ts_retried s \<Longrightarrow> ts_log s1 = [] \<and> ts_mark s1 = 0 \<and> writer_ok (ts_sw s1) \<and> sound E (ts_sw s1) \<and> activeType sw = ''''"
    using inv by (simp_all add: search_inv_def s1_def sw_def)
  show ?thesis
  proof (cases "fst (GenerateAssistantResponse (x_client ?X k payload) (inv_AccessToken iv))")
    case (Inl err)
    then have "stream_round Y iv w k s = Inl (round_done s1 '''' (Some (ClientError err)) (round_error E w s1 502 ErrTypeAPI ''upstream API error'') None)"
      by (simp add: stream_round_def Let_def b s1_def sw_def E)
    with s1 stream_error_answer [OF mE, of "ts_sw s1" w] show ?thesis by (auto simp: done_ok_def round_done_def round_error_plain)
  next
    case (Inr resp)
    define s2 where "s2 = (if k > 0 then s1\<lparr>ts_sums := add_sums sw (ts_sums s1)\<rparr> else s1)"
    let ?pt = "x_promptTokens ?X payload"
    define sw2 where "sw2 = ResetAccumulator (inv_contextWindowSize iv) (rq_StopSequences ?req) (rq_MaxTokens ?req) ?pt sw"
    define sw3 where "sw3 = sw2\<lparr>w_acc := (w_acc sw2)\<lparr>DropToolName := KiroToolSearchName, a_UsageAdjuster := x_adjuster ?X k ?pt\<rparr>\<rparr>"
    let ?sc = "\<lparr>sc_st = \<lparr>ss_sw = sw3, streamErr = False, localStop = False, invalidReason = '''', isException = False\<rparr>, sc_found = None\<rparr>"
    obtain err sc where p: "ParseStream (h_json ?H) (h_cancelled ?H) (h_uuids ?H) (search_callback E) (hr_Body resp) ?sc = (err, sc)" by fastforce
    define s3 where "s3 = s2\<lparr>ts_sw := ss_sw (sc_st sc)\<rparr>"
    have r: "stream_round Y iv w k s = (case sc_found sc of None \<Rightarrow> end_round Y iv w ?H err (sc_st sc) s3
        | Some input \<Rightarrow> Inr (search_round Y k nm input s3))"
      unfolding stream_round_def Let_def b prod.case sw_def [symmetric] s1_def [symmetric] Inr sum.case s2_def [symmetric]
        sw2_def [symmetric] sw3_def [symmetric] E [symmetric] p s3_def [symmetric] ..
    have s3: "length (ts_payloads s3) = Suc k" "same_tools c (ts_ctx s3)" "ts_retried s3 = ts_retried s" "ts_sw s3 = ss_sw (sc_st sc)"
      "\<not> ts_retried s \<Longrightarrow> ts_log s3 = [] \<and> ts_mark s3 = 0"
      using s1 by (auto simp: s3_def s2_def)
    have scan: "scanning E sc \<or> err = Finished \<and> scanned E sc" if "\<not> ts_retried s"
    proof -
      have "running E \<lparr>ss_sw = sw3, streamErr = False, localStop = False, invalidReason = '''', isException = False\<rparr>"
        using s1(4) [OF that] reset_ok [of sw E] mE by (simp add: running_def sw3_def sw2_def s1_def)
      then have "scanning E ?sc" by (simp add: scanning_def)
      from search.ParseStream_keeps [OF this p] show ?thesis .
    qed
    show ?thesis
    proof (cases "sc_found sc")
      case None
      have "\<not> ts_retried s3 \<Longrightarrow> ts_log s3 = [] \<and> ts_mark s3 = 0 \<and> (running E (sc_st sc) \<or> err = Finished \<and> halted E (sc_st sc)) \<and> ts_sw s3 = ss_sw (sc_st sc)"
        using scan s3 None by (auto simp: scanning_def scanned_def)
      note e = end_round_ok [OF m E eq_refl [OF s3(1)] s3(2) this, where iv = iv and w = w and H = ?H]
      then show ?thesis using s3 None unfolding r by (auto simp: search_inv_def split: sum.splits)
    next
      case (Some input)
      have "writer_ok (ts_sw s3) \<and> sound E (ts_sw s3)" if "\<not> ts_retried s"
        using scan [OF that] Some s3(4) by (auto simp: scanning_def scanned_def running_def)
      then show ?thesis
        using s3 search_round_writer [OF m, where s = s3 and k = k and nm = nm and input = input]
          search_round_fields [where Y = Y and k = k and nm = nm and input = input and s = s3] same_tools_trans [OF s3(2)]
        unfolding r Some by (auto simp: search_inv_def E)
    qed
  qed
qed

lemma stream_rounds_ok:
  assumes m: "\<And>ev. marshals (h_writer (x_handler (se_exec Y) 0)) ev" and E: "E = h_writer (x_handler (se_exec Y) 0)"
  shows "search_inv E c k s \<Longrightarrow> done_ok E c w (k + length ks) (stream_rounds Y iv w [k..<k + length ks] s)"
proof (induction ks arbitrary: k s)
  case Nil
  have mE: "marshals E ev" for ev using m by (simp add: E)
  let ?s = "s\<lparr>ts_sw := Finish E (ts_sw s)\<rparr>"
  have "\<exists>x. c_body (g_w (round_gate w ?s)) = c_body w @ x \<and> one_answer E x" if "\<not> ts_retried s"
  proof -
    have "sound E (Finish E (ts_sw s))" "ended (Finish E (ts_sw s))" "ts_log ?s = []" "ts_mark ?s = 0"
      using Nil that Finish_ok [OF mE, of "ts_sw s"] in_phase_ended by (auto simp: search_inv_def)
    with gate_answer [of E "Finish E (ts_sw s)" w] round_gate_plain [of ?s w] show ?thesis by simp
  qed
  with Nil show ?case by (auto simp: max_rounds_def Let_def done_ok_def round_done_def search_inv_def E [symmetric])
next
  case (Cons x ks)
  have u: "[k..<k + length (x # ks)] = k # [Suc k..<Suc k + length ks]" by (simp add: upt_rec)
  have mono: "done_ok E c w (Suc k) d \<Longrightarrow> done_ok E c w (k + length (x # ks)) d" for d by (auto simp: done_ok_def)
  from stream_round_ok [OF m E Cons.prems, where iv = iv and w = w] Cons.IH [of "Suc k"] mono show ?case
    unfolding u by (auto split: sum.splits)
qed

lemma search_streaming_ok:
  assumes "\<And>ev. marshals (h_writer (x_handler (se_exec Y) 0)) ev"
  shows "done_ok (h_writer (x_handler (se_exec Y) 0)) ctx w 3 (search_handleStreaming Y iv ctx opts w)"
proof -
  let ?sw = "NewSSEWriter (se_msg_uuid Y) (inv_responseModel iv) (inv_contextWindowSize iv) (rq_StopSequences (inv_req iv)) (rq_MaxTokens (inv_req iv)) 0"
  have a: "activeType ?sw = ''''" by (simp add: NewSSEWriter_def)
  have u: "[0..<maxToolSearchRounds] = [0..<0 + length [(), (), ()]]" "3 = 0 + length [(), (), ()]" by (simp_all add: maxToolSearchRounds_def numeral_3_eq_3)
  show ?thesis unfolding search_handleStreaming_def Let_def u
    by (rule stream_rounds_ok [OF assms refl]) (simp add: search_inv_def new_writer_ok sound_new a)
qed

lemma final_response_ok:
  "length (bf_payloads s) \<le> n \<Longrightarrow> same_tools c (bf_ctx s) \<Longrightarrow> done_ok E c w n (final_response Y iv w s)"
  by (simp add: final_response_def Let_def done_ok_def buffered_done_def client_write_def split: prod.split)

lemma fallback_document: "\<exists>x. c_body (writeInvalidToolUseFallback X model False calls w) = c_body w @ x \<and> one_answer E x"
  by (simp add: writeInvalidToolUseFallback_def writeInvalidToolUseFallbackJSON_def Let_def client_write_def)

lemma collected_ok:
  assumes "length (bf_payloads s) = n" "same_tools c (bf_ctx s)"
  shows "case collected Y iv w k nm pt err st s of Inl d \<Rightarrow> done_ok E c w n d
    | Inr s' \<Rightarrow> length (bf_payloads s') = n \<and> same_tools c (bf_ctx s')"
proof (cases "cs_found st")
  case None
  with assms fallback_document final_response_ok [where c = c and n = n] show ?thesis
    by (auto simp: collected_def Let_def done_ok_def buffered_done_def split: prod.split)
next
  case (Some input)
  obtain si ctx res where r: "run_search Y input (bf_ctx s) = (si, ctx, res)" by (metis prod.collapse)
  from same_tools_trans [OF assms(2) run_search_tools [OF r]] assms(1) Some r show ?thesis
    by (simp add: collected_def Let_def split: prod.split)
qed

lemma buffered_rounds_ok:
  "length (bf_payloads s) = n \<Longrightarrow> same_tools c (bf_ctx s) \<Longrightarrow> done_ok E c w (n + length ks) (buffered_rounds Y iv w ks s)"
proof (induction ks arbitrary: n s)
  case Nil
  with final_response_ok [of s n c E w Y iv] show ?case by simp
next
  case (Cons k ks)
  let ?X = "se_exec Y" and ?H = "x_handler (se_exec Y) k"
  have mono: "done_ok E c w (Suc n) d \<Longrightarrow> done_ok E c w (n + length (k # ks)) d" for d by (auto simp: done_ok_def)
  have "case buffered_round Y iv w k s of Inl d \<Rightarrow> done_ok E c w (Suc n) d
    | Inr s' \<Rightarrow> length (bf_payloads s') = Suc n \<and> same_tools c (bf_ctx s')"
  proof -
    obtain payload nm where b: "BuildPayload (x_lib ?X) ((inv_req iv)\<lparr>rq_Messages := bf_msgs s\<rparr>) ((bf_opts s)\<lparr>bo_ToolSearchCtx := Some (bf_ctx s)\<rparr>) = (payload, nm)"
      by fastforce
    define s1 where "s1 = s\<lparr>bf_payloads := bf_payloads s @ [payload]\<rparr>"
    have s1: "length (bf_payloads s1) = Suc n" "same_tools c (bf_ctx s1)" using Cons.prems by (simp_all add: s1_def)
    show ?thesis
    proof (cases "fst (GenerateAssistantResponse (x_client ?X k payload) (inv_AccessToken iv))")
      case (Inl err)
      then have "buffered_round Y iv w k s = Inl (buffered_done s1 '''' (Some (ClientError err)) (httpx_WriteError 502 ErrTypeAPI ''upstream API error'' w) None)"
        by (simp add: buffered_round_def Let_def b s1_def)
      with s1 show ?thesis by (simp add: done_ok_def buffered_done_def)
    next
      case (Inr resp)
      then have "\<exists>pt err st. buffered_round Y iv w k s = collected Y iv w k nm pt err st s1"
        by (simp add: buffered_round_def Let_def b s1_def case_prod_unfold) blast
      then obtain pt err st where "buffered_round Y iv w k s = collected Y iv w k nm pt err st s1" by blast
      with collected_ok [OF s1] show ?thesis by simp
    qed
  qed
  with mono Cons.IH [of _ "Suc n"] show ?case by (auto split: sum.splits)
qed

lemma search_run_ok:
  assumes "\<And>ev. marshals (h_writer (x_handler (se_exec Y) 0)) ev"
  shows "done_ok (h_writer (x_handler (se_exec Y) 0)) ctx w 3 (search_run Y iv ctx opts w)"
proof -
  have "length [0..<maxToolSearchRounds] = 3" by (simp add: maxToolSearchRounds_def)
  with search_streaming_ok [OF assms, of ctx w iv opts]
    buffered_rounds_ok [where n = 0 and c = ctx and ks = "[0..<maxToolSearchRounds]"]
  show ?thesis by (simp add: search_run_def search_handleNonStreaming_def)
qed

text \<open>
  C5. A request with tool search is answered once and in bounded rounds: at most three upstream
  calls, or six when the first run ended without visible output; no tool is lost or doubled, however
  often the search tool is called; and unless an invalid tool call was repaired on the way, the client
  gets one error document, one response or one event stream that conforms to the protocol, also when
  searches come in the middle of it and when the rounds run out, or nothing.
\<close>

theorem tool_search_answered:
  assumes "\<And>ev. marshals (h_writer (x_handler (se_exec Y1) 0)) ev" "\<And>ev. marshals (h_writer (x_handler (se_exec Y2) 0)) ev"
    and "runToolSearch Y1 Y2 iv ctx opts w = (d, n)"
  shows "n \<le> 1 \<and> length (sd_payloads d) \<le> 3 * (n + 1) \<and> sd_Reason d = '''' \<and>
    (ctx_ok ctx \<longrightarrow> ctx_ok (sd_ctx d) \<and> all_tools (sd_ctx d) = all_tools ctx) \<and>
    (\<not> sd_retried d \<longrightarrow> (\<exists>x. c_body (sd_w d) = c_body w @ x \<and>
       (one_answer (h_writer (x_handler (se_exec Y1) 0)) x \<or> one_answer (h_writer (x_handler (se_exec Y2) 0)) x)))"
proof -
  define d1 where "d1 = search_run Y1 iv ctx opts w"
  note r1 = search_run_ok [OF assms(1), of ctx w iv opts, folded d1_def]
  show ?thesis
  proof (cases "sd_Reason d1 = retryReasonEmptyVisibleEndTurn")
    case False
    with assms(3) r1 show ?thesis by (auto simp: runToolSearch_def Let_def d1_def [symmetric] done_ok_def same_tools_def)
  next
    case True
    define d2 where "d2 = search_run Y2 iv (sd_ctx d1) (sd_opts d1) w"
    note r2 = search_run_ok [OF assms(2), of "sd_ctx d1" w iv "sd_opts d1", folded d2_def]
    have w: "sd_w d1 = w" using r1 True by (auto simp: done_ok_def retryReasonEmptyVisibleEndTurn_def)
    have t: "same_tools ctx (sd_ctx d2)" using r1 r2 same_tools_trans by (auto simp: done_ok_def)
    have l: "length (sd_payloads d1) + length (sd_payloads d2) \<le> 6" using r1 r2 by (simp add: done_ok_def)
    have "(d, n) = (let out2 = d2\<lparr>sd_payloads := sd_payloads d1 @ sd_payloads d2, sd_retried := sd_retried d1 \<or> sd_retried d2\<rparr>
        in if sd_Reason out2 = retryReasonEmptyVisibleEndTurn
           then (out2\<lparr>sd_w := httpx_WriteError 502 ErrTypeAPI ''upstream returned empty response'' (sd_w out2), sd_Reason := '''',
                      sd_err := Some (ServiceError ''upstream returned empty response'')\<rparr>, 1)
           else (out2, 1))"
      using assms(3) True unfolding runToolSearch_def Let_def d1_def [symmetric] w d2_def [symmetric] by simp
    with t l r2 show ?thesis
      by (auto simp: Let_def done_ok_def same_tools_def retryReasonEmptyVisibleEndTurn_def split: if_splits)
  qed
qed

definition plain_search :: search_env where
  "plain_search = \<lparr>se_exec = plain_exec 200, se_lib = literal_lib, se_input = (\<lambda>_. None), se_uuid = (\<lambda>_. ''u''), se_msg_uuid = ''u''\<rparr>"

definition plain_context :: Context where
  "plain_context = \<lparr>ctx_SearchType = SearchTypeRegex, ctx_SearchToolName = ''search'', ctx_DeferredTools = [(''Read'', some_tool ''Read'')],
     ctx_ActiveTools = []\<rparr>"

theorem tool_search_answered_witness:
  "\<exists>d n. runToolSearch plain_search plain_search plain_invocation plain_context sample_options new_client = (d, n) \<and>
     length (sd_payloads d) \<le> 6 \<and> sd_Reason d = '''' \<and> all_tools (sd_ctx d) = {#some_tool ''Read''#} \<and>
     (\<not> sd_retried d \<longrightarrow> one_answer plain_env (c_body (sd_w d)))"
proof -
  obtain d n where r: "runToolSearch plain_search plain_search plain_invocation plain_context sample_options new_client = (d, n)" by fastforce
  have m: "marshals (h_writer (x_handler (se_exec plain_search) 0)) ev" for ev
    by (simp add: plain_search_def plain_exec_def plain_handler_def plain_env_def)
  have c: "ctx_ok plain_context" "all_tools plain_context = {#some_tool ''Read''#}"
    by (simp_all add: plain_context_def ctx_ok_def named_entry_def some_tool_def all_tools_def)
  have e: "h_writer (x_handler (se_exec plain_search) 0) = plain_env" by (simp add: plain_search_def plain_exec_def plain_handler_def)
  from tool_search_answered [OF m m r, unfolded e] r c show ?thesis by (auto simp: new_client_def)
qed

end
