(* ===== verification/Thinking_Loop.thy ===== *)
theory Thinking_Loop
  imports Search_Loop
begin

text \<open>
  \<open>internal/app/messages/thinkingtool.go\<close>: with the experiment \<open>tool\<close> the model thinks by calling a tool.
  Each such call is answered in the conversation and the request goes on in the next round. The
  rounds share their state, and the end of a round without a thinking call, with the tool search
  loop; the tools of a search context play no part, so that field is empty here.
\<close>

section \<open>Streaming rounds\<close>

definition maxThinkingToolRounds :: nat where "maxThinkingToolRounds = 4"

definition appendThinkingToolMessages :: "exec_env \<Rightarrow> Message list \<Rightarrow> string \<Rightarrow> string \<Rightarrow> Message list" where
  "appendThinkingToolMessages X msgs uid arg =
     (let inp = (case x_object X arg of Some (Some obj) \<Rightarrow> obj | _ \<Rightarrow> [(''thought'', JStr arg)]);
          msgs = msgs @ [\<lparr>m_Role = ''assistant'', m_Content = MessageContent '''' (Some [tool_use_block uid ThinkingToolName inp])\<rparr>]
      in if q_getenv (x_lib X) ''KIROCC_EXPERIMENT_THINKING_TOOL_CONTINUE'' = ''assistant_only'' then msgs
         else msgs @ [\<lparr>m_Role = ''user'', m_Content = MessageContent '''' (Some
           [ContentBlock BlockTypeToolResult '''' '''' '''' '''' '''' [] uid (MessageContent ''ok'' None) False None '''' [] None,
            ContentBlock BlockTypeText
              ''Now provide the final answer to the user's original request. Do not call the thinking tool again.''
              '''' '''' '''' '''' [] '''' (MessageContent '''' None) False None '''' [] None])\<rparr>])"

record think_state =
  th_st :: stream_state
  th_found :: "(string \<times> string) option"

definition is_thinking_call :: "event \<Rightarrow> bool" where
  "is_thinking_call e \<longleftrightarrow> Type e = EventToolUse \<and> ToolStop e \<and> ToolName e = ThinkingToolName"

definition think_callback :: "writer_env \<Rightarrow> think_state callback" where
  "think_callback E e sc =
     (let st = th_st sc in
      if th_found sc \<noteq> None then (sc, True)
      else if \<not> streamErr st \<and> \<not> localStop st \<and> \<not> writeErr (ss_sw st) \<and> is_thinking_call e
      then (sc\<lparr>th_found := Some (ToolUseID e, ToolInput e)\<rparr>, True)
      else (let (st, b) = stream_callback E e st in (sc\<lparr>th_st := st\<rparr>, b)))"

text \<open>The stream of a round, on the writer with a new accumulator.\<close>

definition think_scan :: "search_env \<Rightarrow> invocation \<Rightarrow> nat \<Rightarrow> int \<Rightarrow> reader \<Rightarrow> SSEWriter \<Rightarrow> stream_end \<times> think_state" where
  "think_scan Y iv k promptTokens body sw =
     (let X = se_exec Y; H = x_handler X k; req = inv_req iv;
          sw = ResetAccumulator (inv_contextWindowSize iv) (rq_StopSequences req) (rq_MaxTokens req) promptTokens sw;
          sw = sw\<lparr>w_acc := (w_acc sw)\<lparr>a_UsageAdjuster := x_adjuster X k promptTokens\<rparr>\<rparr>;
          sc = \<lparr>th_st = \<lparr>ss_sw = sw, streamErr = False, localStop = False, invalidReason = '''', isException = False\<rparr>, th_found = None\<rparr>
      in ParseStream (h_json H) (h_cancelled H) (h_uuids H) (think_callback (h_writer (x_handler X 0))) body sc)"

definition think_round :: "search_env \<Rightarrow> invocation \<Rightarrow> answer client \<Rightarrow> nat \<Rightarrow> search_state \<Rightarrow> search_done + search_state" where
  "think_round Y iv w k s =
     (let X = se_exec Y; E = h_writer (x_handler X 0); H = x_handler X k; req = inv_req iv;
          (payload, nameMap) = BuildPayload (x_lib X) (req\<lparr>rq_Messages := ts_msgs s\<rparr>) (ts_opts s);
          sw = ts_sw s;
          sw = sw\<lparr>w_acc := (w_acc sw)\<lparr>toolNameMap := ReverseMap nameMap,
                 toolInputValidator := NewToolInputValidator (map (\<lambda>t. (t_Name t, t_InputSchema t)) (rq_Tools req))\<rparr>\<rparr>;
          s = s\<lparr>ts_sw := sw, ts_payloads := ts_payloads s @ [payload]\<rparr>
      in case fst (GenerateAssistantResponse (x_client X k payload) (inv_AccessToken iv)) of
           Inl err \<Rightarrow> Inl (round_done s '''' (Some (ClientError err)) (round_error E w s 502 ErrTypeAPI ''upstream API error'') None)
         | Inr apiResp \<Rightarrow>
             (let s = (if k > 0 then s\<lparr>ts_sums := add_sums sw (ts_sums s)\<rparr> else s);
                  promptTokens = x_promptTokens X payload;
                  (err, sc) = think_scan Y iv k promptTokens (hr_Body apiResp) sw;
                  s = s\<lparr>ts_sw := ss_sw (th_st sc)\<rparr>
              in case th_found sc of
                   None \<Rightarrow> end_round Y iv w H err (th_st sc) s
                 | Some (uid, arg) \<Rightarrow>
                     Inr (s\<lparr>ts_msgs := appendThinkingToolMessages X (ts_msgs s) uid arg,
                            ts_opts := (ts_opts s)\<lparr>bo_PreserveToolBlocks := True\<rparr>\<rparr>)))"

definition max_think_rounds :: "search_env \<Rightarrow> invocation \<Rightarrow> answer client \<Rightarrow> search_state \<Rightarrow> search_done" where
  "max_think_rounds Y iv w s =
     (if \<not> IsPromoted (round_gate w s) then round_done s retryReasonEmptyVisibleEndTurn None (g_w (Discard (round_gate w s))) None
      else max_rounds Y iv w s)"

fun think_rounds :: "search_env \<Rightarrow> invocation \<Rightarrow> answer client \<Rightarrow> nat list \<Rightarrow> search_state \<Rightarrow> search_done" where
  "think_rounds Y iv w [] s = max_think_rounds Y iv w s"
| "think_rounds Y iv w (k # ks) s =
     (case think_round Y iv w k s of Inl d \<Rightarrow> d | Inr s \<Rightarrow> think_rounds Y iv w ks s)"

definition no_context :: Context where
  "no_context = \<lparr>ctx_SearchType = '''', ctx_SearchToolName = '''', ctx_DeferredTools = [], ctx_ActiveTools = []\<rparr>"

definition think_handleStreaming :: "search_env \<Rightarrow> invocation \<Rightarrow> BuildOptions \<Rightarrow> answer client \<Rightarrow> search_done" where
  "think_handleStreaming Y iv opts w =
     (let req = inv_req iv;
          sw = NewSSEWriter (se_msg_uuid Y) (inv_responseModel iv) (inv_contextWindowSize iv) (rq_StopSequences req) (rq_MaxTokens req) 0
      in think_rounds Y iv w [0..<maxThinkingToolRounds]
           \<lparr>ts_sw = sw, ts_log = [], ts_mark = 0, ts_msgs = rq_Messages req, ts_ctx = no_context, ts_opts = opts, ts_retried = False,
            ts_sums = (0, 0, 0, 0, 0, 0), ts_payloads = []\<rparr>)"

section \<open>Non-streaming rounds\<close>

record think_collect =
  tc_acc :: responseAccumulator
  tc_hasError :: bool
  tc_found :: "(string \<times> string) option"

definition think_collect_callback :: "resp_lib \<Rightarrow> think_collect callback" where
  "think_collect_callback L e st =
     (if is_thinking_call e then (st\<lparr>tc_found := Some (ToolUseID e, ToolInput e)\<rparr>, True)
      else
        (let (acc, d) = ProcessEvent L e (tc_acc st); st = st\<lparr>tc_acc := acc\<rparr>
         in if IsError d then (st\<lparr>tc_hasError := True\<rparr>, True) else (st, False)))"

text \<open>The state: the last response with its statistics instead of the collected blocks.\<close>

record think_buffered =
  tb_final :: "(response \<times> NonStreamingStats) option"
  tb_totals :: token_totals
  tb_msgs :: "Message list"
  tb_opts :: BuildOptions
  tb_retried :: bool
  tb_payloads :: "Payload list"

definition think_done :: "think_buffered \<Rightarrow> string \<Rightarrow> exec_error option \<Rightarrow> answer client \<Rightarrow> usage_report option \<Rightarrow> search_done" where
  "think_done s reason err w usage =
     \<lparr>sd_Reason = reason, sd_err = err, sd_w = w, sd_usage = usage, sd_ctx = no_context, sd_opts = tb_opts s,
      sd_retried = tb_retried s, sd_payloads = tb_payloads s\<rparr>"

definition set_usage :: "string \<Rightarrow> int \<Rightarrow> usage_map \<Rightarrow> usage_map" where
  "set_usage k v u = (if k \<in> fst ` set u then map (\<lambda>(k', v'). (k', if k' = k then v else v')) u else u @ [(k, v)])"

definition think_final :: "search_env \<Rightarrow> invocation \<Rightarrow> answer client \<Rightarrow> think_buffered \<Rightarrow> search_done" where
  "think_final Y iv w s =
     (case tb_final s of
        None \<Rightarrow> think_done s '''' (Some (ServiceError ''upstream returned empty response''))
                  (httpx_WriteError 502 ErrTypeAPI ''upstream returned empty response'' w) None
      | Some (resp, stats) \<Rightarrow>
          (let H = x_handler (se_exec Y) 0;
               (i, u, r, c, ri, ru, rr, rc) = tb_totals s;
               resp = resp\<lparr>resp_usage := set_usage ''cache_creation_input_tokens'' c (set_usage ''cache_read_input_tokens'' r
                 (set_usage ''output_tokens'' u (set_usage ''input_tokens'' i (resp_usage resp))))\<rparr>
           in if \<not> h_encodes H resp then think_done s '''' (Some EncodeError) (client_write [BrokenJSON resp] w) None
              else think_done s '''' None (client_write [ResponseJSON resp] w)
                (Some \<lparr>m_inputTokens = i, m_outputTokens = u, m_cacheReadTokens = r, m_cacheWriteTokens = c, m_rawInputTokens = ri,
                   m_rawOutputTokens = ru, m_rawCacheReadTokens = rr, m_rawCacheWriteTokens = rc,
                   m_contextPct = resolveContextPercent (h_floats H) (st_ContextUsagePercentage stats) (st_HasContextUsage stats) i
                     (inv_contextWindowSize iv)\<rparr>)))"

definition think_collected :: "search_env \<Rightarrow> invocation \<Rightarrow> answer client \<Rightarrow> nat \<Rightarrow> int \<Rightarrow> stream_end \<Rightarrow> think_collect \<Rightarrow> think_buffered
    \<Rightarrow> search_done + think_buffered" where
  "think_collected Y iv w k promptTokens err st s =
     (let X = se_exec Y; H = x_handler X k; calls = InvalidToolCalls (tc_acc st) in
      if (err \<noteq> Finished \<or> tc_hasError st) \<and> tc_found st = None then
        Inl (think_done s ''''
               (Some (case err of stream_end.Failed e \<Rightarrow> StreamError e | Finished \<Rightarrow> ServiceError ''upstream error''))
               (httpx_WriteError 502 ErrTypeAPI ''upstream error'' w) None)
      else if calls \<noteq> [] \<and> tc_found st = None then
        (if tb_retried s
         then Inl (think_done s '''' (Some (ServiceError ''invalid_tool_use_persistent''))
                (writeInvalidToolUseFallback X (inv_responseModel iv) False calls w) None)
         else Inr (s\<lparr>tb_msgs := appendInvalidToolRetryMessages X (tb_msgs s) calls, tb_retried := True,
                     tb_opts := (tb_opts s)\<lparr>bo_ConversationID := '''', bo_PreserveToolBlocks := True\<rparr>\<rparr>))
      else
        (let acc = (if tc_found st = None then (tc_acc st)\<lparr>a_UsageAdjuster := x_adjuster X k promptTokens\<rparr> else tc_acc st);
             (resp, stats) = buildResponseFromAcc (env_lib (h_writer H)) (h_decode H) (h_msg_uuid H) acc (inv_responseModel iv);
             s = s\<lparr>tb_totals := add_totals stats (tb_totals s), tb_final := Some (resp, stats)\<rparr>
         in case tc_found st of
              Some (uid, arg) \<Rightarrow>
                Inr (s\<lparr>tb_msgs := appendThinkingToolMessages X (tb_msgs s) uid arg,
                       tb_opts := (tb_opts s)\<lparr>bo_PreserveToolBlocks := True\<rparr>\<rparr>)
            | None \<Rightarrow>
                if IsEmptyVisibleEndTurn (fst (finalizeResult acc))
                then Inl (think_done s retryReasonEmptyVisibleEndTurn None w None)
                else Inl (think_final Y iv w s)))"

definition think_buffered_round :: "search_env \<Rightarrow> invocation \<Rightarrow> answer client \<Rightarrow> nat \<Rightarrow> think_buffered \<Rightarrow> search_done + think_buffered" where
  "think_buffered_round Y iv w k s =
     (let X = se_exec Y; H = x_handler X k; req = inv_req iv;
          (payload, nameMap) = BuildPayload (x_lib X) (req\<lparr>rq_Messages := tb_msgs s\<rparr>) (tb_opts s);
          s = s\<lparr>tb_payloads := tb_payloads s @ [payload]\<rparr>
      in case fst (GenerateAssistantResponse (x_client X k payload) (inv_AccessToken iv)) of
           Inl err \<Rightarrow> Inl (think_done s '''' (Some (ClientError err)) (httpx_WriteError 502 ErrTypeAPI ''upstream API error'' w) None)
         | Inr apiResp \<Rightarrow>
             (let promptTokens = x_promptTokens X payload;
                  acc = (newAccumulator (inv_contextWindowSize iv) (rq_StopSequences req) (rq_MaxTokens req) promptTokens)
                    \<lparr>toolNameMap := ReverseMap nameMap,
                     toolInputValidator := NewToolInputValidator (map (\<lambda>t. (t_Name t, t_InputSchema t)) (rq_Tools req))\<rparr>;
                  (err, st) = ParseStream (h_json H) (h_cancelled H) (h_uuids H) (think_collect_callback (env_lib (h_writer H)))
                    (hr_Body apiResp) \<lparr>tc_acc = acc, tc_hasError = False, tc_found = None\<rparr>
              in think_collected Y iv w k promptTokens err st s))"

fun think_buffered_rounds :: "search_env \<Rightarrow> invocation \<Rightarrow> answer client \<Rightarrow> nat list \<Rightarrow> think_buffered \<Rightarrow> search_done" where
  "think_buffered_rounds Y iv w [] s = think_final Y iv w s"
| "think_buffered_rounds Y iv w (k # ks) s =
     (case think_buffered_round Y iv w k s of Inl d \<Rightarrow> d | Inr s \<Rightarrow> think_buffered_rounds Y iv w ks s)"

definition think_handleNonStreaming :: "search_env \<Rightarrow> invocation \<Rightarrow> BuildOptions \<Rightarrow> answer client \<Rightarrow> search_done" where
  "think_handleNonStreaming Y iv opts w =
     think_buffered_rounds Y iv w [0..<maxThinkingToolRounds]
       \<lparr>tb_final = None, tb_totals = (0, 0, 0, 0, 0, 0, 0, 0), tb_msgs = rq_Messages (inv_req iv), tb_opts = opts, tb_retried = False,
        tb_payloads = []\<rparr>"

section \<open>The request\<close>

definition think_run :: "search_env \<Rightarrow> invocation \<Rightarrow> BuildOptions \<Rightarrow> answer client \<Rightarrow> search_done" where
  "think_run Y iv opts w =
     (if rq_Stream (inv_req iv) then think_handleStreaming Y iv opts w else think_handleNonStreaming Y iv opts w)"

definition runThinkingTool :: "search_env \<Rightarrow> search_env \<Rightarrow> invocation \<Rightarrow> BuildOptions \<Rightarrow> answer client \<Rightarrow> search_done \<times> nat" where
  "runThinkingTool Y1 Y2 iv opts w =
     (let out = think_run Y1 iv opts w in
      if sd_Reason out \<noteq> retryReasonEmptyVisibleEndTurn then (out, 0)
      else
        (let out2 = think_run Y2 iv (sd_opts out) (sd_w out);
             out2 = out2\<lparr>sd_payloads := sd_payloads out @ sd_payloads out2, sd_retried := sd_retried out \<or> sd_retried out2\<rparr>
         in if sd_Reason out2 = retryReasonEmptyVisibleEndTurn
            then (out2\<lparr>sd_w := httpx_WriteError 502 ErrTypeAPI ''upstream returned empty response'' (sd_w out2), sd_Reason := '''',
                       sd_err := Some (ServiceError ''upstream returned empty response'')\<rparr>, 1)
            else (out2, 1)))"


section \<open>Bounded rounds\<close>

definition quiet_done :: "answer client \<Rightarrow> search_done \<Rightarrow> bool" where
  "quiet_done w d \<longleftrightarrow> sd_Reason d = '''' \<or> sd_Reason d = retryReasonEmptyVisibleEndTurn \<and> sd_w d = w"

lemma end_round_quiet:
  "case end_round Y iv w H err st s of Inl d \<Rightarrow> quiet_done w d \<and> sd_payloads d = ts_payloads s | Inr s' \<Rightarrow> ts_payloads s' = ts_payloads s"
  using round_gate_untouched by (auto simp: end_round_def Let_def quiet_done_def round_done_def split: stream_end.split)

lemma think_round_quiet:
  assumes "length (ts_payloads s) = k"
  shows "case think_round Y iv w k s of Inl d \<Rightarrow> quiet_done w d \<and> length (sd_payloads d) = Suc k | Inr s' \<Rightarrow> length (ts_payloads s') = Suc k"
proof -
  let ?X = "se_exec Y"
  obtain payload nm where b: "BuildPayload (x_lib ?X) ((inv_req iv)\<lparr>rq_Messages := ts_msgs s\<rparr>) (ts_opts s) = (payload, nm)" by fastforce
  define s1 where "s1 = s\<lparr>ts_payloads := ts_payloads s @ [payload]\<rparr>"
  have l: "length (ts_payloads s1) = Suc k" using assms by (simp add: s1_def)
  have e: "case end_round Y iv w H err st s' of Inl d \<Rightarrow> quiet_done w d \<and> length (sd_payloads d) = Suc k | Inr s'' \<Rightarrow> length (ts_payloads s'') = Suc k"
    if "ts_payloads s' = ts_payloads s1" for H err st s'
    using end_round_quiet [where w = w and Y = Y and iv = iv and H = H and err = err and st = st and s = s'] that l by (auto split: sum.splits)
  show ?thesis
  proof (cases "fst (GenerateAssistantResponse (x_client ?X k payload) (inv_AccessToken iv))")
    case (Inl err)
    with assms show ?thesis by (simp add: think_round_def Let_def b quiet_done_def round_done_def)
  next
    case (Inr resp)
    let ?sw = "(ts_sw s)\<lparr>w_acc := (w_acc (ts_sw s))\<lparr>toolNameMap := ReverseMap nm,
      toolInputValidator := NewToolInputValidator (map (\<lambda>t. (t_Name t, t_InputSchema t)) (rq_Tools (inv_req iv)))\<rparr>\<rparr>"
    obtain err sc where p: "think_scan Y iv k (x_promptTokens ?X payload) (hr_Body resp) ?sw = (err, sc)" by fastforce
    with Inr e l show ?thesis by (cases "th_found sc") (auto simp: think_round_def Let_def b s1_def)
  qed
qed

lemma think_rounds_quiet:
  "length (ts_payloads s) = k \<Longrightarrow> quiet_done w (think_rounds Y iv w [k..<k + length ks] s) \<and>
     length (sd_payloads (think_rounds Y iv w [k..<k + length ks] s)) \<le> k + length ks \<and>
     k \<le> length (sd_payloads (think_rounds Y iv w [k..<k + length ks] s))"
proof (induction ks arbitrary: k s)
  case Nil
  then show ?case using round_gate_untouched [of w s]
    by (simp add: max_think_rounds_def max_rounds_def Let_def quiet_done_def round_done_def)
next
  case (Cons x ks)
  have u: "[k..<k + length (x # ks)] = k # [Suc k..<Suc k + length ks]" by (simp add: upt_rec)
  show ?case
  proof (cases "think_round Y iv w k s")
    case (Inl d)
    with think_round_quiet [OF Cons.prems, where w = w and Y = Y and iv = iv] show ?thesis unfolding u by simp
  next
    case (Inr s')
    with think_round_quiet [OF Cons.prems, where w = w and Y = Y and iv = iv] Cons.IH [of s' "Suc k"] show ?thesis unfolding u by simp
  qed
qed

text \<open>The first round is that of a plain stream.\<close>

definition pondering :: "writer_env \<Rightarrow> think_state \<Rightarrow> bool" where
  "pondering E sc \<longleftrightarrow> th_found sc = None \<and> running E (th_st sc)"

definition pondered :: "writer_env \<Rightarrow> think_state \<Rightarrow> bool" where
  "pondered E sc \<longleftrightarrow> (th_found sc = None \<longrightarrow> halted E (th_st sc))"

interpretation think: callback_contract "pondering E" "pondered E" "think_callback E" for E
proof unfold_locales
  fix sc e sc' b
  assume s: "pondering E sc" and c: "think_callback E e sc = (sc', b)"
  obtain st' b' where h: "stream_callback E e (th_st sc) = (st', b')" by fastforce
  from s c h stream.keeps [of E "th_st sc" e st' b'] show "if b then pondered E sc' else pondering E sc'"
    by (auto simp: pondering_def pondered_def think_callback_def Let_def split: if_splits)
qed

lemma first_round_answer:
  assumes m: "\<And>ev. marshals (h_writer (x_handler (se_exec Y) 0)) ev" and E: "E = h_writer (x_handler (se_exec Y) 0)"
    and inv: "search_inv E c 0 s" "\<not> ts_retried s" and r: "think_round Y iv w 0 s = Inl d"
  shows "done_ok E c w 1 d"
proof -
  let ?X = "se_exec Y" and ?H = "x_handler (se_exec Y) 0" and ?req = "inv_req iv"
  have mE: "marshals E ev" for ev using m by (simp add: E)
  obtain payload nm where b: "BuildPayload (x_lib ?X) (?req\<lparr>rq_Messages := ts_msgs s\<rparr>) (ts_opts s) = (payload, nm)" by fastforce
  define sw where "sw = (ts_sw s)\<lparr>w_acc := (w_acc (ts_sw s))\<lparr>toolNameMap := ReverseMap nm,
      toolInputValidator := NewToolInputValidator (map (\<lambda>t. (t_Name t, t_InputSchema t)) (rq_Tools ?req))\<rparr>\<rparr>"
  define s1 where "s1 = s\<lparr>ts_sw := sw, ts_payloads := ts_payloads s @ [payload]\<rparr>"
  have s1: "length (ts_payloads s1) \<le> 1" "same_tools c (ts_ctx s1)" "ts_log s1 = []" "ts_mark s1 = 0" "writer_ok sw" "sound E sw"
    "activeType sw = ''''" "ts_sw s1 = sw"
    using inv by (simp_all add: search_inv_def s1_def sw_def)
  show ?thesis
  proof (cases "fst (GenerateAssistantResponse (x_client ?X 0 payload) (inv_AccessToken iv))")
    case (Inl err)
    then have "d = round_done s1 '''' (Some (ClientError err)) (round_error E w s1 502 ErrTypeAPI ''upstream API error'') None"
      using r by (simp add: think_round_def Let_def b s1_def sw_def E)
    with s1 stream_error_answer [OF mE, of "ts_sw s1" w] show ?thesis by (simp add: done_ok_def round_done_def round_error_plain)
  next
    case (Inr resp)
    let ?pt = "x_promptTokens ?X payload"
    define sw2 where "sw2 = ResetAccumulator (inv_contextWindowSize iv) (rq_StopSequences ?req) (rq_MaxTokens ?req) ?pt sw"
    define sw3 where "sw3 = sw2\<lparr>w_acc := (w_acc sw2)\<lparr>a_UsageAdjuster := x_adjuster ?X 0 ?pt\<rparr>\<rparr>"
    let ?st = "\<lparr>ss_sw = sw3, streamErr = False, localStop = False, invalidReason = '''', isException = False\<rparr>"
    obtain err sc where t: "think_scan Y iv 0 ?pt (hr_Body resp) sw = (err, sc)" by fastforce
    then have p: "ParseStream (h_json ?H) (h_cancelled ?H) (h_uuids ?H) (think_callback E) (hr_Body resp) \<lparr>th_st = ?st, th_found = None\<rparr> = (err, sc)"
      by (simp add: think_scan_def Let_def sw3_def sw2_def E)
    define s3 where "s3 = s1\<lparr>ts_sw := ss_sw (th_st sc)\<rparr>"
    have "running E ?st" using s1 reset_ok [of sw E] mE by (simp add: running_def sw3_def sw2_def)
    then have "pondering E \<lparr>th_st = ?st, th_found = None\<rparr>" by (simp add: pondering_def)
    from think.ParseStream_keeps [OF this p] have scan: "pondering E sc \<or> err = Finished \<and> pondered E sc" .
    have zero: "(0 < (0 :: nat)) = False" by simp
    have eq: "think_round Y iv w 0 s = (case th_found sc of None \<Rightarrow> end_round Y iv w ?H err (th_st sc) s3
        | Some (uid, arg) \<Rightarrow> Inr (s3\<lparr>ts_msgs := appendThinkingToolMessages ?X (ts_msgs s3) uid arg,
            ts_opts := (ts_opts s3)\<lparr>bo_PreserveToolBlocks := True\<rparr>\<rparr>))"
      unfolding think_round_def Let_def b prod.case sw_def [symmetric] s1_def [symmetric] Inr sum.case zero if_False t s3_def [symmetric] ..
    with r have n: "th_found sc = None" and d: "end_round Y iv w ?H err (th_st sc) s3 = Inl d" by (auto split: option.splits)
    have "length (ts_payloads s3) \<le> 1" "same_tools c (ts_ctx s3)" "ts_log s3 = [] \<and> ts_mark s3 = 0 \<and> (running E (th_st sc) \<or> err = Finished \<and> halted E (th_st sc)) \<and> ts_sw s3 = ss_sw (th_st sc)"
      using s1 scan n by (auto simp: s3_def pondering_def pondered_def)
    from end_round_ok [OF m E this, where iv = iv and w = w and H = ?H] d show ?thesis by simp
  qed
qed

lemma think_streaming_ok:
  assumes m: "\<And>ev. marshals (h_writer (x_handler (se_exec Y) 0)) ev" and E: "E = h_writer (x_handler (se_exec Y) 0)"
    and d: "d = think_handleStreaming Y iv opts w"
  shows "quiet_done w d \<and> 1 \<le> length (sd_payloads d) \<and> length (sd_payloads d) \<le> 4 \<and>
    (length (sd_payloads d) = 1 \<and> \<not> sd_retried d \<longrightarrow> (\<exists>x. c_body (sd_w d) = c_body w @ x \<and> one_answer E x))"
proof -
  let ?sw = "NewSSEWriter (se_msg_uuid Y) (inv_responseModel iv) (inv_contextWindowSize iv) (rq_StopSequences (inv_req iv)) (rq_MaxTokens (inv_req iv)) 0"
  define s where "s = \<lparr>ts_sw = ?sw, ts_log = [], ts_mark = 0, ts_msgs = rq_Messages (inv_req iv), ts_ctx = no_context, ts_opts = opts,
      ts_retried = False, ts_sums = (0, 0, 0, 0, 0, 0), ts_payloads = []\<rparr>"
  have u: "[0..<maxThinkingToolRounds] = 0 # 1 # [2..<2 + length [(), ()]]"
    by (simp add: maxThinkingToolRounds_def upt_rec numeral_eq_Suc)
  have d': "d = think_rounds Y iv w (0 # 1 # [2..<2 + length [(), ()]]) s"
    unfolding d think_handleStreaming_def Let_def u s_def ..
  have a: "activeType ?sw = ''''" by (simp add: NewSSEWriter_def)
  have inv: "search_inv E no_context 0 s" "\<not> ts_retried s" "length (ts_payloads s) = 0"
    by (simp_all add: s_def search_inv_def new_writer_ok sound_new a)
  note q0 = think_round_quiet [OF inv(3), where w = w and Y = Y and iv = iv]
  show ?thesis
  proof (cases "think_round Y iv w 0 s")
    case (Inl d0)
    with d' have "d = d0" by simp
    with Inl q0 first_round_answer [OF m E inv(1,2) Inl] show ?thesis by (simp add: done_ok_def)
  next
    case (Inr s1)
    then have l1: "length (ts_payloads s1) = 1" using q0 by simp
    note q1 = think_round_quiet [OF l1, where w = w and Y = Y and iv = iv]
    show ?thesis
    proof (cases "think_round Y iv w 1 s1")
      case (Inl d1)
      with d' Inr q1 show ?thesis by simp
    next
      case (Inr s2)
      then have l2: "length (ts_payloads s2) = 2" using q1 by simp
      have "d = think_rounds Y iv w [2..<2 + length [(), ()]] s2" using d' \<open>think_round Y iv w 0 s = Inr s1\<close> Inr by simp
      with think_rounds_quiet [OF l2, where w = w and Y = Y and iv = iv and ks = "[(), ()]"] show ?thesis by simp
    qed
  qed
qed

text \<open>Without streaming every run is answered by one document.\<close>

fun is_document :: "answer \<Rightarrow> bool" where
  "is_document (ErrorJSON t m) = True"
| "is_document (ResponseJSON r) = True"
| "is_document (BrokenJSON r) = True"
| "is_document _ = False"

definition document :: "answer client \<Rightarrow> search_done \<Rightarrow> bool" where
  "document w d \<longleftrightarrow> (if sd_Reason d = '''' then \<exists>a. c_body (sd_w d) = c_body w @ [a] \<and> is_document a
     else sd_Reason d = retryReasonEmptyVisibleEndTurn \<and> sd_w d = w)"

lemma think_done_document [simp]:
  "document w (think_done s '''' e (httpx_WriteError st t m w) u)"
  "document w (think_done s retryReasonEmptyVisibleEndTurn e w u)"
  "calls \<noteq> [] \<Longrightarrow> document w (think_done s '''' e (writeInvalidToolUseFallback X model False calls w) u)"
  "sd_payloads (think_done s r e w u) = tb_payloads s"
  by (simp_all add: document_def think_done_def retryReasonEmptyVisibleEndTurn_def writeInvalidToolUseFallback_def
      writeInvalidToolUseFallbackJSON_def Let_def client_write_def)

lemma think_final_document [simp]: "document w (think_final Y iv w s)" "sd_payloads (think_final Y iv w s) = tb_payloads s"
  by (simp_all add: think_final_def Let_def document_def think_done_def client_write_def split: option.split prod.split)

lemma think_collected_document:
  "case think_collected Y iv w k pt err st s of Inl d \<Rightarrow> document w d \<and> sd_payloads d = tb_payloads s | Inr s' \<Rightarrow> tb_payloads s' = tb_payloads s"
  by (simp add: think_collected_def Let_def split: prod.split option.split)

lemma think_buffered_round_document:
  "case think_buffered_round Y iv w k s of Inl d \<Rightarrow> document w d \<and> length (sd_payloads d) = Suc (length (tb_payloads s))
     | Inr s' \<Rightarrow> length (tb_payloads s') = Suc (length (tb_payloads s))"
proof -
  let ?X = "se_exec Y"
  obtain payload nm where b: "BuildPayload (x_lib ?X) ((inv_req iv)\<lparr>rq_Messages := tb_msgs s\<rparr>) (tb_opts s) = (payload, nm)" by fastforce
  let ?s = "s\<lparr>tb_payloads := tb_payloads s @ [payload]\<rparr>"
  have c: "case think_collected Y iv w k pt err st ?s of Inl d \<Rightarrow> document w d \<and> length (sd_payloads d) = Suc (length (tb_payloads s))
     | Inr s' \<Rightarrow> length (tb_payloads s') = Suc (length (tb_payloads s))" for pt err st
    using think_collected_document [where Y = Y and iv = iv and w = w and k = k and pt = pt and err = err and st = st and s = ?s]
    by (auto split: sum.splits)
  show ?thesis
  proof (cases "fst (GenerateAssistantResponse (x_client ?X k payload) (inv_AccessToken iv))")
    case (Inl err)
    then show ?thesis by (simp add: think_buffered_round_def Let_def b)
  next
    case (Inr resp)
    then have "\<exists>pt err st. think_buffered_round Y iv w k s = think_collected Y iv w k pt err st ?s"
      by (simp add: think_buffered_round_def Let_def b case_prod_unfold) blast
    then show ?thesis using c by auto
  qed
qed

lemma think_buffered_rounds_document:
  "document w (think_buffered_rounds Y iv w ks s) \<and>
   length (sd_payloads (think_buffered_rounds Y iv w ks s)) \<le> length (tb_payloads s) + length ks"
proof (induction ks arbitrary: s)
  case Nil
  then show ?case by simp
next
  case (Cons k ks)
  show ?case
  proof (cases "think_buffered_round Y iv w k s")
    case (Inl d)
    with think_buffered_round_document [where Y = Y and iv = iv and w = w and k = k and s = s] show ?thesis by simp
  next
    case (Inr s')
    with think_buffered_round_document [where Y = Y and iv = iv and w = w and k = k and s = s] Cons.IH [of s'] show ?thesis by simp
  qed
qed

lemma document_quiet: "document w d \<Longrightarrow> quiet_done w d"
  by (auto simp: document_def quiet_done_def split: if_splits)

lemma think_nonstreaming_ok:
  "document w (think_handleNonStreaming Y iv opts w)" "length (sd_payloads (think_handleNonStreaming Y iv opts w)) \<le> 4"
  unfolding think_handleNonStreaming_def
  by (rule think_buffered_rounds_document [THEN conjunct1])
    (rule order_trans [OF think_buffered_rounds_document [THEN conjunct2]], simp add: maxThinkingToolRounds_def)

text \<open>
  The thinking tool runs in bounded rounds: at most four upstream calls, or eight when the first run
  ended without visible output, after which nothing had reached the client. Without streaming the
  client gets exactly one document; a stream that ends in its first round conforms to the protocol.
\<close>

lemma thinking_tool_bounded:
  assumes "\<And>ev. marshals (h_writer (x_handler (se_exec Y1) 0)) ev" "\<And>ev. marshals (h_writer (x_handler (se_exec Y2) 0)) ev"
    and "runThinkingTool Y1 Y2 iv opts w = (d, n)"
  shows "n \<le> 1 \<and> length (sd_payloads d) \<le> 4 * (n + 1) \<and> sd_Reason d = '''' \<and>
    (\<not> rq_Stream (inv_req iv) \<longrightarrow> (\<exists>a. c_body (sd_w d) = c_body w @ [a] \<and> is_document a)) \<and>
    (rq_Stream (inv_req iv) \<and> n = 0 \<and> length (sd_payloads d) = 1 \<and> \<not> sd_retried d \<longrightarrow>
       (\<exists>x. c_body (sd_w d) = c_body w @ x \<and> one_answer (h_writer (x_handler (se_exec Y1) 0)) x))"
proof -
  let ?E1 = "h_writer (x_handler (se_exec Y1) 0)"
  have run: "quiet_done w' (think_run Y iv o' w') \<and> length (sd_payloads (think_run Y iv o' w')) \<le> 4 \<and>
      (\<not> rq_Stream (inv_req iv) \<longrightarrow> document w' (think_run Y iv o' w'))"
    if "\<And>ev. marshals (h_writer (x_handler (se_exec Y) 0)) ev" for Y o' w'
    using think_streaming_ok [OF that refl refl, where iv = iv and opts = o' and w = w'] think_nonstreaming_ok [where w = w' and Y = Y and iv = iv and opts = o']
    by (cases "rq_Stream (inv_req iv)") (simp_all add: think_run_def document_quiet)
  define d1 where "d1 = think_run Y1 iv opts w"
  note r1 = run [OF assms(1), where o' = opts and w' = w, folded d1_def]
  show ?thesis
  proof (cases "sd_Reason d1 = retryReasonEmptyVisibleEndTurn")
    case False
    then have "d = d1" "n = 0" using assms(3) by (simp_all add: runThinkingTool_def Let_def d1_def)
    with False r1 think_streaming_ok [OF assms(1) refl refl, where iv = iv and opts = opts and w = w] show ?thesis
      by (auto simp: d1_def think_run_def quiet_done_def document_def split: if_splits)
  next
    case True
    then have w: "sd_w d1 = w" using r1 by (auto simp: quiet_done_def retryReasonEmptyVisibleEndTurn_def)
    define d2 where "d2 = think_run Y2 iv (sd_opts d1) w"
    note r2 = run [OF assms(2), where o' = "sd_opts d1" and w' = w, folded d2_def]
    have "(d, n) = (let out2 = d2\<lparr>sd_payloads := sd_payloads d1 @ sd_payloads d2, sd_retried := sd_retried d1 \<or> sd_retried d2\<rparr>
        in if sd_Reason out2 = retryReasonEmptyVisibleEndTurn
           then (out2\<lparr>sd_w := httpx_WriteError 502 ErrTypeAPI ''upstream returned empty response'' (sd_w out2), sd_Reason := '''',
                      sd_err := Some (ServiceError ''upstream returned empty response'')\<rparr>, 1)
           else (out2, 1))"
      using assms(3) True unfolding runThinkingTool_def Let_def d1_def [symmetric] w d2_def [symmetric] by simp
    with r1 r2 show ?thesis
      by (auto simp: Let_def quiet_done_def document_def retryReasonEmptyVisibleEndTurn_def split: if_splits)
  qed
qed

section \<open>An open block between rounds\<close>

text \<open>
  When text was written before the thinking call, the next round forgets the open text block: it is
  never closed, and the stream violates the protocol.
\<close>

lemma thinking_call_leaves_block_open:
  "let s1 = fst (HandleEvent plain_env (zero_event\<lparr>Type := EventAssistantResponse, Content := ''hm''\<rparr>) (NewSSEWriter ''u'' ''m'' 0 [] 0 0));
       s2 = ResetAccumulator 0 [] 0 0 s1;
       s3 = Finish plain_env (fst (HandleEvent plain_env (zero_event\<lparr>Type := EventAssistantResponse, Content := ''ok''\<rparr>) s2))
   in sse_run (sent s3) Before = None"
  by code_simp

end
