(* ===== verification/Usage_Store.thy ===== *)
theory Usage_Store
  imports Request_Execute
begin

text \<open>
  \<open>internal/usage\<close>: the accounting of requests. \<open>store_memory.go\<close> keeps the most recent records in a
  ring buffer and rolls them up by account and model, by API key, by device and over time;
  \<open>aggregator.go\<close> pairs it with a persistent store that a worker feeds from a bounded queue. The
  persistent store is a PostgreSQL table and a parameter.
\<close>

section \<open>Records and queries\<close>

definition StatusInvalidRequest :: string where "StatusInvalidRequest = ''invalid_request''"

record UsageRecord =
  ur_Timestamp :: gotime
  ur_CredentialID :: string
  ur_Provider :: string
  ur_RequestPath :: string
  ur_PromptCacheProfile :: string
  ur_PromptCachePrefix :: string
  ur_RequestedModel :: string
  ur_ResolvedModel :: string
  ur_InputTokens :: int
  ur_OutputTokens :: int
  ur_CacheReadTokens :: int
  ur_CacheWriteTokens :: int
  ur_RawInputTokens :: int
  ur_RawOutputTokens :: int
  ur_RawCacheReadTokens :: int
  ur_RawCacheWriteTokens :: int
  ur_Status :: string
  ur_LatencyMs :: int
  ur_FirstTokenMs :: int
  ur_TraceID :: string
  ur_ErrorMessage :: string
  ur_Type :: string
  ur_Device :: string
  ur_DeviceID :: string
  ur_APIKeyID :: string
  ur_CreditsUsedSnapshot :: float64
  ur_CreditsTotalSnapshot :: float64

record UsageFilter =
  f_CredentialIDs :: "string list"
  f_Models :: "string list"
  f_Statuses :: "string list"
  f_APIKeyIDs :: "string list"
  f_DeviceIDs :: "string list"

record Window =
  win_Start :: gotime
  win_End :: gotime
  win_Bucket :: duration

record CellStats =
  cell_Requests :: int
  cell_Success :: int
  cell_Failed :: int
  cell_InputTokens :: int
  cell_OutputTokens :: int
  cell_CacheReadTokens :: int
  cell_CacheWriteTokens :: int
  cell_TotalLatencyMs :: int
  cell_LastSeenAt :: gotime
  cell_DeviceLabel :: string

record TimelineBucket =
  b_Start :: gotime
  b_Requests :: int
  b_Success :: int
  b_Failed :: int
  b_InputTokens :: int
  b_OutputTokens :: int
  b_CacheReadTokens :: int
  b_CacheWriteTokens :: int

record Aggregate =
  ag_TotalRequests :: int
  ag_TotalSuccess :: int
  ag_TotalFailed :: int
  ag_TotalInputTokens :: int
  ag_TotalOutputTokens :: int
  ag_TotalCacheRead :: int
  ag_TotalCacheWrite :: int
  ag_ByCredModel :: "string \<rightharpoonup> (string \<rightharpoonup> CellStats)"
  ag_ByAPIKey :: "string \<rightharpoonup> CellStats"
  ag_ByDevice :: "string \<rightharpoonup> CellStats"
  ag_Timeline :: "TimelineBucket list"

definition matchFilter :: "UsageRecord \<Rightarrow> UsageFilter \<Rightarrow> bool" where
  "matchFilter r f \<longleftrightarrow>
     (f_CredentialIDs f = [] \<or> ur_CredentialID r \<in> set (f_CredentialIDs f)) \<and>
     (f_Models f = [] \<or> ur_ResolvedModel r \<in> set (f_Models f)) \<and>
     (f_Statuses f = [] \<or> ur_Status r \<in> set (f_Statuses f)) \<and>
     (f_APIKeyIDs f = [] \<or> ur_APIKeyID r \<in> set (f_APIKeyIDs f)) \<and>
     (f_DeviceIDs f = [] \<or> ur_DeviceID r \<in> set (f_DeviceIDs f))"

definition zero_cell :: CellStats where
  "zero_cell = \<lparr>cell_Requests = 0, cell_Success = 0, cell_Failed = 0, cell_InputTokens = 0, cell_OutputTokens = 0, cell_CacheReadTokens = 0,
     cell_CacheWriteTokens = 0, cell_TotalLatencyMs = 0, cell_LastSeenAt = 0, cell_DeviceLabel = ''''\<rparr>"

definition addToCell :: "UsageRecord \<Rightarrow> CellStats \<Rightarrow> CellStats" where
  "addToCell r c =
     (let ok = ur_Status r = StatusSuccess in
      c\<lparr>cell_Requests := cell_Requests c + 1,
        cell_Success := cell_Success c + (if ok then 1 else 0),
        cell_Failed := cell_Failed c + (if ok then 0 else 1),
        cell_InputTokens := cell_InputTokens c + ur_InputTokens r,
        cell_OutputTokens := cell_OutputTokens c + ur_OutputTokens r,
        cell_CacheReadTokens := cell_CacheReadTokens c + ur_CacheReadTokens r,
        cell_CacheWriteTokens := cell_CacheWriteTokens c + ur_CacheWriteTokens r,
        cell_TotalLatencyMs := cell_TotalLatencyMs c + ur_LatencyMs r,
        cell_LastSeenAt := (if ur_Timestamp r > cell_LastSeenAt c then ur_Timestamp r else cell_LastSeenAt c)\<rparr>)"

definition cell_at :: "'k \<Rightarrow> ('k \<rightharpoonup> CellStats) \<Rightarrow> CellStats" where
  "cell_at k m = (case m k of Some c \<Rightarrow> c | None \<Rightarrow> zero_cell)"

definition applyToAggregate :: "UsageRecord \<Rightarrow> Aggregate \<Rightarrow> Aggregate" where
  "applyToAggregate r a =
     (let ok = ur_Status r = StatusSuccess;
          inner = (case ag_ByCredModel a (ur_CredentialID r) of Some m \<Rightarrow> m | None \<Rightarrow> Map.empty);
          cell = addToCell r (cell_at (ur_ResolvedModel r) inner);
          keyCell = addToCell r (cell_at (ur_APIKeyID r) (ag_ByAPIKey a));
          devCell = addToCell r (cell_at (ur_DeviceID r) (ag_ByDevice a));
          devCell = (if ur_Device r \<noteq> '''' then devCell\<lparr>cell_DeviceLabel := ur_Device r\<rparr> else devCell)
      in a\<lparr>ag_TotalRequests := ag_TotalRequests a + 1,
           ag_TotalSuccess := ag_TotalSuccess a + (if ok then 1 else 0),
           ag_TotalFailed := ag_TotalFailed a + (if ok then 0 else 1),
           ag_TotalInputTokens := ag_TotalInputTokens a + ur_InputTokens r,
           ag_TotalOutputTokens := ag_TotalOutputTokens a + ur_OutputTokens r,
           ag_TotalCacheRead := ag_TotalCacheRead a + ur_CacheReadTokens r,
           ag_TotalCacheWrite := ag_TotalCacheWrite a + ur_CacheWriteTokens r,
           ag_ByCredModel := (ag_ByCredModel a)(ur_CredentialID r \<mapsto> inner(ur_ResolvedModel r \<mapsto> cell)),
           ag_ByAPIKey := (ag_ByAPIKey a)(ur_APIKeyID r \<mapsto> keyCell),
           ag_ByDevice := (ag_ByDevice a)(ur_DeviceID r \<mapsto> devCell)\<rparr>)"

definition addToBucket :: "UsageRecord \<Rightarrow> TimelineBucket \<Rightarrow> TimelineBucket" where
  "addToBucket r b =
     (let ok = ur_Status r = StatusSuccess in
      b\<lparr>b_Requests := b_Requests b + 1,
        b_Success := b_Success b + (if ok then 1 else 0),
        b_Failed := b_Failed b + (if ok then 0 else 1),
        b_InputTokens := b_InputTokens b + ur_InputTokens r,
        b_OutputTokens := b_OutputTokens b + ur_OutputTokens r,
        b_CacheReadTokens := b_CacheReadTokens b + ur_CacheReadTokens r,
        b_CacheWriteTokens := b_CacheWriteTokens b + ur_CacheWriteTokens r\<rparr>)"

section \<open>The ring buffer\<close>

record MemoryStore =
  ms_buf :: "UsageRecord list"
  ms_head :: nat
  ms_full :: bool
  ms_cap :: nat

definition defaultMemoryCapacity :: nat where "defaultMemoryCapacity = 10000"

definition NewMemoryStore :: "int \<Rightarrow> MemoryStore" where
  "NewMemoryStore n =
     \<lparr>ms_buf = [], ms_head = 0, ms_full = False, ms_cap = (if n \<le> 0 then defaultMemoryCapacity else nat n)\<rparr>"

definition ms_Append :: "UsageRecord \<Rightarrow> MemoryStore \<Rightarrow> MemoryStore" where
  "ms_Append r m =
     (if length (ms_buf m) < ms_cap m then m\<lparr>ms_buf := ms_buf m @ [r]\<rparr>
      else m\<lparr>ms_buf := (ms_buf m)[ms_head m := r], ms_head := (ms_head m + 1) mod ms_cap m, ms_full := True\<rparr>)"

definition ms_Len :: "MemoryStore \<Rightarrow> nat" where "ms_Len m = length (ms_buf m)"

definition ms_Oldest :: "MemoryStore \<Rightarrow> gotime" where
  "ms_Oldest m =
     (if ms_buf m = [] then 0
      else if ms_full m then ur_Timestamp (ms_buf m ! ms_head m) else ur_Timestamp (ms_buf m ! 0))"

definition timeline_buckets :: "Window \<Rightarrow> TimelineBucket list" where
  "timeline_buckets w =
     (if win_Bucket w > 0 \<and> win_Start w \<le> win_End w
      then (let n = wrap64 (time_sub (win_End w) (win_Start w) + win_Bucket w - 1) div win_Bucket w
            in map (\<lambda>i. \<lparr>b_Start = win_Start w + int i * win_Bucket w, b_Requests = 0, b_Success = 0, b_Failed = 0, b_InputTokens = 0,
                 b_OutputTokens = 0, b_CacheReadTokens = 0, b_CacheWriteTokens = 0\<rparr>) [0..<nat n])
      else [])"

definition bucket_index :: "Window \<Rightarrow> UsageRecord \<Rightarrow> nat" where
  "bucket_index w r = nat (time_sub (ur_Timestamp r) (win_Start w) div win_Bucket w)"

definition in_window :: "Window \<Rightarrow> UsageRecord \<Rightarrow> bool" where
  "in_window w r \<longleftrightarrow> win_Start w \<le> ur_Timestamp r \<and> ur_Timestamp r < win_End w"

definition count_record :: "UsageFilter \<Rightarrow> Window \<Rightarrow> UsageRecord \<Rightarrow> Aggregate \<Rightarrow> Aggregate" where
  "count_record f w r a =
     (if \<not> in_window w r \<or> \<not> matchFilter r f then a
      else
        (let a = applyToAggregate r a; i = bucket_index w r
         in if win_Bucket w > 0 \<and> win_Start w \<le> win_End w \<and> i < length (ag_Timeline a)
            then a\<lparr>ag_Timeline := (ag_Timeline a)[i := addToBucket r (ag_Timeline a ! i)]\<rparr> else a))"

definition empty_aggregate :: Aggregate where
  "empty_aggregate = \<lparr>ag_TotalRequests = 0, ag_TotalSuccess = 0, ag_TotalFailed = 0, ag_TotalInputTokens = 0, ag_TotalOutputTokens = 0,
     ag_TotalCacheRead = 0, ag_TotalCacheWrite = 0, ag_ByCredModel = Map.empty, ag_ByAPIKey = Map.empty, ag_ByDevice = Map.empty,
     ag_Timeline = []\<rparr>"

definition ms_Query :: "UsageFilter \<Rightarrow> Window \<Rightarrow> MemoryStore \<Rightarrow> Aggregate" where
  "ms_Query f w m = fold (count_record f w) (ms_buf m) (empty_aggregate\<lparr>ag_Timeline := timeline_buckets w\<rparr>)"

definition recent_index :: "MemoryStore \<Rightarrow> nat \<Rightarrow> nat" where
  "recent_index m i =
     (if ms_full m then nat ((int (ms_head m) - 1 - int i + int (ms_cap m)) mod int (ms_cap m)) else length (ms_buf m) - 1 - i)"

fun recent_loop :: "MemoryStore \<Rightarrow> UsageFilter \<Rightarrow> nat \<Rightarrow> nat list \<Rightarrow> UsageRecord list \<Rightarrow> UsageRecord list" where
  "recent_loop m f limit [] out = out"
| "recent_loop m f limit (i # is) out =
     (let r = ms_buf m ! recent_index m i in
      if \<not> matchFilter r f then recent_loop m f limit is out
      else (let out = out @ [r] in if length out \<ge> limit then out else recent_loop m f limit is out))"

definition ms_Recent :: "UsageFilter \<Rightarrow> int \<Rightarrow> MemoryStore \<Rightarrow> UsageRecord list" where
  "ms_Recent f limit m = (if limit \<le> 0 then [] else recent_loop m f (nat limit) [0..<length (ms_buf m)] [])"

section \<open>The buffer holds the most recent records\<close>

text \<open>The records of the buffer, oldest first.\<close>

definition ms_records :: "MemoryStore \<Rightarrow> UsageRecord list" where
  "ms_records m = drop (ms_head m) (ms_buf m) @ take (ms_head m) (ms_buf m)"

definition ms_inv :: "MemoryStore \<Rightarrow> bool" where
  "ms_inv m \<longleftrightarrow> 0 < ms_cap m \<and> length (ms_buf m) \<le> ms_cap m \<and> ms_head m < ms_cap m \<and>
     (ms_full m \<longrightarrow> length (ms_buf m) = ms_cap m) \<and> (\<not> ms_full m \<longrightarrow> ms_head m = 0)"

lemma ms_inv_New: "ms_inv (NewMemoryStore c)"
  by (simp add: ms_inv_def NewMemoryStore_def defaultMemoryCapacity_def)

lemma ms_records_New: "ms_records (NewMemoryStore c) = []"
  by (simp add: ms_records_def NewMemoryStore_def)

lemma ms_cap_Append [simp]: "ms_cap (ms_Append r m) = ms_cap m"
  by (simp add: ms_Append_def)

lemma ms_inv_Append: "ms_inv m \<Longrightarrow> ms_inv (ms_Append r m)"
  by (auto simp: ms_inv_def ms_Append_def)

lemma rotate_update:
  assumes "h < length xs"
  shows "drop (Suc h) (xs[h := r]) @ take (Suc h) (xs[h := r]) = tl (drop h xs @ take h xs) @ [r]"
  using assms by (simp add: take_Suc_conv_app_nth drop_Suc [symmetric] tl_drop Cons_nth_drop_Suc [symmetric] )

lemma ms_records_length [simp]: "length (ms_records m) = length (ms_buf m)"
  by (simp add: ms_records_def)

lemma ms_records_Append:
  assumes "ms_inv m"
  shows "ms_records (ms_Append r m) = drop (Suc (length (ms_records m)) - ms_cap m) (ms_records m @ [r])"
proof (cases "length (ms_buf m) < ms_cap m")
  case True
  then have "ms_head m = 0" using assms by (auto simp: ms_inv_def)
  with True show ?thesis by (simp add: ms_records_def ms_Append_def)
next
  case False
  then have l: "length (ms_buf m) = ms_cap m" "ms_head m < length (ms_buf m)" using assms by (auto simp: ms_inv_def)
  have "ms_records (ms_Append r m) = tl (ms_records m) @ [r]"
  proof (cases "Suc (ms_head m) = ms_cap m")
    case True
    with rotate_update [OF l(2), of r] l show ?thesis by (simp add: ms_records_def ms_Append_def)
  next
    case False
    with l have "Suc (ms_head m) < ms_cap m" by simp
    with rotate_update [OF l(2), of r] l show ?thesis by (simp add: ms_records_def ms_Append_def)
  qed
  moreover have "ms_records m \<noteq> []" using l by (metis ms_records_length length_greater_0_conv gr_implies_not0 list.size(3))
  moreover have "length (ms_records m) = ms_cap m" using l by simp
  ultimately show ?thesis by (cases "ms_records m") simp_all
qed

lemma ms_appended:
  "let m = fold ms_Append rs (NewMemoryStore c) in ms_inv m \<and> ms_cap m = ms_cap (NewMemoryStore c) \<and>
     ms_records m = drop (length rs - ms_cap m) rs"
proof (induction rs rule: rev_induct)
  case Nil
  show ?case by (simp add: ms_inv_New ms_records_New)
next
  case (snoc r rs)
  define m where "m = fold ms_Append rs (NewMemoryStore c)"
  from snoc have *: "ms_inv m" "ms_cap m = ms_cap (NewMemoryStore c)" "ms_records m = drop (length rs - ms_cap m) rs"
    by (simp_all add: m_def Let_def)
  have "ms_records (ms_Append r m) = drop (Suc (length rs) - ms_cap m) (rs @ [r])"
    using *(3) by (cases "length rs < ms_cap m") (simp_all add: ms_records_Append [OF *(1)] Suc_diff_le)
  then show ?case using * by (simp add: m_def [symmetric] Let_def ms_inv_Append)
qed

text \<open>Going back from the newest record through the indices of the ring.\<close>

lemma recent_index_nth:
  assumes "ms_inv m" "i < length (ms_buf m)"
  shows "ms_buf m ! recent_index m i = rev (ms_records m) ! i"
proof -
  let ?n = "length (ms_buf m)" and ?h = "ms_head m"
  have r: "rev (ms_records m) ! i = ms_records m ! (?n - Suc i)" using assms(2) by (simp add: rev_nth)
  show ?thesis
  proof (cases "ms_full m")
    case False
    then have "?h = 0" using assms(1) by (simp add: ms_inv_def)
    with False r show ?thesis by (simp add: recent_index_def ms_records_def)
  next
    case True
    then have c: "?n = ms_cap m" "?h < ?n" using assms(1) by (auto simp: ms_inv_def)
    have "(int ?h - 1 - int i + int ?n) mod int ?n = (if i < ?h then int ?h - 1 - int i else int ?h - 1 - int i + int ?n)"
    proof (cases "i < ?h")
      case False
      then have "0 \<le> int ?h - 1 - int i + int ?n" "int ?h - 1 - int i + int ?n < int ?n" using assms(2) by simp_all
      with False show ?thesis by (simp only: mod_pos_pos_trivial if_False)
    qed (use c(2) in simp)
    then have "recent_index m i = (if i < ?h then ?h - Suc i else ?h + ?n - Suc i)"
      using True c assms(2) by (auto simp: recent_index_def)
    then show ?thesis using r c assms(2) by (auto simp: ms_records_def nth_append)
  qed
qed

lemma recent_loop_eq:
  assumes "ms_inv m" "\<forall>i \<in> set is. i < length (ms_buf m)" "length out < limit"
  shows "recent_loop m f limit is out =
    out @ take (limit - length out) (filter (\<lambda>r. matchFilter r f) (map (\<lambda>i. rev (ms_records m) ! i) is))"
  using assms(2,3)
proof (induction "is" arbitrary: out)
  case (Cons i "is")
  have "ms_buf m ! recent_index m i = rev (ms_records m) ! i" using recent_index_nth [OF assms(1)] Cons.prems(1) by simp
  moreover have "limit - length out = Suc (limit - Suc (length out))" using Cons.prems(2) by simp
  ultimately show ?case using Cons by (auto simp: Let_def)
qed simp

lemma ms_Recent_eq:
  assumes "ms_inv m"
  shows "ms_Recent f limit m = take (nat limit) (filter (\<lambda>r. matchFilter r f) (rev (ms_records m)))"
proof -
  have "map (\<lambda>i. rev (ms_records m) ! i) [0..<length (ms_buf m)] = rev (ms_records m)"
    by (metis map_nth length_rev ms_records_length)
  with recent_loop_eq [OF assms, of "[0..<length (ms_buf m)]" "[]" "nat limit" f] show ?thesis by (simp add: ms_Recent_def)
qed

lemma ms_Oldest_eq:
  assumes "ms_inv m" "ms_buf m \<noteq> []"
  shows "ms_Oldest m = ur_Timestamp (hd (ms_records m))"
proof -
  have "ms_head m < length (ms_buf m)" using assms by (cases "ms_full m") (auto simp: ms_inv_def)
  then show ?thesis using assms by (auto simp: ms_Oldest_def ms_records_def ms_inv_def hd_append hd_drop_conv_nth hd_conv_nth)
qed


section \<open>What a query counts\<close>

text \<open>A window whose length is a \<open>time.Duration\<close>, with room for one bucket.\<close>

definition in_range :: "Window \<Rightarrow> bool" where
  "in_range w \<longleftrightarrow> win_End w - win_Start w + win_Bucket w \<le> 2 ^ 63"

definition hit :: "UsageFilter \<Rightarrow> Window \<Rightarrow> UsageRecord \<Rightarrow> bool" where
  "hit f w r \<longleftrightarrow> in_window w r \<and> matchFilter r f"

text \<open>A figure that every counted record raises by its own share ends up as the sum of the shares.\<close>

lemma fold_count_sum:
  fixes \<phi> :: "Aggregate \<Rightarrow> int"
  assumes "\<And>r a. P a \<Longrightarrow> P (count_record f w r a)"
    and "\<And>r a. P a \<Longrightarrow> hit f w r \<Longrightarrow> \<phi> (count_record f w r a) = \<phi> a + v r" and "P a"
  shows "\<phi> (fold (count_record f w) xs a) = \<phi> a + sum_list (map v (filter (hit f w) xs))"
  using assms(3)
proof (induction xs arbitrary: a)
  case (Cons r xs)
  have "count_record f w r a = a" if "\<not> hit f w r" using that by (auto simp: count_record_def hit_def)
  with Cons assms(1,2) show ?case by (auto simp: algebra_simps)
qed simp

lemma sum_list_records:
  "sum_list (map v (filter P (ms_buf m))) = (sum_list (map v (filter P (ms_records m))) :: int)"
proof -
  have "mset (ms_buf m) = mset (ms_records m)"
    unfolding ms_records_def by (metis append_take_drop_id mset_append union_commute)
  then show ?thesis by (metis mset_filter mset_map sum_mset_sum_list)
qed

lemma Query_sum:
  fixes \<phi> :: "Aggregate \<Rightarrow> int"
  assumes "\<And>r a. hit f w r \<Longrightarrow> \<phi> (count_record f w r a) = \<phi> a + v r"
    and "\<phi> (empty_aggregate\<lparr>ag_Timeline := timeline_buckets w\<rparr>) = 0"
  shows "\<phi> (ms_Query f w m) = sum_list (map v (filter (hit f w) (ms_records m)))"
  using fold_count_sum [where P = "\<lambda>_. True" and \<phi> = \<phi> and v = v and xs = "ms_buf m"] assms by (simp add: ms_Query_def sum_list_records)

lemmas count_defs = count_record_def applyToAggregate_def Let_def hit_def empty_aggregate_def

definition cell_of :: "Aggregate \<Rightarrow> string \<Rightarrow> string \<Rightarrow> CellStats" where
  "cell_of a c k = (case ag_ByCredModel a c of Some i \<Rightarrow> cell_at k i | None \<Rightarrow> zero_cell)"

lemma cell_of_count:
  assumes "hit f w r"
  shows "cell_of (count_record f w r a) c k =
    (if ur_CredentialID r = c \<and> ur_ResolvedModel r = k then addToCell r (cell_of a c k) else cell_of a c k)"
  using assms by (auto simp: count_defs cell_of_def cell_at_def split: option.splits)

lemma index_in_range:
  assumes "in_window w r" "0 < win_Bucket w" "in_range w"
  shows "win_Start w \<le> win_End w" "bucket_index w r < length (timeline_buckets w)"
proof -
  let ?d = "win_End w - win_Start w" and ?b = "win_Bucket w" and ?o = "ur_Timestamp r - win_Start w"
  have o: "0 \<le> ?o" "?o + 1 \<le> ?d" using assms(1) by (auto simp: in_window_def)
  then show w: "win_Start w \<le> win_End w" by simp
  have sub: "time_sub (win_End w) (win_Start w) = ?d" "time_sub (ur_Timestamp r) (win_Start w) = ?o"
    using o assms(2,3) by (auto simp: time_sub_def in_range_def)
  have wrap: "wrap64 (?d + ?b - 1) = ?d + ?b - 1" using o assms(2,3) by (intro wrap64_id) (auto simp: in_range_def)
  have "?o div ?b + 1 = (?o + ?b) div ?b" using assms(2) by simp
  also have "\<dots> \<le> (?d + ?b - 1) div ?b" using o(2) assms(2) by (intro zdiv_mono1) simp_all
  finally have "?o div ?b < (?d + ?b - 1) div ?b" by simp
  moreover have "0 \<le> ?o div ?b" using o(1) assms(2) by (simp add: pos_imp_zdiv_nonneg_iff)
  ultimately show "bucket_index w r < length (timeline_buckets w)"
    using assms(2) w by (simp add: bucket_index_def timeline_buckets_def sub wrap)
qed

lemma sum_list_add_at:
  fixes g :: "'a \<Rightarrow> int"
  assumes "i < length xs" "g (h (xs ! i)) = g (xs ! i) + d"
  shows "sum_list (map g (xs[i := h (xs ! i)])) = sum_list (map g xs) + d"
  using assms
proof (induction xs arbitrary: i)
  case (Cons x xs)
  then show ?case by (cases i) simp_all
qed simp

text \<open>Every counted record falls into exactly one bucket of the timeline.\<close>

lemma timeline_sum:
  fixes g :: "TimelineBucket \<Rightarrow> int"
  assumes "0 < win_Bucket w" "in_range w" "\<And>r b. g (addToBucket r b) = g b + v r"
    and "\<forall>b \<in> set (timeline_buckets w). g b = 0"
  shows "sum_list (map g (ag_Timeline (ms_Query f w m))) = sum_list (map v (filter (hit f w) (ms_records m)))"
proof -
  let ?P = "\<lambda>a. length (ag_Timeline a) = length (timeline_buckets w)"
  have 1: "?P (count_record f w r a)" if "?P a" for r a using that by (simp add: count_record_def applyToAggregate_def Let_def)
  have 2: "sum_list (map g (ag_Timeline (count_record f w r a))) = sum_list (map g (ag_Timeline a)) + v r"
    if "?P a" "hit f w r" for r a
  proof -
    have i: "win_Start w \<le> win_End w" "bucket_index w r < length (ag_Timeline a)"
      using index_in_range [OF _ assms(1,2), of r] that by (auto simp: hit_def)
    then have "ag_Timeline (count_record f w r a) =
        (ag_Timeline a)[bucket_index w r := addToBucket r (ag_Timeline a ! bucket_index w r)]"
      using assms(1) that(2) by (simp add: count_record_def applyToAggregate_def Let_def hit_def)
    then show ?thesis using sum_list_add_at [OF i(2), of g "addToBucket r" "v r"] assms(3) by simp
  qed
  have "sum_list (map g (timeline_buckets w)) = 0" using assms(4) by (simp add: map_idI sum_list_0 cong: map_cong)
  with fold_count_sum [where P = ?P and \<phi> = "\<lambda>a. sum_list (map g (ag_Timeline a))" and v = v and xs = "ms_buf m"
      and a = "empty_aggregate\<lparr>ag_Timeline := timeline_buckets w\<rparr>", OF 1 2]
  show ?thesis by (simp add: ms_Query_def sum_list_records)
qed

lemma timeline_zero: "b \<in> set (timeline_buckets w) \<Longrightarrow> b_Requests b = 0 \<and> b_InputTokens b = 0 \<and> b_OutputTokens b = 0"
  by (auto simp: timeline_buckets_def Let_def split: if_splits)

lemma sum_list_filter_count: "sum_list (map (\<lambda>r. if P r then 1 else (0::int)) xs) = int (length (filter P xs))"
  by (induction xs) simp_all

abbreviation sum_of :: "('a \<Rightarrow> int) \<Rightarrow> 'a list \<Rightarrow> int" where
  "sum_of v xs \<equiv> sum_list (map v xs)"


definition sample_record :: "gotime \<Rightarrow> string \<Rightarrow> UsageRecord" where
  "sample_record t status =
     \<lparr>ur_Timestamp = t, ur_CredentialID = ''a'', ur_Provider = ''kiro'', ur_RequestPath = '''', ur_PromptCacheProfile = '''',
      ur_PromptCachePrefix = '''', ur_RequestedModel = ''m'', ur_ResolvedModel = ''m'', ur_InputTokens = 10, ur_OutputTokens = 2,
      ur_CacheReadTokens = 0, ur_CacheWriteTokens = 0, ur_RawInputTokens = 10, ur_RawOutputTokens = 2, ur_RawCacheReadTokens = 0,
      ur_RawCacheWriteTokens = 0, ur_Status = status, ur_LatencyMs = 1, ur_FirstTokenMs = 1, ur_TraceID = '''', ur_ErrorMessage = '''',
      ur_Type = ''stream'', ur_Device = '''', ur_DeviceID = '''', ur_APIKeyID = '''', ur_CreditsUsedSnapshot = 0, ur_CreditsTotalSnapshot = 0\<rparr>"

definition any_filter :: UsageFilter where
  "any_filter = \<lparr>f_CredentialIDs = [], f_Models = [], f_Statuses = [], f_APIKeyIDs = [], f_DeviceIDs = []\<rparr>"



section \<open>The aggregator\<close>

text \<open>
  The persistent store, with its error values as strings. The queue of the worker is a list; a step of
  the worker takes its first record. A failed write is logged and dropped.
\<close>

record 'p store_ops =
  so_Append :: "UsageRecord \<Rightarrow> 'p \<Rightarrow> 'p option"
  so_Query :: "UsageFilter \<Rightarrow> Window \<Rightarrow> 'p \<Rightarrow> string + Aggregate"
  so_Recent :: "UsageFilter \<Rightarrow> int \<Rightarrow> 'p \<Rightarrow> string + UsageRecord list"

definition writeBufferSize :: nat where "writeBufferSize = 4096"

record 'p aggregator =
  da_mem :: "MemoryStore option"
  da_store :: "('p store_ops \<times> 'p) option"
  da_writes :: "UsageRecord list"
  da_closed :: bool

definition NewAggregator :: "MemoryStore option \<Rightarrow> ('p store_ops \<times> 'p) option \<Rightarrow> 'p aggregator" where
  "NewAggregator mem persistent = \<lparr>da_mem = mem, da_store = persistent, da_writes = [], da_closed = False\<rparr>"

definition Publish :: "UsageRecord \<Rightarrow> 'p aggregator \<Rightarrow> 'p aggregator" where
  "Publish r a =
     (let a = a\<lparr>da_mem := map_option (ms_Append r) (da_mem a)\<rparr> in
      if da_store a = None then a
      else if da_closed a then a
      else if length (da_writes a) < writeBufferSize then a\<lparr>da_writes := da_writes a @ [r]\<rparr>
      else a)"

definition write_one :: "'p aggregator \<Rightarrow> 'p aggregator" where
  "write_one a =
     (case (da_writes a, da_store a) of
        (r # rs, Some (ops, p)) \<Rightarrow>
          a\<lparr>da_writes := rs, da_store := Some (ops, case so_Append ops r p of Some p' \<Rightarrow> p' | None \<Rightarrow> p)\<rparr>
      | _ \<Rightarrow> a)"

text \<open>Closing the queue lets the worker write what is left, and waits for it.\<close>

definition agg_Close :: "'p aggregator \<Rightarrow> 'p aggregator" where
  "agg_Close a = (if da_closed a then a else (write_one ^^ length (da_writes a)) (a\<lparr>da_closed := True\<rparr>))"

definition agg_Query :: "UsageFilter \<Rightarrow> Window \<Rightarrow> 'p aggregator \<Rightarrow> string + Aggregate" where
  "agg_Query f w a =
     (case (da_mem a, da_store a) of
        (Some m, Some (ops, p)) \<Rightarrow>
          if ms_Len m > 0 \<and> ms_Oldest m \<le> win_Start w then Inr (ms_Query f w m) else so_Query ops f w p
      | (Some m, None) \<Rightarrow> Inr (ms_Query f w m)
      | (None, Some (ops, p)) \<Rightarrow> so_Query ops f w p
      | (None, None) \<Rightarrow> Inl ''usage: no store configured'')"

fun supplement :: "string set \<Rightarrow> int \<Rightarrow> UsageRecord list \<Rightarrow> UsageRecord list \<Rightarrow> UsageRecord list" where
  "supplement seen limit [] out = out"
| "supplement seen limit (r # rs) out =
     (if ur_TraceID r \<in> seen then supplement seen limit rs out
      else (let out = out @ [r] in if int (length out) \<ge> limit then out else supplement seen limit rs out))"

definition agg_Recent :: "UsageFilter \<Rightarrow> int \<Rightarrow> 'p aggregator \<Rightarrow> string + UsageRecord list" where
  "agg_Recent f limit a =
     (case (da_mem a, da_store a) of
        (Some m, st) \<Rightarrow>
          (let out = ms_Recent f limit m in
           case st of
             None \<Rightarrow> Inr out
           | Some (ops, p) \<Rightarrow>
               if int (length out) \<ge> limit then Inr out
               else (case so_Recent ops f limit p of
                       Inl _ \<Rightarrow> Inr out
                     | Inr fromSQL \<Rightarrow> Inr (supplement (ur_TraceID ` set out) limit fromSQL out)))
      | (None, Some (ops, p)) \<Rightarrow> so_Recent ops f limit p
      | (None, None) \<Rightarrow> Inl ''usage: no store configured'')"

text \<open>Requests publish records while the worker writes them.\<close>

datatype agg_step = Published UsageRecord | Wrote

fun agg_run :: "agg_step list \<Rightarrow> 'p aggregator \<Rightarrow> 'p aggregator" where
  "agg_run [] a = a"
| "agg_run (Published r # ss) a = agg_run ss (Publish r a)"
| "agg_run (Wrote # ss) a = agg_run ss (write_one a)"

definition published :: "agg_step list \<Rightarrow> UsageRecord list" where
  "published ss = concat (map (\<lambda>s. case s of Published r \<Rightarrow> [r] | Wrote \<Rightarrow> []) ss)"

definition list_store :: "UsageRecord list store_ops" where
  "list_store = \<lparr>so_Append = (\<lambda>r p. Some (p @ [r])), so_Query = (\<lambda>_ _ _. Inl ''''), so_Recent = (\<lambda>f n p. Inr (rev p))\<rparr>"

text \<open>
  Against a store that only keeps a list: what was written and what waits, in this order, are records
  that were published, in the order of publication; all of them while no more were published than the
  queue holds; and closing writes what waits.
\<close>

lemma write_one_list:
  "write_one \<lparr>da_mem = m, da_store = Some (list_store, p), da_writes = q, da_closed = c\<rparr> =
     \<lparr>da_mem = m, da_store = Some (list_store, p @ take 1 q), da_writes = drop 1 q, da_closed = c\<rparr>"
  by (cases q) (simp_all add: write_one_def list_store_def)

lemma drain_list:
  "(write_one ^^ n) \<lparr>da_mem = m, da_store = Some (list_store, p), da_writes = q, da_closed = c\<rparr> =
     \<lparr>da_mem = m, da_store = Some (list_store, p @ take n q), da_writes = drop n q, da_closed = c\<rparr>"
proof (induction n)
  case (Suc n)
  have "take (Suc n) q = take n q @ take 1 (drop n q)" using take_add [of n 1 q] by simp
  with Suc show ?case by (simp add: write_one_list)
qed simp

definition on_list :: "UsageRecord list aggregator \<Rightarrow> UsageRecord list \<Rightarrow> bool" where
  "on_list a p \<longleftrightarrow> da_store a = Some (list_store, p) \<and> \<not> da_closed a"

lemma on_list_eq:
  "on_list a p \<longleftrightarrow> a = \<lparr>da_mem = da_mem a, da_store = Some (list_store, p), da_writes = da_writes a, da_closed = False\<rparr>"
  by (cases a) (auto simp: on_list_def)

lemma Publish_list: "on_list a p \<Longrightarrow> on_list (Publish r a) p \<and>
    da_writes (Publish r a) = (if length (da_writes a) < writeBufferSize then da_writes a @ [r] else da_writes a)"
  by (simp add: on_list_def Publish_def Let_def)

lemma wrote_list: "on_list a p \<Longrightarrow> on_list (write_one a) (p @ take 1 (da_writes a)) \<and> da_writes (write_one a) = drop 1 (da_writes a)"
  using write_one_list [of "da_mem a" p "da_writes a" False] by (simp add: on_list_eq [of a]) (auto simp: on_list_def)

lemma agg_run_list:
  assumes "on_list a p"
  shows "\<exists>p'. on_list (agg_run ss a) p' \<and> subseq (p' @ da_writes (agg_run ss a)) (p @ da_writes a @ published ss) \<and>
    (length (da_writes a) + length (published ss) \<le> writeBufferSize \<longrightarrow>
      p' @ da_writes (agg_run ss a) = p @ da_writes a @ published ss)"
  using assms
proof (induction ss a arbitrary: p rule: agg_run.induct)
  case (1 a)
  then show ?case by (auto simp: published_def)
next
  case (2 r ss a)
  note P = Publish_list [OF 2(2), of r]
  from 2(1) [OF P [THEN conjunct1]] obtain p' where p': "on_list (agg_run ss (Publish r a)) p'"
    "subseq (p' @ da_writes (agg_run ss (Publish r a))) (p @ da_writes (Publish r a) @ published ss)"
    "length (da_writes (Publish r a)) + length (published ss) \<le> writeBufferSize \<longrightarrow>
      p' @ da_writes (agg_run ss (Publish r a)) = p @ da_writes (Publish r a) @ published ss" by blast
  have "subseq (p @ da_writes (Publish r a) @ published ss) (p @ da_writes a @ published (Published r # ss))"
    using P by (auto simp: published_def intro!: list_emb_append_mono list_emb_Cons)
  with p' P show ?case by (auto simp: published_def intro: subseq_order.trans)
next
  case (3 ss a)
  note W = wrote_list [OF 3(2)]
  have e: "(p @ take 1 (da_writes a)) @ drop 1 (da_writes a) @ published ss = p @ da_writes a @ published (Wrote # ss)"
    by (simp add: published_def append_assoc [symmetric] del: append_assoc) (simp add: append_assoc)
  from 3(1) [OF W [THEN conjunct1]] obtain p' where "on_list (agg_run ss (write_one a)) p'"
    "subseq (p' @ da_writes (agg_run ss (write_one a))) (p @ da_writes a @ published (Wrote # ss))"
    "length (drop 1 (da_writes a)) + length (published ss) \<le> writeBufferSize \<longrightarrow>
      p' @ da_writes (agg_run ss (write_one a)) = p @ da_writes a @ published (Wrote # ss)" by (auto simp only: W [THEN conjunct2] e)
  then show ?case by (intro exI [of _ p']) (auto simp: published_def)
qed

lemma records_reach_the_store:
  assumes "a = agg_Close (agg_run ss (NewAggregator mem (Some (list_store, []))))"
  shows "\<exists>p. da_store a = Some (list_store, p) \<and> da_writes a = [] \<and> subseq p (published ss) \<and>
    (length (published ss) \<le> writeBufferSize \<longrightarrow> p = published ss)"
proof -
  let ?b = "agg_run ss (NewAggregator mem (Some (list_store, [])))"
  have "on_list (NewAggregator mem (Some (list_store, []))) []" by (simp add: on_list_def NewAggregator_def)
  from agg_run_list [OF this, of ss] obtain p where p: "on_list ?b p" "subseq (p @ da_writes ?b) (published ss)"
    "length (published ss) \<le> writeBufferSize \<longrightarrow> p @ da_writes ?b = published ss" by (auto simp: NewAggregator_def)
  have "a = (write_one ^^ length (da_writes ?b)) (?b\<lparr>da_closed := True\<rparr>)" using assms p(1) by (simp add: agg_Close_def on_list_def)
  also have "?b\<lparr>da_closed := True\<rparr> = \<lparr>da_mem = da_mem ?b, da_store = Some (list_store, p), da_writes = da_writes ?b, da_closed = True\<rparr>"
    using p(1) by (cases ?b) (simp add: on_list_def)
  finally show ?thesis using p(2,3) by (simp add: drain_list)
qed

text \<open>What the memory lists is never repeated from the persistent store, and the limit is kept.\<close>

lemma supplement_ok:
  assumes "int (length out) < limit"
  shows "\<exists>more. supplement seen limit rs out = out @ more \<and> subseq more rs \<and> ur_TraceID ` set more \<inter> seen = {} \<and>
    int (length (out @ more)) \<le> limit"
  using assms
proof (induction rs arbitrary: out)
  case (Cons r rs)
  consider "ur_TraceID r \<in> seen" | "ur_TraceID r \<notin> seen" "int (length (out @ [r])) \<ge> limit"
    | "ur_TraceID r \<notin> seen" "int (length (out @ [r])) < limit" by linarith
  then show ?case
  proof cases
    case 1
    with Cons.IH [OF Cons.prems] show ?thesis by auto
  next
    case 2
    with Cons.prems show ?thesis by (intro exI [of _ "[r]"]) auto
  next
    case 3
    from Cons.IH [OF 3(2)] obtain more where "supplement seen limit rs (out @ [r]) = (out @ [r]) @ more" "subseq more rs"
      "ur_TraceID ` set more \<inter> seen = {}" "int (length ((out @ [r]) @ more)) \<le> limit" by blast
    with 3 show ?thesis by (intro exI [of _ "r # more"]) (auto simp: Let_def)
  qed
qed simp

text \<open>
  The listing follows the order in which requests ended, which is not that of their timestamps: a
  request that started earlier and ended later comes first.
\<close>

lemma recent_not_by_time:
  "map ur_Timestamp (ms_Recent any_filter 2 (fold ms_Append [sample_record 5 StatusSuccess, sample_record 1 StatusSuccess] (NewMemoryStore 10))) = [1, 5]"
  by (simp add: ms_Recent_def NewMemoryStore_def ms_Append_def recent_index_def matchFilter_def any_filter_def sample_record_def upt_rec)


text \<open>Over a longer window, such as one that starts at the zero time, the number of buckets overflows and there is no timeline.\<close>

lemma long_window_no_timeline:
  assumes "2 ^ 63 \<le> win_End w - win_Start w" "1 < win_Bucket w" "win_Bucket w < 2 ^ 63"
  shows "timeline_buckets w = []"
proof -
  let ?b = "win_Bucket w"
  have "time_sub (win_End w) (win_Start w) = 2 ^ 63 - 1" using assms(1) by (simp add: time_sub_def)
  moreover have "wrap64 (2 ^ 63 - 1 + ?b - 1) = ?b - 2 - 2 ^ 63"
  proof -
    have "(2 ^ 63 - 1 + ?b - 1 + 2 ^ 63) mod 2 ^ 64 = (?b - 2 + 1 * 2 ^ 64) mod (2 ^ 64)" by (simp add: algebra_simps)
    also have "\<dots> = ?b - 2" using assms(2,3) by (simp only: mod_mult_self1) (simp add: mod_pos_pos_trivial)
    finally show ?thesis by (simp add: wrap64_def)
  qed
  moreover have "(?b - 2 - 2 ^ 63) div ?b < 0" using assms(2,3) by (intro div_neg_pos_less0) simp_all
  ultimately show ?thesis by (simp add: timeline_buckets_def Let_def)
qed

end
