(* ===== verification/Model_Names.thy ===== *)
theory Model_Names
  imports Request_Payload
begin

text \<open>
  \<open>internal/models/models.go\<close>, \<open>internal/anthropic/beta.go\<close> and \<open>thinking.go\<close> of \<open>internal/app/messages\<close>: which
  Kiro model, context window and thinking budget a request gets, and under which name its model is
  reported. The decoding of the environment variable with additional mappings is a parameter.
\<close>

record ModelMapping =
  mm_Anthropic :: string
  mm_Kiro :: string
  mm_Kiro1M :: string
  mm_ContextWindowSize :: int
  mm_Hidden :: bool

definition ThinkingSuffix :: string where "ThinkingSuffix = ''[1m]''"
definition DefaultContextWindowSize :: int where "DefaultContextWindowSize = 200000"
definition ThinkingContextWindowSize :: int where "ThinkingContextWindowSize = 1000000"
definition DefaultModel :: string where "DefaultModel = ''claude-sonnet-4.5''"
definition DefaultAnthropicModel :: string where "DefaultAnthropicModel = ''claude-sonnet-4-5''"

definition model_entry :: "string \<Rightarrow> string \<Rightarrow> string \<Rightarrow> bool \<Rightarrow> ModelMapping" where
  "model_entry an kiro kiro1M hidden =
     \<lparr>mm_Anthropic = an, mm_Kiro = kiro, mm_Kiro1M = kiro1M, mm_ContextWindowSize = 0, mm_Hidden = hidden\<rparr>"

definition modelMapOrdered :: "ModelMapping list" where
  "modelMapOrdered =
    [model_entry ''claude-opus-4-7[1m]'' ''claude-opus-4.7'' ''claude-opus-4.7'' False,
     model_entry ''claude-opus-4-6[1m]'' ''claude-opus-4.6'' ''claude-opus-4.6'' False,
     model_entry ''claude-opus-4-7'' ''claude-opus-4.7'' ''claude-opus-4.7'' False,
     model_entry ''claude-sonnet-4-5'' ''claude-sonnet-4.5'' ''claude-sonnet-4.5-1m'' False,
     model_entry ''claude-sonnet-4-5-20250929'' ''claude-sonnet-4.5'' ''claude-sonnet-4.5-1m'' False,
     model_entry ''claude-sonnet-4.5'' ''claude-sonnet-4.5'' ''claude-sonnet-4.5-1m'' False,
     model_entry ''claude-sonnet-4-6'' ''claude-sonnet-4.6'' ''claude-sonnet-4.6-1m'' True,
     model_entry ''claude-opus-4-6'' ''claude-opus-4.6'' ''claude-opus-4.6'' False,
     model_entry ''claude-opus-4.5'' ''claude-opus-4.5'' '''' False,
     model_entry ''claude-haiku-4-5'' ''claude-haiku-4.5'' '''' False,
     model_entry ''claude-haiku-4-5-20251001'' ''claude-haiku-4.5'' '''' False,
     model_entry ''claude-haiku-4.5'' ''claude-haiku-4.5'' '''' False]"

text \<open>The cache of the decoded variable: the raw text it was decoded from and the mappings.\<close>

type_synonym env_cache = "string \<times> ModelMapping list"

definition envMappings :: "(string \<Rightarrow> ModelMapping list option) \<Rightarrow> string \<Rightarrow> env_cache \<Rightarrow> env_cache \<times> ModelMapping list" where
  "envMappings decode raw cache =
     (if fst cache = raw then (cache, snd cache)
      else
        (let ms = (if raw = '''' then [] else (case decode raw of Some ms \<Rightarrow> ms | None \<Rightarrow> []))
         in ((raw, ms), ms)))"

definition effectiveMappings :: "ModelMapping list \<Rightarrow> ModelMapping list" where
  "effectiveMappings overrides = (if overrides = [] then modelMapOrdered else overrides @ modelMapOrdered)"

definition find_mapping :: "string \<Rightarrow> ModelMapping list \<Rightarrow> ModelMapping option" where
  "find_mapping model ms = find (\<lambda>m. model = mm_Anthropic m \<or> model = mm_Kiro m) ms"

definition CutSuffix :: "string \<Rightarrow> string \<Rightarrow> string \<times> bool" where
  "CutSuffix s suf = (if has_suffix s suf then (take (length s - length suf) s, True) else (s, False))"

text \<open>The lookup: exactly, and else without the suffix, which then asks for thinking.\<close>

definition match_model :: "ModelMapping list \<Rightarrow> string \<Rightarrow> string \<times> bool \<times> ModelMapping option" where
  "match_model ms model =
     (case find_mapping model ms of
        Some m \<Rightarrow> (model, False, Some m)
      | None \<Rightarrow>
          (case CutSuffix model ThinkingSuffix of
             (b, True) \<Rightarrow> (b, True, find_mapping b ms)
           | (_, False) \<Rightarrow> (model, False, None)))"

record resolved =
  kiroModel :: string
  r_thinking :: bool
  r_contextWindowSize :: int
  anthropicModel :: string

definition settle_model :: "bool \<Rightarrow> string \<Rightarrow> ModelMapping option \<Rightarrow> resolved" where
  "settle_model thinking model matched =
     (let (kiro, anthropic, kiro1M, size) = (case matched of
             Some m \<Rightarrow> (mm_Kiro m, mm_Anthropic m, mm_Kiro1M m, mm_ContextWindowSize m)
           | None \<Rightarrow> if has_prefix model ''claude-'' then (model, model, '''', 0) else (DefaultModel, DefaultAnthropicModel, '''', 0));
          (kiro, window) =
            (if kiro1M = kiro then (kiro, ThinkingContextWindowSize)
             else if thinking \<and> kiro1M \<noteq> '''' then (kiro1M, ThinkingContextWindowSize)
             else if size > 0 then (kiro, size)
             else (kiro, DefaultContextWindowSize));
          anthropic = (if window = ThinkingContextWindowSize \<and> \<not> has_suffix anthropic ThinkingSuffix then anthropic @ ThinkingSuffix else anthropic)
      in \<lparr>kiroModel = kiro, r_thinking = thinking, r_contextWindowSize = window, anthropicModel = anthropic\<rparr>)"

definition Resolve :: "ModelMapping list \<Rightarrow> string \<Rightarrow> bool \<Rightarrow> resolved" where
  "Resolve overrides model context1M =
     (let (model, thinking, matched) = match_model (effectiveMappings overrides) model
      in settle_model (thinking \<or> context1M) model matched)"

fun list_models :: "ModelMapping list \<Rightarrow> string list \<Rightarrow> string list" where
  "list_models [] result = result"
| "list_models (m # ms) result =
     (if mm_Hidden m then list_models ms result
      else if mm_Kiro m \<in> set result then list_models ms result
      else list_models ms (result @ [mm_Kiro m]))"

definition ListModels :: "ModelMapping list \<Rightarrow> string list" where
  "ListModels overrides = list_models (effectiveMappings overrides) []"

text \<open>The header that asks for the large window, as the list of its values.\<close>

fun split_comma :: "string \<Rightarrow> string list" where
  "split_comma [] = [[]]"
| "split_comma (c # s) = (if c = CHR '','' then [] # split_comma s else (case split_comma s of x # xs \<Rightarrow> (c # x) # xs | [] \<Rightarrow> [[c]]))"

definition HasContext1MBeta :: "string list \<Rightarrow> bool" where
  "HasContext1MBeta betas \<longleftrightarrow> (\<exists>v \<in> set betas. \<exists>beta \<in> set (split_comma v). has_prefix (TrimSpace beta) ''context-1m'')"

section \<open>The thinking budget\<close>

definition ThinkingBudgetMax :: int where "ThinkingBudgetMax = 160000"
definition ThinkingBudgetXHigh :: int where "ThinkingBudgetXHigh = 80000"
definition ThinkingBudgetHigh :: int where "ThinkingBudgetHigh = 40000"
definition ThinkingBudgetLow :: int where "ThinkingBudgetLow = 4000"

definition effort_budget :: "string \<Rightarrow> int" where
  "effort_budget effort =
     (if effort = EffortMax then ThinkingBudgetMax
      else if effort = EffortXHigh then ThinkingBudgetXHigh
      else if effort = EffortHigh then ThinkingBudgetHigh
      else if effort = EffortLow then ThinkingBudgetLow
      else ThinkingBudgetMedium)"

definition requested_budget :: "Request \<Rightarrow> int" where
  "requested_budget req =
     (case rq_Thinking req of
        Some th \<Rightarrow> if th_BudgetTokens th > 0 then th_BudgetTokens th else effort_budget (Effort req)
      | None \<Rightarrow> effort_budget (Effort req))"

definition resolveThinkingBudget :: "req_lib \<Rightarrow> Request \<Rightarrow> int" where
  "resolveThinkingBudget L req =
     (let budget = requested_budget req; forced = q_getenv L ''KIROCC_FORCE_THINKING_BUDGET''
      in if forced \<noteq> '''' then
           (case ParseInt forced of
              (least, None) \<Rightarrow> if least > 0 then (if budget < least then least else budget) else budget
            | (_, Some _) \<Rightarrow> budget)
         else budget)"

lemma effort_budget_bounds: "4000 \<le> effort_budget e \<and> effort_budget e \<le> 160000"
  by (simp add: effort_budget_def ThinkingBudgetMax_def ThinkingBudgetXHigh_def ThinkingBudgetHigh_def ThinkingBudgetMedium_def ThinkingBudgetLow_def)

text \<open>The budget is positive, never below what the client asked for, and never below a valid floor.\<close>

lemma requested_budget_bounds: "0 < requested_budget req" "rq_Thinking req = Some th \<Longrightarrow> th_BudgetTokens th \<le> requested_budget req"
  using effort_budget_bounds [of "Effort req"] by (auto simp: requested_budget_def split: option.splits)

lemma thinking_budget_floor:
  assumes "v = q_getenv L ''KIROCC_FORCE_THINKING_BUDGET''"
  shows "requested_budget req \<le> resolveThinkingBudget L req \<and>
    (v \<noteq> [] \<and> ParseInt v = (n, None) \<longrightarrow> n \<le> resolveThinkingBudget L req) \<and>
    (v = [] \<or> snd (ParseInt v) \<noteq> None \<longrightarrow> resolveThinkingBudget L req = requested_budget req)"
proof -
  obtain k e where k: "ParseInt v = (k, e)" by (cases "ParseInt v")
  have r: "resolveThinkingBudget L req =
      (if v \<noteq> [] then (case e of None \<Rightarrow> if k > 0 then (if requested_budget req < k then k else requested_budget req) else requested_budget req
         | Some _ \<Rightarrow> requested_budget req) else requested_budget req)"
    unfolding resolveThinkingBudget_def Let_def assms [symmetric] k by (cases e) simp_all
  show ?thesis unfolding r k using requested_budget_bounds(1) [of req] by (cases e) simp_all
qed

section \<open>The reported name selects the model again\<close>

lemma has_suffix_iff: "has_suffix s p \<longleftrightarrow> (\<exists>t. s = t @ p)"
  unfolding has_suffix_def by (metis append_take_drop_id diff_add_inverse2 append_eq_conv_conj le_add2 length_append)

lemma suffix_added: "P \<Longrightarrow> has_suffix (if P \<and> \<not> has_suffix s p then s @ p else s) p"
  by (auto simp: has_suffix_iff)

lemma suffix_advertises_window:
  "r_contextWindowSize (Resolve ms model c) = ThinkingContextWindowSize \<Longrightarrow> has_suffix (anthropicModel (Resolve ms model c)) ThinkingSuffix"
  unfolding Resolve_def settle_model_def Let_def case_prod_beta resolved.select_convs by (rule suffix_added)

text \<open>The entries of the table that a lookup can return.\<close>

definition reachable_entry :: "ModelMapping list \<Rightarrow> ModelMapping \<Rightarrow> bool" where
  "reachable_entry ms m \<longleftrightarrow> find_mapping (mm_Anthropic m) ms = Some m \<or> find_mapping (mm_Kiro m) ms = Some m"

lemma find_mapping_in:
  assumes "find_mapping model ms = Some m"
  shows "m \<in> set ms" "reachable_entry ms m"
proof -
  show "m \<in> set ms" using assms by (auto simp: find_mapping_def find_Some_iff)
  have "model = mm_Anthropic m \<or> model = mm_Kiro m" using assms by (auto simp: find_mapping_def find_Some_iff)
  with assms show "reachable_entry ms m" by (auto simp: reachable_entry_def)
qed

lemma match_model_cases:
  assumes "match_model ms model = (b, th, matched)"
  shows "(\<exists>m. matched = Some m \<and> m \<in> set ms \<and> reachable_entry ms m) \<or>
    matched = None \<and> find_mapping b ms = None \<and> (if th then model = b @ ThinkingSuffix else b = model \<and> \<not> has_suffix model ThinkingSuffix)"
proof (cases "find_mapping model ms")
  case (Some m)
  with assms find_mapping_in [OF Some] show ?thesis by (auto simp: match_model_def)
next
  case None
  show ?thesis
  proof (cases matched)
    case (Some m)
    with assms None have "find_mapping b ms = Some m" by (auto simp: match_model_def CutSuffix_def split: if_splits)
    with Some find_mapping_in show ?thesis by blast
  next
    case n: None
    with assms None show ?thesis by (auto simp: match_model_def CutSuffix_def has_suffix_iff split: if_splits)
  qed
qed

lemma table_settles:
  "\<forall>m \<in> set modelMapOrdered. reachable_entry modelMapOrdered m \<longrightarrow> (\<forall>th \<in> {True, False}.
     let r = settle_model th '''' (Some m); r' = Resolve [] (anthropicModel r) False
     in kiroModel r' = kiroModel r \<and> r_contextWindowSize r' = r_contextWindowSize r \<and> anthropicModel r' = anthropicModel r)"
  by code_simp

lemma settle_matched: "settle_model th b (Some m) = settle_model th '''' (Some m)"
  by (simp add: settle_model_def)

text \<open>
  The name under which a model is reported selects the same Kiro model and the same window when the
  client sends it back, whatever it asked for first, without a repeated suffix and with the built-in
  table.
\<close>

theorem model_name_stable:
  assumes "\<not> has_suffix model ''[1m][1m]''" "r = Resolve [] model c"
  shows "let r' = Resolve [] (anthropicModel r) False
    in kiroModel r' = kiroModel r \<and> r_contextWindowSize r' = r_contextWindowSize r \<and> anthropicModel r' = anthropicModel r"
proof -
  obtain b th matched where mm: "match_model modelMapOrdered model = (b, th, matched)" by (metis prod_cases3)
  then have r: "r = settle_model (th \<or> c) b matched" by (simp add: assms(2) Resolve_def effectiveMappings_def)
  show ?thesis
  proof (cases matched)
    case (Some m)
    with match_model_cases [OF mm] have "m \<in> set modelMapOrdered" "reachable_entry modelMapOrdered m" by auto
    with table_settles have "let r = settle_model (th \<or> c) '''' (Some m); r' = Resolve [] (anthropicModel r) False
      in kiroModel r' = kiroModel r \<and> r_contextWindowSize r' = r_contextWindowSize r \<and> anthropicModel r' = anthropicModel r"
      by (cases "th \<or> c") auto
    then show ?thesis unfolding r Some settle_matched [of _ b] by (simp add: Let_def)
  next
    case None
    with match_model_cases [OF mm] have b: "find_mapping b modelMapOrdered = None" "if th then model = b @ ThinkingSuffix else b = model \<and> \<not> has_suffix model ThinkingSuffix"
      by auto
    have "\<not> has_suffix b ThinkingSuffix" using b(2) assms(1) by (auto simp: has_suffix_iff ThinkingSuffix_def split: if_splits)
    then have again: "match_model modelMapOrdered b = (b, False, None)" using b(1) by (simp add: match_model_def CutSuffix_def)
    show ?thesis
    proof (cases "has_prefix b ''claude-''")
      case True
      then have "anthropicModel r = b" "b \<noteq> ''''" unfolding r None
        by (auto simp: settle_model_def Let_def ThinkingContextWindowSize_def DefaultContextWindowSize_def has_prefix_def)
      with True again show ?thesis unfolding r None by (simp add: Resolve_def effectiveMappings_def settle_model_def Let_def)
    next
      case False
      then have "r = settle_model (th \<or> c) '''' None" unfolding r None by (simp add: settle_model_def has_prefix_def)
      moreover have "\<forall>t \<in> {True, False}. let r = settle_model t '''' None; r' = Resolve [] (anthropicModel r) False
        in kiroModel r' = kiroModel r \<and> r_contextWindowSize r' = r_contextWindowSize r \<and> anthropicModel r' = anthropicModel r"
        by code_simp
      ultimately show ?thesis by (cases "th \<or> c") (auto simp: Let_def)
    qed
  qed
qed

theorem model_name_stable_witness:
  "let r = Resolve [] ''claude-sonnet-4-5'' True; r' = Resolve [] (anthropicModel r) False
   in kiroModel r = ''claude-sonnet-4.5-1m'' \<and> anthropicModel r = ''claude-sonnet-4-5[1m]'' \<and> kiroModel r' = kiroModel r"
proof -
  have "\<not> has_suffix ''claude-sonnet-4-5'' ''[1m][1m]''" by (simp add: has_suffix_def)
  from model_name_stable [OF this refl, of True]
  have "kiroModel (Resolve [] (anthropicModel (Resolve [] ''claude-sonnet-4-5'' True)) False) = kiroModel (Resolve [] ''claude-sonnet-4-5'' True)"
    by (simp add: Let_def)
  moreover have "kiroModel (Resolve [] ''claude-sonnet-4-5'' True) = ''claude-sonnet-4.5-1m''" by code_simp
  moreover have "anthropicModel (Resolve [] ''claude-sonnet-4-5'' True) = ''claude-sonnet-4-5[1m]''" by code_simp
  ultimately show ?thesis by (simp add: Let_def)
qed

text \<open>A repeated suffix reaches Kiro: only one is stripped, and an unknown name is passed on as it is.\<close>

lemma suffix_sent_upstream: "kiroModel (Resolve [] ''claude-x[1m][1m]'' False) = ''claude-x[1m]''"
  by code_simp

end
