(* ===== verification/Cache_Profile.thy ===== *)
theory Cache_Profile
  imports Messages Go_Float "HOL-Library.List_Lexorder" "HOL-Library.Char_ord" "HOL-Library.Word"
begin

unbundle bit_operations_syntax

text \<open>
  internal/promptcache/tracker.go, the pure part: the blocks of a request in their canonical text,
  the fingerprints of its prefixes and its cache breakpoints. SHA-256, \<open>strconv.Quote\<close>,
  \<open>strconv.FormatFloat\<close>, the Unicode lower-case mapping and the tokenizer of
  \<open>tokencount.CountBytes\<close> (\<open>None\<close> for its error) are parameters.
\<close>

record cache_lib =
  cl_sha :: "string \<Rightarrow> string"
  cl_quote :: "string \<Rightarrow> string"
  cl_float :: "float64 \<Rightarrow> string"
  cl_lower :: "string \<Rightarrow> string"
  cl_tokens :: "string \<Rightarrow> int option"
  cl_ops :: float_ops

definition defaultTTL :: duration where "defaultTTL = 5 * minute"
definition hourTTL :: duration where "hourTTL = hour"
definition defaultMinCacheTokens :: int where "defaultMinCacheTokens = 1024"
definition extendedMinCacheTokens :: int where "extendedMinCacheTokens = 4096"
definition haiku35MinCacheTokens :: int where "haiku35MinCacheTokens = 2048"
definition targetReadRatioSpread :: float64 where "targetReadRatioSpread = 3 / 100"

section \<open>Canonical text\<close>

definition isCachePositionKey :: "string \<Rightarrow> bool" where
  "isCachePositionKey k \<longleftrightarrow> k \<in> {''tool_index'', ''system_index'', ''message_index'', ''block_index''}"

text \<open>An object from the canonical texts of its values: sorted keys, without \<open>cache_control\<close>.\<close>

definition canonical_object :: "cache_lib \<Rightarrow> (string \<times> string) list \<Rightarrow> string" where
  "canonical_object L es =
     ''{'' @ str_join '','' (map (\<lambda>(k, c). cl_quote L k @ '':'' @ (if isCachePositionKey k then ''null'' else c))
       (sort_key fst (filter (\<lambda>(k, c). k \<noteq> ''cache_control'') es))) @ ''}''"

primrec writeCanonical :: "cache_lib \<Rightarrow> json \<Rightarrow> string" where
  "writeCanonical L JNull = ''null''"
| "writeCanonical L (JBool b) = (if b then ''true'' else ''false'')"
| "writeCanonical L (JNum x) = cl_float L x"
| "writeCanonical L (JStr s) = cl_quote L s"
| "writeCanonical L (JArr xs) = ''['' @ str_join '','' (map (writeCanonical L) xs) @ '']''"
| "writeCanonical L (JObj m) = canonical_object L (map (map_prod id (writeCanonical L)) m)"

section \<open>Cache control\<close>

definition ascii_lower :: "char \<Rightarrow> char" where
  "ascii_lower c = (if 65 \<le> (of_char c :: nat) \<and> (of_char c :: nat) \<le> 90 then char_of (of_char c + 32 :: nat) else c)"

text \<open>\<open>strings.EqualFold(s, "ephemeral")\<close>: only the ASCII letters fold to those of the word.\<close>

definition is_ephemeral :: "string \<Rightarrow> bool" where
  "is_ephemeral s \<longleftrightarrow> map ascii_lower s = ''ephemeral''"

definition parse_ttl_text :: "cache_lib \<Rightarrow> string \<Rightarrow> duration" where
  "parse_ttl_text L v =
     (let s = TrimSpace (cl_lower L v) in
      if s = '''' then 0
      else
        (let l = last s;
             unit = (if is_digit l then Some (second, s)
                     else if l = CHR ''h'' then Some (hour, TrimSpace (butlast s))
                     else if l = CHR ''m'' then Some (minute, TrimSpace (butlast s))
                     else if l = CHR ''s'' then Some (second, TrimSpace (butlast s))
                     else None)
         in case unit of
              None \<Rightarrow> 0
            | Some (unit_len, digits) \<Rightarrow>
                (case ParseInt digits of (n, None) \<Rightarrow> wrap64 (n * unit_len) | (_, Some _) \<Rightarrow> 0)))"

definition parseTTL :: "cache_lib \<Rightarrow> json option \<Rightarrow> duration" where
  "parseTTL L value =
     (case value of
        Some (JNum x) \<Rightarrow> wrap64 (wrap64 (trunc x) * second)
      | Some (JStr v) \<Rightarrow> parse_ttl_text L v
      | _ \<Rightarrow> 0)"

definition promptCacheTTL :: "cache_lib \<Rightarrow> json \<Rightarrow> duration" where
  "promptCacheTTL L value =
     (case value of
        JObj obj \<Rightarrow>
          (case map_of obj ''cache_control'' of
             Some (JObj cc) \<Rightarrow>
               if \<not> is_ephemeral (as_string (map_of cc ''type'')) then 0
               else
                 (let ttl = parseTTL L (map_of cc ''ttl'');
                      ttl = (if ttl \<le> 0 then defaultTTL else ttl)
                  in if ttl > defaultTTL then hourTTL else defaultTTL)
           | _ \<Rightarrow> 0)
      | _ \<Rightarrow> 0)"

function isBillingHeaderBlock :: "cache_lib \<Rightarrow> json \<Rightarrow> bool" where
  "isBillingHeaderBlock L value =
     (case value of
        JObj obj \<Rightarrow>
          (case map_of obj ''block'' of
             Some inner \<Rightarrow> isBillingHeaderBlock L inner
           | None \<Rightarrow>
               (let typ = as_string (map_of obj ''type'') in
                if typ \<noteq> '''' \<and> typ \<noteq> BlockTypeText then False
                else has_prefix (cl_lower L (TrimSpace (as_string (map_of obj ''text'')))) ''x-anthropic-billing-header:''))
      | _ \<Rightarrow> False)"
  by pat_completeness auto
termination
  by (relation "measure (\<lambda>(L, v). size v)") (auto dest!: map_of_SomeD entry_smaller)

declare isBillingHeaderBlock.simps [simp del]

section \<open>The blocks of a request\<close>

record cacheBlock =
  blk_value :: json
  blk_tokens :: int
  blk_ttl :: duration
  blk_messageEnd :: bool

definition estimateTokens :: "string \<Rightarrow> int" where
  "estimateTokens s = (if s = '''' then 0 else max 1 (int (rune_count s div 4)))"

definition cacheControlValue :: "CacheControl \<Rightarrow> json" where
  "cacheControlValue cc =
     JObj ((''type'', JStr (cc_Type cc)) # (if cc_TTL cc \<noteq> JNull then [(''ttl'', cc_TTL cc)] else []))"

definition cache_control_entry :: "CacheControl option \<Rightarrow> jmap" where
  "cache_control_entry cc = (case cc of None \<Rightarrow> [] | Some cc \<Rightarrow> [(''cache_control'', cacheControlValue cc)])"

definition putString :: "string \<Rightarrow> string \<Rightarrow> jmap" where
  "putString k v = (if v \<noteq> '''' then [(k, JStr v)] else [])"

primrec contentBlockValue :: "ContentBlock \<Rightarrow> json" and messageContentValue :: "MessageContent \<Rightarrow> json" where
  "contentBlockValue (ContentBlock ty tx th sg i nm inp tuid content isErr src tname refs cc) =
     JObj ([(''type'', JStr ty)] @ putString ''text'' tx @ putString ''thinking'' th @ putString ''signature'' sg @
       putString ''id'' i @ putString ''name'' nm @
       (if inp \<noteq> [] then [(''input'', JObj inp)] else []) @
       putString ''tool_use_id'' tuid @
       (if \<not> IsString content \<or> mc_Text content \<noteq> '''' then [(''content'', messageContentValue content)] else []) @
       (if isErr then [(''is_error'', JBool True)] else []) @
       (case src of None \<Rightarrow> []
        | Some s \<Rightarrow> [(''source'', JObj [(''type'', JStr (src_Type s)), (''media_type'', JStr (src_MediaType s)), (''data'', JStr (src_Data s))])]) @
       putString ''tool_name'' tname @
       (if refs \<noteq> [] then [(''tool_references'', JArr (map contentBlockValue refs))] else []) @
       cache_control_entry cc)"
| "messageContentValue (MessageContent t blocks) =
     (case map_option (map contentBlockValue) blocks of None \<Rightarrow> JStr t | Some items \<Rightarrow> JArr items)"

definition appendBlock :: "cache_lib \<Rightarrow> json \<Rightarrow> bool \<Rightarrow> cacheBlock list" where
  "appendBlock L value messageEnd =
     (let blockValue = (case value of JObj obj \<Rightarrow> (case map_of obj ''block'' of Some nested \<Rightarrow> nested | None \<Rightarrow> value) | _ \<Rightarrow> value) in
      if isBillingHeaderBlock L blockValue then []
      else
        (let canonical = writeCanonical L value;
             tokens = (case cl_tokens L canonical of
                         Some n \<Rightarrow> if n \<le> 0 then estimateTokens canonical else n
                       | None \<Rightarrow> estimateTokens canonical)
         in [\<lparr>blk_value = value, blk_tokens = tokens, blk_ttl = promptCacheTTL L blockValue, blk_messageEnd = messageEnd\<rparr>]))"

definition tool_value :: "Tool \<Rightarrow> json" where
  "tool_value t =
     JObj ([(''kind'', JStr ''tool''), (''type'', JStr (t_Type t)), (''name'', JStr (t_Name t)),
            (''description'', JStr (t_Description t)), (''input_schema'', JObj (t_InputSchema t))] @
           cache_control_entry (t_CacheControl t))"

definition system_value :: "SystemBlock \<Rightarrow> json" where
  "system_value b =
     JObj [(''kind'', JStr ''system''),
           (''block'', JObj ([(''type'', JStr (sb_Type b)), (''text'', JStr (sb_Text b))] @ cache_control_entry (sb_CacheControl b)))]"

definition message_value :: "string \<Rightarrow> json \<Rightarrow> json" where
  "message_value role block = JObj [(''kind'', JStr ''message''), (''role'', JStr role), (''block'', block)]"

definition text_value :: "string \<Rightarrow> json" where
  "text_value t = JObj [(''type'', JStr BlockTypeText), (''text'', JStr t)]"

definition message_blocks :: "cache_lib \<Rightarrow> Message \<Rightarrow> cacheBlock list" where
  "message_blocks L msg =
     (if IsString (m_Content msg)
      then appendBlock L (message_value (m_Role msg) (text_value (mc_Text (m_Content msg)))) True
      else
        (let bs = content_blocks (m_Content msg) in
         concat (map (\<lambda>(i, b). appendBlock L (message_value (m_Role msg) (contentBlockValue b)) (i + 1 = length bs))
           (enumerate 0 bs))))"

definition flattenCacheBlocks :: "cache_lib \<Rightarrow> Request \<Rightarrow> cacheBlock list" where
  "flattenCacheBlocks L req =
     appendBlock L (JObj [(''kind'', JStr ''request_prelude''), (''model'', JStr (rq_Model req))]) False @
     concat (map (\<lambda>t. appendBlock L (tool_value t) False) (rq_Tools req)) @
     (if sp_Text (rq_System req) \<noteq> ''''
      then appendBlock L (JObj [(''kind'', JStr ''system''), (''block'', text_value (sp_Text (rq_System req)))]) False else []) @
     concat (map (\<lambda>b. appendBlock L (system_value b) False) (sp_Blocks (rq_System req))) @
     concat (map (message_blocks L) (rq_Messages req))"

section \<open>Profiles\<close>

record lookupPoint =
  lp_fingerprint :: string
  lp_cumulativeTokens :: int

record profile =
  pf_breakpoints :: "duration list"
  pf_lookupPoints :: "lookupPoint list"
  pf_totalInputTokens :: int
  pf_model :: string

record profile_state =
  ps_hashed :: string
  ps_tokens :: int
  ps_activeTTL :: "duration option"
  ps_breakpoints :: "duration list"
  ps_points :: "lookupPoint list"

definition profile_block :: "cache_lib \<Rightarrow> cacheBlock \<Rightarrow> profile_state \<Rightarrow> profile_state" where
  "profile_block L b s =
     (let canonical = writeCanonical L (blk_value b);
          hashed = ps_hashed s @ show_int (int (length canonical)) @ [CHR 0x00] @ canonical @ [CHR 0x00];
          tokens = ps_tokens s + blk_tokens b;
          point = \<lparr>lp_fingerprint = cl_sha L hashed, lp_cumulativeTokens = tokens\<rparr>;
          s = s\<lparr>ps_hashed := hashed, ps_tokens := tokens, ps_points := ps_points s @ [point]\<rparr>
      in if blk_ttl b > 0 then s\<lparr>ps_activeTTL := Some (blk_ttl b), ps_breakpoints := ps_breakpoints s @ [blk_ttl b]\<rparr>
         else case ps_activeTTL s of
           Some ttl \<Rightarrow> if blk_messageEnd b then s\<lparr>ps_breakpoints := ps_breakpoints s @ [ttl]\<rparr> else s
         | None \<Rightarrow> s)"

definition buildProfile :: "cache_lib \<Rightarrow> Request \<Rightarrow> int \<Rightarrow> string \<Rightarrow> bool \<Rightarrow> profile option" where
  "buildProfile L req totalInputTokens model synthesizeStablePrefix =
     (let blocks = flattenCacheBlocks L req in
      if blocks = [] then None
      else
        (let s = fold (profile_block L) blocks \<lparr>ps_hashed = '''', ps_tokens = 0, ps_activeTTL = None, ps_breakpoints = [], ps_points = []\<rparr>;
             breakpoints = (if ps_breakpoints s = [] \<and> synthesizeStablePrefix then [defaultTTL] else ps_breakpoints s)
         in if breakpoints = [] \<or> ps_points s = [] then None
            else Some \<lparr>pf_breakpoints = breakpoints, pf_lookupPoints = ps_points s,
                       pf_totalInputTokens = max totalInputTokens (ps_tokens s), pf_model = model\<rparr>))"

section \<open>Targets\<close>

definition minCacheableTokensForModel :: "cache_lib \<Rightarrow> string \<Rightarrow> int" where
  "minCacheableTokensForModel L model =
     (let m = map (\<lambda>c. if c = CHR ''_'' then CHR ''-'' else c) (cl_lower L model) in
      if str_contains m ''haiku''
      then (if str_contains m ''3-5'' \<or> str_contains m ''3.5'' then haiku35MinCacheTokens else extendedMinCacheTokens)
      else if str_contains m ''opus'' \<and>
        (m = ''opus'' \<or> m = ''opusplan'' \<or> str_contains m ''4-5'' \<or> str_contains m ''4.5'' \<or> str_contains m ''4-6'' \<or>
         str_contains m ''4.6'' \<or> str_contains m ''4-7'' \<or> str_contains m ''4.7'')
      then extendedMinCacheTokens
      else defaultMinCacheTokens)"

definition profileSeed :: "profile \<Rightarrow> 64 word" where
  "profileSeed prof =
     (if pf_lookupPoints prof = [] then 0
      else fold (\<lambda>b raw. push_bit 8 raw OR of_char b) (take 8 (lp_fingerprint (last (pf_lookupPoints prof)))) 0)"

definition deterministicRatioUnit :: "float_ops \<Rightarrow> profile \<Rightarrow> float64" where
  "deterministicRatioUnit F prof =
     (let raw = profileSeed prof in
      if raw = 0 then 1 / 2 else f_div F (f_int F (uint raw)) (f_int F (2 ^ 64 - 1)))"

definition effectiveCacheReadRatio :: "float_ops \<Rightarrow> profile \<Rightarrow> float64 \<Rightarrow> float64" where
  "effectiveCacheReadRatio F prof targetReadRatio =
     (let target = clampFloat targetReadRatio 0 (99 / 100) in
      if target \<le> 0 then 0
      else
        (let low = maxFloat (f_sub F target targetReadRatioSpread) 0;
             high = minFloat (f_add F target targetReadRatioSpread) (99 / 100)
         in if high \<le> low then low
            else f_add F low (f_mul F (deterministicRatioUnit F prof) (f_sub F high low))))"

definition targetCacheTokens :: "float_ops \<Rightarrow> int \<Rightarrow> float64 \<Rightarrow> int \<Rightarrow> int" where
  "targetCacheTokens F totalInputTokens targetReadRatio minTokens =
     (if totalInputTokens \<le> 1 then 0
      else
        (let target = Round (f_mul F (f_int F totalInputTokens) (clampFloat targetReadRatio 0 (99 / 100)));
             target = min (max target 0) (totalInputTokens - 1)
         in if target < minTokens then 0 else target))"

end
