(* ===== verification/Cache_Tracker.thy ===== *)
theory Cache_Tracker
  imports Cache_Profile Go_Maps
begin

text \<open>
  internal/promptcache/tracker.go, the state: the entries of the simulated prompt cache by scope and
  fingerprint, with their expiry, and the operations on them. The two levels of Go maps are lists of
  entries in iteration order, without repeated keys. \<open>time.Now()\<close> is an argument.
\<close>

section \<open>State\<close>

record Options =
  o_Enabled :: bool
  o_TargetReadRatio :: float64
  o_MaxScopes :: int
  o_MaxEntries :: int

definition DefaultMaxScopes :: int where "DefaultMaxScopes = 4096"
definition DefaultMaxEntries :: int where "DefaultMaxEntries = 65536"

definition DefaultOptions :: Options where
  "DefaultOptions = \<lparr>o_Enabled = True, o_TargetReadRatio = 98 / 100, o_MaxScopes = DefaultMaxScopes, o_MaxEntries = DefaultMaxEntries\<rparr>"

definition opts_normalized :: "Options \<Rightarrow> Options" where
  "opts_normalized opts =
     (let opts = opts\<lparr>o_TargetReadRatio := clampFloat (o_TargetReadRatio opts) 0 (99 / 100)\<rparr>;
          opts = (if o_MaxScopes opts \<le> 0 then opts\<lparr>o_MaxScopes := o_MaxScopes DefaultOptions\<rparr> else opts);
          opts = (if o_MaxEntries opts \<le> 0 then opts\<lparr>o_MaxEntries := o_MaxEntries DefaultOptions\<rparr> else opts)
      in if o_MaxEntries opts < o_MaxScopes opts then opts\<lparr>o_MaxEntries := o_MaxScopes opts\<rparr> else opts)"

record Scope =
  sc_CredentialID :: string
  sc_ConversationID :: string
  sc_Model :: string

record cache_usage =
  cu_CacheCreationInputTokens :: int
  cu_CacheReadInputTokens :: int
  cu_CacheCreation5mInputTokens :: int
  cu_CacheCreation1hInputTokens :: int
  cu_EffectiveCacheRatio :: float64

definition zero_usage :: cache_usage where
  "zero_usage = \<lparr>cu_CacheCreationInputTokens = 0, cu_CacheReadInputTokens = 0, cu_CacheCreation5mInputTokens = 0,
     cu_CacheCreation1hInputTokens = 0, cu_EffectiveCacheRatio = 0\<rparr>"

definition usage_Empty :: "cache_usage \<Rightarrow> bool" where
  "usage_Empty u \<longleftrightarrow> cu_CacheCreationInputTokens u \<le> 0 \<and> cu_CacheReadInputTokens u \<le> 0"

record cache_entry =
  ce_expiresAt :: gotime
  ce_ttl :: duration
  ce_cachedTokens :: int

type_synonym scope_entries = "(string \<times> cache_entry) list"

record Tracker =
  tk_opts :: Options
  tk_entries :: "(Scope \<times> scope_entries) list"
  tk_lastPruneAt :: gotime

definition NewTracker :: "Options \<Rightarrow> Tracker" where
  "NewTracker opts = \<lparr>tk_opts = opts_normalized opts, tk_entries = [], tk_lastPruneAt = 0\<rparr>"

definition defaultPruneInterval :: duration where "defaultPruneInterval = 30 * second"

section \<open>Pruning and limits\<close>

definition live_entries :: "gotime \<Rightarrow> scope_entries \<Rightarrow> scope_entries" where
  "live_entries now es = filter (\<lambda>(fp, e). ce_expiresAt e > now) es"

definition pruneExpiredLocked :: "gotime \<Rightarrow> Tracker \<Rightarrow> Tracker" where
  "pruneExpiredLocked now t =
     t\<lparr>tk_entries := filter (\<lambda>(s, es). es \<noteq> []) (map (\<lambda>(s, es). (s, live_entries now es)) (tk_entries t))\<rparr>"

definition pruneExpiredIfDueLocked :: "gotime \<Rightarrow> Tracker \<Rightarrow> Tracker" where
  "pruneExpiredIfDueLocked now t =
     (if tk_lastPruneAt t \<noteq> 0 \<and> now - tk_lastPruneAt t < defaultPruneInterval then t
      else (pruneExpiredLocked now t)\<lparr>tk_lastPruneAt := now\<rparr>)"

definition entryCountLocked :: "Tracker \<Rightarrow> int" where
  "entryCountLocked t = sum_list (map (\<lambda>(s, es). int (length es)) (tk_entries t))"

fun earliest_loop :: "scope_entries \<Rightarrow> gotime \<Rightarrow> gotime" where
  "earliest_loop [] earliest = earliest"
| "earliest_loop ((fp, e) # es) earliest =
     earliest_loop es (if earliest = 0 \<or> ce_expiresAt e < earliest then ce_expiresAt e else earliest)"

definition scopeEarliestExpiry :: "scope_entries \<Rightarrow> gotime" where
  "scopeEarliestExpiry es = earliest_loop es 0"

definition drop_scopes :: "int \<Rightarrow> (Scope \<times> scope_entries) list \<Rightarrow> (Scope \<times> scope_entries) list" where
  "drop_scopes maxScopes m =
     (if int (length m) > maxScopes
      then fold del_entry (take (nat (int (length m) - maxScopes))
             (map fst (sort_key snd (map (\<lambda>(s, es). (s, scopeEarliestExpiry es)) m)))) m
      else m)"

definition del_ref :: "Scope \<times> string \<Rightarrow> (Scope \<times> scope_entries) list \<Rightarrow> (Scope \<times> scope_entries) list" where
  "del_ref r m =
     (case map_of m (fst r) of
        None \<Rightarrow> m
      | Some es \<Rightarrow>
          (let es = del_entry (snd r) es in if es = [] then del_entry (fst r) m else put_entry (fst r) es m))"

definition entry_refs :: "(Scope \<times> scope_entries) list \<Rightarrow> ((Scope \<times> string) \<times> gotime) list" where
  "entry_refs m = concat (map (\<lambda>(s, es). map (\<lambda>(fp, e). ((s, fp), ce_expiresAt e)) es) m)"

definition drop_entries :: "int \<Rightarrow> (Scope \<times> scope_entries) list \<Rightarrow> (Scope \<times> scope_entries) list" where
  "drop_entries maxEntries m =
     (let total = int (length (entry_refs m)) in
      if total \<le> maxEntries then m
      else fold del_ref (take (nat (total - maxEntries)) (map fst (sort_key snd (entry_refs m)))) m)"

definition enforceLimitsLocked :: "Tracker \<Rightarrow> Tracker" where
  "enforceLimitsLocked t =
     (let opts = opts_normalized (tk_opts t) in
      t\<lparr>tk_entries := drop_entries (o_MaxEntries opts) (drop_scopes (o_MaxScopes opts) (tk_entries t))\<rparr>)"

definition cache_Sweep :: "gotime \<Rightarrow> Tracker \<Rightarrow> Tracker \<times> int" where
  "cache_Sweep now t =
     (let before_count = entryCountLocked t;
          t = enforceLimitsLocked ((pruneExpiredLocked now t)\<lparr>tk_lastPruneAt := now\<rparr>)
      in (t, before_count - entryCountLocked t))"

section \<open>Lookup and update\<close>

definition last_ttl :: "profile \<Rightarrow> duration" where
  "last_ttl prof = (if pf_breakpoints prof \<noteq> [] then last (pf_breakpoints prof) else defaultTTL)"

definition targetTTLBreakdown :: "profile \<Rightarrow> int \<Rightarrow> int \<times> int" where
  "targetTTLBreakdown prof creation =
     (if creation \<le> 0 then (0, 0) else if last_ttl prof \<ge> hourTTL then (0, creation) else (creation, 0))"

fun find_match :: "gotime \<Rightarrow> int \<Rightarrow> scope_entries \<Rightarrow> lookupPoint list \<Rightarrow> (string \<times> cache_entry) option" where
  "find_match now minTokens es [] = None"
| "find_match now minTokens es (p # ps) =
     (if lp_cumulativeTokens p < minTokens then find_match now minTokens es ps
      else case map_of es (lp_fingerprint p) of
        None \<Rightarrow> find_match now minTokens es ps
      | Some e \<Rightarrow> if \<not> ce_expiresAt e > now then find_match now minTokens es ps else Some (lp_fingerprint p, e))"

definition profile_target :: "cache_lib \<Rightarrow> profile \<Rightarrow> float64 \<Rightarrow> int" where
  "profile_target L prof ratio =
     targetCacheTokens (cl_ops L) (pf_totalInputTokens prof) (effectiveCacheReadRatio (cl_ops L) prof ratio)
       (minCacheableTokensForModel L (pf_model prof))"

definition split_usage :: "profile \<Rightarrow> int \<Rightarrow> int \<Rightarrow> float64 \<Rightarrow> cache_usage" where
  "split_usage prof creation read ratio =
     (let (cache5m, cache1h) = targetTTLBreakdown prof creation in
      \<lparr>cu_CacheCreationInputTokens = creation, cu_CacheReadInputTokens = read, cu_CacheCreation5mInputTokens = cache5m,
       cu_CacheCreation1hInputTokens = cache1h, cu_EffectiveCacheRatio = ratio\<rparr>)"

definition cache_compute :: "cache_lib \<Rightarrow> gotime \<Rightarrow> Scope \<Rightarrow> profile \<Rightarrow> float64 \<Rightarrow> Tracker \<Rightarrow> Tracker \<times> cache_usage" where
  "cache_compute L now scope prof targetReadRatio t =
     (let minTokens = minCacheableTokensForModel L (pf_model prof);
          ratio = effectiveCacheReadRatio (cl_ops L) prof targetReadRatio;
          targetTokens = profile_target L prof targetReadRatio
      in if targetTokens \<le> 0 then (t, zero_usage)
         else
           (let t = pruneExpiredIfDueLocked now t in
            case map_of (tk_entries t) scope of
              None \<Rightarrow> (t, split_usage prof targetTokens 0 ratio)
            | Some es \<Rightarrow>
                (case find_match now minTokens es (rev (pf_lookupPoints prof)) of
                   None \<Rightarrow> (t, split_usage prof (max targetTokens 0) 0 ratio)
                 | Some (fp, e) \<Rightarrow>
                     (let es = put_entry fp (e\<lparr>ce_expiresAt := now + ce_ttl e\<rparr>) es;
                          matched = min (ce_cachedTokens e) targetTokens
                      in (t\<lparr>tk_entries := put_entry scope es (tk_entries t)\<rparr>,
                          split_usage prof (max (targetTokens - matched) 0) (max matched 0) ratio)))))"

definition store_points :: "float_ops \<Rightarrow> gotime \<Rightarrow> duration \<Rightarrow> int \<Rightarrow> int \<Rightarrow> int \<Rightarrow> lookupPoint list \<Rightarrow> scope_entries \<Rightarrow> scope_entries" where
  "store_points F now ttl flatTotal targetTokens minTokens points es =
     fold (\<lambda>p es.
         let scaled = Round (f_mul F (f_div F (f_int F (lp_cumulativeTokens p)) (f_int F flatTotal)) (f_int F targetTokens));
             cachedTokens = min (max scaled 0) targetTokens
         in if cachedTokens < minTokens then es
            else put_entry (lp_fingerprint p) \<lparr>ce_expiresAt = now + ttl, ce_ttl = ttl, ce_cachedTokens = cachedTokens\<rparr> es)
       points es"

definition cache_update :: "cache_lib \<Rightarrow> gotime \<Rightarrow> Scope \<Rightarrow> profile \<Rightarrow> float64 \<Rightarrow> Tracker \<Rightarrow> Tracker" where
  "cache_update L now scope prof targetReadRatio t =
     (let minTokens = minCacheableTokensForModel L (pf_model prof);
          targetTokens = profile_target L prof targetReadRatio
      in if targetTokens \<le> 0 \<or> pf_lookupPoints prof = [] then t
         else
           (let flatTotal = lp_cumulativeTokens (last (pf_lookupPoints prof)) in
            if flatTotal \<le> 0 then t
            else
              (let t = pruneExpiredIfDueLocked now t;
                   es = (case map_of (tk_entries t) scope of None \<Rightarrow> [] | Some es \<Rightarrow> es);
                   es = store_points (cl_ops L) now (last_ttl prof) flatTotal targetTokens minTokens (pf_lookupPoints prof) es
               in enforceLimitsLocked (t\<lparr>tk_entries := put_entry scope es (tk_entries t)\<rparr>))))"

section \<open>Plans\<close>

record build_options =
  b_SynthesizeStablePrefix :: bool
  b_TargetReadRatio :: float64
  b_hasTargetReadRatio :: bool

record planOptions =
  po_synthesizeStablePrefix :: bool
  po_targetReadRatio :: float64
  po_hasTargetReadRatio :: bool

record Plan =
  pl_scope :: Scope
  pl_profile :: profile
  pl_usage :: cache_usage
  pl_opts :: planOptions

definition normalizePlanOptions :: "build_options \<Rightarrow> Options \<Rightarrow> planOptions" where
  "normalizePlanOptions buildOpts trackerOpts =
     (let target = b_TargetReadRatio buildOpts;
          hasTarget = (b_hasTargetReadRatio buildOpts \<or> target > 0) \<and> \<not> target < 0;
          target = (if hasTarget then target else o_TargetReadRatio trackerOpts)
      in \<lparr>po_synthesizeStablePrefix = b_SynthesizeStablePrefix buildOpts, po_targetReadRatio = clampFloat target 0 (99 / 100),
          po_hasTargetReadRatio = hasTarget\<rparr>)"

definition BuildPlanWithOptions :: "cache_lib \<Rightarrow> gotime \<Rightarrow> Request \<Rightarrow> Scope \<Rightarrow> int \<Rightarrow> build_options \<Rightarrow> Tracker \<Rightarrow> Tracker \<times> Plan option" where
  "BuildPlanWithOptions L now req scope totalInputTokens buildOpts t =
     (let opts = opts_normalized (tk_opts t) in
      if \<not> o_Enabled opts \<or> sc_CredentialID scope = '''' \<or> sc_ConversationID scope = '''' \<or> sc_Model scope = '''' then (t, None)
      else
        (let planOpts = normalizePlanOptions buildOpts opts in
         case buildProfile L req totalInputTokens (sc_Model scope) (po_synthesizeStablePrefix planOpts) of
           None \<Rightarrow> (t, None)
         | Some prof \<Rightarrow>
             (let (t, usage) = cache_compute L now scope prof (po_targetReadRatio planOpts) t
              in if usage_Empty usage then (t, None)
                 else (t, Some \<lparr>pl_scope = scope, pl_profile = prof, pl_usage = usage, pl_opts = planOpts\<rparr>))))"

definition plan_targetReadRatio :: "Plan \<Rightarrow> Tracker \<Rightarrow> float64" where
  "plan_targetReadRatio p t =
     (if po_hasTargetReadRatio (pl_opts p) then po_targetReadRatio (pl_opts p) else o_TargetReadRatio (opts_normalized (tk_opts t)))"

definition Commit :: "cache_lib \<Rightarrow> gotime \<Rightarrow> Plan \<Rightarrow> Tracker \<Rightarrow> Tracker" where
  "Commit L now p t =
     (if usage_Empty (pl_usage p) then t else cache_update L now (pl_scope p) (pl_profile p) (plan_targetReadRatio p t) t)"


section \<open>The cache is bounded\<close>

definition es_ok :: "scope_entries \<Rightarrow> bool" where
  "es_ok es \<longleftrightarrow> distinct (map fst es) \<and> (\<forall>x \<in> set es. 0 \<le> ce_cachedTokens (snd x))"

definition entries_ok :: "(Scope \<times> scope_entries) list \<Rightarrow> bool" where
  "entries_ok m \<longleftrightarrow> distinct (map fst m) \<and> (\<forall>x \<in> set m. es_ok (snd x))"

lemma length_del_entry:
  "distinct (map fst m) \<Longrightarrow> k \<in> fst ` set m \<Longrightarrow> length m = Suc (length (del_entry k m))"
  by (induction m) (auto simp: del_entry_Cons del_entry_absent split: if_splits)

lemma length_put_entry: "k \<in> fst ` set m \<Longrightarrow> length (put_entry k v m) = length m"
  by (induction k v m rule: put_entry.induct) auto

lemma del_entry_keys: "fst ` set (del_entry k m) = fst ` set m - {k}"
  by (force simp: del_entry_def)

lemma length_del_entries:
  assumes "distinct ks" "set ks \<subseteq> fst ` set m" "distinct (map fst m)"
  shows "length m = length (fold del_entry ks m) + length ks"
  using assms
proof (induction ks arbitrary: m)
  case (Cons k ks)
  have "set ks \<subseteq> fst ` set (del_entry k m)" using Cons.prems by (auto simp: del_entry_keys)
  with Cons length_del_entry [of m k] show ?case by (simp add: distinct_del_entry)
qed simp

lemma ball_put_entry: "(\<And>x. x \<in> set m \<Longrightarrow> P (snd x)) \<Longrightarrow> P v \<Longrightarrow> x \<in> set (put_entry k v m) \<Longrightarrow> P (snd x)"
  using set_put_entry [of k v m] by (cases x) auto

lemma entries_ok_put: "entries_ok m \<Longrightarrow> es_ok es \<Longrightarrow> entries_ok (put_entry s es m)"
  unfolding entries_ok_def using ball_put_entry [of m es_ok es _ s] distinct_put_entry [of m s es] by blast

lemma entries_ok_del: "entries_ok m \<Longrightarrow> entries_ok (del_entry s m)"
  using set_del_entry [of s m] distinct_del_entry [of m s] unfolding entries_ok_def by blast

lemma entries_ok_get: "entries_ok m \<Longrightarrow> map_of m s = Some es \<Longrightarrow> es_ok es"
  unfolding entries_ok_def by (force dest: map_of_SomeD)

lemma es_ok_put: "es_ok es \<Longrightarrow> 0 \<le> ce_cachedTokens e \<Longrightarrow> es_ok (put_entry fp e es)"
  unfolding es_ok_def using ball_put_entry [of es "\<lambda>e. 0 \<le> ce_cachedTokens e" e _ fp] distinct_put_entry [of es fp e] by blast

lemma es_ok_del: "es_ok es \<Longrightarrow> es_ok (del_entry fp es)"
  using set_del_entry [of fp es] distinct_del_entry [of es fp] unfolding es_ok_def by blast

lemma entries_ok_del_ref: "entries_ok m \<Longrightarrow> entries_ok (del_ref r m)"
proof (cases "map_of m (fst r)")
  case (Some es)
  assume ok: "entries_ok m"
  have "es_ok (del_entry (snd r) es)" by (rule es_ok_del [OF entries_ok_get [OF ok Some]])
  from entries_ok_put [OF ok this] entries_ok_del [OF ok] Some show ?thesis by (simp add: del_ref_def Let_def)
qed (simp add: del_ref_def)

lemma entries_ok_fold: "entries_ok m \<Longrightarrow> (\<And>x m. entries_ok m \<Longrightarrow> entries_ok (f x m)) \<Longrightarrow> entries_ok (fold f xs m)"
  by (induction xs arbitrary: m) auto

lemma drop_scopes_ok: "entries_ok m \<Longrightarrow> entries_ok (drop_scopes k m)"
  by (simp add: drop_scopes_def entries_ok_fold entries_ok_del)

lemma drop_entries_ok: "entries_ok m \<Longrightarrow> entries_ok (drop_entries k m)"
  by (simp add: drop_entries_def Let_def entries_ok_fold entries_ok_del_ref)

lemma drop_scopes_bound:
  assumes "distinct (map fst m)" "0 \<le> k"
  shows "int (length (drop_scopes k m)) \<le> k"
proof -
  let ?ks = "take (nat (int (length m) - k)) (map fst (sort_key snd (map (\<lambda>(s, es). (s, scopeEarliestExpiry es)) m)))"
  have "distinct (map fst (sort_key snd (map (\<lambda>(s, es). (s, scopeEarliestExpiry es)) m)))"
    using assms(1) by (auto simp: distinct_map comp_def case_prod_beta inj_on_def)
  then have "distinct ?ks" by (rule distinct_take)
  moreover have "set ?ks \<subseteq> fst ` set m"
    using set_take_subset by (fastforce simp: image_iff case_prod_beta)
  ultimately have "length m = length (fold del_entry ?ks m) + length ?ks" using assms(1) by (intro length_del_entries)
  then show ?thesis using assms(2) by (auto simp: drop_scopes_def)
qed

text \<open>Deleting an entry that is there removes just that reference, and never adds a scope.\<close>

lemma entry_refs_Cons: "entry_refs ((s, es) # m) = map (\<lambda>(fp, e). ((s, fp), ce_expiresAt e)) es @ entry_refs m"
  by (simp add: entry_refs_def)

lemma refs_of_map: "entries_ok m \<Longrightarrow> (s, fp) \<in> fst ` set (entry_refs m) \<longleftrightarrow> (\<exists>es. map_of m s = Some es \<and> fp \<in> fst ` set es)"
  by (force simp: entry_refs_def entries_ok_def image_iff intro: map_of_is_SomeI dest: map_of_SomeD)


lemma distinct_refs:
  assumes "entries_ok m"
  shows "distinct (map fst (entry_refs m))"
  using assms
proof (induction m)
  case (Cons x m)
  obtain s es where x: "x = (s, es)" by fastforce
  have ok: "entries_ok m" "es_ok es" "s \<notin> fst ` set m" using Cons.prems x by (auto simp: entries_ok_def)
  have "distinct (map fst (map (\<lambda>(fp, e). ((s, fp), ce_expiresAt e)) es))"
    using ok(2) by (auto simp: es_ok_def distinct_map comp_def case_prod_beta inj_on_def)
  moreover have "fst ` set (map (\<lambda>(fp, e). ((s, fp), ce_expiresAt e)) es) \<inter> fst ` set (entry_refs m) = {}"
    using ok(3) by (force simp: entry_refs_def)
  ultimately show ?case using Cons.IH [OF ok(1)] unfolding x entry_refs_Cons map_append distinct_append set_map by blast
qed (simp add: entry_refs_def)

lemma count_put:
  "distinct (map fst m) \<Longrightarrow> map_of m s = Some es \<Longrightarrow>
   length (entry_refs (put_entry s es' m)) + length es = length (entry_refs m) + length es'"
proof (induction m)
  case (Cons x m)
  obtain k v where x: "x = (k, v)" by fastforce
  show ?case
  proof (cases "s = k")
    case True
    with Cons.prems x show ?thesis by (simp add: entry_refs_Cons)
  next
    case False
    with Cons.prems x Cons.IH show ?thesis by (simp add: entry_refs_Cons)
  qed
qed simp

lemma count_del:
  "distinct (map fst m) \<Longrightarrow> map_of m s = Some es \<Longrightarrow>
   length (entry_refs (del_entry s m)) + length es = length (entry_refs m)"
proof (induction m)
  case (Cons x m)
  obtain k v where x: "x = (k, v)" by fastforce
  show ?case
  proof (cases "s = k")
    case True
    then have "del_entry s m = m" using Cons.prems x by (intro del_entry_absent) simp
    with True Cons.prems x show ?thesis by (simp add: entry_refs_Cons del_entry_Cons)
  next
    case False
    with Cons.prems x Cons.IH show ?thesis by (simp add: entry_refs_Cons del_entry_Cons)
  qed
qed simp

lemma del_ref_count:
  assumes "entries_ok m" "r \<in> fst ` set (entry_refs m)"
  shows "length (entry_refs m) = Suc (length (entry_refs (del_ref r m)))" "length (del_ref r m) \<le> length m"
proof -
  obtain s fp where r: "r = (s, fp)" by fastforce
  then obtain es where es: "map_of m s = Some es" "fp \<in> fst ` set es" using refs_of_map [OF assms(1)] assms(2) by blast
  have d: "distinct (map fst m)" "distinct (map fst es)" using assms(1) entries_ok_get [OF assms(1) es(1)] by (auto simp: entries_ok_def es_ok_def)
  have l: "length es = Suc (length (del_entry fp es))" using length_del_entry [OF d(2) es(2)] .
  have k: "s \<in> fst ` set m" using es(1) by (force dest: map_of_SomeD)
  show "length (entry_refs m) = Suc (length (entry_refs (del_ref r m)))"
    using es(1) l count_put [OF d(1) es(1), of "del_entry fp es"] count_del [OF d(1) es(1)] by (auto simp: del_ref_def r Let_def)
  show "length (del_ref r m) \<le> length m"
    using es(1) length_put_entry [OF k] length_del_entry [OF d(1) k] by (auto simp: del_ref_def r Let_def)
qed

lemma del_ref_other:
  assumes "entries_ok m" "r' \<in> fst ` set (entry_refs m)" "r' \<noteq> r"
  shows "r' \<in> fst ` set (entry_refs (del_ref r m))"
proof -
  obtain s fp s' fp' where r: "r = (s, fp)" "r' = (s', fp')" by fastforce
  obtain es' where es': "map_of m s' = Some es'" "fp' \<in> fst ` set es'" 
    using refs_of_map [OF assms(1), of s' fp'] assms(2) unfolding r by blast
  have keep: "fp' \<in> fst ` set (del_entry fp es')" if "s = s'" using that es'(2) assms(3) r by (simp add: del_entry_keys)
  have "\<exists>es. map_of (del_ref r m) s' = Some es \<and> fp' \<in> fst ` set es"
  proof (cases "s = s'")
    case True
    then have "del_entry fp es' \<noteq> []" using keep by auto
    with True es' keep show ?thesis by (simp add: del_ref_def r Let_def)
  next
    case False
    with es' show ?thesis by (cases "map_of m s") (simp_all add: del_ref_def r Let_def)
  qed
  then show ?thesis using refs_of_map [OF entries_ok_del_ref [OF assms(1)]] r by blast
qed

lemma drop_entries_fold:
  assumes "entries_ok m" "distinct rs" "set rs \<subseteq> fst ` set (entry_refs m)"
  shows "length (entry_refs m) = length (entry_refs (fold del_ref rs m)) + length rs \<and> length (fold del_ref rs m) \<le> length m"
  using assms
proof (induction rs arbitrary: m)
  case (Cons r rs)
  have "set rs \<subseteq> fst ` set (entry_refs (del_ref r m))"
  proof
    fix r' assume "r' \<in> set rs"
    with Cons.prems show "r' \<in> fst ` set (entry_refs (del_ref r m))" by (intro del_ref_other [OF Cons.prems(1)]) auto
  qed
  from Cons.IH [OF entries_ok_del_ref [OF Cons.prems(1)] _ this] del_ref_count [OF Cons.prems(1), of r] Cons.prems
  show ?case by force
qed simp

lemma drop_entries_bound:
  assumes "entries_ok m" "0 \<le> k"
  shows "int (length (entry_refs (drop_entries k m))) \<le> k" "length (drop_entries k m) \<le> length m"
proof -
  let ?rs = "take (nat (int (length (entry_refs m)) - k)) (map fst (sort_key snd (entry_refs m)))"
  have "distinct (map fst (sort_key snd (entry_refs m)))" using distinct_refs [OF assms(1)] by (simp add: distinct_map)
  then have "distinct ?rs" by (rule distinct_take)
  moreover have "set ?rs \<subseteq> fst ` set (entry_refs m)" using set_take_subset by fastforce
  ultimately have "length (entry_refs m) = length (entry_refs (fold del_ref ?rs m)) + length ?rs \<and> length (fold del_ref ?rs m) \<le> length m"
    by (rule drop_entries_fold [OF assms(1)])
  then show "int (length (entry_refs (drop_entries k m))) \<le> k" "length (drop_entries k m) \<le> length m"
    using assms(2) by (auto simp: drop_entries_def Let_def)
qed


text \<open>The operations of a tracker, in any order and at any times.\<close>

datatype cache_op =
    ComputeOp gotime Scope profile float64
  | UpdateOp gotime Scope profile float64
  | SweepOp gotime

fun cache_step :: "cache_lib \<Rightarrow> cache_op \<Rightarrow> Tracker \<Rightarrow> Tracker" where
  "cache_step L (ComputeOp now sc prof ratio) t = fst (cache_compute L now sc prof ratio t)"
| "cache_step L (UpdateOp now sc prof ratio) t = cache_update L now sc prof ratio t"
| "cache_step L (SweepOp now) t = fst (cache_Sweep now t)"

definition cache_run :: "cache_lib \<Rightarrow> cache_op list \<Rightarrow> Tracker \<Rightarrow> Tracker" where
  "cache_run L ops t = fold (cache_step L) ops t"

definition bounded :: "Options \<Rightarrow> (Scope \<times> scope_entries) list \<Rightarrow> bool" where
  "bounded opts m \<longleftrightarrow> int (length m) \<le> o_MaxScopes opts \<and> int (length (entry_refs m)) \<le> o_MaxEntries opts"

definition tracker_ok :: "Tracker \<Rightarrow> bool" where
  "tracker_ok t \<longleftrightarrow> entries_ok (tk_entries t) \<and> bounded (opts_normalized (tk_opts t)) (tk_entries t)"

lemma entryCount_refs: "entryCountLocked t = int (length (entry_refs (tk_entries t)))"
proof -
  have "sum_list (map (\<lambda>(s, es). int (length es)) m) = int (length (entry_refs m))" for m
  proof (induction m)
    case (Cons x m)
    then show ?case by (cases x) (simp add: entry_refs_Cons)
  qed (simp add: entry_refs_def)
  then show ?thesis by (simp add: entryCountLocked_def)
qed

definition positive_or :: "int \<Rightarrow> int \<Rightarrow> int" where
  "positive_or d n = (if n \<le> 0 then d else n)"

lemma opts_fields:
  "o_Enabled (opts_normalized opts) = o_Enabled opts"
  "o_TargetReadRatio (opts_normalized opts) = clampFloat (o_TargetReadRatio opts) 0 (99 / 100)"
  "o_MaxScopes (opts_normalized opts) = positive_or 4096 (o_MaxScopes opts)"
  "o_MaxEntries (opts_normalized opts) = max (positive_or 65536 (o_MaxEntries opts)) (positive_or 4096 (o_MaxScopes opts))"
  by (auto simp: opts_normalized_def Let_def DefaultOptions_def DefaultMaxScopes_def DefaultMaxEntries_def positive_or_def max_def)

lemma opts_positive: "0 < o_MaxScopes (opts_normalized opts)" "0 < o_MaxEntries (opts_normalized opts)"
  by (auto simp: opts_fields positive_or_def)

lemma clamp_idem: "low \<le> high \<Longrightarrow> clampFloat (clampFloat v low high) low high = clampFloat v low high"
  using clampFloat_bounds [of low high v] by (simp add: clampFloat_id)

lemma opts_idem: "opts_normalized (opts_normalized opts) = opts_normalized opts"
proof (rule Options.equality)
  have p: "positive_or d (positive_or d n) = positive_or d n" if "0 < d" for d n using that by (simp add: positive_or_def)
  have m: "positive_or d (max (positive_or d n) (positive_or e k)) = max (positive_or d n) (positive_or e k)" if "0 < d" for d n e k
    using that by (auto simp: positive_or_def)
  show "o_MaxEntries (opts_normalized (opts_normalized opts)) = o_MaxEntries (opts_normalized opts)"
    unfolding opts_fields by (simp add: m p)
  show "o_MaxScopes (opts_normalized (opts_normalized opts)) = o_MaxScopes (opts_normalized opts)"
    unfolding opts_fields by (simp add: p)
  show "o_TargetReadRatio (opts_normalized (opts_normalized opts)) = o_TargetReadRatio (opts_normalized opts)"
    unfolding opts_fields by (rule clamp_idem) simp
qed (simp_all add: opts_fields)

lemma enforce_ok: "entries_ok (tk_entries t) \<Longrightarrow> tracker_ok (enforceLimitsLocked t) \<and> tk_opts (enforceLimitsLocked t) = tk_opts t"
proof -
  assume ok: "entries_ok (tk_entries t)"
  let ?o = "opts_normalized (tk_opts t)"
  note s = drop_scopes_ok [OF ok, of "o_MaxScopes ?o"]
  have "int (length (drop_scopes (o_MaxScopes ?o) (tk_entries t))) \<le> o_MaxScopes ?o"
    using ok opts_positive(1) [of "tk_opts t"] by (intro drop_scopes_bound) (auto simp: entries_ok_def)
  with drop_entries_ok [OF s] drop_entries_bound [OF s, of "o_MaxEntries ?o"] opts_positive(2) [of "tk_opts t"]
  show ?thesis by (simp add: tracker_ok_def bounded_def enforceLimitsLocked_def Let_def)
qed

lemma filter_refs_le: "length (entry_refs (filter P m)) \<le> length (entry_refs m)"
  by (induction m) (auto simp: entry_refs_Cons)

lemma prune_ok:
  assumes "entries_ok (tk_entries t)"
  shows "entries_ok (tk_entries (pruneExpiredLocked now t))" "length (tk_entries (pruneExpiredLocked now t)) \<le> length (tk_entries t)"
    "length (entry_refs (tk_entries (pruneExpiredLocked now t))) \<le> length (entry_refs (tk_entries t))"
proof -
  let ?m = "map (\<lambda>(s, es). (s, live_entries now es)) (tk_entries t)"
  have "map fst ?m = map fst (tk_entries t)" by (simp add: comp_def case_prod_beta)
  moreover have "es_ok (live_entries now es)" if "es_ok es" for es
    using that by (auto simp: es_ok_def live_entries_def intro: distinct_map_filter)
  ultimately have "entries_ok ?m" using assms unfolding entries_ok_def by (auto simp del: map_map)
  then show "entries_ok (tk_entries (pruneExpiredLocked now t))"
    by (auto simp: pruneExpiredLocked_def entries_ok_def intro: distinct_map_filter)
  show "length (tk_entries (pruneExpiredLocked now t)) \<le> length (tk_entries t)"
    using length_filter_le [of _ ?m] by (simp add: pruneExpiredLocked_def)
  have "length (entry_refs (map (\<lambda>(s, es). (s, live_entries now es)) m)) \<le> length (entry_refs m)" for m
  proof (induction m)
    case (Cons x m)
    then show ?case by (cases x) (simp add: entry_refs_Cons live_entries_def add_mono)
  qed simp
  from order_trans [OF filter_refs_le this]
  show "length (entry_refs (tk_entries (pruneExpiredLocked now t))) \<le> length (entry_refs (tk_entries t))"
    by (simp add: pruneExpiredLocked_def)
qed

lemma tk_opts_prune [simp]: "tk_opts (pruneExpiredLocked now t) = tk_opts t"
  by (simp add: pruneExpiredLocked_def)

lemma prune_due_ok: "tracker_ok t \<Longrightarrow> tracker_ok (pruneExpiredIfDueLocked now t) \<and> tk_opts (pruneExpiredIfDueLocked now t) = tk_opts t"
  using prune_ok [of t now] by (auto simp: pruneExpiredIfDueLocked_def tracker_ok_def bounded_def)

lemma store_points_ok: "es_ok es \<Longrightarrow> es_ok (store_points F now ttl flat target min1 ps es)" if "0 \<le> target"
proof (induction ps arbitrary: es)
  case (Cons p ps)
  let ?e = "\<lparr>ce_expiresAt = now + ttl, ce_ttl = ttl,
      ce_cachedTokens = min (max (Round (f_mul F (f_div F (f_int F (lp_cumulativeTokens p)) (f_int F flat)) (f_int F target))) 0) target\<rparr>"
  have "es_ok (put_entry (lp_fingerprint p) ?e es)" by (rule es_ok_put [OF Cons.prems]) (use that in simp)
  with Cons show ?case by (simp add: store_points_def Let_def)
qed (simp add: store_points_def)

lemma update_ok:
  assumes "tracker_ok t"
  shows "tracker_ok (cache_update L now sc prof ratio t) \<and> tk_opts (cache_update L now sc prof ratio t) = tk_opts t"
proof (cases "profile_target L prof ratio \<le> 0 \<or> pf_lookupPoints prof = [] \<or> lp_cumulativeTokens (last (pf_lookupPoints prof)) \<le> 0")
  case True
  with assms show ?thesis by (auto simp: cache_update_def Let_def)
next
  case False
  let ?t = "pruneExpiredIfDueLocked now t"
  have ok: "tracker_ok ?t" "tk_opts ?t = tk_opts t" using prune_due_ok [OF assms] by auto
  then have eok: "entries_ok (tk_entries ?t)" by (simp add: tracker_ok_def)
  have "es_ok (case map_of (tk_entries ?t) sc of None \<Rightarrow> [] | Some es \<Rightarrow> es)"
    using entries_ok_get [OF eok, of sc] by (cases "map_of (tk_entries ?t) sc") (auto simp: es_ok_def)
  then have "es_ok (store_points (cl_ops L) now (last_ttl prof) (lp_cumulativeTokens (last (pf_lookupPoints prof)))
      (profile_target L prof ratio) (minCacheableTokensForModel L (pf_model prof)) (pf_lookupPoints prof)
      (case map_of (tk_entries ?t) sc of None \<Rightarrow> [] | Some es \<Rightarrow> es))" (is "es_ok ?es")
    using False by (intro store_points_ok) auto
  from enforce_ok [of "?t\<lparr>tk_entries := put_entry sc ?es (tk_entries ?t)\<rparr>"] entries_ok_put [OF eok this] ok(2) False
  show ?thesis by (simp add: cache_update_def Let_def)
qed

lemma compute_ok:
  assumes "tracker_ok t"
  shows "tracker_ok (fst (cache_compute L now sc prof ratio t)) \<and> tk_opts (fst (cache_compute L now sc prof ratio t)) = tk_opts t"
proof -
  let ?t = "pruneExpiredIfDueLocked now t"
  have ok: "tracker_ok ?t" "tk_opts ?t = tk_opts t" using prune_due_ok [OF assms] by auto
  then have eok: "entries_ok (tk_entries ?t)" by (simp add: tracker_ok_def)
  have hit: "tracker_ok (?t\<lparr>tk_entries := put_entry sc (put_entry fp (e\<lparr>ce_expiresAt := x\<rparr>) es) (tk_entries ?t)\<rparr>)"
    if es: "map_of (tk_entries ?t) sc = Some es" and m: "find_match now k es ps = Some (fp, e)" for es k ps fp e x
  proof -
    have mem: "map_of es fp = Some e" using m by (induction ps) (auto split: if_splits option.splits)
    have eso: "es_ok es" by (rule entries_ok_get [OF eok es])
    have "(fp, e) \<in> set es" by (rule map_of_SomeD [OF mem])
    then have "fp \<in> fst ` set es" "0 \<le> ce_cachedTokens (e\<lparr>ce_expiresAt := x\<rparr>)"
      using eso unfolding es_ok_def by (force, fastforce)
    from length_put_entry [OF this(1)] es_ok_put [OF eso this(2)]
    have l: "length (put_entry fp (e\<lparr>ce_expiresAt := x\<rparr>) es) = length es" "es_ok (put_entry fp (e\<lparr>ce_expiresAt := x\<rparr>) es)"
      by blast+
    have "sc \<in> fst ` set (tk_entries ?t)" using es by (force dest: map_of_SomeD)
    from length_put_entry [OF this] l(1) count_put [of "tk_entries ?t" sc es "put_entry fp (e\<lparr>ce_expiresAt := x\<rparr>) es"] es eok
    have "length (entry_refs (put_entry sc (put_entry fp (e\<lparr>ce_expiresAt := x\<rparr>) es) (tk_entries ?t))) = length (entry_refs (tk_entries ?t))"
      "length (put_entry sc (put_entry fp (e\<lparr>ce_expiresAt := x\<rparr>) es) (tk_entries ?t)) = length (tk_entries ?t)"
      by (auto simp: entries_ok_def)
    with entries_ok_put [OF eok l(2)] ok(1) show ?thesis by (simp add: tracker_ok_def bounded_def)
  qed
  show ?thesis
  proof (cases "profile_target L prof ratio \<le> 0")
    case True
    then show ?thesis using assms by (simp add: cache_compute_def)
  next
    case False
    show ?thesis
    proof (cases "map_of (tk_entries ?t) sc")
      case None
      with False ok show ?thesis by (simp add: cache_compute_def Let_def)
    next
      case (Some es)
      with False ok hit [OF Some] show ?thesis
        by (cases "find_match now (minCacheableTokensForModel L (pf_model prof)) es (rev (pf_lookupPoints prof))")
          (simp_all add: cache_compute_def Let_def case_prod_beta)
    qed
  qed
qed

lemma sweep_ok:
  assumes "tracker_ok t"
  shows "tracker_ok (fst (cache_Sweep now t)) \<and> tk_opts (fst (cache_Sweep now t)) = tk_opts t"
proof -
  have "entries_ok (tk_entries ((pruneExpiredLocked now t)\<lparr>tk_lastPruneAt := now\<rparr>))"
    using assms prune_ok(1) [of t now] by (simp add: tracker_ok_def)
  from enforce_ok [OF this] show ?thesis by (simp add: cache_Sweep_def Let_def)
qed

lemma cache_run_ok: "tracker_ok t \<Longrightarrow> tracker_ok (cache_run L ops t) \<and> tk_opts (cache_run L ops t) = tk_opts t"
proof (induction ops arbitrary: t)
  case (Cons op ops)
  have "tracker_ok (cache_step L op t) \<and> tk_opts (cache_step L op t) = tk_opts t"
    using Cons.prems update_ok compute_ok sweep_ok by (cases op) auto
  with Cons.IH [of "cache_step L op t"] show ?case by (simp add: cache_run_def)
qed (simp add: cache_run_def)

lemma tracker_ok_new: "tracker_ok (NewTracker opts)" "opts_normalized (tk_opts (NewTracker opts)) = opts_normalized opts"
  using opts_positive [of opts]
  by (simp_all add: tracker_ok_def NewTracker_def entries_ok_def bounded_def entry_refs_def opts_idem)

lemma reachable_ok: "tracker_ok (cache_run L ops (NewTracker opts))"
  using cache_run_ok [OF tracker_ok_new(1)] by blast

text \<open>
  C19. The simulated cache stays bounded: whatever lookups, commits and sweeps run on a new tracker, in
  whatever order and at whatever times, it never holds more scopes or more entries than its options
  allow (the defaults where they are not positive).
\<close>

theorem cache_bounded:
  "int (length (tk_entries (cache_run L ops (NewTracker opts)))) \<le> o_MaxScopes (opts_normalized opts) \<and>
   entryCountLocked (cache_run L ops (NewTracker opts)) \<le> o_MaxEntries (opts_normalized opts)"
  using cache_run_ok [OF tracker_ok_new(1), of L ops opts] tracker_ok_new(2) [of opts]
  by (auto simp: tracker_ok_def bounded_def entryCount_refs)


section \<open>What a plan reports\<close>

lemma targetCacheTokens_bounds:
  "0 \<le> targetCacheTokens F n r k \<and> (0 < targetCacheTokens F n r k \<longrightarrow> targetCacheTokens F n r k < n \<and> k \<le> targetCacheTokens F n r k)"
  by (auto simp: targetCacheTokens_def Let_def)

definition split_exactly :: "cache_usage \<Rightarrow> int \<Rightarrow> bool" where
  "split_exactly u target \<longleftrightarrow>
     0 \<le> cu_CacheCreationInputTokens u \<and> 0 \<le> cu_CacheReadInputTokens u \<and>
     cu_CacheCreationInputTokens u + cu_CacheReadInputTokens u = target \<and>
     0 \<le> cu_CacheCreation5mInputTokens u \<and> 0 \<le> cu_CacheCreation1hInputTokens u \<and>
     cu_CacheCreation5mInputTokens u + cu_CacheCreation1hInputTokens u = cu_CacheCreationInputTokens u"

lemma split_usage_exact: "0 \<le> creation \<Longrightarrow> 0 \<le> read \<Longrightarrow> split_exactly (split_usage prof creation read r) (creation + read)"
  by (simp add: split_exactly_def split_usage_def targetTTLBreakdown_def)

lemma find_match_Some: "find_match now k es ps = Some (fp, e) \<Longrightarrow> map_of es fp = Some e"
  by (induction ps) (auto split: if_splits option.splits)

lemma compute_split:
  assumes ok: "tracker_ok t" and pos: "0 < profile_target L prof ratio"
  shows "split_exactly (snd (cache_compute L now sc prof ratio t)) (profile_target L prof ratio)"
proof (cases "map_of (tk_entries (pruneExpiredIfDueLocked now t)) sc")
  case None
  with pos split_usage_exact [of "profile_target L prof ratio" 0] show ?thesis by (simp add: cache_compute_def Let_def)
next
  case (Some es)
  have es: "es_ok es" using prune_due_ok [OF ok, of now] entries_ok_get [OF _ Some] by (simp add: tracker_ok_def)
  show ?thesis
  proof (cases "find_match now (minCacheableTokensForModel L (pf_model prof)) es (rev (pf_lookupPoints prof))")
    case None
    with Some pos split_usage_exact [of "profile_target L prof ratio" 0] show ?thesis by (simp add: cache_compute_def Let_def)
  next
    case m: (Some x)
    obtain fp e where x: "x = (fp, e)" by fastforce
    let ?k = "min (ce_cachedTokens e) (profile_target L prof ratio)"
    from map_of_SomeD [OF find_match_Some [OF m [unfolded x]]] es have "0 \<le> ce_cachedTokens e" by (auto simp: es_ok_def)
    with Some m x pos split_usage_exact [of "profile_target L prof ratio - ?k" ?k] show ?thesis by (simp add: cache_compute_def Let_def)
  qed
qed

lemma BuildPlan_Some:
  assumes "BuildPlanWithOptions L now req sc n bo t = (t', Some p)"
  obtains prof where "buildProfile L req n (sc_Model sc) (b_SynthesizeStablePrefix bo) = Some prof"
    "pl_profile p = prof" "pl_scope p = sc" "pl_opts p = normalizePlanOptions bo (opts_normalized (tk_opts t))"
    "cache_compute L now sc prof (po_targetReadRatio (pl_opts p)) t = (t', pl_usage p)" "\<not> usage_Empty (pl_usage p)"
  using assms by (auto simp: BuildPlanWithOptions_def Let_def normalizePlanOptions_def split: if_splits option.splits prod.splits)

lemma compute_empty: "profile_target L prof ratio \<le> 0 \<Longrightarrow> usage_Empty (snd (cache_compute L now sc prof ratio t))"
  by (simp add: cache_compute_def Let_def usage_Empty_def zero_usage_def)

text \<open>
  The usage a plan reports adds up: the tokens counted as created and as read are not negative,
  together they are a positive part of the input that leaves at least one token uncached and reaches
  the model's minimum cacheable size, and the created tokens are exactly those billed at the two
  lifetimes. This holds on every tracker the operations can produce and for any rounding of floats.
\<close>

theorem plan_usage_adds_up:
  assumes "BuildPlanWithOptions L now req sc n bo (cache_run L ops (NewTracker opts)) = (t', Some p)"
  shows "\<exists>target. split_exactly (pl_usage p) target \<and> 0 < target \<and> minCacheableTokensForModel L (sc_Model sc) \<le> target \<and>
           target < pf_totalInputTokens (pl_profile p)"
proof -
  let ?t = "cache_run L ops (NewTracker opts)"
  obtain prof where p: "buildProfile L req n (sc_Model sc) (b_SynthesizeStablePrefix bo) = Some prof" "pl_profile p = prof"
    "cache_compute L now sc prof (po_targetReadRatio (pl_opts p)) ?t = (t', pl_usage p)" "\<not> usage_Empty (pl_usage p)"
    using BuildPlan_Some [OF assms] by metis
  let ?target = "profile_target L prof (po_targetReadRatio (pl_opts p))"
  have m: "pf_model prof = sc_Model sc" using p(1) by (auto simp: buildProfile_def Let_def split: if_splits)
  have pos: "0 < ?target" using compute_empty [of L prof "po_targetReadRatio (pl_opts p)" now sc ?t] p(3,4) by fastforce
  with compute_split [OF reachable_ok pos, of now sc L ops opts] p(3)
    targetCacheTokens_bounds [of "cl_ops L" "pf_totalInputTokens prof" "effectiveCacheReadRatio (cl_ops L) prof (po_targetReadRatio (pl_opts p))"
      "minCacheableTokensForModel L (sc_Model sc)"]
  show ?thesis unfolding p(2) profile_target_def m by auto
qed

section \<open>A continued conversation\<close>

definition profile_init :: profile_state where
  "profile_init = \<lparr>ps_hashed = '''', ps_tokens = 0, ps_activeTTL = None, ps_breakpoints = [], ps_points = []\<rparr>"

lemma points_grow: "\<exists>ps. ps_points (fold (profile_block L) bs s) = ps_points s @ ps"
proof (induction bs arbitrary: s)
  case (Cons b bs)
  have "\<exists>p. ps_points (profile_block L b s) = ps_points s @ [p]" by (auto simp: profile_block_def Let_def split: option.splits)
  with Cons.IH [of "profile_block L b s"] show ?case by auto
qed simp

lemma buildProfile_points:
  assumes "buildProfile L req n m sy = Some prof"
  shows "pf_lookupPoints prof = ps_points (fold (profile_block L) (flattenCacheBlocks L req) profile_init)"
    "pf_lookupPoints prof \<noteq> []" "pf_model prof = m"
  using assms by (auto simp: buildProfile_def Let_def profile_init_def split: if_splits)

lemma flatten_extended:
  "flattenCacheBlocks L (req\<lparr>rq_Messages := rq_Messages req @ ms\<rparr>) = flattenCacheBlocks L req @ concat (map (message_blocks L) ms)"
  by (simp add: flattenCacheBlocks_def)

lemma extended_points:
  assumes "buildProfile L req n m sy = Some prof"
    "buildProfile L (req\<lparr>rq_Messages := rq_Messages req @ ms\<rparr>) n' m' sy' = Some prof'"
  obtains ps where "pf_lookupPoints prof' = pf_lookupPoints prof @ ps"
  using points_grow [of L "concat (map (message_blocks L) ms)" "fold (profile_block L) (flattenCacheBlocks L req) profile_init"]
    buildProfile_points(1) [OF assms(1)] buildProfile_points(1) [OF assms(2)] that by (auto simp: flatten_extended)

lemma map_of_live: "distinct (map fst es) \<Longrightarrow> map_of es fp = Some e \<Longrightarrow> ce_expiresAt e > now \<Longrightarrow> map_of (live_entries now es) fp = Some e"
  by (induction es) (auto simp: live_entries_def)

lemma map_of_live_None: "map_of es fp = None \<Longrightarrow> map_of (live_entries now es) fp = None"
  by (auto simp: live_entries_def map_of_eq_None_iff)

lemma map_of_pruned_Some:
  "map_of m sc = Some es \<Longrightarrow> f es \<noteq> [] \<Longrightarrow> distinct (map fst m) \<Longrightarrow>
   map_of (filter (\<lambda>(s, es). es \<noteq> []) (map (\<lambda>(s, es). (s, f es)) m)) sc = Some (f es)"
  by (induction m) auto

lemma prune_None: "map_of (tk_entries t) sc = None \<Longrightarrow> map_of (tk_entries (pruneExpiredIfDueLocked now t)) sc = None"
  by (force simp: pruneExpiredIfDueLocked_def pruneExpiredLocked_def map_of_eq_None_iff)

lemma prune_Some:
  assumes "tracker_ok t" "map_of (tk_entries t) sc = Some es" "map_of es fp = Some e" "ce_expiresAt e > now"
  obtains es' where "map_of (tk_entries (pruneExpiredIfDueLocked now t)) sc = Some es'" "map_of es' fp = Some e"
    "\<And>fp'. map_of es fp' = None \<Longrightarrow> map_of es' fp' = None"
proof (cases "tk_lastPruneAt t \<noteq> 0 \<and> now - tk_lastPruneAt t < defaultPruneInterval")
  case True
  with assms show ?thesis by (intro that [of es]) (auto simp: pruneExpiredIfDueLocked_def)
next
  case False
  have ok: "distinct (map fst (tk_entries t))" "es_ok es"
    using assms(1) entries_ok_get [OF _ assms(2)] by (auto simp: tracker_ok_def entries_ok_def)
  have l: "map_of (live_entries now es) fp = Some e" using ok(2) assms(3,4) by (intro map_of_live) (auto simp: es_ok_def)
  then have "live_entries now es \<noteq> []" by auto
  from map_of_pruned_Some [where f = "live_entries now", OF assms(2) this ok(1)] False l map_of_live_None show ?thesis
    by (intro that [of "live_entries now es"]) (auto simp: pruneExpiredIfDueLocked_def pruneExpiredLocked_def)
qed

lemma find_match_skip:
  "(\<And>p. p \<in> set ps \<Longrightarrow> map_of es (lp_fingerprint p) = None) \<Longrightarrow> find_match now k es (ps @ qs) = find_match now k es qs"
  by (induction ps) auto

text \<open>Integers up to \<open>2 ^ 53\<close> are floats: converting them, dividing one by itself and multiplying by one are exact.\<close>

definition exact_ints :: "float_ops \<Rightarrow> bool" where
  "exact_ints F \<longleftrightarrow> (\<forall>n. 0 < n \<longrightarrow> n \<le> 2 ^ 53 \<longrightarrow>
     f_int F n = of_int n \<and> f_div F (of_int n) (of_int n) = 1 \<and> f_mul F 1 (of_int n) = of_int n)"

lemma exact_float_ints: "exact_ints exact_float"
  by (simp add: exact_ints_def exact_float_def)

lemma Round_of_int [simp]: "Round (of_int n) = n"
  by (simp add: Round_def floor_eq_iff)

lemma store_points_absent: "fp \<notin> lp_fingerprint ` set ps \<Longrightarrow> map_of (store_points F now ttl flat tg k ps es) fp = map_of es fp"
  by (induction ps arbitrary: es) (auto simp: store_points_def Let_def)

lemma store_points_last:
  assumes "exact_ints F" "0 < tg" "tg \<le> 2 ^ 53" "k \<le> tg" "0 < flat" "flat \<le> 2 ^ 53" "lp_cumulativeTokens p = flat"
  shows "map_of (store_points F now ttl flat tg k (ps @ [p]) es) (lp_fingerprint p) =
         Some \<lparr>ce_expiresAt = now + ttl, ce_ttl = ttl, ce_cachedTokens = tg\<rparr>"
proof -
  have "f_mul F (f_div F (f_int F flat) (f_int F flat)) (f_int F tg) = of_int tg" using assms by (simp add: exact_ints_def)
  then show ?thesis using assms(2-7) by (simp add: store_points_def Let_def)
qed

lemma length_store_points: "length (store_points F now ttl flat tg k ps es) \<le> length es + length ps"
proof (induction ps arbitrary: es)
  case (Cons p ps)
  have l: "length (put_entry a v es) \<le> Suc (length es)" for a v by (induction a v es rule: put_entry.induct) auto
  have "length (store_points F now ttl flat tg k [p] es) \<le> Suc (length es)" using l by (simp add: store_points_def Let_def)
  with Cons.IH [of "store_points F now ttl flat tg k [p] es"] show ?case by (simp add: store_points_def Let_def)
qed (simp add: store_points_def)

lemma put_entry_absent: "map_of m k = None \<Longrightarrow> put_entry k v m = m @ [(k, v)]"
  by (induction k v m rule: put_entry.induct) (auto split: if_splits)

lemma enforce_within: "bounded (opts_normalized (tk_opts t)) (tk_entries t) \<Longrightarrow> enforceLimitsLocked t = t"
  by (simp add: enforceLimitsLocked_def Let_def bounded_def drop_scopes_def drop_entries_def)


lemma last_point_tokens:
  "ps_points s = [] \<or> lp_cumulativeTokens (last (ps_points s)) = ps_tokens s \<Longrightarrow>
   ps_points (fold (profile_block L) bs s) = [] \<or>
   lp_cumulativeTokens (last (ps_points (fold (profile_block L) bs s))) = ps_tokens (fold (profile_block L) bs s)"
proof (induction bs arbitrary: s)
  case (Cons b bs)
  have "lp_cumulativeTokens (last (ps_points (profile_block L b s))) = ps_tokens (profile_block L b s)"
    by (auto simp: profile_block_def Let_def split: option.splits)
  with Cons.IH [of "profile_block L b s"] show ?case by simp
qed simp

lemma flat_le_total:
  assumes "buildProfile L req n m sy = Some prof"
  shows "lp_cumulativeTokens (last (pf_lookupPoints prof)) \<le> pf_totalInputTokens prof"
  using assms last_point_tokens [of "\<lparr>ps_hashed = '''', ps_tokens = 0, ps_activeTTL = None, ps_breakpoints = [], ps_points = []\<rparr>" L "flattenCacheBlocks L req"]
  by (auto simp: buildProfile_def Let_def split: if_splits)

lemma plan_ratio: "pl_opts p = normalizePlanOptions bo (opts_normalized opts) \<Longrightarrow> opts_normalized (tk_opts t) = opts_normalized opts \<Longrightarrow>
   plan_targetReadRatio p t = po_targetReadRatio (pl_opts p)"
proof -
  have "0 \<le> o_TargetReadRatio (opts_normalized opts) \<and> o_TargetReadRatio (opts_normalized opts) \<le> 99 / 100"
    using clampFloat_bounds [of 0 "99 / 100" "o_TargetReadRatio opts"] by (simp add: opts_fields)
  then show "pl_opts p = normalizePlanOptions bo (opts_normalized opts) \<Longrightarrow> opts_normalized (tk_opts t) = opts_normalized opts \<Longrightarrow> ?thesis"
    by (simp add: plan_targetReadRatio_def normalizePlanOptions_def Let_def clampFloat_id)
qed

text \<open>A commit into a scope the tracker does not hold yet, with room for it, stores just its points.\<close>

lemma update_fresh:
  assumes ok: "tracker_ok t" and fresh: "map_of (tk_entries t) sc = None"
    and room: "int (length (tk_entries t)) < o_MaxScopes (opts_normalized (tk_opts t))"
      "int (length (entry_refs (tk_entries t))) + int (length (pf_lookupPoints prof)) \<le> o_MaxEntries (opts_normalized (tk_opts t))"
    and tgt: "0 < profile_target L prof ratio" "pf_lookupPoints prof \<noteq> []" "0 < lp_cumulativeTokens (last (pf_lookupPoints prof))"
  shows "map_of (tk_entries (cache_update L now sc prof ratio t)) sc =
    Some (store_points (cl_ops L) now (last_ttl prof) (lp_cumulativeTokens (last (pf_lookupPoints prof)))
      (profile_target L prof ratio) (minCacheableTokensForModel L (pf_model prof)) (pf_lookupPoints prof) [])" (is "_ = Some ?es")
proof -
  let ?t = "pruneExpiredIfDueLocked now t"
  note none = prune_None [OF fresh, of now]
  have opts: "tk_opts ?t = tk_opts t" using prune_due_ok [OF ok, of now] by blast
  have eok: "entries_ok (tk_entries t)" using ok by (simp add: tracker_ok_def)
  have len: "length (tk_entries ?t) \<le> length (tk_entries t)" "length (entry_refs (tk_entries ?t)) \<le> length (entry_refs (tk_entries t))"
    using prune_ok(2,3) [OF eok, of now] by (auto simp: pruneExpiredIfDueLocked_def)
  have "length (entry_refs (put_entry sc ?es (tk_entries ?t))) = length (entry_refs (tk_entries ?t)) + length ?es"
    by (simp add: put_entry_absent [OF none]) (simp add: entry_refs_def)
  then have "bounded (opts_normalized (tk_opts t)) (put_entry sc ?es (tk_entries ?t))"
    using room len length_store_points [of "cl_ops L" now "last_ttl prof" "lp_cumulativeTokens (last (pf_lookupPoints prof))"
      "profile_target L prof ratio" "minCacheableTokensForModel L (pf_model prof)" "pf_lookupPoints prof" "[]"]
    by (simp add: bounded_def) (simp add: put_entry_absent [OF none])
  then have "enforceLimitsLocked (?t\<lparr>tk_entries := put_entry sc ?es (tk_entries ?t)\<rparr>) = ?t\<lparr>tk_entries := put_entry sc ?es (tk_entries ?t)\<rparr>"
    using opts by (intro enforce_within) simp
  then show ?thesis using tgt none by (simp add: cache_update_def Let_def)
qed

lemma minCacheable_positive: "0 < minCacheableTokensForModel L m"
  by (simp add: minCacheableTokensForModel_def Let_def haiku35MinCacheTokens_def extendedMinCacheTokens_def defaultMinCacheTokens_def)

text \<open>A lookup after that finds the last stored point, as long as it has not expired.\<close>

lemma compute_after_update:
  assumes ok: "tracker_ok t" and es: "map_of (tk_entries t) sc = Some (store_points (cl_ops L) now ttl flat tg (minCacheableTokensForModel L (pf_model prof')) (ps @ [p]) [])"
    and F: "exact_ints (cl_ops L)" and tg: "0 < tg" "tg \<le> 2 ^ 53" "minCacheableTokensForModel L (pf_model prof') \<le> tg"
    and flat: "lp_cumulativeTokens p = flat" "minCacheableTokensForModel L (pf_model prof') \<le> flat" "flat \<le> 2 ^ 53"
    and ext: "pf_lookupPoints prof' = (ps @ [p]) @ qs" "distinct (map lp_fingerprint (pf_lookupPoints prof'))"
    and ttl: "now' < now + ttl" and pos: "0 < profile_target L prof' ratio"
  shows "cu_CacheReadInputTokens (snd (cache_compute L now' sc prof' ratio t)) = min tg (profile_target L prof' ratio)"
proof -
  let ?k = "minCacheableTokensForModel L (pf_model prof')"
  let ?e = "\<lparr>ce_expiresAt = now + ttl, ce_ttl = ttl, ce_cachedTokens = tg\<rparr>"
  have "0 < flat" using flat(2) minCacheable_positive [of L "pf_model prof'"] by simp
  then have p: "map_of (store_points (cl_ops L) now ttl flat tg ?k (ps @ [p]) []) (lp_fingerprint p) = Some ?e"
    using F tg flat by (intro store_points_last)
  obtain es' where es': "map_of (tk_entries (pruneExpiredIfDueLocked now' t)) sc = Some es'" "map_of es' (lp_fingerprint p) = Some ?e"
    "\<And>fp. map_of (store_points (cl_ops L) now ttl flat tg ?k (ps @ [p]) []) fp = None \<Longrightarrow> map_of es' fp = None"
    using prune_Some [OF ok es p, of now'] ttl by auto
  have skip: "map_of es' (lp_fingerprint q) = None" if "q \<in> set (rev qs)" for q
  proof (rule es'(3))
    have "lp_fingerprint q \<notin> lp_fingerprint ` set (ps @ [p])" using ext that by (auto simp: image_iff)
    then show "map_of (store_points (cl_ops L) now ttl flat tg ?k (ps @ [p]) []) (lp_fingerprint q) = None"
      using store_points_absent by fastforce
  qed
  have "find_match now' ?k es' (rev (pf_lookupPoints prof')) = Some (lp_fingerprint p, ?e)"
    using find_match_skip [of "rev qs" es' now' ?k "rev (ps @ [p])"] skip ext(1) es'(2) flat ttl by simp
  then show ?thesis using es'(1) pos tg(1) by (simp add: cache_compute_def Let_def split_usage_def case_prod_beta)
qed


lemma Commit_ok: "tracker_ok t \<Longrightarrow> tracker_ok (Commit L now p t) \<and> tk_opts (Commit L now p t) = tk_opts t"
  using update_ok by (simp add: Commit_def)

lemma compute_fresh:
  assumes "map_of (tk_entries t) sc = None" "0 < profile_target L prof ratio"
  shows "cache_compute L now sc prof ratio t = (pruneExpiredIfDueLocked now t,
    split_usage prof (profile_target L prof ratio) 0 (effectiveCacheReadRatio (cl_ops L) prof ratio))"
  using assms prune_None [OF assms(1), of now] by (simp add: cache_compute_def Let_def)

text \<open>The first turn of a conversation: its plan creates the whole target, and the commit stores its points.\<close>

lemma first_turn:
  assumes p: "BuildPlanWithOptions L now req sc n bo t = (t1, Some p)" and ok: "tracker_ok t" and fresh: "map_of (tk_entries t) sc = None"
    and room: "int (length (tk_entries t)) < o_MaxScopes (opts_normalized (tk_opts t))"
      "entryCountLocked t + int (length (pf_lookupPoints (pl_profile p))) \<le> o_MaxEntries (opts_normalized (tk_opts t))"
    and size: "minCacheableTokensForModel L (sc_Model sc) \<le> lp_cumulativeTokens (last (pf_lookupPoints (pl_profile p)))"
  obtains tg where "buildProfile L req n (sc_Model sc) (b_SynthesizeStablePrefix bo) = Some (pl_profile p)"
    "0 < tg" "minCacheableTokensForModel L (sc_Model sc) \<le> tg" "tg < pf_totalInputTokens (pl_profile p)"
    "cu_CacheCreationInputTokens (pl_usage p) = tg" "tracker_ok (Commit L now1 p t1)"
    "map_of (tk_entries (Commit L now1 p t1)) sc = Some (store_points (cl_ops L) now1 (last_ttl (pl_profile p))
       (lp_cumulativeTokens (last (pf_lookupPoints (pl_profile p)))) tg (minCacheableTokensForModel L (sc_Model sc))
       (pf_lookupPoints (pl_profile p)) [])"
proof -
  let ?k = "minCacheableTokensForModel L (sc_Model sc)"
  obtain prof where prof: "buildProfile L req n (sc_Model sc) (b_SynthesizeStablePrefix bo) = Some prof" "pl_profile p = prof" "pl_scope p = sc"
    "pl_opts p = normalizePlanOptions bo (opts_normalized (tk_opts t))"
    "cache_compute L now sc prof (po_targetReadRatio (pl_opts p)) t = (t1, pl_usage p)" "\<not> usage_Empty (pl_usage p)"
    using BuildPlan_Some [OF p] by metis
  let ?tg = "profile_target L prof (po_targetReadRatio (pl_opts p))"
  let ?ps = "pf_lookupPoints prof"
  have pos: "0 < ?tg" using compute_empty [of L prof "po_targetReadRatio (pl_opts p)" now sc t] prof(5,6) by fastforce
  have t1: "t1 = pruneExpiredIfDueLocked now t" "cu_CacheCreationInputTokens (pl_usage p) = ?tg"
    using compute_fresh [OF fresh pos, of now] prof(5) by (auto simp: split_usage_def case_prod_beta)
  have m: "?ps \<noteq> []" "pf_model prof = sc_Model sc" using buildProfile_points(2,3) [OF prof(1)] .
  have tg: "?k \<le> ?tg" "?tg < pf_totalInputTokens prof"
    using targetCacheTokens_bounds [of "cl_ops L" "pf_totalInputTokens prof" _ ?k] pos m(2) unfolding profile_target_def by auto
  have ok1: "tracker_ok t1" "tk_opts t1 = tk_opts t" using prune_due_ok [OF ok, of now] t1(1) by auto
  have none1: "map_of (tk_entries t1) sc = None" unfolding t1(1) by (rule prune_None [OF fresh])
  have len: "length (tk_entries t1) \<le> length (tk_entries t)" "length (entry_refs (tk_entries t1)) \<le> length (entry_refs (tk_entries t))"
    using prune_ok(2,3) [of t now] ok unfolding t1(1) by (auto simp: pruneExpiredIfDueLocked_def tracker_ok_def)
  have flat: "0 < lp_cumulativeTokens (last ?ps)" using size minCacheable_positive [of L "sc_Model sc"] prof(2) by simp
  have stored: "map_of (tk_entries (Commit L now1 p t1)) sc = Some (store_points (cl_ops L) now1 (last_ttl prof) (lp_cumulativeTokens (last ?ps)) ?tg ?k ?ps [])"
    using update_fresh [OF ok1(1) none1, of prof L "po_targetReadRatio (pl_opts p)" now1] room len pos m flat prof(2,3,6) ok1(2)
      plan_ratio [OF prof(4), of t1] by (simp add: Commit_def entryCount_refs)
  from that [of ?tg] Commit_ok [OF ok1(1), of L now1 p] prof(1,2) pos tg t1(2) stored show ?thesis by simp
qed


lemma find_match_small: "(\<And>p. p \<in> set ps \<Longrightarrow> lp_cumulativeTokens p < k) \<Longrightarrow> find_match now k es ps = None"
  by (induction ps) auto

text \<open>
  Entries are stored when the tokens scaled to the target reach the model's minimum, but looked up only
  at points whose own count does: a request whose own count stays below the minimum, while its total
  (and so its target) is above it, creates entries that it never reads back, whatever the cache holds.
\<close>

lemma small_prefix_never_hits:
  assumes "\<And>p. p \<in> set (pf_lookupPoints prof) \<Longrightarrow> lp_cumulativeTokens p < minCacheableTokensForModel L (pf_model prof)"
  shows "cu_CacheReadInputTokens (snd (cache_compute L now sc prof ratio t)) = 0"
  using find_match_small [of "rev (pf_lookupPoints prof)" "minCacheableTokensForModel L (pf_model prof)" now] assms
  by (auto simp: cache_compute_def Let_def split_usage_def zero_usage_def case_prod_beta split: option.splits)


text \<open>A library for examples: fingerprints are the lengths of the hashed text, and every block counts 2000 tokens.\<close>

definition length_lib :: cache_lib where
  "length_lib = \<lparr>cl_sha = (\<lambda>s. show_int (int (length s))), cl_quote = (\<lambda>s. s), cl_float = (\<lambda>_. ''0''), cl_lower = (\<lambda>s. s),
     cl_tokens = (\<lambda>_. Some 2000), cl_ops = exact_float\<rparr>"

definition chat_request :: "Message list \<Rightarrow> Request" where
  "chat_request ms = \<lparr>rq_Model = ''m'', rq_Messages = ms, rq_System = \<lparr>sp_Text = '''', sp_Blocks = []\<rparr>, rq_Tools = [],
     rq_MaxTokens = 100, rq_StopSequences = [], rq_Stream = False, rq_Thinking = None, rq_Effort = None\<rparr>"

definition chat_scope :: Scope where
  "chat_scope = \<lparr>sc_CredentialID = ''c'', sc_ConversationID = ''s'', sc_Model = ''m''\<rparr>"

definition stable_prefix :: build_options where
  "stable_prefix = \<lparr>b_SynthesizeStablePrefix = True, b_TargetReadRatio = 0, b_hasTargetReadRatio = False\<rparr>"

definition user_shows :: "string \<Rightarrow> Message" where
  "user_shows data = \<lparr>m_Role = ''user'', m_Content = MessageContent ''''
     (Some [ContentBlock ''image'' '''' '''' '''' '''' '''' [] '''' (MessageContent '''' None) False
       (Some \<lparr>src_Type = ''base64'', src_MediaType = ''image/png'', src_Data = data\<rparr>) '''' [] None])\<rparr>"

definition turn1 :: "Tracker \<times> Plan option" where
  "turn1 = BuildPlanWithOptions length_lib 100 (chat_request [user_shows ''a'']) chat_scope 4000 stable_prefix
     (cache_run length_lib [] (NewTracker DefaultOptions))"

definition turn2 :: "Tracker \<times> Plan option" where
  "turn2 = BuildPlanWithOptions length_lib 120 ((chat_request [user_shows ''a''])\<lparr>rq_Messages := rq_Messages (chat_request [user_shows ''a'']) @ [user_shows ''b'']\<rparr>) chat_scope 6000 stable_prefix
     (Commit length_lib 110 (the (snd turn1)) (fst turn1))"


lemma turns_plan: "snd turn1 \<noteq> None" "snd turn2 \<noteq> None"
  by code_simp+

lemma turn_pair: "snd x \<noteq> None \<Longrightarrow> x = (fst x, Some (the (snd x)))"
  by (cases x) auto

theorem plan_usage_adds_up_witness:
  "\<exists>target. split_exactly (pl_usage (the (snd turn1))) target \<and> 0 < target"
  using plan_usage_adds_up [OF trans [OF turn1_def [symmetric] turn_pair [OF turns_plan(1)]]] by blast


end
