(* ===== verification/Cache_Report.thy ===== *)
theory Cache_Report
  imports Cache_Tracker Resp_State "HOL-Library.Signed_Division"
begin

text \<open>
  internal/promptcache/reporter.go: the reporting profiles of a route, what they make of the usage
  of a response, and how a request path selects one; internal/app/messages/prompt_cache.go: one
  attempt of a request with its plan. The maps of a configuration are lists of entries in iteration
  order. Machine integers are \<open>int\<close> with \<open>wrap64\<close> where a product may overflow, the generator of the
  sampled values works on \<open>64 word\<close>.
\<close>

section \<open>Profiles\<close>

definition FieldModeRaw :: string where "FieldModeRaw = ''raw''"
definition FieldModePreserve :: string where "FieldModePreserve = ''preserve''"
definition FieldModeSampleMax :: string where "FieldModeSampleMax = ''sample-max''"
definition FieldModeSampleTarget :: string where "FieldModeSampleTarget = ''sample-target''"
definition customRoutePrefix :: string where "customRoutePrefix = ''/api''"
definition defaultSampledInputMaxTokens :: int where "defaultSampledInputMaxTokens = 256"
definition defaultHighCacheReadRatio :: float64 where "defaultHighCacheReadRatio = 95 / 100"

record FieldPolicy =
  fp_Mode :: string
  fp_MaxTokens :: int
  fp_TargetTokens :: int
  fp_NormalMaxMultiplier :: float64
  fp_MoveDeltaToCacheRead :: bool

record ReportProfile =
  rp_Enabled :: bool
  rp_SimulateCache :: bool
  rp_SynthesizeStablePrefix :: bool
  rp_TargetReadRatio :: float64
  rp_Input :: FieldPolicy
  rp_Output :: FieldPolicy
  rp_CacheRead :: FieldPolicy
  rp_CacheCreation :: FieldPolicy
  rp_EmitCacheTTLFields :: bool
  rp_TokenScale :: float64
  rp_MaxSimulatedInputTokens :: int
  rp_CapJitterMinTokens :: int
  rp_CapJitterMaxTokens :: int
  rp_ScaleMinInputTokens :: int
  rp_targetReadRatioSet :: bool

record ReportConfig =
  rc_DefaultProfile :: string
  rc_Routes :: "(string \<times> string) list"
  rc_Profiles :: "(string \<times> ReportProfile) list"

record MatchedProfile =
  mp_Name :: string
  mp_Prefix :: string
  mp_Profile :: ReportProfile

record ReportUsage =
  ru_InputTokens :: int
  ru_OutputTokens :: int
  ru_CacheReadInputTokens :: int
  ru_CacheCreationInputTokens :: int
  ru_CacheCreation5mTokens :: int
  ru_CacheCreation1hTokens :: int

record Simulation =
  sim_Usage :: cache_usage
  sim_TargetRatio :: float64
  sim_Seed :: "64 word"
  sim_Profile :: ReportProfile

definition mode_policy :: "string \<Rightarrow> FieldPolicy" where
  "mode_policy mode = \<lparr>fp_Mode = mode, fp_MaxTokens = 0, fp_TargetTokens = 0, fp_NormalMaxMultiplier = 0, fp_MoveDeltaToCacheRead = False\<rparr>"

definition zero_profile :: ReportProfile where
  "zero_profile = \<lparr>rp_Enabled = False, rp_SimulateCache = False, rp_SynthesizeStablePrefix = False, rp_TargetReadRatio = 0,
     rp_Input = mode_policy '''', rp_Output = mode_policy '''', rp_CacheRead = mode_policy '''', rp_CacheCreation = mode_policy '''',
     rp_EmitCacheTTLFields = False, rp_TokenScale = 0, rp_MaxSimulatedInputTokens = 0, rp_CapJitterMinTokens = 0,
     rp_CapJitterMaxTokens = 0, rp_ScaleMinInputTokens = 0, rp_targetReadRatioSet = False\<rparr>"

definition defaultHighCacheProfile :: ReportProfile where
  "defaultHighCacheProfile = zero_profile
     \<lparr>rp_Enabled := True, rp_SimulateCache := True, rp_SynthesizeStablePrefix := True,
      rp_TargetReadRatio := defaultHighCacheReadRatio, rp_Input := mode_policy FieldModeRaw,
      rp_Output := mode_policy FieldModeRaw, rp_CacheRead := mode_policy FieldModePreserve,
      rp_CacheCreation := mode_policy FieldModePreserve, rp_TokenScale := 16 / 10, rp_MaxSimulatedInputTokens := 300000,
      rp_CapJitterMinTokens := 12000, rp_CapJitterMaxTokens := 24000, rp_ScaleMinInputTokens := 20000,
      rp_targetReadRatioSet := True\<rparr>"

definition DefaultReportConfig :: ReportConfig where
  "DefaultReportConfig =
     (let base = defaultHighCacheProfile;
          sampled = (mode_policy FieldModeSampleMax)\<lparr>fp_MaxTokens := defaultSampledInputMaxTokens, fp_MoveDeltaToCacheRead := True\<rparr>;
          cc = base\<lparr>rp_Input := sampled, rp_CacheCreation :=
            (mode_policy FieldModeSampleTarget)\<lparr>fp_TargetTokens := 3000, fp_NormalMaxMultiplier := 12 / 10\<rparr>\<rparr>;
          ha = base\<lparr>rp_Input := sampled\<rparr>;
          na = base\<lparr>rp_Enabled := False, rp_SimulateCache := False\<rparr>
      in \<lparr>rc_DefaultProfile = '''',
          rc_Routes = [(''/v1/messages'', ''default''), (''/api/cc'', ''cc''), (''/api/ha'', ''ha''), (''/api/na'', ''na'')],
          rc_Profiles = [(''default'', base), (''cc'', cc), (''ha'', ha), (''na'', na)]\<rparr>)"

definition LegacyReportConfig :: "Options \<Rightarrow> ReportConfig" where
  "LegacyReportConfig opts =
     \<lparr>rc_DefaultProfile = ''default'', rc_Routes = [(''/v1/messages'', ''default'')],
      rc_Profiles = [(''default'', zero_profile
        \<lparr>rp_Enabled := o_Enabled opts, rp_SimulateCache := o_Enabled opts, rp_TargetReadRatio := o_TargetReadRatio opts,
         rp_Input := mode_policy FieldModePreserve, rp_Output := mode_policy FieldModePreserve,
         rp_CacheRead := mode_policy FieldModePreserve, rp_CacheCreation := mode_policy FieldModePreserve,
         rp_targetReadRatioSet := True\<rparr>)]\<rparr>"

definition hasExplicitTargetReadRatio :: "ReportProfile \<Rightarrow> bool" where
  "hasExplicitTargetReadRatio p \<longleftrightarrow>
     rp_targetReadRatioSet p \<or> (rp_TargetReadRatio p > 0 \<and> rp_TargetReadRatio p \<noteq> o_TargetReadRatio DefaultOptions)"

definition normalizeRatio :: "float64 \<Rightarrow> float64 \<Rightarrow> bool \<Rightarrow> float64" where
  "normalizeRatio v fallback explicit = clampFloat (if v < 0 \<or> (v = 0 \<and> \<not> explicit) then fallback else v) 0 (99 / 100)"

definition normalizeTokenScale :: "float64 \<Rightarrow> float64" where
  "normalizeTokenScale v = (if v \<le> 0 then 1 else clampFloat v 1 3)"

definition field_normalized :: "cache_lib \<Rightarrow> string \<Rightarrow> FieldPolicy \<Rightarrow> FieldPolicy" where
  "field_normalized L defaultMode p =
     (let mode = TrimSpace (cl_lower L (fp_Mode p));
          mode = (if mode = '''' then defaultMode else mode);
          mode = (if mode \<in> {FieldModeRaw, FieldModePreserve, FieldModeSampleMax, FieldModeSampleTarget} then mode else defaultMode)
      in p\<lparr>fp_Mode := mode, fp_MaxTokens := max (fp_MaxTokens p) 0, fp_TargetTokens := max (fp_TargetTokens p) 0,
           fp_NormalMaxMultiplier := (if fp_NormalMaxMultiplier p < 1 then 11 / 10 else fp_NormalMaxMultiplier p)\<rparr>)"

definition profile_Normalized :: "cache_lib \<Rightarrow> ReportProfile \<Rightarrow> ReportProfile" where
  "profile_Normalized L p =
     (let set_ratio = hasExplicitTargetReadRatio p;
          p = p\<lparr>rp_TargetReadRatio := normalizeRatio (rp_TargetReadRatio p) (o_TargetReadRatio DefaultOptions) set_ratio,
                rp_targetReadRatioSet := set_ratio,
                rp_Input := field_normalized L FieldModePreserve (rp_Input p),
                rp_Output := field_normalized L FieldModePreserve (rp_Output p),
                rp_CacheRead := field_normalized L FieldModePreserve (rp_CacheRead p),
                rp_CacheCreation := field_normalized L FieldModePreserve (rp_CacheCreation p),
                rp_TokenScale := normalizeTokenScale (rp_TokenScale p),
                rp_MaxSimulatedInputTokens := max (rp_MaxSimulatedInputTokens p) 0,
                rp_CapJitterMinTokens := max (rp_CapJitterMinTokens p) 0,
                rp_CapJitterMaxTokens := max (rp_CapJitterMaxTokens p) 0\<rparr>;
          p = (if rp_CapJitterMinTokens p > rp_CapJitterMaxTokens p
               then p\<lparr>rp_CapJitterMinTokens := rp_CapJitterMaxTokens p, rp_CapJitterMaxTokens := rp_CapJitterMinTokens p\<rparr> else p)
      in p\<lparr>rp_ScaleMinInputTokens := max (rp_ScaleMinInputTokens p) 0\<rparr>)"

definition ReportsCache :: "ReportProfile \<Rightarrow> bool" where
  "ReportsCache p \<longleftrightarrow>
     rp_Enabled p \<and> (rp_SimulateCache p \<or> fp_Mode (rp_CacheRead p) \<noteq> FieldModeRaw \<or> fp_Mode (rp_CacheCreation p) \<noteq> FieldModeRaw)"

definition BuildOptionsForProfile :: "cache_lib \<Rightarrow> ReportProfile \<Rightarrow> build_options" where
  "BuildOptionsForProfile L profile =
     (let set_ratio = hasExplicitTargetReadRatio profile;
          profile = profile_Normalized L profile
      in \<lparr>b_SynthesizeStablePrefix = rp_SynthesizeStablePrefix profile,
          b_TargetReadRatio = (if set_ratio then rp_TargetReadRatio profile else 0), b_hasTargetReadRatio = set_ratio\<rparr>)"

section \<open>The JSON form of a profile\<close>

text \<open>The ratio is a pointer there; reading and writing the record as JSON text is the library's.\<close>

record reportProfileJSON =
  rj_Enabled :: bool
  rj_SimulateCache :: bool
  rj_SynthesizeStablePrefix :: bool
  rj_TargetReadRatio :: "float64 option"
  rj_Input :: FieldPolicy
  rj_Output :: FieldPolicy
  rj_CacheRead :: FieldPolicy
  rj_CacheCreation :: FieldPolicy
  rj_EmitCacheTTLFields :: bool
  rj_TokenScale :: float64
  rj_MaxSimulatedInputTokens :: int
  rj_CapJitterMinTokens :: int
  rj_CapJitterMaxTokens :: int
  rj_ScaleMinInputTokens :: int

definition MarshalJSONTo :: "ReportProfile \<Rightarrow> reportProfileJSON" where
  "MarshalJSONTo p =
     (let target = (if rp_targetReadRatioSet p \<or> (rp_TargetReadRatio p > 0 \<and> rp_TargetReadRatio p \<noteq> o_TargetReadRatio DefaultOptions)
                    then Some (rp_TargetReadRatio p) else None)
      in \<lparr>rj_Enabled = rp_Enabled p, rj_SimulateCache = rp_SimulateCache p,
          rj_SynthesizeStablePrefix = rp_SynthesizeStablePrefix p, rj_TargetReadRatio = target, rj_Input = rp_Input p,
          rj_Output = rp_Output p, rj_CacheRead = rp_CacheRead p, rj_CacheCreation = rp_CacheCreation p,
          rj_EmitCacheTTLFields = rp_EmitCacheTTLFields p, rj_TokenScale = rp_TokenScale p,
          rj_MaxSimulatedInputTokens = rp_MaxSimulatedInputTokens p, rj_CapJitterMinTokens = rp_CapJitterMinTokens p,
          rj_CapJitterMaxTokens = rp_CapJitterMaxTokens p, rj_ScaleMinInputTokens = rp_ScaleMinInputTokens p\<rparr>)"

definition UnmarshalJSONFrom :: "reportProfileJSON \<Rightarrow> ReportProfile" where
  "UnmarshalJSONFrom raw =
     (let p = \<lparr>rp_Enabled = rj_Enabled raw, rp_SimulateCache = rj_SimulateCache raw,
               rp_SynthesizeStablePrefix = rj_SynthesizeStablePrefix raw, rp_TargetReadRatio = 0, rp_Input = rj_Input raw,
               rp_Output = rj_Output raw, rp_CacheRead = rj_CacheRead raw, rp_CacheCreation = rj_CacheCreation raw,
               rp_EmitCacheTTLFields = rj_EmitCacheTTLFields raw, rp_TokenScale = rj_TokenScale raw,
               rp_MaxSimulatedInputTokens = rj_MaxSimulatedInputTokens raw, rp_CapJitterMinTokens = rj_CapJitterMinTokens raw,
               rp_CapJitterMaxTokens = rj_CapJitterMaxTokens raw, rp_ScaleMinInputTokens = rj_ScaleMinInputTokens raw,
               rp_targetReadRatioSet = False\<rparr>
      in case rj_TargetReadRatio raw of
           None \<Rightarrow> p
         | Some r \<Rightarrow> p\<lparr>rp_TargetReadRatio := r, rp_targetReadRatioSet := True\<rparr>)"

section \<open>Paths and routes\<close>

fun replace_slashes :: "string \<Rightarrow> string" where
  "replace_slashes (c # d # s) =
     (if c = CHR ''/'' \<and> d = CHR ''/'' then CHR ''/'' # replace_slashes s else c # replace_slashes (d # s))"
| "replace_slashes s = s"

fun double_slash :: "string \<Rightarrow> bool" where
  "double_slash (c # d # s) \<longleftrightarrow> (c = CHR ''/'' \<and> d = CHR ''/'') \<or> double_slash (d # s)"
| "double_slash s \<longleftrightarrow> False"

lemma double_slash_contains: "str_contains s ''//'' = double_slash s"
  by (induction s rule: double_slash.induct) (auto simp: str_contains_def has_prefix_def split: option.splits)

lemma length_replace_slashes: "length (replace_slashes s) \<le> length s"
  by (induction s rule: replace_slashes.induct) auto

lemma replace_slashes_shorter: "double_slash s \<Longrightarrow> length (replace_slashes s) < length s"
proof (induction s rule: replace_slashes.induct)
  case (1 c d s)
  then show ?case using length_replace_slashes [of s] by auto
qed auto

function squeeze :: "string \<Rightarrow> string" where
  "squeeze path = (if str_contains path ''//'' then squeeze (replace_slashes path) else path)"
  by pat_completeness auto
termination
  by (relation "measure length") (auto simp: double_slash_contains replace_slashes_shorter)

declare squeeze.simps [simp del]

definition trim_slashes :: "string \<Rightarrow> string" where
  "trim_slashes s = rev (dropWhile (\<lambda>c. c = CHR ''/'') (rev s))"

definition normalizeRequestPath :: "string \<Rightarrow> string" where
  "normalizeRequestPath path =
     (let path = TrimSpace path in
      if path = '''' then ''''
      else
        (let path = (if has_prefix path ''/'' then path else ''/'' @ path);
             path = squeeze path
         in if length path > 1 then trim_slashes path else path))"

definition normalizePathPrefix :: "string \<Rightarrow> string" where
  "normalizePathPrefix path =
     (let path = normalizeRequestPath path in
      if path = '''' \<or> path = ''/'' then ''''
      else if path = ''/v1'' \<or> has_prefix path ''/v1/'' then trim_slashes path
      else if path = customRoutePrefix then ''''
      else if has_prefix path (customRoutePrefix @ ''/'') then trim_slashes path
      else customRoutePrefix @ trim_slashes path)"

definition route_suffixes :: "string list" where
  "route_suffixes = [''/v1/messages/count_tokens'', ''/v1/messages'']"

definition pathMatches :: "string \<Rightarrow> string \<Rightarrow> bool" where
  "pathMatches pre path =
     (let pre = normalizePathPrefix pre;
          path = normalizeRequestPath path
      in if pre = '''' \<or> path = '''' then False
         else path = pre \<or> has_prefix path (pre @ ''/'') \<or>
           (\<exists>suffix \<in> set route_suffixes. has_suffix path suffix \<and> take (length path - length suffix) path = pre))"

definition config_Normalized :: "cache_lib \<Rightarrow> ReportConfig \<Rightarrow> ReportConfig" where
  "config_Normalized L c =
     (let routes = fold (\<lambda>(path, name) m.
            let path = normalizePathPrefix path; name = TrimSpace name
            in if path = '''' \<or> name = '''' then m else put_entry path name m) (rc_Routes c) [];
          profiles = fold (\<lambda>(name, p) m.
            let name = TrimSpace name in if name = '''' then m else put_entry name (profile_Normalized L p) m) (rc_Profiles c) [];
          dflt = TrimSpace (rc_DefaultProfile c)
      in \<lparr>rc_DefaultProfile = (if dflt \<noteq> '''' \<and> map_of profiles dflt = None then '''' else dflt),
          rc_Routes = routes, rc_Profiles = profiles\<rparr>)"

definition config_Empty :: "cache_lib \<Rightarrow> ReportConfig \<Rightarrow> bool" where
  "config_Empty L c =
     (let c = config_Normalized L c in rc_DefaultProfile c = '''' \<and> rc_Routes c = [] \<and> rc_Profiles c = [])"

datatype config_error =
    RouteConflict (conflict_path: string) (conflict_with: string) (conflict_normalized: string)
  | UnknownRouteProfile (unknown_path: string) (unknown_name: string)
  | UnknownDefaultProfile string

fun route_conflict :: "(string \<times> string) list \<Rightarrow> string list \<Rightarrow> config_error option" where
  "route_conflict seen [] = None"
| "route_conflict seen (rawPath # paths) =
     (let normalized = normalizePathPrefix rawPath in
      if normalized = '''' then route_conflict seen paths
      else case map_of seen normalized of
        Some prev \<Rightarrow> if prev \<noteq> rawPath then Some (RouteConflict rawPath prev normalized)
                     else route_conflict (put_entry normalized rawPath seen) paths
      | None \<Rightarrow> route_conflict (put_entry normalized rawPath seen) paths)"

definition config_Validate :: "cache_lib \<Rightarrow> ReportConfig \<Rightarrow> config_error option" where
  "config_Validate L c =
     (case route_conflict [] (map fst (rc_Routes c)) of
        Some e \<Rightarrow> Some e
      | None \<Rightarrow>
          (let c = config_Normalized L c in
           case find (\<lambda>(path, name). map_of (rc_Profiles c) name = None) (rc_Routes c) of
             Some (path, name) \<Rightarrow> Some (UnknownRouteProfile path name)
           | None \<Rightarrow>
               if rc_DefaultProfile c \<noteq> '''' \<and> map_of (rc_Profiles c) (rc_DefaultProfile c) = None
               then Some (UnknownDefaultProfile (rc_DefaultProfile c)) else None))"

definition config_Match :: "cache_lib \<Rightarrow> ReportConfig \<Rightarrow> string \<Rightarrow> MatchedProfile option" where
  "config_Match L c path =
     (let c = config_Normalized L c;
          path = normalizeRequestPath path
      in if path = '''' then None
         else
           (let prefixes = sort_key (\<lambda>p. - int (length p)) (map fst (rc_Routes c));
                (bestPrefix, bestName) =
                  (case find (\<lambda>p. pathMatches p path) prefixes of
                     Some p \<Rightarrow> (p, the (map_of (rc_Routes c) p))
                   | None \<Rightarrow> ('''', ''''));
                bestName = (if bestName = '''' then rc_DefaultProfile c else bestName)
            in if bestName = '''' then None
               else case map_of (rc_Profiles c) bestName of
                 None \<Rightarrow> None
               | Some p \<Rightarrow> Some \<lparr>mp_Name = bestName, mp_Prefix = bestPrefix, mp_Profile = profile_Normalized L p\<rparr>))"


section \<open>Sampled values\<close>

definition splitmix64 :: "64 word \<Rightarrow> 64 word" where
  "splitmix64 x =
     (let v = x + 0x9e3779b97f4a7c15;
          v = (v XOR drop_bit 30 v) * 0xbf58476d1ce4e5b9;
          v = (v XOR drop_bit 27 v) * 0x94d049bb133111eb
      in v XOR drop_bit 31 v)"

definition usage_normalized :: "ReportUsage \<Rightarrow> ReportUsage" where
  "usage_normalized u =
     (let creation = max (ru_CacheCreationInputTokens u) 0;
          cache5m = min (max (ru_CacheCreation5mTokens u) 0) creation
      in \<lparr>ru_InputTokens = max (ru_InputTokens u) 0, ru_OutputTokens = max (ru_OutputTokens u) 0,
          ru_CacheReadInputTokens = max (ru_CacheReadInputTokens u) 0, ru_CacheCreationInputTokens = creation,
          ru_CacheCreation5mTokens = cache5m,
          ru_CacheCreation1hTokens = min (max (ru_CacheCreation1hTokens u) 0) (max (creation - cache5m) 0)\<rparr>)"

definition withoutCache :: "ReportUsage \<Rightarrow> ReportUsage" where
  "withoutCache u = (usage_normalized u)\<lparr>ru_CacheReadInputTokens := 0, ru_CacheCreationInputTokens := 0,
     ru_CacheCreation5mTokens := 0, ru_CacheCreation1hTokens := 0\<rparr>"

definition hasCache :: "ReportUsage \<Rightarrow> bool" where
  "hasCache u \<longleftrightarrow> ru_CacheReadInputTokens u > 0 \<or> ru_CacheCreationInputTokens u > 0"

definition reportedTotalInputTokens :: "ReportUsage \<Rightarrow> int" where
  "reportedTotalInputTokens u =
     (let u = usage_normalized u
      in ru_InputTokens u + ru_CacheReadInputTokens u + ru_CacheCreationInputTokens u)"

definition randomForUsage :: "64 word \<Rightarrow> ReportUsage \<Rightarrow> 64 word \<Rightarrow> 64 word" where
  "randomForUsage seed u salt =
     fold (\<lambda>v state. splitmix64 (state XOR word_of_int (max v 0)))
       [reportedTotalInputTokens u, ru_InputTokens u, ru_OutputTokens u, ru_CacheCreationInputTokens u,
        ru_CacheReadInputTokens u, ru_CacheCreation5mTokens u, ru_CacheCreation1hTokens u]
       (seed XOR salt)"

text \<open>\<open>hash/fnv\<close>, FNV-1a with 64 bits, over the eight bytes of each number, the lowest first.\<close>

definition fnv64a :: "8 word list \<Rightarrow> 64 word" where
  "fnv64a bs = fold (\<lambda>b h. (h XOR ucast b) * 1099511628211) bs 14695981039346656037"

definition le_bytes :: "int \<Rightarrow> 8 word list" where
  "le_bytes v = map (\<lambda>i. ucast (drop_bit (8 * i) (word_of_int (max v 0) :: 64 word))) [0..<8]"

definition usageSeed :: "ReportUsage \<Rightarrow> ReportUsage \<Rightarrow> 64 word" where
  "usageSeed raw computed =
     fnv64a (concat (map le_bytes
       [ru_InputTokens raw, ru_OutputTokens raw, ru_CacheReadInputTokens raw, ru_CacheCreationInputTokens raw,
        ru_InputTokens computed, ru_OutputTokens computed, ru_CacheReadInputTokens computed, ru_CacheCreationInputTokens computed]))"

definition samplePolicyTarget :: "FieldPolicy \<Rightarrow> (int \<times> float64) option" where
  "samplePolicyTarget field =
     (if fp_Mode field = FieldModeSampleMax then Some (fp_MaxTokens field, 1)
      else if fp_Mode field = FieldModeSampleTarget then Some (fp_TargetTokens field, fp_NormalMaxMultiplier field)
      else None)"

definition MaxInt :: int where "MaxInt = 2 ^ 63 - 1"

definition normalMaxTokens :: "float_ops \<Rightarrow> int \<Rightarrow> float64 \<Rightarrow> int" where
  "normalMaxTokens F target multiplier =
     (let multiplier = (if multiplier < 1 then 1 else multiplier);
          v = Round (f_mul F (f_int F (max target 0)) multiplier)
      in if v < 1 then 1 else if of_int v > f_int F MaxInt then MaxInt else v)"

fun bucketRange :: "int \<Rightarrow> (int \<times> int \<times> int) list \<Rightarrow> int \<times> int" where
  "bucketRange roll [] = (0, 0)"
| "bucketRange roll [b] = snd b"
| "bucketRange roll (b # bs) = (if roll < fst b then snd b else bucketRange roll bs)"

definition percentOf :: "int \<Rightarrow> int \<Rightarrow> int" where
  "percentOf value percent = wrap64 (value * percent) sdiv 100"

definition sampleInRange :: "64 word \<Rightarrow> int \<Rightarrow> int \<Rightarrow> int \<Rightarrow> int" where
  "sampleInRange random low high effectiveMax =
     (let effectiveMax = max effectiveMax 1;
          low = min (max low 1) effectiveMax;
          high = min (max high 1) effectiveMax;
          (low, high) = (if low > high then (1, effectiveMax) else (low, high))
      in low + uint random mod (high - low + 1))"

definition capCacheCreationBreakdown :: "int \<Rightarrow> int \<Rightarrow> int \<Rightarrow> int \<times> int" where
  "capCacheCreationBreakdown cache5m cache1h limit =
     (let limit = max limit 0;
          cache5m = max cache5m 0;
          cache1h = max cache1h 0;
          total_tokens = cache5m + cache1h
      in if limit \<le> 0 \<or> total_tokens \<le> 0 then (0, 0)
         else if total_tokens \<le> limit then (cache5m, cache1h)
         else (let capped5m = wrap64 (cache5m * limit) sdiv total_tokens in (capped5m, limit - capped5m)))"

definition sampleField :: "cache_lib \<Rightarrow> FieldPolicy \<Rightarrow> ReportUsage \<Rightarrow> int \<Rightarrow> 64 word \<Rightarrow> 64 word \<Rightarrow> int option" where
  "sampleField L field usage currentValue seed salt =
     (let field = field_normalized L FieldModePreserve field;
          currentValue = max currentValue 0
      in if currentValue \<le> 0 then None
         else case samplePolicyTarget field of
           None \<Rightarrow> None
         | Some (target, multiplier) \<Rightarrow>
             if target \<le> 0 then None
             else
               (let maxTokens = min (normalMaxTokens (cl_ops L) target multiplier) currentValue in
                if maxTokens \<le> 0 then None
                else
                  (let random = randomForUsage seed usage salt;
                       bucketRoll = uint random mod 100;
                       valueRoll = splitmix64 (random XOR salt);
                       (lowPct, highPct) = bucketRange bucketRoll [(70, 2, 25), (95, 26, 70), (100, 71, 100)];
                       low = max (percentOf maxTokens lowPct) 1;
                       high = max (percentOf maxTokens highPct) low
                   in Some (sampleInRange valueRoll low high maxTokens))))"

definition sampleCacheCreation :: "cache_lib \<Rightarrow> FieldPolicy \<Rightarrow> ReportUsage \<Rightarrow> 64 word \<Rightarrow> int option" where
  "sampleCacheCreation L field usage seed =
     (let field = field_normalized L FieldModePreserve field;
          rawCreation = max (ru_CacheCreationInputTokens usage) 0
      in if rawCreation \<le> 0 then None
         else case samplePolicyTarget field of
           None \<Rightarrow> None
         | Some (target, multiplier) \<Rightarrow>
             if target \<le> 0 then None
             else
               (let normalMax = normalMaxTokens (cl_ops L) target multiplier;
                    effectiveMax = min rawCreation normalMax
                in if effectiveMax \<le> 0 then None
                   else
                     (let random = randomForUsage seed usage 0xd6e8feb86659fd93;
                          bucketRoll = uint random mod 100;
                          valueRoll = splitmix64 (random XOR 0x9e3779b97f4a7c15)
                      in if ru_CacheReadInputTokens usage > 0 \<and> bucketRoll < 20 then Some 0
                         else
                           (let (lowPct, highPct) = bucketRange bucketRoll
                                  (if ru_CacheReadInputTokens usage > 0
                                   then [(45, 1, 10), (75, 11, 45), (93, 46, 85), (100, 86, 100)]
                                   else [(35, 1, 12), (70, 13, 50), (92, 51, 88), (100, 89, 100)]);
                                low = max (percentOf normalMax lowPct) 1;
                                high = max (percentOf normalMax highPct) low
                            in Some (sampleInRange valueRoll low high effectiveMax)))))"

section \<open>Applying a profile\<close>

definition capJitter :: "cache_lib \<Rightarrow> ReportProfile \<Rightarrow> 64 word \<Rightarrow> int" where
  "capJitter L profile seed =
     (if rp_CapJitterMaxTokens profile \<le> 0 \<or> rp_MaxSimulatedInputTokens profile \<le> 1 then 0
      else
        (let F = cl_ops L;
             relativeMax = Round (f_mul F (f_int F (rp_MaxSimulatedInputTokens profile)) (8 / 100));
             maxJitter = max (min (min (rp_CapJitterMaxTokens profile) relativeMax) (rp_MaxSimulatedInputTokens profile - 1)) 0
         in if maxJitter \<le> 0 then 0
            else
              (let minJitter = min (max (rp_CapJitterMinTokens profile) 0) maxJitter
               in minJitter + uint seed mod (maxJitter - minJitter + 1))))"

definition applyAmplification :: "cache_lib \<Rightarrow> int \<Rightarrow> ReportProfile \<Rightarrow> 64 word \<Rightarrow> int" where
  "applyAmplification L base profile seed =
     (let base = max base 0 in
      if base \<le> 1 \<or> base < rp_ScaleMinInputTokens profile then base
      else
        (let F = cl_ops L;
             scaled = max (Round (f_mul F (f_int F base) (rp_TokenScale profile))) base
         in if rp_MaxSimulatedInputTokens profile \<le> 1 \<or> scaled \<le> rp_MaxSimulatedInputTokens profile then scaled
            else
              (let jitter = capJitter L profile seed;
                   softCap = min (max (rp_MaxSimulatedInputTokens profile - jitter) 1) (rp_MaxSimulatedInputTokens profile)
               in min scaled softCap)))"

text \<open>The tokens a simulation attributes to the cache, and their division into read and created ones.\<close>

definition simulation_target :: "cache_lib \<Rightarrow> Simulation \<Rightarrow> int \<Rightarrow> int" where
  "simulation_target L s total_tokens =
     (let basis = applyAmplification L total_tokens (profile_Normalized L (sim_Profile s)) (sim_Seed s);
          F = cl_ops L
      in max (Round (f_mul F (f_int F (max basis 0)) (clampFloat (sim_TargetRatio s) 0 (99 / 100)))) 0)"

definition simulation_split :: "cache_usage \<Rightarrow> int \<Rightarrow> int \<times> int" where
  "simulation_split u target =
     (let hasRead = cu_CacheReadInputTokens u > 0;
          hasCreation = cu_CacheCreationInputTokens u > 0
      in if hasRead \<and> hasCreation then (let read = min (cu_CacheReadInputTokens u) target in (read, max (target - read) 0))
         else if hasRead then (target, 0)
         else if hasCreation then (0, target) else (0, 0))"

definition toReportUsage :: "cache_lib \<Rightarrow> Simulation \<Rightarrow> ReportUsage \<Rightarrow> ReportUsage" where
  "toReportUsage L s raw =
     (let raw = usage_normalized raw;
          total_tokens = (if ru_InputTokens raw \<le> 0 then reportedTotalInputTokens raw else ru_InputTokens raw);
          (read, creation) = simulation_split (sim_Usage s) (simulation_target L s total_tokens);
          cache1h = (if cu_CacheCreation1hInputTokens (sim_Usage s) > 0 then creation else 0);
          cache5m = max (creation - cache1h) 0
      in usage_normalized \<lparr>ru_InputTokens = total_tokens, ru_OutputTokens = ru_OutputTokens raw, ru_CacheReadInputTokens = read,
           ru_CacheCreationInputTokens = creation, ru_CacheCreation5mTokens = cache5m, ru_CacheCreation1hTokens = cache1h\<rparr>)"

definition SimulationFromPlan :: "cache_lib \<Rightarrow> Plan option \<Rightarrow> ReportProfile \<Rightarrow> Tracker \<Rightarrow> Simulation option" where
  "SimulationFromPlan L plan profile t =
     (case plan of
        None \<Rightarrow> None
      | Some p \<Rightarrow>
          if usage_Empty (pl_usage p) then None
          else Some \<lparr>sim_Usage = pl_usage p, sim_TargetRatio = plan_targetReadRatio p t, sim_Seed = profileSeed (pl_profile p),
                     sim_Profile = profile_Normalized L profile\<rparr>)"

definition inputBaseValue :: "cache_lib \<Rightarrow> FieldPolicy \<Rightarrow> int \<Rightarrow> int \<Rightarrow> int" where
  "inputBaseValue L field computed raw =
     (if fp_Mode (field_normalized L FieldModePreserve field) \<in> {FieldModeRaw, FieldModeSampleMax, FieldModeSampleTarget}
      then max raw 0 else max computed 0)"

definition fieldBaseValue :: "cache_lib \<Rightarrow> FieldPolicy \<Rightarrow> int \<Rightarrow> int \<Rightarrow> int" where
  "fieldBaseValue L field computed raw =
     (if fp_Mode (field_normalized L FieldModePreserve field) = FieldModeRaw then max raw 0 else max computed 0)"

text \<open>The part of \<open>ApplyReportProfile\<close> before the sampling: the field each policy starts from.\<close>

definition projection_base :: "cache_lib \<Rightarrow> ReportProfile \<Rightarrow> ReportUsage \<Rightarrow> ReportUsage \<Rightarrow> ReportUsage" where
  "projection_base L profile raw computed =
     (let usage = computed
            \<lparr>ru_InputTokens := inputBaseValue L (rp_Input profile) (ru_InputTokens computed) (ru_InputTokens raw),
             ru_OutputTokens := fieldBaseValue L (rp_Output profile) (ru_OutputTokens computed) (ru_OutputTokens raw),
             ru_CacheReadInputTokens :=
               fieldBaseValue L (rp_CacheRead profile) (ru_CacheReadInputTokens computed) (ru_CacheReadInputTokens raw)\<rparr>
      in if fp_Mode (rp_CacheCreation profile) = FieldModeRaw
         then usage\<lparr>ru_CacheCreationInputTokens := ru_CacheCreationInputTokens raw,
                    ru_CacheCreation5mTokens := ru_CacheCreation5mTokens raw,
                    ru_CacheCreation1hTokens := ru_CacheCreation1hTokens raw\<rparr>
         else usage)"

definition sample_output :: "cache_lib \<Rightarrow> ReportProfile \<Rightarrow> 64 word \<Rightarrow> ReportUsage \<Rightarrow> ReportUsage" where
  "sample_output L profile seed usage =
     (case sampleField L (rp_Output profile) usage (ru_OutputTokens usage) seed 0x6d2b79f5aa5421d1 of
        None \<Rightarrow> usage | Some v \<Rightarrow> usage\<lparr>ru_OutputTokens := v\<rparr>)"

definition sample_read :: "cache_lib \<Rightarrow> ReportProfile \<Rightarrow> 64 word \<Rightarrow> ReportUsage \<Rightarrow> ReportUsage" where
  "sample_read L profile seed usage =
     (case sampleField L (rp_CacheRead profile) usage (ru_CacheReadInputTokens usage) seed 0x94d049bb133111eb of
        None \<Rightarrow> usage | Some v \<Rightarrow> usage\<lparr>ru_CacheReadInputTokens := v\<rparr>)"

definition sample_creation :: "cache_lib \<Rightarrow> ReportProfile \<Rightarrow> 64 word \<Rightarrow> ReportUsage \<Rightarrow> ReportUsage" where
  "sample_creation L profile seed usage =
     (case sampleCacheCreation L (rp_CacheCreation profile) usage seed of
        None \<Rightarrow> usage
      | Some v \<Rightarrow>
          (let (cache5m, cache1h) = capCacheCreationBreakdown (ru_CacheCreation5mTokens usage) (ru_CacheCreation1hTokens usage) v
           in usage\<lparr>ru_CacheCreationInputTokens := v, ru_CacheCreation5mTokens := cache5m, ru_CacheCreation1hTokens := cache1h\<rparr>))"

definition sample_input :: "cache_lib \<Rightarrow> ReportProfile \<Rightarrow> 64 word \<Rightarrow> ReportUsage \<Rightarrow> ReportUsage" where
  "sample_input L profile seed usage =
     (let currentInput = max (ru_InputTokens usage) 0 in
      if currentInput > 0
      then case sampleField L (rp_Input profile) usage currentInput seed 0xa24baed4963ee407 of
             None \<Rightarrow> usage
           | Some v \<Rightarrow>
               (let v = min (max v 1) currentInput;
                    delta = currentInput - v;
                    usage = usage\<lparr>ru_InputTokens := v\<rparr>
                in if fp_MoveDeltaToCacheRead (rp_Input profile)
                   then usage\<lparr>ru_CacheReadInputTokens := max (ru_CacheReadInputTokens usage) 0 + delta\<rparr> else usage)
      else usage)"

definition ApplyReportProfile :: "cache_lib \<Rightarrow> ReportUsage \<Rightarrow> Simulation \<Rightarrow> bool \<Rightarrow> ReportUsage \<times> bool" where
  "ApplyReportProfile L raw sim hasSim =
     (let profile = profile_Normalized L (sim_Profile sim);
          raw = usage_normalized raw
      in if \<not> rp_Enabled profile then (raw, False)
         else
           (let (computed, usedSimulation) =
                  (if hasSim \<and> ru_CacheReadInputTokens raw \<le> 0 \<and> ru_CacheCreationInputTokens raw \<le> 0 \<and> \<not> usage_Empty (sim_Usage sim)
                   then (let c = toReportUsage L sim raw in (c, hasCache c)) else (raw, False))
            in if \<not> hasCache computed \<and> \<not> ReportsCache profile then (withoutCache raw, False)
               else if \<not> hasCache computed then (raw, False)
               else
                 (let seed = (if sim_Seed sim = 0 then usageSeed raw computed else sim_Seed sim);
                      usage = projection_base L profile raw computed;
                      usage = sample_output L profile seed usage;
                      usage = sample_read L profile seed usage;
                      usage = sample_creation L profile seed usage;
                      usage = usage_normalized (sample_input L profile seed usage)
                  in (if rp_EmitCacheTTLFields profile then usage
                      else usage\<lparr>ru_CacheCreation5mTokens := 0, ru_CacheCreation1hTokens := 0\<rparr>, usedSimulation))))"

section \<open>Attempts\<close>

record promptCacheAttempt =
  at_plan :: "Plan option"
  at_simulation :: Simulation
  at_hasSimulation :: bool
  at_profile :: ReportProfile
  at_applied :: bool

definition zero_simulation :: Simulation where
  "zero_simulation = \<lparr>sim_Usage = zero_usage, sim_TargetRatio = 0, sim_Seed = 0, sim_Profile = zero_profile\<rparr>"

definition prompt_cache_attempt ::
  "cache_lib \<Rightarrow> gotime \<Rightarrow> Request \<Rightarrow> Scope \<Rightarrow> ReportProfile option \<Rightarrow> int \<Rightarrow> Tracker option \<Rightarrow> Tracker option \<times> promptCacheAttempt option" where
  "prompt_cache_attempt L now req scope reportProfile totalInputTokens t =
     (case reportProfile of
        None \<Rightarrow> (t, None)
      | Some p \<Rightarrow>
          (let profile = profile_Normalized L p in
           if \<not> rp_Enabled profile then (t, None)
           else
             (let (t, plan, sim) =
                    (case t of
                       None \<Rightarrow> (None, None, None)
                     | Some tr \<Rightarrow>
                         if rp_SimulateCache profile
                         then (let (tr, plan) = BuildPlanWithOptions L now req scope totalInputTokens (BuildOptionsForProfile L profile) tr
                               in (Some tr, plan, SimulationFromPlan L plan profile tr))
                         else (Some tr, None, None))
              in (t, Some \<lparr>at_plan = plan, at_simulation = (case sim of Some s \<Rightarrow> s | None \<Rightarrow> zero_simulation),
                           at_hasSimulation = sim \<noteq> None, at_profile = profile, at_applied = False\<rparr>))))"

definition usageAdjuster :: "cache_lib \<Rightarrow> promptCacheAttempt \<Rightarrow> Usage \<Rightarrow> promptCacheAttempt \<times> Usage" where
  "usageAdjuster L a usage =
     (let simulation = (if at_hasSimulation a then at_simulation a else (at_simulation a)\<lparr>sim_Profile := at_profile a\<rparr>);
          raw = \<lparr>ru_InputTokens = u_InputTokens usage, ru_OutputTokens = u_OutputTokens usage,
                 ru_CacheReadInputTokens = u_CacheReadInputTokens usage, ru_CacheCreationInputTokens = u_CacheWriteInputTokens usage,
                 ru_CacheCreation5mTokens = u_CacheCreation5mInputTokens usage, ru_CacheCreation1hTokens = u_CacheCreation1hInputTokens usage\<rparr>;
          (reported, usedSimulation) = ApplyReportProfile L raw simulation (at_hasSimulation a)
      in (a\<lparr>at_applied := at_applied a \<or> usedSimulation\<rparr>,
          usage\<lparr>u_InputTokens := ru_InputTokens reported, u_OutputTokens := ru_OutputTokens reported,
                u_CacheReadInputTokens := ru_CacheReadInputTokens reported, u_CacheWriteInputTokens := ru_CacheCreationInputTokens reported,
                u_CacheCreation5mInputTokens := ru_CacheCreation5mTokens reported, u_CacheCreation1hInputTokens := ru_CacheCreation1hTokens reported\<rparr>))"

definition adjustedPromptCacheUsage ::
  "cache_lib \<Rightarrow> gotime \<Rightarrow> Request \<Rightarrow> Scope \<Rightarrow> ReportProfile option \<Rightarrow> int \<Rightarrow> int \<Rightarrow> int \<Rightarrow> int \<Rightarrow> Tracker option \<Rightarrow>
   Tracker option \<times> Usage \<times> promptCacheAttempt option" where
  "adjustedPromptCacheUsage L now req scope reportProfile totalInputTokens outputTokens cacheReadTokens cacheWriteTokens t =
     (let usage = \<lparr>u_InputTokens = totalInputTokens, u_OutputTokens = outputTokens, u_CacheReadInputTokens = cacheReadTokens,
                   u_CacheWriteInputTokens = cacheWriteTokens, u_CacheCreation5mInputTokens = 0, u_CacheCreation1hInputTokens = 0\<rparr>;
          (t, attempt) = prompt_cache_attempt L now req scope reportProfile totalInputTokens t
      in case attempt of
           None \<Rightarrow> (t, usage, None)
         | Some a \<Rightarrow> (let (a, usage) = usageAdjuster L a usage in (t, usage, Some a)))"

definition commitIfApplied :: "cache_lib \<Rightarrow> gotime \<Rightarrow> promptCacheAttempt option \<Rightarrow> Tracker option \<Rightarrow> Tracker option" where
  "commitIfApplied L now a t =
     (case (a, t) of
        (Some a, Some tr) \<Rightarrow> if at_applied a then (case at_plan a of Some p \<Rightarrow> Some (Commit L now p tr) | None \<Rightarrow> Some tr) else Some tr
      | _ \<Rightarrow> t)"


section \<open>Reported usage is well formed\<close>

definition usage_ok :: "ReportUsage \<Rightarrow> bool" where
  "usage_ok u \<longleftrightarrow> 0 \<le> ru_InputTokens u \<and> 0 \<le> ru_OutputTokens u \<and> 0 \<le> ru_CacheReadInputTokens u \<and>
     0 \<le> ru_CacheCreationInputTokens u \<and> 0 \<le> ru_CacheCreation5mTokens u \<and> 0 \<le> ru_CacheCreation1hTokens u \<and>
     ru_CacheCreation5mTokens u + ru_CacheCreation1hTokens u \<le> ru_CacheCreationInputTokens u"

lemma usage_ok_normalized: "usage_ok (usage_normalized u)"
  by (simp add: usage_ok_def usage_normalized_def Let_def) linarith

lemma normalized_fields [simp]:
  "ru_InputTokens (usage_normalized u) = max (ru_InputTokens u) 0"
  "ru_OutputTokens (usage_normalized u) = max (ru_OutputTokens u) 0"
  by (simp_all add: usage_normalized_def Let_def)

lemma usage_normalized_id: "usage_ok u \<Longrightarrow> usage_normalized u = u"
  by (cases u) (auto simp: usage_ok_def usage_normalized_def Let_def)

lemma usage_ok_reset: "usage_ok u \<Longrightarrow> usage_ok (u\<lparr>ru_CacheCreation5mTokens := 0, ru_CacheCreation1hTokens := 0\<rparr>)"
  by (simp add: usage_ok_def)

lemma mod_range: "(l :: int) \<le> h \<Longrightarrow> l \<le> l + x mod (h - l + 1) \<and> l + x mod (h - l + 1) \<le> h"
  using pos_mod_bound [of "h - l + 1" x] pos_mod_sign [of "h - l + 1" x] by linarith

lemma sampleInRange_bounds: "1 \<le> sampleInRange r low high m \<and> sampleInRange r low high m \<le> max m 1"
proof (cases "min (max low 1) (max m 1) > min (max high 1) (max m 1)")
  case True
  with mod_range [of 1 "max m 1" "uint r"] show ?thesis by (simp only: sampleInRange_def Let_def if_True prod.case)
next
  case False
  with mod_range [of "min (max low 1) (max m 1)" "min (max high 1) (max m 1)" "uint r"] show ?thesis
    by (simp only: sampleInRange_def Let_def if_False prod.case) linarith
qed

lemma normalMaxTokens_pos: "0 < normalMaxTokens F target multiplier"
  by (simp add: normalMaxTokens_def Let_def MaxInt_def)

lemma sampleField_Some:
  "sampleField L field u cur seed salt = Some v \<Longrightarrow> \<exists>r low high m. v = sampleInRange r low high m \<and> 0 < m \<and> m \<le> cur"
  unfolding sampleField_def Let_def case_prod_beta
  by (simp split: if_splits option.splits del: bucketRange.simps) (metis min.cobounded2 min.cobounded1 not_le)

lemma sampleField_bounds: "sampleField L field u cur seed salt = Some v \<Longrightarrow> 1 \<le> v \<and> v \<le> cur"
proof -
  assume "sampleField L field u cur seed salt = Some v"
  then obtain r low high m where "v = sampleInRange r low high m" "0 < m" "m \<le> cur" using sampleField_Some by blast
  with sampleInRange_bounds [of r low high m] show ?thesis by simp
qed

lemma sample_fields [simp]:
  "ru_InputTokens (sample_output L p seed u) = ru_InputTokens u"
  "ru_InputTokens (sample_read L p seed u) = ru_InputTokens u"
  "ru_InputTokens (sample_creation L p seed u) = ru_InputTokens u"
  "ru_OutputTokens (sample_read L p seed u) = ru_OutputTokens u"
  "ru_OutputTokens (sample_creation L p seed u) = ru_OutputTokens u"
  "ru_OutputTokens (sample_input L p seed u) = ru_OutputTokens u"
  "ru_CacheCreationInputTokens (sample_input L p seed u) = ru_CacheCreationInputTokens u"
  "ru_CacheCreation5mTokens (sample_input L p seed u) = ru_CacheCreation5mTokens u"
  "ru_CacheCreation1hTokens (sample_input L p seed u) = ru_CacheCreation1hTokens u"
  by (auto simp: sample_output_def sample_read_def sample_creation_def sample_input_def Let_def split: option.splits prod.splits)

lemma sample_input_bounds: "0 < ru_InputTokens u \<Longrightarrow> 0 < ru_InputTokens (sample_input L p seed u) \<and> ru_InputTokens (sample_input L p seed u) \<le> ru_InputTokens u"
  by (auto simp: sample_input_def Let_def split: option.splits)

lemma sample_output_bounds:
  "0 \<le> ru_OutputTokens u \<Longrightarrow> ru_OutputTokens (sample_output L p seed u) \<le> ru_OutputTokens u \<and>
   (0 < ru_OutputTokens u \<longrightarrow> 0 < ru_OutputTokens (sample_output L p seed u))"
  by (auto simp: sample_output_def split: option.splits dest: sampleField_bounds)

lemma toReportUsage_fields:
  "usage_ok raw \<Longrightarrow> ru_OutputTokens (toReportUsage L s raw) = ru_OutputTokens raw"
  "usage_ok raw \<Longrightarrow> 0 < ru_InputTokens raw \<Longrightarrow> ru_InputTokens (toReportUsage L s raw) = ru_InputTokens raw"
  by (simp_all add: toReportUsage_def Let_def usage_normalized_id case_prod_beta) (simp add: usage_ok_def)

text \<open>What the sampling starts from, and what comes out of it, without the branches that report as is.\<close>

definition computed_usage :: "cache_lib \<Rightarrow> ReportUsage \<Rightarrow> Simulation \<Rightarrow> bool \<Rightarrow> ReportUsage" where
  "computed_usage L raw sim hasSim =
     (if hasSim \<and> ru_CacheReadInputTokens raw \<le> 0 \<and> ru_CacheCreationInputTokens raw \<le> 0 \<and> \<not> usage_Empty (sim_Usage sim)
      then toReportUsage L sim raw else raw)"

definition sampled_usage :: "cache_lib \<Rightarrow> ReportProfile \<Rightarrow> 64 word \<Rightarrow> ReportUsage \<Rightarrow> ReportUsage" where
  "sampled_usage L p seed u = sample_creation L p seed (sample_read L p seed (sample_output L p seed u))"

definition projected_usage :: "cache_lib \<Rightarrow> ReportProfile \<Rightarrow> 64 word \<Rightarrow> ReportUsage \<Rightarrow> ReportUsage \<Rightarrow> ReportUsage" where
  "projected_usage L p seed raw computed =
     (let u = usage_normalized (sample_input L p seed (sampled_usage L p seed (projection_base L p raw computed)))
      in if rp_EmitCacheTTLFields p then u else u\<lparr>ru_CacheCreation5mTokens := 0, ru_CacheCreation1hTokens := 0\<rparr>)"

lemma ApplyReportProfile_cases:
  assumes "ApplyReportProfile L raw0 sim hasSim = (u, used)"
  defines "raw \<equiv> usage_normalized raw0" and "p \<equiv> profile_Normalized L (sim_Profile sim)"
  obtains "u = raw" | "u = withoutCache raw"
    | seed where "u = projected_usage L p seed raw (computed_usage L raw sim hasSim)"
  using assms by (auto simp: ApplyReportProfile_def projected_usage_def computed_usage_def sampled_usage_def Let_def split: if_splits)

lemma projection_base_fields:
  "ru_InputTokens (projection_base L p raw c) = inputBaseValue L (rp_Input p) (ru_InputTokens c) (ru_InputTokens raw)"
  "ru_OutputTokens (projection_base L p raw c) = fieldBaseValue L (rp_Output p) (ru_OutputTokens c) (ru_OutputTokens raw)"
  by (auto simp: projection_base_def Let_def)

lemma projected_bounds:
  assumes "usage_ok raw" "ru_OutputTokens c = ru_OutputTokens raw"
    "0 < ru_InputTokens raw \<longrightarrow> ru_InputTokens c = ru_InputTokens raw"
    and u_def: "u = projected_usage L p seed raw c"
  shows "usage_ok u" "ru_OutputTokens u \<le> ru_OutputTokens raw" "0 < ru_OutputTokens raw \<longrightarrow> 0 < ru_OutputTokens u"
    "0 < ru_InputTokens raw \<longrightarrow> 0 < ru_InputTokens u \<and> ru_InputTokens u \<le> ru_InputTokens raw"
proof -
  let ?b = "projection_base L p raw c"
  have b: "ru_OutputTokens ?b = ru_OutputTokens raw" "0 < ru_InputTokens raw \<Longrightarrow> ru_InputTokens ?b = ru_InputTokens raw"
    using assms(1-3) by (auto simp: projection_base_fields inputBaseValue_def fieldBaseValue_def usage_ok_def)
  show "usage_ok u" by (simp add: u_def projected_usage_def Let_def usage_ok_normalized usage_ok_reset)
  have o: "ru_OutputTokens u = max (ru_OutputTokens (sample_output L p seed ?b)) 0"
    "ru_InputTokens u = max (ru_InputTokens (sample_input L p seed (sampled_usage L p seed ?b))) 0"
    by (simp_all add: u_def projected_usage_def sampled_usage_def Let_def usage_normalized_def)
  show "ru_OutputTokens u \<le> ru_OutputTokens raw" "0 < ru_OutputTokens raw \<longrightarrow> 0 < ru_OutputTokens u"
    using sample_output_bounds [of ?b L p seed] assms(1) by (auto simp: o b(1) usage_ok_def)
  show "0 < ru_InputTokens raw \<longrightarrow> 0 < ru_InputTokens u \<and> ru_InputTokens u \<le> ru_InputTokens raw"
    using sample_input_bounds [of "sampled_usage L p seed ?b" L p seed] b(2) by (auto simp: o sampled_usage_def)
qed

text \<open>
  C27. Whatever the profile, the simulation and the seed, the usage reported for a response is well
  formed: no count is negative, the tokens of the two cache lifetimes stay within the created tokens,
  the output never grows and never vanishes, and neither does a positive input. This holds for any
  rounding of floats and although the sampled percentages are computed in wrapping 64-bit products.
\<close>

theorem ApplyReportProfile_bounds:
  assumes "ApplyReportProfile L raw sim hasSim = (u, used)"
  shows "usage_ok u \<and> ru_OutputTokens u \<le> max (ru_OutputTokens raw) 0 \<and> (0 < ru_OutputTokens raw \<longrightarrow> 0 < ru_OutputTokens u) \<and>
    (0 < ru_InputTokens raw \<longrightarrow> 0 < ru_InputTokens u \<and> ru_InputTokens u \<le> ru_InputTokens raw)"
proof -
  let ?raw = "usage_normalized raw"
  have n: "usage_ok ?raw" "ru_OutputTokens ?raw = max (ru_OutputTokens raw) 0" "ru_InputTokens ?raw = max (ru_InputTokens raw) 0"
    by (simp_all add: usage_ok_normalized)
  from assms show ?thesis
  proof (cases rule: ApplyReportProfile_cases)
    case 1
    with n show ?thesis by auto
  next
    case 2
    with n usage_normalized_id [OF n(1)] show ?thesis by (auto simp: withoutCache_def usage_ok_def)
  next
    case (3 seed)
    have "ru_OutputTokens (computed_usage L ?raw sim hasSim) = ru_OutputTokens ?raw"
      "0 < ru_InputTokens ?raw \<longrightarrow> ru_InputTokens (computed_usage L ?raw sim hasSim) = ru_InputTokens ?raw"
      using toReportUsage_fields [OF n(1)] by (auto simp: computed_usage_def)
    from projected_bounds [OF n(1) this 3] n(2,3) show ?thesis by auto
  qed
qed

section \<open>Sampling the input only moves tokens\<close>

definition field_modes :: "string list" where
  "field_modes = [FieldModeRaw, FieldModePreserve, FieldModeSampleMax, FieldModeSampleTarget]"

lemma trim_mode: "m \<in> set field_modes \<Longrightarrow> TrimSpace m = m"
  by (auto simp: field_modes_def FieldModeRaw_def FieldModePreserve_def FieldModeSampleMax_def FieldModeSampleTarget_def
      TrimSpace_def trim_left_ascii trim_right_ascii ascii_spaces_def)

lemma field_normalized_mode: "fp_Mode (field_normalized L FieldModePreserve f) \<in> set field_modes"
  by (auto simp: field_normalized_def Let_def field_modes_def)

lemma mode_of_known:
  "m \<in> set field_modes \<Longrightarrow> cl_lower L m = m \<Longrightarrow> fp_Mode f = m \<Longrightarrow> fp_Mode (field_normalized L FieldModePreserve f) = m"
  using trim_mode [of m] by (auto simp: field_normalized_def Let_def field_modes_def FieldModeRaw_def FieldModePreserve_def
      FieldModeSampleMax_def FieldModeSampleTarget_def)

lemma profile_Normalized_input:
  "rp_Input (profile_Normalized L p) = field_normalized L FieldModePreserve (rp_Input p)"
  by (simp add: profile_Normalized_def Let_def)

lemma normalized_other_input:
  "profile_Normalized L (p\<lparr>rp_Input := f\<rparr>) = (profile_Normalized L p)\<lparr>rp_Input := field_normalized L FieldModePreserve f\<rparr>"
  by (simp add: profile_Normalized_def Let_def hasExplicitTargetReadRatio_def)

lemma other_input_fields:
  "rp_CapJitterMaxTokens (p\<lparr>rp_Input := f\<rparr>) = rp_CapJitterMaxTokens p"
  "rp_CapJitterMinTokens (p\<lparr>rp_Input := f\<rparr>) = rp_CapJitterMinTokens p"
  "rp_MaxSimulatedInputTokens (p\<lparr>rp_Input := f\<rparr>) = rp_MaxSimulatedInputTokens p"
  "rp_TokenScale (p\<lparr>rp_Input := f\<rparr>) = rp_TokenScale p"
  "rp_ScaleMinInputTokens (p\<lparr>rp_Input := f\<rparr>) = rp_ScaleMinInputTokens p"
  by simp_all

lemma jitter_other_input [simp]: "capJitter L (p\<lparr>rp_Input := f\<rparr>) seed = capJitter L p seed"
  by (simp only: capJitter_def other_input_fields)

lemma amplification_other_input [simp]: "applyAmplification L n (p\<lparr>rp_Input := f\<rparr>) seed = applyAmplification L n p seed"
  by (simp only: applyAmplification_def other_input_fields jitter_other_input)

lemma toReportUsage_other_input [simp]:
  "toReportUsage L (sim\<lparr>sim_Profile := (sim_Profile sim)\<lparr>rp_Input := f\<rparr>\<rparr>) raw = toReportUsage L sim raw"
  by (simp add: toReportUsage_def simulation_target_def normalized_other_input Let_def)

lemma sample_other_input [simp]:
  "sample_output L (p\<lparr>rp_Input := f\<rparr>) seed u = sample_output L p seed u"
  "sample_read L (p\<lparr>rp_Input := f\<rparr>) seed u = sample_read L p seed u"
  "sample_creation L (p\<lparr>rp_Input := f\<rparr>) seed u = sample_creation L p seed u"
  by (simp_all add: sample_output_def sample_read_def sample_creation_def)

lemma ReportsCache_other_input [simp]: "ReportsCache (p\<lparr>rp_Input := f\<rparr>) = ReportsCache p"
  by (simp add: ReportsCache_def)

lemma sample_input_raw:
  "fp_Mode (field_normalized L FieldModePreserve (rp_Input p)) = FieldModeRaw \<Longrightarrow> sample_input L p seed u = u"
  by (simp add: sample_input_def sampleField_def samplePolicyTarget_def Let_def FieldModeRaw_def FieldModeSampleMax_def FieldModeSampleTarget_def)

lemma sample_input_moves:
  assumes "fp_MoveDeltaToCacheRead (rp_Input p)" "0 \<le> ru_InputTokens u" "0 \<le> ru_CacheReadInputTokens u"
  shows "ru_InputTokens (sample_input L p seed u) + ru_CacheReadInputTokens (sample_input L p seed u) = ru_InputTokens u + ru_CacheReadInputTokens u"
    "0 \<le> ru_InputTokens (sample_input L p seed u)" "0 \<le> ru_CacheReadInputTokens (sample_input L p seed u)"
  using assms by (auto simp: sample_input_def Let_def split: option.splits)

definition moved_only :: "ReportUsage \<Rightarrow> ReportUsage \<Rightarrow> bool" where
  "moved_only u u' \<longleftrightarrow>
     ru_InputTokens u + ru_CacheReadInputTokens u = ru_InputTokens u' + ru_CacheReadInputTokens u' \<and>
     ru_OutputTokens u = ru_OutputTokens u' \<and> ru_CacheCreationInputTokens u = ru_CacheCreationInputTokens u' \<and>
     ru_CacheCreation5mTokens u = ru_CacheCreation5mTokens u' \<and> ru_CacheCreation1hTokens u = ru_CacheCreation1hTokens u'"

lemma moved_only_refl [simp]: "moved_only u u"
  by (simp add: moved_only_def)

lemma sampled_read_nonneg: "0 \<le> ru_CacheReadInputTokens u \<Longrightarrow> 0 \<le> ru_CacheReadInputTokens (sampled_usage L p seed u)"
  by (auto simp: sampled_usage_def sample_output_def sample_read_def sample_creation_def Let_def case_prod_beta
      split: option.splits dest: sampleField_bounds)

lemma projected_moves:
  assumes move: "fp_MoveDeltaToCacheRead (rp_Input p)" and mode: "fp_Mode (field_normalized L FieldModePreserve (rp_Input p)) \<in> {FieldModeSampleMax, FieldModeSampleTarget}"
    and f: "fp_Mode (field_normalized L FieldModePreserve f) = FieldModeRaw"
  shows "moved_only (projected_usage L p seed raw c) (projected_usage L (p\<lparr>rp_Input := f\<rparr>) seed raw c)"
proof -
  let ?b = "projection_base L p raw c"
  have b: "projection_base L (p\<lparr>rp_Input := f\<rparr>) raw c = ?b"
    using mode f by (auto simp: projection_base_def inputBaseValue_def Let_def)
  have nn: "0 \<le> ru_InputTokens (sampled_usage L p seed ?b)" "0 \<le> ru_CacheReadInputTokens (sampled_usage L p seed ?b)"
    by (simp add: sampled_usage_def projection_base_fields inputBaseValue_def)
      (rule sampled_read_nonneg, simp add: projection_base_def fieldBaseValue_def Let_def)
  have s: "sampled_usage L (p\<lparr>rp_Input := f\<rparr>) seed ?b = sampled_usage L p seed ?b" by (simp add: sampled_usage_def)
  have r: "sample_input L (p\<lparr>rp_Input := f\<rparr>) seed u = u" for u by (rule sample_input_raw) (simp add: f)
  show ?thesis
    using sample_input_moves [OF move nn, of L seed] nn unfolding projected_usage_def b s r Let_def moved_only_def
    by (simp add: usage_normalized_def Let_def)
qed

text \<open>
  A sampled input only moves tokens: with a policy that samples the input and moves the difference
  to the cache reads, the report has the same input and cache reads together, the same output and the
  same created tokens as the report of the profile that takes the input as it is, and it counts as
  simulated exactly when that one does. Nothing is lost and nothing invented, whatever is sampled.
\<close>

theorem sampled_input_moves_tokens:
  assumes "fp_MoveDeltaToCacheRead (rp_Input (sim_Profile sim))"
    and mode: "fp_Mode (rp_Input (sim_Profile sim)) \<in> {FieldModeSampleMax, FieldModeSampleTarget}"
    and lower: "\<forall>m \<in> set field_modes. cl_lower L m = m"
  shows "moved_only (fst (ApplyReportProfile L raw sim hasSim))
      (fst (ApplyReportProfile L raw (sim\<lparr>sim_Profile := (sim_Profile sim)\<lparr>rp_Input := mode_policy FieldModeRaw\<rparr>\<rparr>) hasSim)) \<and>
    snd (ApplyReportProfile L raw sim hasSim) =
    snd (ApplyReportProfile L raw (sim\<lparr>sim_Profile := (sim_Profile sim)\<lparr>rp_Input := mode_policy FieldModeRaw\<rparr>\<rparr>) hasSim)"
proof -
  let ?p = "profile_Normalized L (sim_Profile sim)"
  let ?f = "field_normalized L FieldModePreserve (mode_policy FieldModeRaw)"
  have known: "fp_Mode (field_normalized L FieldModePreserve f) = fp_Mode f" if "fp_Mode f \<in> set field_modes" for f
    using mode_of_known [OF that _ refl] lower that by blast
  have "fp_Mode (rp_Input (sim_Profile sim)) \<in> set field_modes" using mode by (auto simp: field_modes_def)
  note m1 = known [OF this]
  have raw: "fp_Mode (mode_policy FieldModeRaw) \<in> set field_modes" by (simp add: mode_policy_def field_modes_def)
  have m: "fp_Mode (field_normalized L FieldModePreserve (rp_Input ?p)) \<in> {FieldModeSampleMax, FieldModeSampleTarget}"
    using m1 mode known [OF field_normalized_mode, of L "rp_Input (sim_Profile sim)"] by (simp add: profile_Normalized_input)
  have f: "fp_Mode (field_normalized L FieldModePreserve ?f) = FieldModeRaw"
    using known [OF raw] known [OF field_normalized_mode, of L "mode_policy FieldModeRaw"] by (simp add: mode_policy_def)
  have v: "fp_MoveDeltaToCacheRead (rp_Input ?p)" using assms(1) by (simp add: profile_Normalized_input field_normalized_def Let_def)
  show ?thesis
    using projected_moves [OF v m f]
    by (simp add: ApplyReportProfile_def Let_def normalized_other_input) (auto simp: projected_usage_def sampled_usage_def Let_def)
qed


section \<open>Routes\<close>

text \<open>The two suffixes that \<open>pathMatches\<close> tries at the end add nothing: both begin with a slash.\<close>

lemma pathMatches_iff:
  "pathMatches pre path \<longleftrightarrow>
     normalizePathPrefix pre \<noteq> '''' \<and> normalizeRequestPath path \<noteq> '''' \<and>
     (normalizeRequestPath path = normalizePathPrefix pre \<or> has_prefix (normalizeRequestPath path) (normalizePathPrefix pre @ ''/''))"
proof -
  have "has_prefix s (p @ ''/'')" if "suffix \<in> set route_suffixes" "has_suffix s suffix" "take (length s - length suffix) s = p" for s p suffix
  proof -
    have "s = p @ suffix" using that(2,3) by (auto simp: has_suffix_def) (metis append_take_drop_id)
    moreover have "take 1 suffix = ''/''" using that(1) by (auto simp: route_suffixes_def)
    ultimately show ?thesis by (simp add: has_prefix_def)
  qed
  then show ?thesis by (auto simp: pathMatches_def Let_def)
qed

definition routes_ok :: "(string \<times> string) list \<Rightarrow> bool" where
  "routes_ok m \<longleftrightarrow> (\<forall>x \<in> set m. fst x \<noteq> '''' \<and> snd x \<noteq> '''') \<and> distinct (map fst m)"

lemma routes_ok_put: "routes_ok m \<Longrightarrow> p \<noteq> '''' \<Longrightarrow> n \<noteq> '''' \<Longrightarrow> routes_ok (put_entry p n m)"
  using set_put_entry [of p n m] distinct_put_entry [of m p n] unfolding routes_ok_def by fastforce

lemma routes_ok_fold:
  "routes_ok m \<Longrightarrow> (\<And>x m. routes_ok m \<Longrightarrow> routes_ok (f x m)) \<Longrightarrow> routes_ok (fold f xs m)"
  by (induction xs arbitrary: m) auto

lemma normalized_routes: "routes_ok (rc_Routes (config_Normalized L c))"
  unfolding config_Normalized_def Let_def ReportConfig.simps
  by (rule routes_ok_fold) (simp add: routes_ok_def, simp add: routes_ok_put case_prod_beta)

lemma find_longest:
  assumes "find P (sort_key (\<lambda>p. - int (length p)) ps) = Some p"
  shows "p \<in> set ps \<and> P p \<and> (\<forall>q \<in> set ps. P q \<longrightarrow> length q \<le> length p)"
proof -
  obtain i where i: "i < length (sort_key (\<lambda>p. - int (length p)) ps)" "P (sort_key (\<lambda>p. - int (length p)) ps ! i)"
    "p = sort_key (\<lambda>p. - int (length p)) ps ! i" "\<And>j. j < i \<Longrightarrow> \<not> P (sort_key (\<lambda>p. - int (length p)) ps ! j)"
    using assms by (auto simp: find_Some_iff)
  have "length q \<le> length p" if q: "q \<in> set ps" "P q" for q
  proof -
    have "q \<in> set (sort_key (\<lambda>p. - int (length p)) ps)" using q(1) by simp
    then obtain j where j: "j < length (sort_key (\<lambda>p. - int (length p)) ps)" "q = sort_key (\<lambda>p. - int (length p)) ps ! j"
      by (metis in_set_conv_nth)
    with i(4) q(2) have "i \<le> j" by (meson not_le)
    with sorted_nth_mono [of "map (\<lambda>p. - int (length p)) (sort_key (\<lambda>p. - int (length p)) ps)" i j] i j show ?thesis by simp
  qed
  then show ?thesis using i(1-3) by (metis nth_mem set_sort)
qed


text \<open>A profile read back from its JSON form is the same after normalization.\<close>

lemma profile_json_roundtrip: "profile_Normalized L (UnmarshalJSONFrom (MarshalJSONTo p)) = profile_Normalized L p"
proof (cases "hasExplicitTargetReadRatio p")
  case True
  then have "UnmarshalJSONFrom (MarshalJSONTo p) = p\<lparr>rp_targetReadRatioSet := True\<rparr>"
    by (cases p) (simp add: UnmarshalJSONFrom_def MarshalJSONTo_def hasExplicitTargetReadRatio_def)
  moreover have "hasExplicitTargetReadRatio (p\<lparr>rp_targetReadRatioSet := True\<rparr>)" by (simp add: hasExplicitTargetReadRatio_def)
  ultimately show ?thesis using True by (simp add: profile_Normalized_def Let_def)
next
  case False
  then have u: "UnmarshalJSONFrom (MarshalJSONTo p) = p\<lparr>rp_TargetReadRatio := 0\<rparr>" "\<not> rp_targetReadRatioSet p"
    by (cases p, simp_all add: UnmarshalJSONFrom_def MarshalJSONTo_def hasExplicitTargetReadRatio_def)
  have "normalizeRatio (rp_TargetReadRatio p) (o_TargetReadRatio DefaultOptions) False = normalizeRatio 0 (o_TargetReadRatio DefaultOptions) False"
    using False by (auto simp: hasExplicitTargetReadRatio_def normalizeRatio_def)
  moreover have "\<not> hasExplicitTargetReadRatio (p\<lparr>rp_TargetReadRatio := 0\<rparr>)" using u(2) by (simp add: hasExplicitTargetReadRatio_def)
  ultimately show ?thesis using False u by (simp add: profile_Normalized_def Let_def)
qed


section \<open>Examples\<close>

definition sampling_simulation :: Simulation where
  "sampling_simulation = \<lparr>sim_Usage = zero_usage\<lparr>cu_CacheCreationInputTokens := 3800\<rparr>, sim_TargetRatio = 95 / 100, sim_Seed = 7,
     sim_Profile = defaultHighCacheProfile\<lparr>rp_Input :=
       (mode_policy FieldModeSampleMax)\<lparr>fp_MaxTokens := defaultSampledInputMaxTokens, fp_MoveDeltaToCacheRead := True\<rparr>\<rparr>\<rparr>"

definition raw_usage :: ReportUsage where
  "raw_usage = \<lparr>ru_InputTokens = 4000, ru_OutputTokens = 20, ru_CacheReadInputTokens = 0, ru_CacheCreationInputTokens = 0,
     ru_CacheCreation5mTokens = 0, ru_CacheCreation1hTokens = 0\<rparr>"

theorem ApplyReportProfile_bounds_witness:
  "usage_ok (fst (ApplyReportProfile length_lib raw_usage sampling_simulation True)) \<and>
   0 < ru_InputTokens (fst (ApplyReportProfile length_lib raw_usage sampling_simulation True))"
  using ApplyReportProfile_bounds [OF prod.collapse [symmetric], of length_lib raw_usage sampling_simulation True]
  by (simp add: raw_usage_def)

theorem sampled_input_moves_tokens_witness:
  "moved_only (fst (ApplyReportProfile length_lib raw_usage sampling_simulation True))
     (fst (ApplyReportProfile length_lib raw_usage
       (sampling_simulation\<lparr>sim_Profile := (sim_Profile sampling_simulation)\<lparr>rp_Input := mode_policy FieldModeRaw\<rparr>\<rparr>) True))"
proof -
  have "fp_MoveDeltaToCacheRead (rp_Input (sim_Profile sampling_simulation))"
    "fp_Mode (rp_Input (sim_Profile sampling_simulation)) \<in> {FieldModeSampleMax, FieldModeSampleTarget}"
    "\<forall>m \<in> set field_modes. cl_lower length_lib m = m"
    by (simp_all add: sampling_simulation_def mode_policy_def length_lib_def)
  from sampled_input_moves_tokens [OF this] show ?thesis by blast
qed

definition one_route :: ReportConfig where
  "one_route = \<lparr>rc_DefaultProfile = '''', rc_Routes = [(''/x'', ''d'')], rc_Profiles = [(''d'', zero_profile)]\<rparr>"

lemma one_route_paths:
  "normalizePathPrefix ''/x'' = ''/api/x''" "normalizePathPrefix ''/api/x'' = ''/api/x''"
  "normalizeRequestPath ''/api/x/y'' = ''/api/x/y''" "TrimSpace ''d'' = ''d''" "TrimSpace '''' = ''''"
  by (simp_all add: normalizePathPrefix_def normalizeRequestPath_def TrimSpace_def trim_left_ascii trim_right_ascii ascii_spaces_def
      trim_left.simps [of "''''"] trim_right.simps [of "''''"] squeeze.simps double_slash_contains trim_slashes_def has_prefix_def customRoutePrefix_def Let_def)

lemma one_route_match:
  "\<exists>p. config_Match length_lib one_route ''/api/x/y'' = Some \<lparr>mp_Name = ''d'', mp_Prefix = ''/api/x'', mp_Profile = p\<rparr>"
  by (simp add: config_Match_def config_Normalized_def one_route_def one_route_paths pathMatches_def has_prefix_def Let_def)


end
