(* ===== verification/Api_Keys.thy ===== *)
theory Api_Keys
  imports Cache_Report
begin

text \<open>
  \<open>internal/settings\<close>: the settings that can change while the server runs, and the API keys among them.
  An update works on a copy, which replaces the current settings only when it was saved; \<open>saved\<close> says
  whether the database accepted it. Generated identifiers and secrets are arguments.
\<close>

section \<open>Settings\<close>

record RemoteManagement =
  AllowRemote :: bool
  DisablePanel :: bool
  MgmtKey :: string
  PanelRepoURL :: string

record APIKey =
  k_ID :: string
  k_Label :: string
  k_Key :: string
  k_Enabled :: bool
  k_CreatedAt :: int
  k_ExpiresAt :: int
  k_QuotaLimit :: int
  k_UsedTokens :: int

record System =
  sys_Debug :: bool
  sys_CommercialMode :: bool
  sys_LoggingToFile :: bool
  sys_UsageStatsEnabled :: bool
  sys_LogMaxTotalSizeMB :: int

record Network =
  net_ProxyURL :: string
  net_RequestRetry :: int
  net_MaxRetryCreds :: int
  net_MaxRetryIntervalRaw :: string
  net_RoutingStrategy :: string
  net_SessionAffinityTTLRaw :: string
  net_ForceModelPrefix :: bool
  net_SessionSticky :: bool
  net_PreferredRegion :: string

record Streaming =
  KeepaliveSeconds :: int
  BootstrapRetries :: int
  NonStreamingKeepaliveS :: int

record Optimizations =
  ForceThinkingBudget :: int
  ThinkingPromptMode :: string
  ThinkingToolContinueMode :: string
  SystemMode :: string
  UpstreamOrigin :: string
  ModelMappings :: string
  AuditLog :: string

record Settings =
  s_RemoteManagement :: RemoteManagement
  s_APIKeys :: "APIKey list"
  s_System :: System
  s_Network :: Network
  s_Streaming :: Streaming
  s_Optimizations :: Optimizations
  s_PromptCacheReports :: ReportConfig
  s_SchemaVersion :: int

definition CurrentSchemaVersion :: int where "CurrentSchemaVersion = 1"

text \<open>The durations of the network settings; \<open>parse\<close> is \<open>time.ParseDuration\<close>.\<close>

definition MaxRetryInterval :: "(string \<Rightarrow> duration option) \<Rightarrow> Network \<Rightarrow> duration" where
  "MaxRetryInterval parse n =
     (if net_MaxRetryIntervalRaw n = '''' then 30 * second
      else (case parse (net_MaxRetryIntervalRaw n) of Some d \<Rightarrow> d | None \<Rightarrow> 30 * second))"

definition SessionAffinityTTL :: "(string \<Rightarrow> duration option) \<Rightarrow> Network \<Rightarrow> duration" where
  "SessionAffinityTTL parse n =
     (if net_SessionAffinityTTLRaw n = '''' then hour
      else (case parse (net_SessionAffinityTTLRaw n) of Some d \<Rightarrow> d | None \<Rightarrow> hour))"

definition settings_Default :: "cache_lib \<Rightarrow> Settings" where
  "settings_Default L =
     \<lparr>s_RemoteManagement = \<lparr>AllowRemote = False, DisablePanel = False, MgmtKey = '''', PanelRepoURL = ''''\<rparr>,
      s_APIKeys = [],
      s_System = \<lparr>sys_Debug = False, sys_CommercialMode = False, sys_LoggingToFile = False, sys_UsageStatsEnabled = True, sys_LogMaxTotalSizeMB = 0\<rparr>,
      s_Network = \<lparr>net_ProxyURL = '''', net_RequestRetry = 3, net_MaxRetryCreds = 0, net_MaxRetryIntervalRaw = ''30s'',
        net_RoutingStrategy = ''round-robin'', net_SessionAffinityTTLRaw = ''1h'', net_ForceModelPrefix = False, net_SessionSticky = True,
        net_PreferredRegion = ''''\<rparr>,
      s_Streaming = \<lparr>KeepaliveSeconds = 0, BootstrapRetries = 1, NonStreamingKeepaliveS = 0\<rparr>,
      s_Optimizations = \<lparr>ForceThinkingBudget = 0, ThinkingPromptMode = '''', ThinkingToolContinueMode = '''', SystemMode = '''',
        UpstreamOrigin = '''', ModelMappings = '''', AuditLog = ''''\<rparr>,
      s_PromptCacheReports = config_Normalized L DefaultReportConfig,
      s_SchemaVersion = CurrentSchemaVersion\<rparr>"

definition settings_Get :: "cache_lib \<Rightarrow> Settings \<Rightarrow> Settings" where
  "settings_Get L cur = cur\<lparr>s_PromptCacheReports := config_Normalized L (s_PromptCacheReports cur)\<rparr>"

datatype key_error = ErrAPIKeyExists | ErrAPIKeyNotFound | ErrAPIKeyExpired | ErrAPIKeyOverQuota | BadKey string | NotSaved

definition settings_Update :: "cache_lib \<Rightarrow> bool \<Rightarrow> (Settings \<Rightarrow> key_error + Settings) \<Rightarrow> Settings \<Rightarrow> Settings \<times> (key_error + Settings)" where
  "settings_Update L saved fn cur =
     (case fn (settings_Get L cur) of
        Inl err \<Rightarrow> (cur, Inl err)
      | Inr working \<Rightarrow>
          (let working = working\<lparr>s_SchemaVersion := CurrentSchemaVersion\<rparr>
           in if saved then (working, Inr working) else (cur, Inl NotSaved)))"

section \<open>API keys\<close>

record APIKeyOptions =
  ko_Label :: string
  ko_KeyValue :: string
  ko_ExpiresAt :: int
  ko_QuotaLimit :: int

definition validateAPIKeyValue :: "string \<Rightarrow> key_error option" where
  "validateAPIKeyValue v =
     (if length v < 8 then Some (BadKey ''api key must be at least 8 characters'')
      else if \<exists>c \<in> set v. c \<in> {CHR '' '', CHR 0x09, CHR 0x0A, CHR 0x0D} then Some (BadKey ''api key must not contain whitespace'')
      else None)"

definition AddAPIKey :: "cache_lib \<Rightarrow> bool \<Rightarrow> string \<Rightarrow> string \<Rightarrow> int \<Rightarrow> APIKeyOptions \<Rightarrow> Settings \<Rightarrow> Settings \<times> (key_error + APIKey)" where
  "AddAPIKey L saved new_value new_id now opts cur =
     (let value = (if ko_KeyValue opts = '''' then new_value else ko_KeyValue opts) in
      case validateAPIKeyValue value of
        Some err \<Rightarrow> (cur, Inl err)
      | None \<Rightarrow>
          if ko_ExpiresAt opts < 0 then (cur, Inl (BadKey ''expires_at must be >= 0''))
          else if ko_QuotaLimit opts < 0 then (cur, Inl (BadKey ''quota_limit must be >= 0''))
          else
            (let out = \<lparr>k_ID = new_id, k_Label = ko_Label opts, k_Key = value, k_Enabled = True, k_CreatedAt = now,
                   k_ExpiresAt = ko_ExpiresAt opts, k_QuotaLimit = ko_QuotaLimit opts, k_UsedTokens = 0\<rparr>;
                 (cur, res) = settings_Update L saved
                   (\<lambda>c. if \<exists>k \<in> set (s_APIKeys c). k_ID k = new_id \<or> k_Key k = value then Inl ErrAPIKeyExists
                        else Inr (c\<lparr>s_APIKeys := s_APIKeys c @ [out]\<rparr>)) cur
             in (cur, map_sum id (\<lambda>_. out) res)))"

text \<open>The operations on the first key with an identifier.\<close>

fun on_key :: "string \<Rightarrow> (APIKey \<Rightarrow> key_error + APIKey) \<Rightarrow> APIKey list \<Rightarrow> key_error + APIKey list" where
  "on_key i f [] = Inl ErrAPIKeyNotFound"
| "on_key i f (k # ks) =
     (if k_ID k = i then (case f k of Inl e \<Rightarrow> Inl e | Inr k' \<Rightarrow> Inr (k' # ks))
      else (case on_key i f ks of Inl e \<Rightarrow> Inl e | Inr ks' \<Rightarrow> Inr (k # ks')))"

definition update_keys :: "cache_lib \<Rightarrow> bool \<Rightarrow> (APIKey list \<Rightarrow> key_error + APIKey list) \<Rightarrow> Settings \<Rightarrow> Settings \<times> key_error option" where
  "update_keys L saved f cur =
     (let (cur, res) = settings_Update L saved (\<lambda>c. map_sum id (\<lambda>ks. c\<lparr>s_APIKeys := ks\<rparr>) (f (s_APIKeys c))) cur
      in (cur, case res of Inl e \<Rightarrow> Some e | Inr _ \<Rightarrow> None))"

record APIKeyPatch =
  kp_Label :: string
  kp_Enabled :: "bool option"
  kp_ExpiresAt :: "int option"
  kp_QuotaLimit :: "int option"

definition patch_key :: "APIKeyPatch \<Rightarrow> APIKey \<Rightarrow> key_error + APIKey" where
  "patch_key p k =
     (let k = (if kp_Label p \<noteq> '''' then k\<lparr>k_Label := kp_Label p\<rparr> else k);
          k = (case kp_Enabled p of Some b \<Rightarrow> k\<lparr>k_Enabled := b\<rparr> | None \<Rightarrow> k)
      in case kp_ExpiresAt p of
           Some t \<Rightarrow> if t < 0 then Inl (BadKey ''expires_at must be >= 0'')
             else (case kp_QuotaLimit p of
                Some q \<Rightarrow> if q < 0 then Inl (BadKey ''quota_limit must be >= 0'') else Inr (k\<lparr>k_ExpiresAt := t, k_QuotaLimit := q\<rparr>)
              | None \<Rightarrow> Inr (k\<lparr>k_ExpiresAt := t\<rparr>))
         | None \<Rightarrow> (case kp_QuotaLimit p of
                Some q \<Rightarrow> if q < 0 then Inl (BadKey ''quota_limit must be >= 0'') else Inr (k\<lparr>k_QuotaLimit := q\<rparr>)
              | None \<Rightarrow> Inr k))"

definition UpdateAPIKey :: "cache_lib \<Rightarrow> bool \<Rightarrow> string \<Rightarrow> APIKeyPatch \<Rightarrow> Settings \<Rightarrow> Settings \<times> key_error option" where
  "UpdateAPIKey L saved i p = update_keys L saved (on_key i (patch_key p))"

definition AddAPIKeyUsage :: "cache_lib \<Rightarrow> bool \<Rightarrow> string \<Rightarrow> int \<Rightarrow> Settings \<Rightarrow> Settings \<times> key_error option" where
  "AddAPIKeyUsage L saved i tokens cur =
     (if tokens \<le> 0 then (cur, None)
      else update_keys L saved (on_key i (\<lambda>k. Inr (k\<lparr>k_UsedTokens := wrap64 (k_UsedTokens k + tokens)\<rparr>))) cur)"

definition RotateAPIKey :: "cache_lib \<Rightarrow> bool \<Rightarrow> string \<Rightarrow> string \<Rightarrow> Settings \<Rightarrow> Settings \<times> (key_error + string)" where
  "RotateAPIKey L saved new_value i cur =
     (let (cur, err) = update_keys L saved (on_key i (\<lambda>k. Inr (k\<lparr>k_Key := new_value\<rparr>))) cur
      in (cur, case err of Some e \<Rightarrow> Inl e | None \<Rightarrow> Inr new_value))"

fun delete_key :: "string \<Rightarrow> APIKey list \<Rightarrow> key_error + APIKey list" where
  "delete_key i [] = Inl ErrAPIKeyNotFound"
| "delete_key i (k # ks) =
     (if k_ID k = i then Inr ks else (case delete_key i ks of Inl e \<Rightarrow> Inl e | Inr ks' \<Rightarrow> Inr (k # ks')))"

definition DeleteAPIKey :: "cache_lib \<Rightarrow> bool \<Rightarrow> string \<Rightarrow> Settings \<Rightarrow> Settings \<times> key_error option" where
  "DeleteAPIKey L saved i = update_keys L saved (delete_key i)"

fun validate_keys :: "int \<Rightarrow> string \<Rightarrow> APIKey list \<Rightarrow> APIKey option \<times> key_error option" where
  "validate_keys now supplied [] = (None, Some ErrAPIKeyNotFound)"
| "validate_keys now supplied (k # ks) =
     (if \<not> k_Enabled k then validate_keys now supplied ks
      else if k_Key k \<noteq> supplied then validate_keys now supplied ks
      else if k_ExpiresAt k > 0 \<and> k_ExpiresAt k \<le> now then (Some k, Some ErrAPIKeyExpired)
      else if k_QuotaLimit k > 0 \<and> k_UsedTokens k \<ge> k_QuotaLimit k then (Some k, Some ErrAPIKeyOverQuota)
      else (Some k, None))"

definition ValidateAPIKey :: "int \<Rightarrow> string \<Rightarrow> Settings \<Rightarrow> APIKey option \<times> key_error option" where
  "ValidateAPIKey now supplied cur =
     (if supplied = '''' then (None, Some ErrAPIKeyNotFound) else validate_keys now supplied (s_APIKeys cur))"

definition MaskAPIKey :: "string \<Rightarrow> string" where
  "MaskAPIKey key =
     (if length key \<le> 6 then replicate (length key) (CHR ''*'')
      else (if has_prefix key ''sk-'' then ''sk'' else take 2 key) @ ''******'' @ drop (length key - 2) key)"

section \<open>A secret opens the door only while its key is valid\<close>

definition key_valid :: "int \<Rightarrow> APIKey \<Rightarrow> bool" where
  "key_valid now k \<longleftrightarrow> k_Enabled k \<and> (k_ExpiresAt k > 0 \<longrightarrow> now < k_ExpiresAt k) \<and> (k_QuotaLimit k > 0 \<longrightarrow> k_UsedTokens k < k_QuotaLimit k)"

definition keys_ok :: "APIKey list \<Rightarrow> bool" where
  "keys_ok ks \<longleftrightarrow> distinct (map k_ID ks) \<and> distinct (map k_Key ks)"

lemma validate_keys_iff:
  assumes "distinct (map k_Key ks)"
  shows "validate_keys now t ks = (Some k, None) \<longleftrightarrow> k \<in> set ks \<and> k_Key k = t \<and> key_valid now k"
  using assms
proof (induction ks)
  case (Cons a ks)
  then have "k_Key k \<noteq> k_Key a" if "k \<in> set ks" using that by (auto intro: rev_image_eqI)
  with Cons show ?case by (auto simp: key_valid_def)
qed simp

lemma validate_keys_unknown: "t \<notin> k_Key ` {k \<in> set ks. k_Enabled k} \<Longrightarrow> validate_keys now t ks = (None, Some ErrAPIKeyNotFound)"
  by (induction ks) auto

lemma on_key_Some:
  assumes "on_key i f ks = Inr ks'"
  shows "\<exists>xs k k' ys. ks = xs @ k # ys \<and> ks' = xs @ k' # ys \<and> k_ID k = i \<and> f k = Inr k'"
  using assms
proof (induction ks arbitrary: ks')
  case (Cons a ks)
  show ?case
  proof (cases "k_ID a = i")
    case True
    with Cons.prems show ?thesis by (intro exI [of _ "[]"]) (auto split: sum.splits)
  next
    case False
    with Cons.prems obtain zs where z: "on_key i f ks = Inr zs" "ks' = a # zs" by (auto split: sum.splits)
    from Cons.IH [OF z(1)] obtain xs k k' ys where "ks = xs @ k # ys" "zs = xs @ k' # ys" "k_ID k = i" "f k = Inr k'" by blast
    with z(2) show ?thesis by (intro exI [of _ "a # xs"]) auto
  qed
qed simp

lemma delete_key_Some:
  assumes "delete_key i ks = Inr ks'"
  shows "\<exists>xs k ys. ks = xs @ k # ys \<and> ks' = xs @ ys \<and> k_ID k = i"
  using assms
proof (induction ks arbitrary: ks')
  case (Cons a ks)
  show ?case
  proof (cases "k_ID a = i")
    case True
    with Cons.prems show ?thesis by (intro exI [of _ "[]"]) auto
  next
    case False
    with Cons.prems obtain zs where z: "delete_key i ks = Inr zs" "ks' = a # zs" by (auto split: sum.splits)
    from Cons.IH [OF z(1)] obtain xs k ys where "ks = xs @ k # ys" "zs = xs @ ys" "k_ID k = i" by blast
    with z(2) show ?thesis by (intro exI [of _ "a # xs"]) auto
  qed
qed simp

lemma update_keys_cases:
  assumes "update_keys L saved f cur = (cur', err)"
  shows "err \<noteq> None \<and> cur' = cur \<or> err = None \<and> saved \<and> f (s_APIKeys cur) = Inr (s_APIKeys cur')"
  using assms
  by (cases "f (s_APIKeys cur)") (auto simp: update_keys_def settings_Update_def settings_Get_def Let_def split: if_splits)

text \<open>The steps of the key store, whether or not they succeed. A fresh secret differs from those in use.\<close>

inductive key_step :: "cache_lib \<Rightarrow> Settings \<Rightarrow> Settings \<Rightarrow> bool" for L where
  "key_step L cur (fst (AddAPIKey L saved v i now opts cur))"
| "key_step L cur (fst (UpdateAPIKey L saved i p cur))"
| "key_step L cur (fst (AddAPIKeyUsage L saved i n cur))"
| "v \<notin> k_Key ` set (s_APIKeys cur) \<Longrightarrow> key_step L cur (fst (RotateAPIKey L saved v i cur))"
| "key_step L cur (fst (DeleteAPIKey L saved i cur))"

lemma patch_key_same: "patch_key p k = Inr k' \<Longrightarrow> k_ID k' = k_ID k \<and> k_Key k' = k_Key k"
  by (auto simp: patch_key_def Let_def split: option.splits if_splits)

lemma keys_ok_on_key:
  assumes "keys_ok ks" "on_key i f ks = Inr ks'"
    and "\<And>k k'. f k = Inr k' \<Longrightarrow> k_ID k' = k_ID k \<and> (k_Key k' = k_Key k \<or> k_Key k' \<notin> k_Key ` set ks)"
  shows "keys_ok ks'"
proof -
  from on_key_Some [OF assms(2)] obtain xs k k' ys where "ks = xs @ k # ys" "ks' = xs @ k' # ys" "f k = Inr k'" by blast
  with assms(1) assms(3) [of k k'] show ?thesis by (auto simp: keys_ok_def intro: rev_image_eqI)
qed

lemma keys_ok_step:
  assumes "key_step L cur cur'" "keys_ok (s_APIKeys cur)"
  shows "keys_ok (s_APIKeys cur')"
  using assms
proof cases
  case (1 saved v i now opts)
  show ?thesis
  proof (cases "s_APIKeys cur' = s_APIKeys cur")
    case False
    then obtain k where "s_APIKeys cur' = s_APIKeys cur @ [k]" "\<forall>x \<in> set (s_APIKeys cur). k_ID x \<noteq> k_ID k \<and> k_Key x \<noteq> k_Key k"
      using 1 by (auto simp: AddAPIKey_def settings_Update_def settings_Get_def Let_def split: option.splits if_splits)
    with assms(2) show ?thesis by (auto simp: keys_ok_def)
  qed (use assms(2) in simp)
next
  case (2 saved i p)
  obtain err where "update_keys L saved (on_key i (patch_key p)) cur = (cur', err)" using 2 by (auto simp: UpdateAPIKey_def prod_eq_iff)
  from update_keys_cases [OF this] assms(2) show ?thesis using keys_ok_on_key [OF assms(2), of i "patch_key p"] patch_key_same by auto
next
  case (3 saved i n)
  show ?thesis
  proof (cases "n \<le> 0")
    case False
    let ?f = "\<lambda>k. Inr (k\<lparr>k_UsedTokens := wrap64 (k_UsedTokens k + n)\<rparr>)"
    obtain err where "update_keys L saved (on_key i ?f) cur = (cur', err)" using 3 False by (auto simp: AddAPIKeyUsage_def prod_eq_iff)
    from update_keys_cases [OF this] assms(2) show ?thesis using keys_ok_on_key [OF assms(2), of i ?f] by auto
  qed (use 3 assms(2) in \<open>simp add: AddAPIKeyUsage_def\<close>)
next
  case (4 v saved i)
  let ?f = "\<lambda>k. Inr (k\<lparr>k_Key := v\<rparr>)"
  obtain err where "update_keys L saved (on_key i ?f) cur = (cur', err)" using 4(1) by (auto simp: RotateAPIKey_def prod_eq_iff split_beta Let_def)
  from update_keys_cases [OF this] assms(2) show ?thesis using keys_ok_on_key [OF assms(2), of i ?f] 4(2) by auto
next
  case (5 saved i)
  obtain err where "update_keys L saved (delete_key i) cur = (cur', err)" using 5 by (auto simp: DeleteAPIKey_def prod_eq_iff)
  from update_keys_cases [OF this] assms(2) delete_key_Some [of i "s_APIKeys cur" "s_APIKeys cur'"] show ?thesis by (auto simp: keys_ok_def)
qed

lemma keys_ok_reachable:
  assumes "(key_step L)\<^sup>*\<^sup>* (settings_Default L) cur"
  shows "keys_ok (s_APIKeys cur)"
  using assms
proof (induction rule: rtranclp_induct)
  case base
  show ?case by (simp add: keys_ok_def settings_Default_def)
next
  case (step y z)
  then show ?case using keys_ok_step by blast
qed

text \<open>
  C18. A secret opens the door exactly while its key is valid. After any operations on the keys of a
  fresh installation, whether or not they succeeded, a secret is accepted for a key if and only if it
  is the secret of that key, the key is enabled, has not expired and has tokens left. When a key was
  deleted, or given a new secret, its old secret is refused from then on.
\<close>

theorem api_key_gate:
  assumes "(key_step L)\<^sup>*\<^sup>* (settings_Default L) cur"
  shows "(ValidateAPIKey now t cur = (Some k, None) \<longleftrightarrow> t \<noteq> '''' \<and> k \<in> set (s_APIKeys cur) \<and> k_Key k = t \<and> key_valid now k) \<and>
    (k \<in> set (s_APIKeys cur) \<and> DeleteAPIKey L saved (k_ID k) cur = (cur', None) \<longrightarrow>
       ValidateAPIKey now (k_Key k) cur' = (None, Some ErrAPIKeyNotFound)) \<and>
    (k \<in> set (s_APIKeys cur) \<and> v \<noteq> k_Key k \<and> RotateAPIKey L saved v (k_ID k) cur = (cur'', Inr u) \<longrightarrow>
       ValidateAPIKey now (k_Key k) cur'' = (None, Some ErrAPIKeyNotFound))"
proof (intro conjI impI)
  note ok = keys_ok_reachable [OF assms]
  then show "ValidateAPIKey now t cur = (Some k, None) \<longleftrightarrow> t \<noteq> '''' \<and> k \<in> set (s_APIKeys cur) \<and> k_Key k = t \<and> key_valid now k"
    using validate_keys_iff [of "s_APIKeys cur" now t k] by (auto simp: ValidateAPIKey_def keys_ok_def)
  have same: "x = k" if "x \<in> set (s_APIKeys cur)" "k \<in> set (s_APIKeys cur)" "k_ID x = k_ID k" for x
    using ok that by (auto simp: keys_ok_def distinct_map inj_on_def)
  have gone: "ValidateAPIKey now (k_Key k) c = (None, Some ErrAPIKeyNotFound)" if "k_Key k \<notin> k_Key ` set (s_APIKeys c)" for c
    using that by (auto simp: ValidateAPIKey_def intro!: validate_keys_unknown)
  show "ValidateAPIKey now (k_Key k) cur' = (None, Some ErrAPIKeyNotFound)"
    if d: "k \<in> set (s_APIKeys cur) \<and> DeleteAPIKey L saved (k_ID k) cur = (cur', None)"
  proof -
    from update_keys_cases [of L saved "delete_key (k_ID k)" cur cur' None] d
    have "delete_key (k_ID k) (s_APIKeys cur) = Inr (s_APIKeys cur')" by (simp add: DeleteAPIKey_def)
    from delete_key_Some [OF this] obtain xs x ys where x: "s_APIKeys cur = xs @ x # ys" "s_APIKeys cur' = xs @ ys" "k_ID x = k_ID k" by blast
    then have "x = k" using same d by auto
    with x ok show ?thesis by (intro gone) (auto simp: keys_ok_def)
  qed
  show "ValidateAPIKey now (k_Key k) cur'' = (None, Some ErrAPIKeyNotFound)"
    if d: "k \<in> set (s_APIKeys cur) \<and> v \<noteq> k_Key k \<and> RotateAPIKey L saved v (k_ID k) cur = (cur'', Inr u)"
  proof -
    let ?f = "\<lambda>x. Inr (x\<lparr>k_Key := v\<rparr>)"
    obtain err where "update_keys L saved (on_key (k_ID k) ?f) cur = (cur'', err)" "err = None"
      using d by (auto simp: RotateAPIKey_def Let_def split: prod.splits option.splits)
    from update_keys_cases [OF this(1)] this(2) have "on_key (k_ID k) ?f (s_APIKeys cur) = Inr (s_APIKeys cur'')" by simp
    from on_key_Some [OF this] obtain xs x x' ys where x: "s_APIKeys cur = xs @ x # ys" "s_APIKeys cur'' = xs @ x' # ys" "k_ID x = k_ID k"
      "x' = x\<lparr>k_Key := v\<rparr>" by auto
    then have "x = k" using same d by auto
    with x ok d show ?thesis by (intro gone) (auto simp: keys_ok_def)
  qed
qed

definition one_key :: Settings where
  "one_key = fst (AddAPIKey length_lib True ''sk-secret'' ''k1'' 0 \<lparr>ko_Label = '''', ko_KeyValue = '''', ko_ExpiresAt = 100, ko_QuotaLimit = 0\<rparr>
     (settings_Default length_lib))"

definition the_key :: APIKey where
  "the_key = \<lparr>k_ID = ''k1'', k_Label = '''', k_Key = ''sk-secret'', k_Enabled = True, k_CreatedAt = 0, k_ExpiresAt = 100, k_QuotaLimit = 0,
     k_UsedTokens = 0\<rparr>"

theorem api_key_gate_witness:
  "ValidateAPIKey 99 ''sk-secret'' one_key = (Some the_key, None) \<and> ValidateAPIKey 100 ''sk-secret'' one_key \<noteq> (Some the_key, None)"
proof -
  have r: "(key_step length_lib)\<^sup>*\<^sup>* (settings_Default length_lib) one_key"
    unfolding one_key_def by (rule r_into_rtranclp, rule key_step.intros(1))
  have k: "s_APIKeys one_key = [the_key]"
    by (simp add: one_key_def the_key_def AddAPIKey_def validateAPIKeyValue_def settings_Update_def settings_Get_def settings_Default_def Let_def)
  note gate = api_key_gate [OF r, where k = the_key and t = "''sk-secret''", THEN conjunct1]
  have "ValidateAPIKey 99 ''sk-secret'' one_key = (Some the_key, None)"
    using gate [of 99] k by (simp add: key_valid_def the_key_def)
  moreover have "ValidateAPIKey 100 ''sk-secret'' one_key \<noteq> (Some the_key, None)"
    using gate [of 100] by (simp add: key_valid_def the_key_def)
  ultimately show ?thesis ..
qed

text \<open>A patch that fails on a later field changes nothing, although it already set the label of the copy.\<close>

lemma failed_patch_no_effect:
  assumes "snd (UpdateAPIKey L saved i p cur) \<noteq> None"
  shows "fst (UpdateAPIKey L saved i p cur) = cur"
  using update_keys_cases [of L saved "on_key i (patch_key p)" cur] assms
  by (cases "update_keys L saved (on_key i (patch_key p)) cur") (auto simp: UpdateAPIKey_def)

lemma mask_shows_two: "MaskAPIKey ''sk-abcdefgh'' = ''sk******gh''"
  by code_simp

end
