(* ===== verification/Oauth_State.thy ===== *)
theory Oauth_State
  imports Prelude
begin

text \<open>
  \<open>internal/oauth/state.go\<close> and \<open>pkce.go\<close>: the data of a login between its start and its callback, kept
  under a random nonce, and the verifiers of the PKCE exchange. Random bytes and SHA-256 are
  arguments; base64 is written out.
\<close>

section \<open>The state cache\<close>

definition DefaultStateTTL :: duration where "DefaultStateTTL = 10 * minute"

record StateEntry =
  se_State :: string
  se_Verifier :: string
  se_ProviderID :: string
  se_RedirectURI :: string
  se_Created :: gotime
  se_Extra :: "string \<rightharpoonup> string"

record StateCache =
  sc_ttl :: duration
  sc_entries :: "string \<rightharpoonup> StateEntry"

definition NewStateCache :: "duration \<Rightarrow> StateCache" where
  "NewStateCache ttl = \<lparr>sc_ttl = (if ttl \<le> 0 then DefaultStateTTL else ttl), sc_entries = Map.empty\<rparr>"

definition state_Put :: "gotime \<Rightarrow> StateEntry \<Rightarrow> StateCache \<Rightarrow> StateCache" where
  "state_Put now e c =
     (let e = (if se_Created e = 0 then e\<lparr>se_Created := now\<rparr> else e)
      in c\<lparr>sc_entries := (sc_entries c)(se_State e \<mapsto> e)\<rparr>)"

text \<open>\<open>None\<close> is \<open>ErrStateNotFound\<close>.\<close>

definition Consume :: "gotime \<Rightarrow> string \<Rightarrow> StateCache \<Rightarrow> StateCache \<times> StateEntry option" where
  "Consume now state c =
     (case sc_entries c state of
        None \<Rightarrow> (c, None)
      | Some e \<Rightarrow>
          (let c' = c\<lparr>sc_entries := (sc_entries c)(state := None)\<rparr>
           in if now - se_Created e > sc_ttl c then (c', None) else (c', Some e)))"

definition state_Sweep :: "gotime \<Rightarrow> StateCache \<Rightarrow> StateCache \<times> nat" where
  "state_Sweep now c =
     (let expired = {k. \<exists>e. sc_entries c k = Some e \<and> now - se_Created e > sc_ttl c}
      in (c\<lparr>sc_entries := (sc_entries c) |` (- expired)\<rparr>, card expired))"

definition state_Size :: "StateCache \<Rightarrow> nat" where
  "state_Size c = card (dom (sc_entries c))"

section \<open>Verifiers\<close>

definition url_alphabet :: string where
  "url_alphabet = ''ABCDEFGHIJKLMNOPQRSTUVWXYZabcdefghijklmnopqrstuvwxyz0123456789-_''"

definition b64 :: "nat \<Rightarrow> char" where "b64 n = url_alphabet ! (n mod 64)"

text \<open>\<open>base64.RawURLEncoding\<close>: six bits per character, most significant first, without padding.\<close>

fun raw_url :: "char list \<Rightarrow> string" where
  "raw_url [] = []"
| "raw_url [a] = (let n = of_char a * 16 in [b64 (n div 64), b64 n])"
| "raw_url [a, b] = (let n = (of_char a * 256 + of_char b) * 4 in [b64 (n div 4096), b64 (n div 64), b64 n])"
| "raw_url (a # b # c # s) =
     (let n = (of_char a * 256 + of_char b) * 256 + of_char c
      in b64 (n div 262144) # b64 (n div 4096) # b64 (n div 64) # b64 n # raw_url s)"

definition PKCEVerifierLength :: int where "PKCEVerifierLength = 32"

text \<open>\<open>random n\<close> is what the system's generator gives for \<open>n\<close> bytes, \<open>None\<close> when it fails.\<close>

definition NewVerifierN :: "(nat \<Rightarrow> char list option) \<Rightarrow> int \<Rightarrow> string option" where
  "NewVerifierN random nBytes =
     (if nBytes < 16 \<or> nBytes > 96 then None else map_option raw_url (random (nat nBytes)))"

definition NewVerifier :: "(nat \<Rightarrow> char list option) \<Rightarrow> string option" where
  "NewVerifier random = NewVerifierN random PKCEVerifierLength"

definition Challenge :: "(string \<Rightarrow> char list) \<Rightarrow> string \<Rightarrow> string" where
  "Challenge sha256 verifier = raw_url (sha256 verifier)"

definition NewState :: "(nat \<Rightarrow> char list option) \<Rightarrow> string option" where
  "NewState random = map_option raw_url (random 24)"

section \<open>Length and alphabet of a verifier\<close>

lemma raw_url_length: "length (raw_url s) = (4 * length s + 2) div 3"
  by (induction s rule: raw_url.induct) (simp_all add: Let_def)

lemma b64_alphabet: "b64 n \<in> set url_alphabet"
  unfolding b64_def by (rule nth_mem) (simp add: url_alphabet_def)

lemma raw_url_alphabet: "set (raw_url s) \<subseteq> set url_alphabet"
  by (induction s rule: raw_url.induct) (simp_all add: Let_def b64_alphabet)

text \<open>
  A verifier of 32 bytes has the 43 characters that RFC 7636 asks for at least, and the largest one has
  the 128 it allows; the comment's lower limit of 16 bytes gives 22, which is too short.
\<close>

lemma verifier_length:
  assumes "NewVerifierN random n = Some v" "\<And>k bs. random k = Some bs \<Longrightarrow> length bs = k"
  shows "length v = (4 * nat n + 2) div 3 \<and> 22 \<le> length v \<and> length v \<le> 128 \<and> set v \<subseteq> set url_alphabet \<and> (32 \<le> n \<longrightarrow> 43 \<le> length v)"
proof -
  from assms(1) obtain bs where bs: "random (nat n) = Some bs" "v = raw_url bs" "16 \<le> n" "n \<le> 96"
    by (auto simp: NewVerifierN_def split: if_splits)
  then have "length v = (4 * nat n + 2) div 3" using assms(2) by (simp add: raw_url_length)
  with bs(2-4) show ?thesis using raw_url_alphabet by auto
qed

section \<open>A login is completed at most once\<close>

datatype state_op = OpPut gotime StateEntry | OpConsume gotime string | OpSweep gotime

fun state_run :: "state_op list \<Rightarrow> StateCache \<Rightarrow> StateCache \<times> StateEntry option list" where
  "state_run [] c = (c, [])"
| "state_run (OpPut t e # ops) c = state_run ops (state_Put t e c)"
| "state_run (OpConsume t s # ops) c =
     (let (c, r) = Consume t s c; (c, rs) = state_run ops c in (c, r # rs))"
| "state_run (OpSweep t # ops) c = state_run ops (fst (state_Sweep t c))"

definition puts :: "string \<Rightarrow> state_op list \<Rightarrow> nat" where
  "puts s ops = length (filter (\<lambda>p. case p of OpPut _ e \<Rightarrow> se_State e = s | _ \<Rightarrow> False) ops)"

definition cache_ok :: "StateCache \<Rightarrow> bool" where
  "cache_ok c \<longleftrightarrow> (\<forall>k e. sc_entries c k = Some e \<longrightarrow> se_State e = k)"

definition handed_out :: "string \<Rightarrow> StateEntry option list \<Rightarrow> nat" where
  "handed_out s rs = length (filter (\<lambda>r. \<exists>e. r = Some e \<and> se_State e = s) rs)"

lemma cache_ok_ops:
  "cache_ok (NewStateCache ttl)" "cache_ok c \<Longrightarrow> cache_ok (state_Put t e c)" "cache_ok c \<Longrightarrow> cache_ok (fst (Consume t s c))"
  "cache_ok c \<Longrightarrow> cache_ok (fst (state_Sweep t c))"
  by (auto simp: cache_ok_def NewStateCache_def state_Put_def Consume_def state_Sweep_def Let_def restrict_map_def
      split: option.splits if_splits)

abbreviation waiting :: "string \<Rightarrow> StateCache \<Rightarrow> nat" where
  "waiting s c \<equiv> (if sc_entries c s = None then 0 else 1)"

lemma state_run_once:
  assumes "cache_ok c"
  shows "handed_out s (snd (state_run ops c)) \<le> puts s ops + waiting s c"
  using assms
proof (induction ops c rule: state_run.induct)
  case (1 c)
  then show ?case by (simp add: handed_out_def puts_def)
next
  case (2 t e ops c)
  have "waiting s (state_Put t e c) \<le> (if se_State e = s then 1 else 0) + waiting s c" by (simp add: state_Put_def Let_def)
  with 2 show ?case by (fastforce simp: puts_def cache_ok_ops)
next
  case (3 t x ops c)
  have "handed_out s [snd (Consume t x c)] + waiting s (fst (Consume t x c)) \<le> waiting s c"
    using 3(2) by (auto simp: Consume_def cache_ok_def handed_out_def Let_def split: option.splits)
  moreover obtain c1 r where C: "Consume t x c = (c1, r)" by fastforce
  moreover have "handed_out s (snd (state_run ops c1)) \<le> puts s ops + waiting s c1"
    using 3(1) [OF refl C [symmetric]] cache_ok_ops(3) [OF 3(2), of t x] C by simp
  moreover have "handed_out s (snd (state_run (OpConsume t x # ops) c)) = handed_out s [r] + handed_out s (snd (state_run ops c1))"
    using C by (simp add: handed_out_def case_prod_beta)
  moreover have "puts s (OpConsume t x # ops) = puts s ops" by (simp add: puts_def)
  ultimately show ?case by (simp del: state_run.simps)
next
  case (4 t ops c)
  have "waiting s (fst (state_Sweep t c)) \<le> waiting s c" by (auto simp: state_Sweep_def Let_def restrict_map_def)
  with 4 show ?case by (fastforce simp: puts_def cache_ok_ops)
qed

text \<open>
  A login that was started once is handed out at most once, whatever callbacks and sweeps come, and
  never after its time to live.
\<close>

theorem login_once:
  assumes "puts s ops \<le> n"
  shows "handed_out s (snd (state_run ops (NewStateCache ttl))) \<le> n \<and>
    (snd (Consume now s c) = Some e \<longrightarrow> now - se_Created e \<le> sc_ttl c)"
  using state_run_once [OF cache_ok_ops(1), of s ops ttl] assms
  by (auto simp: NewStateCache_def Consume_def Let_def split: option.splits if_splits)

end
