(* ===== verification/Spec2Isabelle.thy ===== *)
theory Spec2Isabelle
  imports Chunk_Delta Conductor_Redis Thinking_Loop Usage_Store Model_Names Api_Keys Oauth_State
begin

text \<open>
  Verification of the core of kirocc-pro, a proxy that serves the Anthropic Messages API from a pool
  of Kiro accounts. File names are relative to \<^verbatim>\<open>src/\<close>.

  \<^bold>\<open>The program.\<close> A request to \<^verbatim>\<open>/v1/messages\<close> acquires an account from the pool
  (\<^verbatim>\<open>internal/pool\<close>: a conductor over a scheduler, a selector, session affinity and, with several
  processes, leases in Redis), is converted to a Kiro payload (\<^verbatim>\<open>internal/reqconv\<close>,
  \<^verbatim>\<open>internal/toolsearch\<close>), is sent with retries (\<^verbatim>\<open>internal/kiroclient\<close>), and the binary event
  stream that comes back (\<^verbatim>\<open>internal/kiroproto\<close>) is turned into Anthropic events or one document
  (\<^verbatim>\<open>internal/respconv\<close>) and handed to the client through a gate that lets a failed attempt be
  repeated (\<^verbatim>\<open>internal/app/messages\<close>). The usage that is reported may be adjusted by a simulated
  prompt cache (\<^verbatim>\<open>internal/promptcache\<close>). The result of the request goes back to the scheduler,
  which cools down or disables the account.

  \<^bold>\<open>Foundations.\<close>
  \<^item> \<open>Prelude\<close>: types, durations, wrap-around of 64-bit integers, generic lemmas.
  \<^item> \<open>Go_Strings\<close>, \<open>Go_Strconv\<close>, \<open>Go_Maps\<close>, \<open>Go_Float\<close>, \<open>Json\<close>: what the sources use of the standard
    library. Strings are byte lists, runes are decoded from them as Go does; a Go map whose iteration
    order can be observed is the list of its entries; floating-point rounding is a parameter.

  \<^bold>\<open>The pool\<close> (\<^verbatim>\<open>internal/pool\<close>).
  \<^item> \<open>Credential\<close> (types.go): one account, \<open>Reserve\<close> and \<open>ReleaseReservation\<close>; its counters refine the
    multiset of outstanding requests and respect the limit.
  \<^item> \<open>Backoff\<close> (cooldown.go): the cooldown schedule in closed form.
  \<^item> \<open>Runtime_Store\<close> (the interface of runtime_state.go) as a record of operations.
  \<^item> \<open>Scheduler\<close>, \<open>Scheduling\<close> (scheduler_default.go): accounts are objects in a heap, since a reload
    replaces an object while requests still hold the old one. All operations as a step relation, its
    invariant, stale releases, reloads, and which accounts are ready.
  \<^item> \<open>Selector\<close> (selector.go, selector_strategies.go, region_hint.go): the strategies; the locales
    \<open>pick_contract\<close> and \<open>score_order\<close> say what a strategy and a score promise.
  \<^item> \<open>Affinity\<close> (conductor.go): sessions stick to accounts; the locale \<open>sticky_store\<close> is the contract.
  \<^item> \<open>Conductor\<close> (conductor_default.go, refresh.go): acquisition with its retry loop, with interference
    of other goroutines as an explicit step; it returns when undisturbed.
  \<^item> \<open>Redis_Runtime\<close>, \<open>Redis_Lease\<close> (runtime_state.go): the Lua scripts on a key-value store with
    expiry, and the capacity theorem for any number of processes, any interleaving and lost replies.
  \<^item> \<open>Conductor_Redis\<close>: the conductor over leases, through the locale \<open>runtime_contract\<close>.

  \<^bold>\<open>From request to payload\<close> (\<^verbatim>\<open>internal/anthropic\<close>, \<^verbatim>\<open>internal/reqconv\<close>, \<^verbatim>\<open>internal/toolsearch\<close>).
  \<^item> \<open>Api_Constants\<close>, \<open>Messages\<close>: the types of both APIs.
  \<^item> \<open>Content_Text\<close>, \<open>Normalizer\<close>: extraction of content; the messages take an alternating shape in
    which every tool result answers a tool use right before it.
  \<^item> \<open>Schema_Sanitize\<close>, \<open>Tool_Names\<close>, \<open>Tool_Search\<close>: tool schemas without rejected keywords, shortened
    names and their restoration, deferred tools and the search over them.
  \<^item> \<open>Request_Payload\<close>: \<open>BuildPayload\<close> and the shape of what it builds.

  \<^bold>\<open>From event stream to answer.\<close>
  \<^item> \<open>Frame\<close>, \<open>Tool_Use\<close>, \<open>Event_Stream\<close> (\<^verbatim>\<open>internal/kiroproto\<close>): frames with their checksums, tool calls
    assembled from fragments, the parser with its callback.
  \<^item> \<open>Chunk_Delta\<close>, \<open>Token_Budget\<close>, \<open>Stop_Sequence\<close>, \<open>Thinking_Tags\<close>, \<open>Tool_Calls\<close>, \<open>Tool_Input\<close>
    (\<^verbatim>\<open>internal/respconv\<close>): the filters of the text, each shown independent of how the stream is cut,
    and the treatment of tool calls.
  \<^item> \<open>Resp_State\<close>, \<open>Accumulator\<close>, \<open>Event_Processor\<close>: the accumulator and its steps.
  \<^item> \<open>Sse_Writer\<close>, \<open>Sse_Protocol\<close>, \<open>Nonstreaming\<close>: the two outputs; the stream conforms to the event
    protocol, an automaton, and carries what the single document carries.
  \<^item> \<open>Gate_Writer\<close>, \<open>Response_Handler\<close>, \<open>Upstream_Client\<close>, \<open>Request_Execute\<close> (\<^verbatim>\<open>internal/app/messages\<close>,
    \<^verbatim>\<open>internal/kiroclient\<close>): the composition. A request is answered once, within bounded upstream
    calls, and its outcome reaches the account. The locale \<open>callback_contract\<close> is what a user of the
    parser promises of its callback.
  \<^item> \<open>Search_Loop\<close>, \<open>Thinking_Loop\<close> (toolsearch.go, thinkingtool.go): requests that take several rounds,
    because the model searches for tools or thinks by calling one; the rounds are bounded, no tool is
    lost, and with tool search the events of all rounds form one conforming stream.

  \<^bold>\<open>The prompt cache\<close> (\<^verbatim>\<open>internal/promptcache\<close>, \<^verbatim>\<open>internal/app/messages/prompt_cache.go\<close>):
  \<open>Cache_Profile\<close> (fingerprints and breakpoints), \<open>Cache_Tracker\<close> (the bounded cache and its plans),
  \<open>Cache_Report\<close> (reporting profiles and routes).

  \<^bold>\<open>Around the requests.\<close>
  \<^item> \<open>Model_Names\<close> (\<^verbatim>\<open>internal/models\<close>, thinking.go): model names, context windows and thinking budgets; the
    name that is reported selects the same model again.
  \<^item> \<open>Usage_Store\<close> (\<^verbatim>\<open>internal/usage\<close>): the ring buffer of recent requests refines the list of the most
    recent records, its queries count each record once, and the aggregator loses none to a store.
  \<^item> \<open>Api_Keys\<close> (\<^verbatim>\<open>internal/settings\<close>): settings with atomic updates, and when a secret is accepted.
  \<^item> \<open>Oauth_State\<close> (\<^verbatim>\<open>internal/oauth\<close>): a login is completed at most once; PKCE verifiers.

  \<^bold>\<open>State, time and failure.\<close> Operations take the state and return it; a mutex is the atomicity of one
  operation, and concurrency is the interleaving of operations in a step relation. Every reading of
  the clock is an argument. Errors are values: \<open>option\<close>, a sum, or the error datatypes of the
  component. Integers are \<^typ>\<open>int\<close> where the sources cannot overflow, with \<open>wrap64\<close> written out where
  they can, and words for checksums and the generator of the reporter.

  \<^bold>\<open>Loops.\<close> Loops over data are structural; the parser terminates because every frame consumes
  bytes; the retry loop of the conductor may run forever and is a function of the number of
  iterations, for which both the return without interference and one way not to return are proved; the
  client's loop runs over its attempts, of which there are four.

  \<^bold>\<open>Parameters.\<close> JSON encoding and decoding, UUIDs, SHA-256, regular expressions, Unicode case mapping,
  the token counter, float rounding, random numbers, environment variables, the transport and the
  Redis commands are arguments of the definitions, with the laws that are used as named hypotheses.

  \<^bold>\<open>Not modelled.\<close> The HTTP server, its middleware and the admin API (routing, forms and views over
  the pool and the database), the database and file stores, the OAuth exchanges and token refresh
  (exchanges with external services; only their effect on an account is modelled, in \<open>Conductor\<close>), the
  dispatch between the ways to run a request and the loop that runs web searches, quota polling, the
  Codex provider, metrics, logging and tracing. HTTP headers, the audit log and captured payloads are
  left out of the modelled handlers.

  The theorem of this theory spans the payload builder and the response side.
\<close>



end
